(* ===== verification/Prelude.thy ===== *)
theory Prelude
  imports Main "HOL-Library.AList" "HOL-Library.Sublist" "HOL-Library.Word"
begin

text \<open>
  What every component of the development shares: the names of the model's basic types, the
  JavaScript string and container operations the source calls on them, and the lemma
  collections the component proofs draw on.

  A JavaScript \<^verbatim>\<open>Map\<close> is an association list in insertion order: \<open>AList.update\<close> replaces the
  value of a key in place and appends a new key at the end, as \<^verbatim>\<open>Map.set\<close> does, and
  \<open>AList.delete\<close> removes a key, as \<^verbatim>\<open>Map.delete\<close> does.  Strings are \<open>char\<close> lists (one
  code unit per character, code units below 256).  Times are milliseconds since the epoch.
\<close>

named_theorems step_simps "what one operation does to the fields of its state"
named_theorems frame_simps "what one operation leaves alone"
named_theorems inv_intros "operations keep the invariants"

section \<open>Types\<close>

type_synonym time = int
type_synonym byte = "8 word"
type_synonym bytes = "byte list"
type_synonym run_id = string
type_synonym manifest_id = string

section \<open>Maps in insertion order\<close>

text \<open>The interface of a JavaScript \<^verbatim>\<open>Map\<close> as the components use it.\<close>

locale insertion_map =
  fixes get :: "'m \<Rightarrow> 'k \<Rightarrow> 'v option"
    and put :: "'k \<Rightarrow> 'v \<Rightarrow> 'm \<Rightarrow> 'm"
    and del :: "'k \<Rightarrow> 'm \<Rightarrow> 'm"
    and key_list :: "'m \<Rightarrow> 'k list"
  assumes get_put: "get (put k v m) j = (if j = k then Some v else get m j)"
    and get_del: "get (del k m) j = (if j = k then None else get m j)"
    and keys_get: "k \<in> set (key_list m) \<longleftrightarrow> get m k \<noteq> None"
    and keys_put: "key_list (put k v m) = (if k \<in> set (key_list m) then key_list m else key_list m @ [k])"
    and keys_del: "key_list (del k m) = filter (\<lambda>j. j \<noteq> k) (key_list m)"
begin

lemma get_put_same: "get (put k v m) k = Some v"
  by (simp add: get_put)

lemma get_put_other: "j \<noteq> k \<Longrightarrow> get (put k v m) j = get m j"
  by (simp add: get_put)

lemma get_del_same: "get (del k m) k = None"
  by (simp add: get_del)

lemma distinct_put: "distinct (key_list m) \<Longrightarrow> distinct (key_list (put k v m))"
  by (simp add: keys_put)

lemma distinct_del: "distinct (key_list m) \<Longrightarrow> distinct (key_list (del k m))"
  by (simp add: keys_del)

lemma keys_after_del: "k \<notin> set (key_list (del k m))"
  by (simp add: keys_del)

end

lemma map_of_AList_delete: "map_of (AList.delete k m) j = (if j = k then None else map_of m j)"
  by (simp add: delete_conv)

lemma map_of_AList_update: "map_of (AList.update k v m) j = (if j = k then Some v else map_of m j)"
  by (simp add: update_conv)

lemma keys_AList_update:
  "map fst (AList.update k v m) = (if k \<in> set (map fst m) then map fst m else map fst m @ [k])"
  by (induction m) auto

lemma keys_AList_delete: "map fst (AList.delete k m) = filter (\<lambda>j. j \<noteq> k) (map fst m)"
  by (induction m) (auto simp: delete_simps)

interpretation jsmap: insertion_map map_of AList.update AList.delete "map fst"
  by unfold_locales
    (auto simp: map_of_AList_delete map_of_AList_update keys_AList_update keys_AList_delete
      map_of_eq_None_iff)

lemmas jsmap_simps = map_of_AList_delete map_of_AList_update keys_AList_update keys_AList_delete

section \<open>Machines\<close>

text \<open>
  A machine that keeps an invariant and whose rank (an epoch, a sequence number, an offset) never goes
  down, run over a list of events.
\<close>

locale guarded_machine =
  fixes step :: "'e \<Rightarrow> 's \<Rightarrow> 's"
    and ok :: "'s \<Rightarrow> bool"
    and rank :: "'s \<Rightarrow> nat"
  assumes keeps: "ok s \<Longrightarrow> ok (step e s)"
    and grows: "ok s \<Longrightarrow> rank s \<le> rank (step e s)"
begin

lemma all_kept: "ok s \<Longrightarrow> ok (fold step es s)"
  by (induction es arbitrary: s) (simp_all add: keeps)

lemma all_grows: "ok s \<Longrightarrow> rank s \<le> rank (fold step es s)"
proof (induction es arbitrary: s)
  case (Cons e es)
  show ?case
    using grows [OF Cons.prems, of e] Cons.IH [OF keeps [OF Cons.prems, of e]] by simp
qed simp

end

section \<open>Strings\<close>

definition starts_with :: "string \<Rightarrow> string \<Rightarrow> bool" where
  "starts_with s p \<longleftrightarrow> prefix p s"

definition ends_with :: "string \<Rightarrow> string \<Rightarrow> bool" where
  "ends_with s p \<longleftrightarrow> suffix p s"

text \<open>\<^verbatim>\<open>s.replace(/c+$/, '')\<close> for one character \<open>c\<close>.\<close>

definition strip_trailing :: "char \<Rightarrow> string \<Rightarrow> string" where
  "strip_trailing c s = rev (dropWhile (\<lambda>x. x = c) (rev s))"

text \<open>\<^verbatim>\<open>s.replace(/c+/g, c)\<close>: each run of \<open>c\<close> becomes one \<open>c\<close>.\<close>

fun collapse :: "char \<Rightarrow> string \<Rightarrow> string" where
  "collapse c [] = []"
| "collapse c [x] = [x]"
| "collapse c (x # y # s) =
     (if x = c \<and> y = c then collapse c (y # s) else x # collapse c (y # s))"

text \<open>\<^verbatim>\<open>s.trim()\<close> on code units below 256: tab, the line terminators, space and no-break space.\<close>

definition js_space :: "char \<Rightarrow> bool" where
  "js_space c \<longleftrightarrow> c \<in> {CHR 0x09, CHR 0x0A, CHR 0x0B, CHR 0x0C, CHR 0x0D, CHR 0x20, CHR 0xA0}"

definition js_trim :: "string \<Rightarrow> string" where
  "js_trim s = rev (dropWhile js_space (rev (dropWhile js_space s)))"

text \<open>\<^verbatim>\<open>s.split(c)\<close> for a one-character separator; the result is never empty.\<close>

fun split_on :: "char \<Rightarrow> string \<Rightarrow> string list" where
  "split_on c [] = [[]]"
| "split_on c (x # s) =
     (if x = c then [] # split_on c s
      else (x # hd (split_on c s)) # tl (split_on c s))"

text \<open>\<^verbatim>\<open>s.lastIndexOf(c)\<close>: \<open>None\<close> stands for -1.\<close>

fun last_index :: "char \<Rightarrow> string \<Rightarrow> nat option" where
  "last_index c [] = None"
| "last_index c (x # s) =
     (case last_index c s of Some i \<Rightarrow> Some (Suc i) | None \<Rightarrow> if x = c then Some 0 else None)"

lemma starts_with_append [simp]: "starts_with (p @ s) p"
  by (simp add: starts_with_def)

lemma starts_with_self [simp]: "starts_with p p"
  by (simp add: starts_with_def)

lemma starts_with_Cons [simp]: "starts_with (x # s) (y # p) \<longleftrightarrow> x = y \<and> starts_with s p"
  by (auto simp: starts_with_def)

lemma starts_with_Nil [simp]: "starts_with s []"
  by (simp add: starts_with_def)

lemma not_starts_with_empty [simp]: "\<not> starts_with [] (y # p)"
  by (simp add: starts_with_def)

lemma split_on_nonempty [simp]: "split_on c s \<noteq> []"
  by (induction s) auto

lemma collapse_eq_Nil [simp]: "collapse c s = [] \<longleftrightarrow> s = []"
  by (induction c s rule: collapse.induct) auto

lemma collapse_hd [simp]: "s \<noteq> [] \<Longrightarrow> hd (collapse c s) = hd s"
  by (induction c s rule: collapse.induct) auto

lemma set_collapse [simp]: "set (collapse c s) = set s"
  by (induction c s rule: collapse.induct) auto

text \<open>No two neighbours are both \<open>c\<close>.\<close>

fun no_double :: "char \<Rightarrow> string \<Rightarrow> bool" where
  "no_double c (x # y # s) \<longleftrightarrow> \<not> (x = c \<and> y = c) \<and> no_double c (y # s)"
| "no_double c _ \<longleftrightarrow> True"

lemma no_double_Cons: "no_double c (x # s) \<longleftrightarrow> (s = [] \<or> \<not> (x = c \<and> hd s = c)) \<and> no_double c s"
  by (cases s) auto

lemma no_double_collapse: "no_double c (collapse c s)"
proof (induction c s rule: collapse.induct)
  case (3 c x y s)
  then show ?case by (auto simp: no_double_Cons)
qed auto

lemma collapse_no_double: "no_double c s \<Longrightarrow> collapse c s = s"
  by (induction c s rule: collapse.induct) auto

lemma collapse_idem: "collapse c (collapse c s) = collapse c s"
  by (simp add: collapse_no_double no_double_collapse)

lemma no_double_butlast: "no_double c s \<Longrightarrow> no_double c (butlast s)"
  by (induction c s rule: no_double.induct) (auto simp: no_double_Cons hd_conv_nth nth_butlast)

section \<open>Lists\<close>

lemma take_append_drop_overlap:
  assumes "n \<le> length xs"
  shows "take n xs @ drop n ys = (if take n xs = take n ys then ys else take n xs @ drop n ys)"
  by (metis append_take_drop_id)

lemma filter_update_by_key:
  "map f (filter P (map (\<lambda>r. if K r then U r else r) xs)) =
     map (\<lambda>r. f (if K r then U r else r)) (filter (\<lambda>r. P (if K r then U r else r)) xs)"
  by (induction xs) auto

end
