(* ===== verification/Runs.thy ===== *)
theory Runs
  imports Prelude
begin

text \<open>
  The run vocabulary of \<^verbatim>\<open>packages/control-plane/src/runs.ts\<close>: the status of a run and its
  projection onto the web client's states, the working directory a run executes in, and the
  encoding of a file write as a run (\<^verbatim>\<open>writeRunArgv\<close>), whose payload travels as several argv
  elements and whose paths travel quoted inside a shell script.
\<close>

section \<open>Statuses\<close>

datatype run_status = Queued | Dispatched | Running | Stopping | Completed | Cancelled | Interrupted

datatype client_state = CPending | CRunning | CStopping | CExited | CFailed

datatype run_disposition = DPending | DKept | DReverted

datatype run_kind = KCommand | KWrite

datatype exit_kind = Exited | Signaled

record run_exit =
  ex_kind :: exit_kind
  ex_code :: int

fun clientRunState :: "run_status \<Rightarrow> exit_kind option \<Rightarrow> client_state" where
  "clientRunState Queued _ = CPending"
| "clientRunState Dispatched _ = CPending"
| "clientRunState Running _ = CRunning"
| "clientRunState Stopping _ = CStopping"
| "clientRunState Cancelled _ = CFailed"
| "clientRunState Interrupted _ = CFailed"
| "clientRunState Completed k = (if k = Some Signaled then CFailed else CExited)"

section \<open>Constants\<close>

definition JOURNAL_TAIL_BYTES :: nat where "JOURNAL_TAIL_BYTES = 8 * 1024"
definition MAX_WRITE_BYTES :: nat where "MAX_WRITE_BYTES = 1024 * 1024"
definition MAX_ARGV_ELEMENT_BYTES :: nat where "MAX_ARGV_ELEMENT_BYTES = 32 * 1024"
definition MAX_ARGV_TOTAL_BYTES :: nat where "MAX_ARGV_TOTAL_BYTES = 1600000"
definition DEFAULT_CWD :: string where "DEFAULT_CWD = []"

section \<open>Working directories and write targets\<close>

definition resolveRunCwd :: "string \<Rightarrow> string option \<Rightarrow> string" where
  "resolveRunCwd root requested =
     (let r = strip_trailing (CHR ''/'') root;
          base = (if r = [] then ''/'' else r);
          req0 = js_trim (case requested of None \<Rightarrow> [] | Some q \<Rightarrow> q)
      in if req0 = [] then base
         else let req1 = (if starts_with req0 ''/'' then req0 else ''/'' @ req0);
                  req2 = collapse (CHR ''/'') req1;
                  req3 = (if length req2 > 1 \<and> ends_with req2 ''/'' then butlast req2 else req2)
              in if base = ''/'' then req3
                 else if req3 = base \<or> starts_with req3 (base @ ''/'') then req3
                 else base @ req3)"

definition parentDir :: "string \<Rightarrow> string" where
  "parentDir path =
     (case last_index (CHR ''/'') path of
        None \<Rightarrow> ''/''
      | Some idx \<Rightarrow> if idx = 0 then ''/'' else take idx path)"

definition normalizeWritePath :: "string option \<Rightarrow> string option" where
  "normalizeWritePath raw =
     (case raw of
        None \<Rightarrow> None
      | Some raw' \<Rightarrow>
          (let p0 = js_trim raw'
           in if p0 = [] then None
              else let p1 = (if starts_with p0 ''/'' then p0 else ''/'' @ p0);
                       p = collapse (CHR ''/'') p1
                   in if length p > 1 \<and> ends_with p ''/'' then None
                      else if ''..'' \<in> set (split_on (CHR ''/'') p) then None
                      else if CHR 0x00 \<in> set p \<or> CHR 0x0A \<in> set p then None
                      else Some p))"

section \<open>Quoting and the argv of a write\<close>

abbreviation quote_char :: char where "quote_char \<equiv> CHR 0x27"

text \<open>\<^verbatim>\<open>s.replace(/'/g, `'\\''`)\<close>: every single quote becomes quote, backslash, quote, quote.\<close>

fun escape_quotes :: "string \<Rightarrow> string" where
  "escape_quotes [] = []"
| "escape_quotes (c # s) =
     (if c = quote_char
      then [quote_char, CHR 0x5C, quote_char, quote_char] @ escape_quotes s
      else c # escape_quotes s)"

definition shellQuote :: "string \<Rightarrow> string" where
  "shellQuote s = [quote_char] @ escape_quotes s @ [quote_char]"

text \<open>The loop \<^verbatim>\<open>for (i = 0; i < length; i += limit) parts.push(slice(i, i + limit))\<close>; with
  \<open>limit = 0\<close> the source's loop never ends, which the model reports as \<open>None\<close>.\<close>

function split_from :: "nat \<Rightarrow> string \<Rightarrow> string list" where
  "split_from limit s =
     (if s = [] \<or> limit = 0 then [] else take limit s # split_from limit (drop limit s))"
  by pat_completeness auto
termination
  by (relation "measure (\<lambda>(limit, s). length s)") auto

declare split_from.simps [simp del]

definition splitPayload :: "string \<Rightarrow> nat \<Rightarrow> string list option" where
  "splitPayload content limit =
     (if content = [] then Some [] else if limit = 0 then None else Some (split_from limit content))"

definition writeArgvBytes :: "string list \<Rightarrow> nat" where
  "writeArgvBytes argv = foldl (\<lambda>total a. total + length a + 1 + 8) 0 argv"

definition write_script :: "string \<Rightarrow> string \<Rightarrow> string" where
  "write_script path token =
     (let tmp = path @ ''.mari-'' @ token @ ''.part''
      in ''set -e; mkdir -p '' @ shellQuote (parentDir path) @ ''; ''
         @ ''T='' @ shellQuote tmp @ ''; trap '' @ [quote_char] @ ''rm -f \"$T\"'' @ [quote_char]
         @ '' EXIT; ''
         @ ''printf '' @ [quote_char] @ ''%s'' @ [quote_char] @ '' \"$@\" | base64 -d > \"$T\"; ''
         @ ''mv -f \"$T\" '' @ shellQuote path)"

definition writeRunArgv :: "string \<Rightarrow> string \<Rightarrow> string \<Rightarrow> string list" where
  "writeRunArgv path contentBase64 token =
     [''/bin/sh'', ''-c'', write_script path token, ''mari-write'']
       @ (case splitPayload contentBase64 MAX_ARGV_ELEMENT_BYTES of None \<Rightarrow> [] | Some ps \<Rightarrow> ps)"


section \<open>Quoting is undone by the shell\<close>

text \<open>
  What the POSIX shell does with a word made of quoted and unquoted parts (2.2.1, 2.2.2 of the
  Shell Command Language): inside single quotes every character stands for itself up to the next
  single quote; outside, a backslash preserves the next character, an unquoted operator or blank
  ends the word.  Double quotes and expansions are not read (\<open>None\<close>): a quoted path contains none.
\<close>

fun sq_read :: "string \<Rightarrow> (string \<times> string) option" where
  "sq_read [] = None"
| "sq_read (c # s) =
     (if c = quote_char then Some ([], s)
      else case sq_read s of None \<Rightarrow> None | Some (w, r) \<Rightarrow> Some (c # w, r))"

definition sh_delim :: "char \<Rightarrow> bool" where
  "sh_delim c \<longleftrightarrow> c \<in> set '' ;|&<>()'' \<or> c = CHR 0x0A \<or> c = CHR 0x09"

lemma sq_read_shorter: "sq_read s = Some (w, r) \<Longrightarrow> length r < length s"
  by (induction s arbitrary: w) (fastforce split: if_splits option.splits)+

function sh_word :: "string \<Rightarrow> (string \<times> string) option" where
  "sh_word [] = Some ([], [])"
| "sh_word (c # s) =
     (if sh_delim c then Some ([], c # s)
      else if c = quote_char then
        (case sq_read s of
           None \<Rightarrow> None
         | Some (w, r) \<Rightarrow> (case sh_word r of None \<Rightarrow> None | Some (w', r') \<Rightarrow> Some (w @ w', r')))
      else if c = CHR 0x5C then
        (case s of
           [] \<Rightarrow> None
         | d # s' \<Rightarrow> (case sh_word s' of None \<Rightarrow> None | Some (w, r) \<Rightarrow> Some (d # w, r)))
      else if c \<in> {CHR 0x22, CHR ''$'', CHR 0x60} then None
      else (case sh_word s of None \<Rightarrow> None | Some (w, r) \<Rightarrow> Some (c # w, r)))"
  by pat_completeness auto
termination
  by (relation "measure length") (auto dest: sq_read_shorter)

lemma sh_delim_quote [simp]: "\<not> sh_delim quote_char" "\<not> sh_delim (CHR 0x5C)"
  by (simp_all add: sh_delim_def)

lemma sh_word_quoted:
  "sh_word (quote_char # escape_quotes s @ quote_char # rest) =
     (case sh_word rest of None \<Rightarrow> None | Some (w, r) \<Rightarrow> Some (s @ w, r))"
proof (induction s)
  case Nil
  then show ?case by (simp split: option.splits)
next
  case (Cons c s)
  then show ?case
    by (cases "c = quote_char") (auto split: option.splits)
qed

text \<open>A path quoted by shellQuote is read back by a POSIX shell as one word equal to the
  path, whatever characters it holds, and the text after the closing quote is left as it was: no
  path can end its quoting early and inject into the script of a write run.\<close>

theorem shellQuote_is_one_word:
  assumes "rest = [] \<or> sh_delim (hd rest)"
  shows "sh_word (shellQuote s @ rest) = Some (s, rest)"
proof -
  have "sh_word rest = Some ([], rest)"
    using assms by (cases rest) auto
  with sh_word_quoted [of s rest] show ?thesis
    by (simp add: shellQuote_def del: sh_word.simps)
qed

theorem shellQuote_is_one_word_witness:
  "sh_word (shellQuote [CHR ''a'', quote_char, CHR '';''] @ ''; rm'')
     = Some ([CHR ''a'', quote_char, CHR '';''], ''; rm'')"
  by (rule shellQuote_is_one_word) (simp add: sh_delim_def)

section \<open>The argv of a write\<close>

lemma split_from_spec:
  assumes "0 < limit"
  shows "concat (split_from limit s) = s
    \<and> (\<forall>p \<in> set (split_from limit s). p \<noteq> [] \<and> length p \<le> limit)"
  using assms
proof (induction limit s rule: split_from.induct)
  case (1 limit s)
  then show ?case
    by (subst (1 2) split_from.simps) auto
qed

lemma length_split_from: "0 < limit \<Longrightarrow> length (split_from limit s) = (length s + limit - 1) div limit"
proof (induction limit s rule: split_from.induct)
  case (1 limit s)
  show ?case
  proof (cases "s = []")
    case True
    with 1 show ?thesis by (subst split_from.simps) simp
  next
    case False
    with 1 have IH: "length (split_from limit (drop limit s)) = (length s - limit + limit - 1) div limit"
      by simp
    have whole: "(length s + limit - 1) div limit = Suc ((length s - 1) div limit)"
    proof -
      have "length s + limit - 1 = (length s - 1) + limit" using False by (cases s) auto
      then have "(length s + limit - 1) div limit = ((length s - 1) + limit) div limit"
        by (simp only:)
      also have "\<dots> = (length s - 1) div limit + 1"
        using 1 by (intro div_add_self2) simp
      finally show ?thesis by simp
    qed
    have "Suc ((length s - limit + limit - 1) div limit) = (length s + limit - 1) div limit"
    proof (cases "limit \<le> length s")
      case True
      then show ?thesis unfolding whole by simp
    next
      case few: False
      then have "length s - 1 < limit" by simp
      with few 1 show ?thesis unfolding whole by simp
    qed
    with IH False 1 show ?thesis by (subst split_from.simps) simp
  qed
qed

lemma writeArgvBytes_sum: "writeArgvBytes argv = sum_list (map (\<lambda>a. length a + 9) argv)"
proof -
  have "foldl (\<lambda>total a. total + length a + 1 + 8) n argv = n + sum_list (map (\<lambda>a. length a + 9) argv)"
    for n :: nat
    by (induction argv arbitrary: n) auto
  then show ?thesis by (simp add: writeArgvBytes_def)
qed

lemma sum_pieces: "sum_list (map (\<lambda>a. length a + 9) ps) = length (concat ps) + 9 * length ps"
  by (induction ps) auto

lemma length_escape_quotes: "length (escape_quotes s) \<le> 4 * length s"
  by (induction s) auto

lemma length_shellQuote: "length (shellQuote s) \<le> 4 * length s + 2"
  using length_escape_quotes [of s] by (simp add: shellQuote_def)

lemma length_parentDir: "length (parentDir path) \<le> length path + 1"
  by (auto simp: parentDir_def split: option.splits)

lemma length_write_script: "length (write_script path token) \<le> 12 * length path + 4 * length token + 200"
proof -
  have "length (shellQuote (parentDir path)) \<le> 4 * length path + 6"
    using length_shellQuote [of "parentDir path"] length_parentDir [of path] by linarith
  moreover have "length (shellQuote (path @ ''.mari-'' @ token @ ''.part'')) \<le> 4 * length path + 4 * length token + 46"
    using length_shellQuote [of "path @ ''.mari-'' @ token @ ''.part''"] by simp
  moreover have "length (shellQuote path) \<le> 4 * length path + 2"
    by (rule length_shellQuote)
  ultimately show ?thesis
    by (simp add: write_script_def Let_def)
qed

definition base64_length :: "nat \<Rightarrow> nat" where
  "base64_length n = (n + 2) div 3 * 4"

text \<open>The argv of a file write spawns: for every payload a MAX_WRITE_BYTES file can base64 to
  and every path and token of at most 4096 and 64 characters, each element stays below Linux's
  131072-byte element limit, the block stays within MAX_ARGV_TOTAL_BYTES, and the pieces after
  the script concatenate to exactly the payload.\<close>

theorem writeRunArgv_fits:
  assumes content: "length content \<le> base64_length MAX_WRITE_BYTES"
    and path: "length path \<le> 4096" and token: "length token \<le> 64"
  shows "writeArgvBytes (writeRunArgv path content token) \<le> MAX_ARGV_TOTAL_BYTES
    \<and> (\<forall>a \<in> set (writeRunArgv path content token). length a + 1 < 131072)
    \<and> concat (drop 4 (writeRunArgv path content token)) = content"
proof -
  define ps where "ps = split_from MAX_ARGV_ELEMENT_BYTES content"
  have lim: "MAX_ARGV_ELEMENT_BYTES = 32768" "0 < MAX_ARGV_ELEMENT_BYTES"
    by (simp_all add: MAX_ARGV_ELEMENT_BYTES_def)
  have argv: "writeRunArgv path content token = [''/bin/sh'', ''-c'', write_script path token, ''mari-write''] @ ps"
    using lim by (simp add: writeRunArgv_def splitPayload_def ps_def split_from.simps [of _ "[]"])
  have concat: "concat ps = content" and small: "\<forall>p \<in> set ps. length p \<le> 32768"
    using split_from_spec [OF lim(2), of content] by (auto simp: ps_def lim)
  have c: "length content \<le> 1398104"
    using content by (simp add: base64_length_def MAX_WRITE_BYTES_def)
  have "length ps = (length content + 32767) div 32768"
    using length_split_from [OF lim(2), of content] by (simp add: ps_def lim)
  then have n: "length ps \<le> 43" using c by simp
  have script: "length (write_script path token) \<le> 49608"
    using length_write_script [of path token] path token by linarith
  have "writeArgvBytes (writeRunArgv path content token) \<le> 1600000"
    using n c script by (simp add: argv writeArgvBytes_sum sum_pieces concat)
  with small script concat show ?thesis
    by (auto simp: argv MAX_ARGV_TOTAL_BYTES_def)
qed

theorem writeRunArgv_fits_witness:
  "writeArgvBytes (writeRunArgv ''/work/a'' ''aGk='' ''r1'') \<le> MAX_ARGV_TOTAL_BYTES
    \<and> list_all (\<lambda>a. length a + 1 < 131072) (writeRunArgv ''/work/a'' ''aGk='' ''r1'')
    \<and> concat (drop 4 (writeRunArgv ''/work/a'' ''aGk='' ''r1'')) = ''aGk=''"
  unfolding list_all_iff
  by (rule writeRunArgv_fits) (simp_all add: base64_length_def MAX_WRITE_BYTES_def)


section \<open>Working directories and write targets\<close>

definition cwd_base :: "string \<Rightarrow> string" where
  "cwd_base root = (let r = strip_trailing (CHR ''/'') root in if r = [] then ''/'' else r)"

lemma hd_slash: "s \<noteq> [] \<Longrightarrow> hd s = CHR ''/'' \<Longrightarrow> starts_with s ''/''"
  by (cases s) auto

lemma starts_slash_hd: "starts_with s ''/'' \<longleftrightarrow> s \<noteq> [] \<and> hd s = CHR ''/''"
  by (cases s) auto

lemma starts_slash_collapse: "starts_with s ''/'' \<Longrightarrow> starts_with (collapse (CHR ''/'') s) ''/''"
  by (simp add: starts_slash_hd)

lemma starts_slash_butlast: "starts_with s ''/'' \<Longrightarrow> length s > 1 \<Longrightarrow> starts_with (butlast s) ''/''"
  by (cases s) auto

text \<open>The normal form of an absolute path: the shell's view of \<^verbatim>\<open>.\<close> and \<^verbatim>\<open>..\<close> segments.\<close>

fun walk_segments :: "string list \<Rightarrow> string list \<Rightarrow> string list" where
  "walk_segments acc [] = rev acc"
| "walk_segments acc (seg # segs) =
     (if seg = [] \<or> seg = ''.'' then walk_segments acc segs
      else if seg = ''..'' then walk_segments (tl acc) segs
      else walk_segments (seg # acc) segs)"

definition path_of :: "string \<Rightarrow> string list" where
  "path_of p = walk_segments [] (split_on (CHR ''/'') p)"

text \<open>The directory a run executes in is the computer's root, or begins with the root followed
  by a slash, for every root and every requested directory.  This is a statement about the text
  of the path only: a request that already begins with the root keeps its \<^verbatim>\<open>..\<close> segments, so
  \<^verbatim>\<open>/work/../etc\<close> on a \<^verbatim>\<open>/work\<close> computer is accepted as it is and names \<^verbatim>\<open>/etc\<close>.\<close>

theorem resolveRunCwd_in_root:
  "(resolveRunCwd root req = cwd_base root
     \<or> starts_with (resolveRunCwd root req)
         (if cwd_base root = ''/'' then ''/'' else cwd_base root @ ''/''))
   \<and> resolveRunCwd ''/work'' (Some ''/work/../etc'') = ''/work/../etc''
   \<and> path_of (resolveRunCwd ''/work'' (Some ''/work/../etc'')) = [''etc'']"
proof (intro conjI)
  let ?req = "js_trim (case req of None \<Rightarrow> [] | Some q \<Rightarrow> q)"
  let ?abs = "if starts_with ?req ''/'' then ?req else ''/'' @ ?req"
  let ?c = "collapse (CHR ''/'') ?abs"
  let ?p = "if length ?c > 1 \<and> ends_with ?c ''/'' then butlast ?c else ?c"
  have "starts_with ?c ''/''"
    by (rule starts_slash_collapse) simp
  then have p: "starts_with ?p ''/''"
    by (simp add: starts_slash_butlast)
  have eq: "resolveRunCwd root req =
      (if ?req = [] then cwd_base root
       else if cwd_base root = ''/'' then ?p
       else if ?p = cwd_base root \<or> starts_with ?p (cwd_base root @ ''/'') then ?p
       else cwd_base root @ ?p)"
    unfolding resolveRunCwd_def cwd_base_def Let_def by simp
  from p obtain t where t: "?p = CHR ''/'' # t"
    by (cases ?p) auto
  then have "starts_with (cwd_base root @ ?p) (cwd_base root @ ''/'')"
    by (simp only: t) (simp add: starts_with_def)
  with p show "resolveRunCwd root req = cwd_base root
     \<or> starts_with (resolveRunCwd root req)
         (if cwd_base root = ''/'' then ''/'' else cwd_base root @ ''/'')"
    unfolding eq by presburger
qed (code_simp, code_simp)

lemma js_trim_ends:
  assumes "js_trim s \<noteq> []"
  shows "\<not> js_space (hd (js_trim s))" "\<not> js_space (last (js_trim s))"
proof -
  let ?d = "dropWhile js_space s"
  let ?e = "dropWhile js_space (rev ?d)"
  have e: "?e \<noteq> []" using assms by (simp add: js_trim_def)
  then have "\<not> js_space (hd ?e)" by (rule hd_dropWhile)
  then show "\<not> js_space (last (js_trim s))"
    using e by (simp add: js_trim_def last_rev)
  have d: "?d \<noteq> []" using e by (metis dropWhile.simps(1) rev.simps(1))
  obtain pre where pre: "rev ?d = pre @ ?e"
    by (metis takeWhile_dropWhile_id)
  then have "?d = rev ?e @ rev pre"
    by (metis rev_append rev_rev_ident)
  then have "hd ?d = hd (rev ?e)"
    using e by (metis hd_append2 rev_is_Nil_conv)
  with hd_dropWhile [OF d] show "\<not> js_space (hd (js_trim s))"
    by (simp add: js_trim_def)
qed

lemma js_trim_id:
  assumes "s = [] \<or> (\<not> js_space (hd s) \<and> \<not> js_space (last s))"
  shows "js_trim s = s"
proof (cases "s = []")
  case False
  with assms have "dropWhile js_space s = s" "dropWhile js_space (rev s) = rev s"
    by (simp_all add: dropWhile_eq_self_iff hd_rev)
  then show ?thesis by (simp add: js_trim_def)
qed (simp add: js_trim_def)

lemma collapse_last [simp]: "s \<noteq> [] \<Longrightarrow> last (collapse c s) = last s"
  by (induction c s rule: collapse.induct) auto

text \<open>An accepted write target is absolute, has no empty or parent segment, no NUL and no
  newline, ends in a slash only if it is the root itself, and is a fixed point of the check, so a
  target that was validated once validates again to itself.  The exception is real: the root
  directory is accepted although a directory is not a write target.\<close>

theorem normalizeWritePath_sound:
  assumes "normalizeWritePath raw = Some p"
  shows "starts_with p ''/'' \<and> no_double (CHR ''/'') p \<and> ''..'' \<notin> set (split_on (CHR ''/'') p)
    \<and> CHR 0x00 \<notin> set p \<and> CHR 0x0A \<notin> set p \<and> (ends_with p ''/'' \<longrightarrow> p = ''/'')
    \<and> normalizeWritePath (Some p) = Some p
    \<and> normalizeWritePath (Some ''/'') = Some ''/''"
proof -
  obtain raw' where raw: "raw = Some raw'"
    using assms by (cases raw) (auto simp: normalizeWritePath_def)
  define p0 where "p0 = js_trim raw'"
  define p1 where "p1 = (if starts_with p0 ''/'' then p0 else ''/'' @ p0)"
  have p0: "p0 \<noteq> []" and p: "p = collapse (CHR ''/'') p1"
    and dir: "\<not> (length p > 1 \<and> ends_with p ''/'')"
    and seg: "''..'' \<notin> set (split_on (CHR ''/'') p)" and ctl: "CHR 0x00 \<notin> set p" "CHR 0x0A \<notin> set p"
    using assms unfolding raw normalizeWritePath_def p1_def p0_def
    by (auto simp: Let_def split: if_splits)
  have p1: "starts_with p1 ''/''" "p1 \<noteq> []" "last p1 = last p0"
    using p0 by (auto simp: p1_def)
  have abs: "starts_with p ''/''" unfolding p by (rule starts_slash_collapse [OF p1(1)])
  have nd: "no_double (CHR ''/'') p" unfolding p by (rule no_double_collapse)
  have "last p = last p0" unfolding p using p1 by simp
  then have "\<not> js_space (last p)"
    using js_trim_ends(2) p0 by (metis p0_def)
  moreover from abs have "p \<noteq> []" "hd p = CHR ''/''" by (auto simp: starts_slash_hd)
  ultimately have trim: "js_trim p = p"
    by (auto intro: js_trim_id simp: js_space_def)
  have col: "collapse (CHR ''/'') p = p" using nd by (rule collapse_no_double)
  have again: "normalizeWritePath (Some p) = Some p"
    unfolding normalizeWritePath_def Let_def
    using trim abs dir seg ctl \<open>p \<noteq> []\<close> by (auto simp: col)
  have "ends_with p ''/'' \<longrightarrow> p = ''/''"
    using dir \<open>p \<noteq> []\<close> \<open>hd p = CHR ''/''\<close> by (cases p) auto
  moreover have "normalizeWritePath (Some ''/'') = Some ''/''" by code_simp
  ultimately show ?thesis using abs nd seg ctl again by blast
qed

theorem normalizeWritePath_sound_witness:
  "normalizeWritePath (Some '' src//main.rs '') = Some ''/src/main.rs''
    \<and> normalizeWritePath (Some ''/src/main.rs'') = Some ''/src/main.rs''"
proof
  show w: "normalizeWritePath (Some '' src//main.rs '') = Some ''/src/main.rs''" by code_simp
  show "normalizeWritePath (Some ''/src/main.rs'') = Some ''/src/main.rs''"
    using normalizeWritePath_sound [OF w] by simp
qed

end
