(* ===== verification/Frame.thy ===== *)
theory Frame
  imports Prelude
begin

text \<open>
  The length-prefixed framing of the supervisor wire, \<^verbatim>\<open>packages/shared/src/frame.ts\<close>:
  \<^verbatim>\<open>writeFrame\<close>, \<^verbatim>\<open>decodeFrame\<close> and the incremental \<^verbatim>\<open>FrameReader\<close>, with the drain loop of
  \<^verbatim>\<open>ComputerDO.#acceptSupervisor\<close> that feeds it.  The CBOR codec is a third-party package and
  a parameter (\<open>dec\<close>, \<open>enc\<close>) of the definitions that call it.
\<close>

section \<open>Writing and reading one frame\<close>

definition MAX_FRAME_LEN :: nat where "MAX_FRAME_LEN = 64 * 1024 * 1024"

datatype frame_error = FrameTooLong nat | FrameTruncated nat nat

text \<open>\<^verbatim>\<open>DataView.setUint32(0, n, false)\<close> and \<^verbatim>\<open>getUint32(0, false)\<close>, big endian.\<close>

definition put_u32 :: "nat \<Rightarrow> bytes" where
  "put_u32 n = [word_of_nat (n div 2 ^ 24), word_of_nat (n div 2 ^ 16), word_of_nat (n div 2 ^ 8), word_of_nat n]"

definition get_u32 :: "bytes \<Rightarrow> nat" where
  "get_u32 b = unat (b ! 0) * 2 ^ 24 + unat (b ! 1) * 2 ^ 16 + unat (b ! 2) * 2 ^ 8 + unat (b ! 3)"

definition writeFrame :: "bytes \<Rightarrow> frame_error + bytes" where
  "writeFrame body =
     (if length body > MAX_FRAME_LEN then Inl (FrameTooLong (length body))
      else Inr (put_u32 (length body) @ body))"

definition encodeFrame :: "('a \<Rightarrow> bytes) \<Rightarrow> 'a \<Rightarrow> frame_error + bytes" where
  "encodeFrame enc v = writeFrame (enc v)"

definition decodeFrame :: "(bytes \<Rightarrow> 'a) \<Rightarrow> bytes \<Rightarrow> frame_error + 'a" where
  "decodeFrame dec frame =
     (if length frame < 4 then Inl (FrameTruncated 4 (length frame))
      else let len = get_u32 frame; total = 4 + len
           in if len > MAX_FRAME_LEN then Inl (FrameTooLong len)
              else if length frame < total then Inl (FrameTruncated total (length frame))
              else Inr (dec (take len (drop 4 frame))))"

section \<open>The incremental reader\<close>

type_synonym frame_reader = bytes

definition reader_push :: "bytes \<Rightarrow> frame_reader \<Rightarrow> frame_reader" where
  "reader_push chunk buf = (if buf = [] then chunk else buf @ chunk)"

definition reader_nextBody :: "frame_reader \<Rightarrow> frame_error + bytes option \<times> frame_reader" where
  "reader_nextBody buf =
     (if length buf < 4 then Inr (None, buf)
      else let len = get_u32 buf; total = 4 + len
           in if len > MAX_FRAME_LEN then Inl (FrameTooLong len)
              else if length buf < total then Inr (None, buf)
              else Inr (Some (take len (drop 4 buf)), drop total buf))"

definition reader_next :: "(bytes \<Rightarrow> 'a) \<Rightarrow> frame_reader \<Rightarrow> frame_error + 'a option \<times> frame_reader" where
  "reader_next dec buf =
     (case reader_nextBody buf of
        Inl e \<Rightarrow> Inl e
      | Inr (body, buf') \<Rightarrow> Inr (map_option dec body, buf'))"

lemma reader_nextBody_shrinks:
  "reader_nextBody buf = Inr (Some body, buf') \<Longrightarrow> length buf' < length buf"
  by (auto simp: reader_nextBody_def Let_def split: if_splits)

text \<open>
  The drain loop \<^verbatim>\<open>while ((body = reader.nextBody()) !== null) handle(body)\<close>: the bodies handed
  to the handler, the buffer it leaves, and the error that ended it, if one did.  A throwing
  \<^verbatim>\<open>nextBody\<close> leaves the buffer as it was.
\<close>

function reader_drain :: "frame_reader \<Rightarrow> bytes list \<times> frame_reader \<times> frame_error option" where
  "reader_drain buf =
     (case reader_nextBody buf of
        Inl e \<Rightarrow> ([], buf, Some e)
      | Inr (None, buf') \<Rightarrow> ([], buf', None)
      | Inr (Some body, buf') \<Rightarrow>
          (case reader_drain buf' of (bodies, b, e) \<Rightarrow> (body # bodies, b, e)))"
  by pat_completeness auto
termination
  by (relation "measure length") (auto dest: reader_nextBody_shrinks)

declare reader_drain.simps [simp del]

text \<open>One socket message after the other: push, then drain.\<close>

fun reader_feed :: "frame_reader \<Rightarrow> bytes list \<Rightarrow> bytes list \<times> frame_reader" where
  "reader_feed buf [] = ([], buf)"
| "reader_feed buf (chunk # chunks) =
     (case reader_drain (reader_push chunk buf) of (bodies, buf', _) \<Rightarrow>
        (case reader_feed buf' chunks of (bodies', buf'') \<Rightarrow> (bodies @ bodies', buf'')))"

section \<open>Round trips\<close>

lemma length_put_u32 [simp]: "length (put_u32 n) = 4"
  by (simp add: put_u32_def)

lemma unat_byte_of_nat: "unat (word_of_nat n :: byte) = n mod 256"
  by (simp add: unat_of_nat)

lemma get_put_u32:
  assumes "n < 2 ^ 32"
  shows "get_u32 (put_u32 n @ rest) = n"
proof -
  have d: "n div 65536 = n div 256 div 256" "n div 16777216 = n div 256 div 256 div 256"
    by (simp_all flip: div_mult2_eq)
  have parts: "n = n div 256 * 256 + n mod 256"
    "n div 256 = n div 65536 * 256 + n div 256 mod 256"
    "n div 65536 = n div 16777216 * 256 + n div 65536 mod 256"
    by (simp_all add: d)
  have "n div 16777216 mod 256 = n div 16777216"
    using assms by simp
  then have "get_u32 (put_u32 n @ rest) =
      n div 16777216 * 16777216 + n div 65536 mod 256 * 65536 + n div 256 mod 256 * 256 + n mod 256"
    by (simp add: get_u32_def put_u32_def unat_byte_of_nat)
  also have "\<dots> = n" using parts by linarith
  finally show ?thesis .
qed

lemma frame_len_u32: "n \<le> MAX_FRAME_LEN \<Longrightarrow> n < 2 ^ 32"
  by (simp add: MAX_FRAME_LEN_def)

lemma writeFrame_ok: "length body \<le> MAX_FRAME_LEN \<Longrightarrow> writeFrame body = Inr (put_u32 (length body) @ body)"
  by (simp add: writeFrame_def)

lemma reader_nextBody_frame:
  assumes "length body \<le> MAX_FRAME_LEN"
  shows "reader_nextBody (put_u32 (length body) @ body @ rest) = Inr (Some body, rest)"
  using assms frame_len_u32 [OF assms]
  by (simp add: reader_nextBody_def get_put_u32)

text \<open>What the reader answers on a buffer it answers on every longer buffer.\<close>

lemma get_u32_append:
  assumes "4 \<le> length b"
  shows "get_u32 (b @ x) = get_u32 b"
proof -
  have "(b @ x) ! i = b ! i" if "i < 4" for i
    using that assms by (simp add: nth_append)
  then show ?thesis by (simp add: get_u32_def)
qed

lemma nextBody_append_Some:
  "reader_nextBody b = Inr (Some body, b') \<Longrightarrow> reader_nextBody (b @ x) = Inr (Some body, b' @ x)"
  by (auto simp: reader_nextBody_def Let_def get_u32_append split: if_splits)

lemma nextBody_append_Inl:
  "reader_nextBody b = Inl e \<Longrightarrow> reader_nextBody (b @ x) = Inl e"
  by (auto simp: reader_nextBody_def Let_def get_u32_append split: if_splits)

lemma nextBody_None: "reader_nextBody b = Inr (None, b') \<Longrightarrow> b' = b"
  by (auto simp: reader_nextBody_def Let_def split: if_splits)

lemma drain_append:
  "fst (reader_drain (b @ x)) =
     fst (reader_drain b) @ fst (reader_drain (fst (snd (reader_drain b)) @ x)) \<and>
   fst (snd (reader_drain (b @ x))) = fst (snd (reader_drain (fst (snd (reader_drain b)) @ x)))"
proof (induction b rule: reader_drain.induct)
  case (1 b)
  show ?case
  proof (cases "reader_nextBody b")
    case (Inl e)
    then show ?thesis
      by (simp add: reader_drain.simps [of b])
  next
    case (Inr res)
    obtain body b' where res: "res = (body, b')" by (cases res)
    show ?thesis
    proof (cases body)
      case None
      with Inr res nextBody_None [of b b'] show ?thesis
        by (simp add: reader_drain.simps [of b])
    next
      case (Some w)
      note step = Inr [unfolded res Some]
      have IH: "fst (reader_drain (b' @ x)) =
           fst (reader_drain b') @ fst (reader_drain (fst (snd (reader_drain b')) @ x))"
        "fst (snd (reader_drain (b' @ x))) = fst (snd (reader_drain (fst (snd (reader_drain b')) @ x)))"
        using "1" [OF step refl refl] by blast+
      have d: "reader_drain b = (w # fst (reader_drain b'), snd (reader_drain b'))"
        by (subst reader_drain.simps) (simp add: step split: prod.splits)
      have dx: "reader_drain (b @ x) = (w # fst (reader_drain (b' @ x)), snd (reader_drain (b' @ x)))"
        by (subst reader_drain.simps) (simp add: nextBody_append_Some [OF step] split: prod.splits)
      show ?thesis unfolding d dx by (simp add: IH)
    qed
  qed
qed

lemma drain_settles: "fst (reader_drain (fst (snd (reader_drain b)))) = []
  \<and> fst (snd (reader_drain (fst (snd (reader_drain b))))) = fst (snd (reader_drain b))"
  using drain_append [of b "[]"] by simp

lemma push_eq [simp]: "reader_push chunk buf = buf @ chunk"
  by (simp add: reader_push_def)

lemma feed_is_drain:
  assumes "fst (reader_drain b) = []" "fst (snd (reader_drain b)) = b"
  shows "reader_feed b chunks =
    (fst (reader_drain (b @ concat chunks)), fst (snd (reader_drain (b @ concat chunks))))"
  using assms
proof (induction chunks arbitrary: b)
  case Nil
  then show ?case by simp
next
  case (Cons c cs)
  let ?r = "reader_drain (b @ c)"
  have IH: "reader_feed (fst (snd ?r)) cs =
      (fst (reader_drain (fst (snd ?r) @ concat cs)), fst (snd (reader_drain (fst (snd ?r) @ concat cs))))"
    by (rule Cons.IH) (simp_all add: drain_settles)
  obtain bodies b' e where r: "?r = (bodies, b', e)"
    by (cases ?r)
  show ?case
    using drain_append [of "b @ c" "concat cs"] IH by (simp add: r)
qed

fun frame_stream :: "bytes list \<Rightarrow> bytes" where
  "frame_stream [] = []"
| "frame_stream (body # bodies) = put_u32 (length body) @ body @ frame_stream bodies"

lemma drain_nil: "reader_drain [] = ([], [], None)"
  by (subst reader_drain.simps) (simp add: reader_nextBody_def)

lemma drain_stream:
  assumes "\<forall>body \<in> set bodies. length body \<le> MAX_FRAME_LEN"
  shows "reader_drain (frame_stream bodies) = (bodies, [], None)"
  using assms
proof (induction bodies)
  case Nil
  then show ?case by (simp add: drain_nil)
next
  case (Cons body bodies)
  then show ?case
    by (subst reader_drain.simps) (simp add: reader_nextBody_frame)
qed

text \<open>C4: The supervisor channel does not depend on how the network cuts it: for every sequence
  of bodies the writer accepts and every way of cutting the written bytes into socket messages,
  the reader hands over exactly those bodies, in order, each once, and keeps no byte back.\<close>

theorem frame_reader_any_chunking:
  assumes "\<forall>body \<in> set bodies. length body \<le> MAX_FRAME_LEN"
    and "concat chunks = concat (map (\<lambda>body. case writeFrame body of Inr f \<Rightarrow> f | Inl _ \<Rightarrow> []) bodies)"
  shows "reader_feed [] chunks = (bodies, [])"
proof -
  have "concat (map (\<lambda>body. case writeFrame body of Inr f \<Rightarrow> f | Inl _ \<Rightarrow> []) bodies) = frame_stream bodies"
    using assms(1) by (induction bodies) (simp_all add: writeFrame_ok)
  with assms show ?thesis
    by (simp add: feed_is_drain drain_nil drain_stream)
qed

theorem frame_reader_any_chunking_witness:
  "reader_feed [] [[0, 0], [0, 2, 7], [9, 0, 0, 0], [0]] = ([[7, 9], []], [])"
  by (rule frame_reader_any_chunking) (simp_all add: MAX_FRAME_LEN_def writeFrame_def put_u32_def)

text \<open>A frame written by writeFrame decodes to the CBOR value of its body, also with other
  bytes behind it; a body over 64 MiB is refused by the writer, and a frame whose prefix claims
  more than 64 MiB is refused by both readers whatever follows it, so no announced length can make
  a reader wait for or copy more than that.\<close>

theorem frame_roundtrip_and_limit:
  "(length body \<le> MAX_FRAME_LEN \<longrightarrow>
      (\<exists>f. writeFrame body = Inr f \<and> decodeFrame dec (f @ rest) = Inr (dec body)))
   \<and> (length body > MAX_FRAME_LEN \<longrightarrow> writeFrame body = Inl (FrameTooLong (length body)))
   \<and> (4 \<le> length buf \<and> get_u32 buf > MAX_FRAME_LEN \<longrightarrow>
        decodeFrame dec buf = Inl (FrameTooLong (get_u32 buf))
        \<and> reader_nextBody buf = Inl (FrameTooLong (get_u32 buf)))"
  using frame_len_u32 [of "length body"]
  by (auto simp: writeFrame_def decodeFrame_def reader_nextBody_def get_put_u32)

theorem frame_roundtrip_and_limit_witness:
  "(\<exists>f. writeFrame [1, 2] = Inr f \<and> decodeFrame length (f @ [5]) = Inr (length [1, 2 :: byte]))
   \<and> decodeFrame length [255, 0, 0, 0] = Inl (FrameTooLong (get_u32 [255, 0, 0, 0]))"
  using frame_roundtrip_and_limit [of "[1, 2]" length "[5]" "[255, 0, 0, 0]"]
  by (simp add: MAX_FRAME_LEN_def get_u32_def)

end
