(* ===== verification/Journal.thy ===== *)
theory Journal
  imports Prelude
begin

text \<open>
  The journal of a Durable Object, from \<^verbatim>\<open>packages/control-plane/src/computer-do.ts\<close>: the SQL
  tables \<^verbatim>\<open>journal\<close>, \<^verbatim>\<open>journal_head\<close>, \<^verbatim>\<open>segments\<close> and \<^verbatim>\<open>journal_anomaly\<close>, the coalescing
  buffer \<^verbatim>\<open>#pending\<close>, and the operations \<^verbatim>\<open>#onJournalFrame\<close>, \<^verbatim>\<open>#pendingFor\<close>, \<^verbatim>\<open>#journalHeld\<close>,
  \<^verbatim>\<open>#recordJournalAnomaly\<close>, \<^verbatim>\<open>#flushRun\<close>, \<^verbatim>\<open>#flushAll\<close> and \<^verbatim>\<open>#readJournal\<close>.  The abstract
  specification of a run's journal is one byte string and one operation, \<open>abs_ingest\<close>.
\<close>

section \<open>State\<close>

datatype anomaly_kind = Duplicate | Divergent | Gap

record seg_row =
  sg_run :: run_id
  sg_seq :: nat
  sg_start :: nat
  sg_bytes :: bytes

record seg_index =
  si_run :: run_id
  si_seq :: nat
  si_key :: string
  si_start :: nat
  si_len :: nat

record anomaly =
  an_id :: nat
  an_run :: run_id
  an_kind :: anomaly_kind
  an_at_offset :: nat
  an_len :: nat
  an_at :: time

record pending_journal =
  pj_start :: nat
  pj_len :: nat
  pj_parts :: "bytes list"

record journal =
  j_rows :: "seg_row list"
  j_heads :: "(run_id \<times> (nat \<times> nat)) list"
  j_segments :: "seg_index list"
  j_anomalies :: "anomaly list"
  j_anomaly_id :: nat
  j_pending :: "(run_id \<times> pending_journal) list"
  j_timer :: bool

definition empty_journal :: journal where
  "empty_journal = \<lparr>j_rows = [], j_heads = [], j_segments = [], j_anomalies = [],
     j_anomaly_id = 1, j_pending = [], j_timer = False\<rparr>"

text \<open>What one flush sends out: the stored segment, the acknowledgement and the live frame.\<close>

record flush_out =
  fo_run :: run_id
  fo_key :: string
  fo_start :: nat
  fo_bytes :: bytes
  fo_ack :: nat

definition JOURNAL_ANOMALY_KEEP :: nat where "JOURNAL_ANOMALY_KEEP = 200"

section \<open>Ingest\<close>

definition runHead :: "journal \<Rightarrow> run_id \<Rightarrow> nat \<times> nat" where
  "runHead j run = (case map_of (j_heads j) run of None \<Rightarrow> (0, 0) | Some h \<Rightarrow> h)"

definition pendingFor :: "run_id \<Rightarrow> journal \<Rightarrow> pending_journal \<times> journal" where
  "pendingFor run j =
     (case map_of (j_pending j) run of
        Some p \<Rightarrow> (p, j)
      | None \<Rightarrow>
          (let p = \<lparr>pj_start = fst (runHead j run), pj_len = 0, pj_parts = []\<rparr>
           in (p, j\<lparr>j_pending := AList.update run p (j_pending j)\<rparr>)))"

definition splice_at :: "nat \<Rightarrow> 'a list \<Rightarrow> 'a list \<Rightarrow> 'a list" where
  "splice_at i new xs = take i xs @ new @ drop (i + length new) xs"

text \<open>The local function \<^verbatim>\<open>put\<close> of \<^verbatim>\<open>#journalHeld\<close>: copy what \<open>src\<close> holds of \<open>[from, to)\<close>.\<close>

definition held_put :: "nat \<Rightarrow> nat \<Rightarrow> nat \<times> bytes \<Rightarrow> bytes \<times> bool list \<Rightarrow> bytes \<times> bool list" where
  "held_put from to = (\<lambda>(start, src) (out, covered).
     let lo = max from start; hi = min to (start + length src)
     in if hi \<le> lo then (out, covered)
        else (splice_at (lo - from) (take (hi - lo) (drop (lo - start) src)) out,
              splice_at (lo - from) (replicate (hi - lo) True) covered))"

fun part_spans :: "nat \<Rightarrow> bytes list \<Rightarrow> (nat \<times> bytes) list" where
  "part_spans cursor [] = []"
| "part_spans cursor (p # ps) = (cursor, p) # part_spans (cursor + length p) ps"

definition run_rows :: "journal \<Rightarrow> run_id \<Rightarrow> seg_row list" where
  "run_rows j run = sort_key sg_seq (filter (\<lambda>r. sg_run r = run) (j_rows j))"

definition journalHeld :: "journal \<Rightarrow> run_id \<Rightarrow> nat \<Rightarrow> nat \<Rightarrow> pending_journal \<Rightarrow> bytes option" where
  "journalHeld j run from to pending =
     (if to \<le> from then Some []
      else let rows = filter (\<lambda>r. sg_start r < to \<and> sg_start r + length (sg_bytes r) > from) (run_rows j run);
               s0 = (replicate (to - from) 0, replicate (to - from) False);
               s1 = fold (held_put from to) (map (\<lambda>r. (sg_start r, sg_bytes r)) rows) s0;
               s2 = fold (held_put from to) (part_spans (pj_start pending) (pj_parts pending)) s1
           in if list_all (\<lambda>c. c) (snd s2) then Some (fst s2) else None)"

definition recordJournalAnomaly :: "time \<Rightarrow> run_id \<Rightarrow> anomaly_kind \<Rightarrow> nat \<Rightarrow> nat \<Rightarrow> journal \<Rightarrow> journal" where
  "recordJournalAnomaly now run kind at_offset len j =
     (let a = \<lparr>an_id = j_anomaly_id j, an_run = run, an_kind = kind, an_at_offset = at_offset,
                an_len = len, an_at = now\<rparr>;
          rows = j_anomalies j @ [a]
      in j\<lparr>j_anomalies := drop (length rows - JOURNAL_ANOMALY_KEEP) rows,
           j_anomaly_id := Suc (j_anomaly_id j)\<rparr>)"

definition scheduleFlush :: "journal \<Rightarrow> journal" where
  "scheduleFlush j = j\<lparr>j_timer := True\<rparr>"

definition push_part :: "run_id \<Rightarrow> bytes \<Rightarrow> journal \<Rightarrow> journal" where
  "push_part run sl j =
     (case map_of (j_pending j) run of
        None \<Rightarrow> j
      | Some p \<Rightarrow>
          j\<lparr>j_pending := AList.update run
             (p\<lparr>pj_parts := pj_parts p @ [sl], pj_len := pj_len p + length sl\<rparr>) (j_pending j)\<rparr>)"

definition onJournalFrame :: "time \<Rightarrow> run_id \<Rightarrow> nat \<Rightarrow> bytes \<Rightarrow> journal \<Rightarrow> journal" where
  "onJournalFrame now run offset bs j0 =
     (if bs = [] then j0
      else case pendingFor run j0 of (pending, j) \<Rightarrow>
        let next_off = pj_start pending + pj_len pending
        in if offset < next_off then
             (let overlap = min (length bs) (next_off - offset);
                  held = journalHeld j run offset (offset + overlap) pending;
                  diverged = (case held of None \<Rightarrow> False | Some h \<Rightarrow> h \<noteq> take overlap bs);
                  j' = recordJournalAnomaly now run (if diverged then Divergent else Duplicate) offset overlap j
              in if overlap \<ge> length bs then j'
                 else scheduleFlush (push_part run (drop overlap bs) j'))
           else if offset > next_off then
             scheduleFlush (push_part run bs
               (recordJournalAnomaly now run Gap next_off (offset - next_off) j))
           else scheduleFlush (push_part run bs j))"

section \<open>Flush and read\<close>

text \<open>Decimal digits, for the segment key: \<^verbatim>\<open>String(seq).padStart(12, '0')\<close>.\<close>

fun digits_of :: "nat \<Rightarrow> string" where
  "digits_of n = (if n < 10 then [char_of (48 + n)] else digits_of (n div 10) @ [char_of (48 + n mod 10)])"

declare digits_of.simps [simp del]

definition pad_start :: "nat \<Rightarrow> char \<Rightarrow> string \<Rightarrow> string" where
  "pad_start n c s = replicate (n - length s) c @ s"

definition segmentKey :: "string option \<Rightarrow> run_id \<Rightarrow> nat \<Rightarrow> string" where
  "segmentKey computer run seq =
     ''journal/'' @ (case computer of None \<Rightarrow> ''unknown'' | Some c \<Rightarrow> c) @ ''/'' @ run @ ''/''
       @ pad_start 12 (CHR ''0'') (digits_of seq) @ ''.seg''"

definition flushRun :: "string option \<Rightarrow> run_id \<Rightarrow> journal \<Rightarrow> journal \<times> flush_out option" where
  "flushRun computer run j =
     (let j1 = j\<lparr>j_pending := AList.delete run (j_pending j)\<rparr>
      in case map_of (j_pending j) run of
           None \<Rightarrow> (j1, None)
         | Some p \<Rightarrow>
             if pj_len p = 0 then (j1, None)
             else let seg = concat (pj_parts p); start_off = fst (runHead j run); seq = snd (runHead j run);
                      new_off = start_off + length seg; key = segmentKey computer run seq
                  in (j1\<lparr>j_rows := j_rows j1 @ [\<lparr>sg_run = run, sg_seq = seq, sg_start = start_off, sg_bytes = seg\<rparr>],
                         j_heads := AList.update run (new_off, Suc seq) (j_heads j1),
                         j_segments := j_segments j1 @
                           [\<lparr>si_run = run, si_seq = seq, si_key = key, si_start = start_off, si_len = length seg\<rparr>]\<rparr>,
                      Some \<lparr>fo_run = run, fo_key = key, fo_start = start_off, fo_bytes = seg, fo_ack = new_off\<rparr>))"

fun flush_runs :: "string option \<Rightarrow> run_id list \<Rightarrow> journal \<Rightarrow> journal \<times> flush_out list" where
  "flush_runs computer [] j = (j, [])"
| "flush_runs computer (run # runs) j =
     (case flushRun computer run j of (j', out) \<Rightarrow>
        (case flush_runs computer runs j' of (j'', outs) \<Rightarrow>
           (j'', (case out of None \<Rightarrow> outs | Some x \<Rightarrow> x # outs))))"

text \<open>The timer of \<^verbatim>\<open>#scheduleFlush\<close> fires: \<^verbatim>\<open>#flushTimer = null\<close>, then \<^verbatim>\<open>#flushAll\<close>.\<close>

definition flushAll :: "string option \<Rightarrow> journal \<Rightarrow> journal \<times> flush_out list" where
  "flushAll computer j = flush_runs computer (map fst (j_pending j)) (j\<lparr>j_timer := False\<rparr>)"

definition readJournal :: "journal \<Rightarrow> run_id \<Rightarrow> bytes" where
  "readJournal j run = concat (map sg_bytes (run_rows j run))"

definition allRunHeads :: "journal \<Rightarrow> (run_id \<times> nat) list" where
  "allRunHeads j = map (\<lambda>(run, h). (run, fst h)) (j_heads j)"

definition journalAnomalies :: "run_id option \<Rightarrow> journal \<Rightarrow> anomaly list" where
  "journalAnomalies run j =
     rev (case run of None \<Rightarrow> j_anomalies j
          | Some r \<Rightarrow> if r = [] then j_anomalies j else filter (\<lambda>a. an_run a = r) (j_anomalies j))"

text \<open>The object is evicted: the buffer and the timer are memory, the tables are storage.\<close>

definition journal_evict :: "journal \<Rightarrow> journal" where
  "journal_evict j = j\<lparr>j_pending := [], j_timer := False\<rparr>"


section \<open>What is held, and the invariant\<close>

definition buffered :: "journal \<Rightarrow> run_id \<Rightarrow> bytes" where
  "buffered j run = (case map_of (j_pending j) run of None \<Rightarrow> [] | Some p \<Rightarrow> concat (pj_parts p))"

definition journal_content :: "journal \<Rightarrow> run_id \<Rightarrow> bytes" where
  "journal_content j run = readJournal j run @ buffered j run"

definition abs_ingest :: "bytes \<Rightarrow> nat \<Rightarrow> bytes \<Rightarrow> bytes" where
  "abs_ingest held offset bs =
     (if offset \<le> length held then held @ drop (length held - offset) bs else held @ bs)"

abbreviation raw_rows :: "journal \<Rightarrow> run_id \<Rightarrow> seg_row list" where
  "raw_rows j run \<equiv> filter (\<lambda>r. sg_run r = run) (j_rows j)"

fun rows_ok :: "nat \<Rightarrow> nat \<Rightarrow> seg_row list \<Rightarrow> bool" where
  "rows_ok seq off [] = True"
| "rows_ok seq off (r # rs) =
     (sg_seq r = seq \<and> sg_start r = off \<and> rows_ok (Suc seq) (off + length (sg_bytes r)) rs)"

definition pending_ok :: "journal \<Rightarrow> bool" where
  "pending_ok j \<longleftrightarrow>
     (\<forall>run p. map_of (j_pending j) run = Some p \<longrightarrow>
        pj_start p = fst (runHead j run) \<and> pj_len p = length (concat (pj_parts p)))"

definition tables_ok :: "journal \<Rightarrow> bool" where
  "tables_ok j \<longleftrightarrow>
     (\<forall>run. rows_ok 0 0 (raw_rows j run) \<and>
        runHead j run = (length (concat (map sg_bytes (raw_rows j run))), length (raw_rows j run))) \<and>
     map (\<lambda>s. (si_run s, si_seq s, si_start s, si_len s)) (j_segments j) =
       map (\<lambda>r. (sg_run r, sg_seq r, sg_start r, length (sg_bytes r))) (j_rows j)"

definition journal_inv :: "journal \<Rightarrow> bool" where
  "journal_inv j \<longleftrightarrow> tables_ok j \<and> pending_ok j"

lemma rows_ok_seq_ge: "rows_ok seq off rs \<Longrightarrow> r \<in> set rs \<Longrightarrow> seq \<le> sg_seq r"
proof (induction rs arbitrary: seq off)
  case (Cons a rs)
  then show ?case by (cases "r = a") (auto dest!: Cons.IH)
qed simp

lemma rows_ok_sort: "rows_ok seq off rs \<Longrightarrow> sort_key sg_seq rs = rs"
proof (induction rs arbitrary: seq off)
  case (Cons a rs)
  then have "rows_ok (Suc seq) (off + length (sg_bytes a)) rs" by simp
  then have "sort_key sg_seq rs = rs" by (rule Cons.IH)
  moreover have "\<forall>r \<in> set rs. sg_seq a \<le> sg_seq r"
    using Cons.prems rows_ok_seq_ge [of "Suc seq" _ rs] by fastforce
  ultimately show ?case by (simp add: insort_is_Cons)
qed simp

lemma rows_ok_append:
  "rows_ok seq off (rs @ [r]) \<longleftrightarrow> rows_ok seq off rs \<and>
     sg_seq r = seq + length rs \<and> sg_start r = off + length (concat (map sg_bytes rs))"
  by (induction rs arbitrary: seq off) (auto simp: add.assoc)

lemma run_rows_raw: "tables_ok j \<Longrightarrow> run_rows j run = raw_rows j run"
  unfolding run_rows_def tables_ok_def using rows_ok_sort by blast

lemma read_raw: "tables_ok j \<Longrightarrow> readJournal j run = concat (map sg_bytes (raw_rows j run))"
  by (simp add: readJournal_def run_rows_raw)

lemma head_is_length: "tables_ok j \<Longrightarrow> fst (runHead j run) = length (readJournal j run)"
  by (simp add: read_raw) (simp add: tables_ok_def)

lemma content_length:
  assumes "journal_inv j" "map_of (j_pending j) run = Some p"
  shows "pj_start p + pj_len p = length (journal_content j run)"
  using assms head_is_length [of j run]
  by (auto simp: journal_inv_def pending_ok_def journal_content_def buffered_def)

text \<open>Operations that leave the tables alone.\<close>

lemma runHead_cong [simp]:
  "runHead (j\<lparr>j_pending := x\<rparr>) = runHead j" "runHead (j\<lparr>j_timer := b\<rparr>) = runHead j"
  "runHead (j\<lparr>j_anomalies := a, j_anomaly_id := n\<rparr>) = runHead j"
  by (auto simp: runHead_def fun_eq_iff)

lemma readJournal_cong [simp]:
  "readJournal (j\<lparr>j_pending := x\<rparr>) = readJournal j" "readJournal (j\<lparr>j_timer := b\<rparr>) = readJournal j"
  "readJournal (j\<lparr>j_anomalies := a, j_anomaly_id := n\<rparr>) = readJournal j"
  by (auto simp: readJournal_def run_rows_def fun_eq_iff)

lemma tables_ok_cong [simp]:
  "tables_ok (j\<lparr>j_pending := x\<rparr>) = tables_ok j" "tables_ok (j\<lparr>j_timer := b\<rparr>) = tables_ok j"
  "tables_ok (j\<lparr>j_anomalies := a, j_anomaly_id := n\<rparr>) = tables_ok j"
  by (simp_all add: tables_ok_def)

lemma anomaly_fields [simp]:
  "j_rows (recordJournalAnomaly now run k a l j) = j_rows j"
  "j_heads (recordJournalAnomaly now run k a l j) = j_heads j"
  "j_pending (recordJournalAnomaly now run k a l j) = j_pending j"
  "tables_ok (recordJournalAnomaly now run k a l j) = tables_ok j"
  "runHead (recordJournalAnomaly now run k a l j) = runHead j"
  "readJournal (recordJournalAnomaly now run k a l j) = readJournal j"
  by (simp_all add: recordJournalAnomaly_def Let_def)

lemma schedule_fields [simp]:
  "j_pending (scheduleFlush j) = j_pending j" "tables_ok (scheduleFlush j) = tables_ok j"
  "runHead (scheduleFlush j) = runHead j" "readJournal (scheduleFlush j) = readJournal j"
  "j_anomalies (scheduleFlush j) = j_anomalies j"
  by (simp_all add: scheduleFlush_def)

lemma push_fields [simp]:
  "tables_ok (push_part run sl j) = tables_ok j" "runHead (push_part run sl j) = runHead j"
  "readJournal (push_part run sl j) = readJournal j" "j_anomalies (push_part run sl j) = j_anomalies j"
  by (simp_all add: push_part_def split: option.splits)

lemma content_by_pending:
  "readJournal j = readJournal j' \<Longrightarrow> j_pending j = j_pending j' \<Longrightarrow> journal_content j = journal_content j'"
  by (simp add: journal_content_def buffered_def fun_eq_iff)

lemma inv_by_pending:
  "tables_ok j = tables_ok j' \<Longrightarrow> runHead j = runHead j' \<Longrightarrow> j_pending j = j_pending j'
     \<Longrightarrow> journal_inv j = journal_inv j'"
  by (simp add: journal_inv_def pending_ok_def)

lemma content_anomaly [simp]: "journal_content (recordJournalAnomaly now run k a l j) = journal_content j"
  by (rule content_by_pending) simp_all

lemma content_schedule [simp]: "journal_content (scheduleFlush j) = journal_content j"
  by (rule content_by_pending) simp_all

lemma inv_anomaly [simp]: "journal_inv (recordJournalAnomaly now run k a l j) = journal_inv j"
  by (rule inv_by_pending) simp_all

lemma inv_schedule [simp]: "journal_inv (scheduleFlush j) = journal_inv j"
  by (rule inv_by_pending) simp_all

lemma push_content:
  "map_of (j_pending j) run = Some p \<Longrightarrow>
     journal_content (push_part run sl j) r = journal_content j r @ (if r = run then sl else [])"
  by (auto simp: journal_content_def buffered_def push_part_def jsmap_simps)

lemma push_inv: "journal_inv j \<Longrightarrow> journal_inv (push_part run sl j)"
  by (auto simp: journal_inv_def pending_ok_def push_part_def jsmap_simps split: option.splits if_splits)

lemma pendingFor_spec:
  assumes "journal_inv j" "pendingFor run j = (p, j')"
  shows "map_of (j_pending j') run = Some p" "journal_inv j'" "journal_content j' = journal_content j"
    "j_anomalies j' = j_anomalies j"
proof -
  have "map_of (j_pending j') run = Some p \<and> journal_inv j' \<and> journal_content j' = journal_content j
    \<and> j_anomalies j' = j_anomalies j"
    using assms
    by (auto simp: pendingFor_def Let_def journal_inv_def pending_ok_def journal_content_def buffered_def
        jsmap_simps fun_eq_iff split: option.splits if_splits)
  then show "map_of (j_pending j') run = Some p" "journal_inv j'" "journal_content j' = journal_content j"
    "j_anomalies j' = j_anomalies j"
    by blast+
qed

text \<open>Ingest refines \<open>abs_ingest\<close> and keeps the invariant.\<close>

lemma onJournalFrame_inv:
  assumes "journal_inv j"
  shows "journal_inv (onJournalFrame now run offset bs j)"
proof -
  obtain p j' where pj: "pendingFor run j = (p, j')" by (cases "pendingFor run j")
  with pendingFor_spec(2) [OF assms pj] assms show ?thesis
    by (simp add: onJournalFrame_def Let_def push_inv)
qed

lemma onJournalFrame_content:
  assumes "journal_inv j" "bs \<noteq> []"
  shows "journal_content (onJournalFrame now run offset bs j) =
    (journal_content j)(run := abs_ingest (journal_content j run) offset bs)"
proof -
  obtain p j' where pj: "pendingFor run j = (p, j')" by (cases "pendingFor run j")
  note spec = pendingFor_spec [OF assms(1) pj]
  have len: "pj_start p + pj_len p = length (journal_content j run)"
    using content_length [OF spec(2) spec(1)] by (simp add: spec(3))
  have push: "journal_content (push_part run sl (recordJournalAnomaly now run k a l j')) r =
      journal_content j r @ (if r = run then sl else [])" for sl k a l r
    by (subst push_content [where p = p]) (simp_all add: spec)
  have push': "journal_content (push_part run sl j') r =
      journal_content j r @ (if r = run then sl else [])" for sl r
    by (subst push_content [where p = p]) (simp_all add: spec)
  show ?thesis
    using assms(2)
    by (auto simp: onJournalFrame_def pj Let_def len abs_ingest_def push push' spec(3) fun_eq_iff min_def)
qed

section \<open>Flush\<close>

lemma flushRun_none:
  assumes "map_of (j_pending j) run = None \<or> (\<exists>p. map_of (j_pending j) run = Some p \<and> pj_len p = 0)"
  shows "flushRun c run j = (j\<lparr>j_pending := AList.delete run (j_pending j)\<rparr>, None)"
  using assms by (auto simp: flushRun_def Let_def)

lemma flushRun_spec:
  assumes inv: "journal_inv j" and f: "flushRun c run j = (j', out)"
  shows "journal_inv j' \<and> journal_content j' = journal_content j
    \<and> readJournal j' = (readJournal j)(run := journal_content j run)
    \<and> j_pending j' = AList.delete run (j_pending j) \<and> j_anomalies j' = j_anomalies j
    \<and> (\<forall>x. out = Some x \<longrightarrow> fo_run x = run \<and> fo_start x = length (readJournal j run)
          \<and> fo_bytes x = buffered j run \<and> fo_bytes x \<noteq> [] \<and> fo_ack x = length (readJournal j' run))
    \<and> (out = None \<longrightarrow> buffered j run = [])"
proof -
  have tab: "tables_ok j" and pend: "pending_ok j" using inv by (auto simp: journal_inv_def)
  let ?j1 = "j\<lparr>j_pending := AList.delete run (j_pending j)\<rparr>"
  have pend1: "pending_ok ?j1"
    using pend by (auto simp: pending_ok_def jsmap_simps split: if_splits)
  show ?thesis
  proof (cases "map_of (j_pending j) run = None \<or> (\<exists>p. map_of (j_pending j) run = Some p \<and> pj_len p = 0)")
    case True
    then have e: "j' = ?j1" "out = None" using f by (simp_all add: flushRun_none)
    have b: "buffered j run = []"
      using True pend by (auto simp: buffered_def pending_ok_def)
    have "journal_content ?j1 = journal_content j"
      using b by (auto simp: journal_content_def buffered_def jsmap_simps fun_eq_iff)
    then show ?thesis
      using tab pend1 b by (auto simp: e journal_inv_def fun_eq_iff journal_content_def)
  next
    case False
    then obtain p where p: "map_of (j_pending j) run = Some p" "pj_len p \<noteq> 0" by auto
    define seg where "seg = concat (pj_parts p)"
    have seg: "buffered j run = seg" "seg \<noteq> []"
      using p pend by (auto simp: buffered_def seg_def pending_ok_def)
    define row where "row = \<lparr>sg_run = run, sg_seq = snd (runHead j run), sg_start = fst (runHead j run), sg_bytes = seg\<rparr>"
    have j': "j' = ?j1\<lparr>j_rows := j_rows j @ [row],
        j_heads := AList.update run (fst (runHead j run) + length seg, Suc (snd (runHead j run))) (j_heads j),
        j_segments := j_segments j @ [\<lparr>si_run = run, si_seq = snd (runHead j run),
          si_key = segmentKey c run (snd (runHead j run)), si_start = fst (runHead j run), si_len = length seg\<rparr>]\<rparr>"
      and out: "out = Some \<lparr>fo_run = run, fo_key = segmentKey c run (snd (runHead j run)),
          fo_start = fst (runHead j run), fo_bytes = seg, fo_ack = fst (runHead j run) + length seg\<rparr>"
      using f p by (simp_all add: flushRun_def Let_def seg_def row_def)
    have rows: "raw_rows j' r = raw_rows j r @ (if r = run then [row] else [])" for r
      by (simp add: j' row_def)
    have heads: "runHead j' r = (if r = run then (fst (runHead j run) + length seg, Suc (snd (runHead j run))) else runHead j r)" for r
      by (simp add: j' runHead_def jsmap_simps)
    have h: "runHead j run = (length (concat (map sg_bytes (raw_rows j run))), length (raw_rows j run))"
      using tab by (simp add: tables_ok_def)
    have segs: "map (\<lambda>s. (si_run s, si_seq s, si_start s, si_len s)) (j_segments j') =
        map (\<lambda>r. (sg_run r, sg_seq r, sg_start r, length (sg_bytes r))) (j_rows j')"
      using tab by (simp add: j' row_def tables_ok_def)
    have tab': "tables_ok j'"
      unfolding tables_ok_def
    proof (intro conjI allI)
      fix r
      show "rows_ok 0 0 (raw_rows j' r)"
        using tab h unfolding rows by (auto simp: rows_ok_append tables_ok_def row_def)
      show "runHead j' r = (length (concat (map sg_bytes (raw_rows j' r))), length (raw_rows j' r))"
        using tab h unfolding rows heads by (auto simp: tables_ok_def row_def)
    qed (rule segs)
    have read: "readJournal j' = (readJournal j)(run := readJournal j run @ seg)"
      by (auto simp: fun_eq_iff read_raw [OF tab] read_raw [OF tab'] rows row_def)
    have pj': "j_pending j' = AList.delete run (j_pending j)" by (simp add: j')
    have pend': "pending_ok j'"
      using pend by (auto simp: pending_ok_def pj' heads jsmap_simps split: if_splits)
    have content: "journal_content j' = journal_content j"
      using seg by (auto simp: journal_content_def buffered_def pj' jsmap_simps read fun_eq_iff)
    show ?thesis
      using tab' pend' content read seg out pj' head_is_length [OF tab, of run]
      by (auto simp: journal_inv_def journal_content_def j')
  qed
qed

lemma flush_runs_spec:
  assumes "journal_inv j" "flush_runs c runs j = (j', outs)"
  shows "journal_inv j' \<and> journal_content j' = journal_content j
    \<and> (\<forall>r. readJournal j' r = (if r \<in> set runs then journal_content j r else readJournal j r))
    \<and> (\<forall>r. map_of (j_pending j') r = (if r \<in> set runs then None else map_of (j_pending j) r))
    \<and> j_anomalies j' = j_anomalies j"
  using assms
proof (induction runs arbitrary: j j' outs)
  case (Cons run runs)
  obtain j1 out where f: "flushRun c run j = (j1, out)" by (cases "flushRun c run j")
  obtain j2 outs' where fs: "flush_runs c runs j1 = (j2, outs')" by (cases "flush_runs c runs j1")
  have j': "j' = j2" using Cons.prems f fs by (auto split: option.splits)
  note one = flushRun_spec [OF Cons.prems(1) f]
  have "journal_inv j1" using one by blast
  from Cons.IH [OF this fs] one show ?case
    by (auto simp: j' jsmap_simps)
qed simp

lemma flushAll_spec:
  assumes "journal_inv j" "flushAll c j = (j', outs)"
  shows "journal_inv j'" "journal_content j' = journal_content j" "readJournal j' = journal_content j"
    "j_anomalies j' = j_anomalies j"
proof -
  have i: "journal_inv (j\<lparr>j_timer := False\<rparr>)"
    using assms(1) by (simp add: journal_inv_def pending_ok_def)
  have c: "journal_content (j\<lparr>j_timer := False\<rparr>) = journal_content j"
    by (rule content_by_pending) simp_all
  note s = flush_runs_spec [OF i assms(2) [unfolded flushAll_def], unfolded c]
  then show "journal_inv j'" "journal_content j' = journal_content j" "j_anomalies j' = j_anomalies j"
    by simp_all
  have "buffered j r = []" if "r \<notin> set (map fst (j_pending j))" for r
    using that map_of_eq_None_iff [of "j_pending j" r] by (simp add: buffered_def)
  then show "readJournal j' = journal_content j"
    using s by (auto simp: fun_eq_iff journal_content_def)
qed

lemma evict_spec:
  assumes "journal_inv j"
  shows "journal_inv (journal_evict j)" "journal_content (journal_evict j) = readJournal j"
    "j_anomalies (journal_evict j) = j_anomalies j"
  using assms
  by (auto simp: journal_evict_def journal_inv_def pending_ok_def tables_ok_def journal_content_def
      buffered_def readJournal_def run_rows_def runHead_def fun_eq_iff)

lemma empty_inv: "journal_inv empty_journal"
  by (simp add: empty_journal_def journal_inv_def tables_ok_def pending_ok_def runHead_def)


section \<open>The overlay of #journalHeld\<close>

lemma length_splice_at: "i + length new \<le> length xs \<Longrightarrow> length (splice_at i new xs) = length xs"
  by (simp add: splice_at_def)

lemma nth_splice_at:
  assumes "i + length new \<le> length xs" "k < length xs"
  shows "splice_at i new xs ! k = (if i \<le> k \<and> k < i + length new then new ! (k - i) else xs ! k)"
  using assms by (auto simp: splice_at_def nth_append min_def)

lemma held_put_spec:
  assumes len: "length (fst s) = to - from" "length (snd s) = to - from"
  shows "length (fst (held_put from to (start, src) s)) = to - from
    \<and> length (snd (held_put from to (start, src) s)) = to - from
    \<and> (\<forall>i < to - from.
         fst (held_put from to (start, src) s) ! i =
           (if start \<le> from + i \<and> from + i < start + length src then src ! (from + i - start) else fst s ! i)
       \<and> snd (held_put from to (start, src) s) ! i =
           ((start \<le> from + i \<and> from + i < start + length src) \<or> snd s ! i))"
proof -
  obtain out cov where s: "s = (out, cov)" by (cases s)
  define lo hi where "lo = max from start" and "hi = min to (start + length src)"
  have lo: "from \<le> lo" "start \<le> lo" "lo = from \<or> lo = start"
    by (auto simp: lo_def max_def)
  have hi: "hi \<le> to" "hi \<le> start + length src" "hi = to \<or> hi = start + length src"
    by (auto simp: hi_def min_def)
  have out: "length out = to - from" "length cov = to - from" using len by (simp_all add: s)
  have inside: "(lo \<le> from + i \<and> from + i < hi) \<longleftrightarrow> (start \<le> from + i \<and> from + i < start + length src)"
    if "i < to - from" for i
    using that lo hi by linarith
  show ?thesis
  proof (cases "hi \<le> lo")
    case True
    then have "held_put from to (start, src) s = s"
      by (simp add: held_put_def s Let_def flip: lo_def hi_def)
    moreover have "\<not> (start \<le> from + i \<and> from + i < start + length src)" if "i < to - from" for i
      using inside [OF that] True by linarith
    ultimately show ?thesis using len by auto
  next
    case False
    define new where "new = take (hi - lo) (drop (lo - start) src)"
    have ln: "length new = hi - lo" using False lo hi by (simp add: new_def)
    have fit: "lo - from + (hi - lo) \<le> to - from" using False lo hi by linarith
    have put: "held_put from to (start, src) s =
        (splice_at (lo - from) new out, splice_at (lo - from) (replicate (hi - lo) True) cov)"
      using False by (simp add: held_put_def s Let_def new_def flip: lo_def hi_def)
    have lens: "length (splice_at (lo - from) new out) = to - from"
      "length (splice_at (lo - from) (replicate (hi - lo) True) cov) = to - from"
      using fit out ln by (simp_all only: length_splice_at length_replicate)
    have idx: "(lo - from \<le> i \<and> i < lo - from + (hi - lo)) \<longleftrightarrow> (lo \<le> from + i \<and> from + i < hi)" for i
      using False lo by linarith
    have val: "new ! (i - (lo - from)) = src ! (from + i - start)" if "lo \<le> from + i" "from + i < hi" for i
    proof -
      have k: "i - (lo - from) < hi - lo" "lo - start + (i - (lo - from)) = from + i - start"
        "lo - start \<le> length src"
        using that lo hi False by linarith+
      then show ?thesis unfolding new_def by simp
    qed
    have "splice_at (lo - from) new out ! i =
        (if start \<le> from + i \<and> from + i < start + length src then src ! (from + i - start) else out ! i)
      \<and> splice_at (lo - from) (replicate (hi - lo) True) cov ! i =
        ((start \<le> from + i \<and> from + i < start + length src) \<or> cov ! i)"
      if i: "i < to - from" for i
    proof -
      have fits: "lo - from + length new \<le> length out"
        "lo - from + length (replicate (hi - lo) True) \<le> length cov"
        using fit by (simp_all only: ln out length_replicate)
      note n = nth_splice_at [OF fits(1), unfolded out, OF i] nth_splice_at [OF fits(2), unfolded out, OF i]
      show ?thesis
      proof (cases "lo \<le> from + i \<and> from + i < hi")
        case True
        then have "i - (lo - from) < hi - lo" using lo by linarith
        with True show ?thesis
          using n val [of i] inside [OF i] idx [of i] by (simp add: ln)
      next
        case False
        then show ?thesis using n inside [OF i] idx [of i] by (auto simp: ln)
      qed
    qed
    with lens show ?thesis by (simp add: put [unfolded s] s)
  qed
qed

lemma fold_put_spans:
  assumes "length (fst s) = to - from" "length (snd s) = to - from"
  shows "length (fst (fold (held_put from to) (part_spans c ps) s)) = to - from
    \<and> length (snd (fold (held_put from to) (part_spans c ps) s)) = to - from
    \<and> (\<forall>i < to - from.
        fst (fold (held_put from to) (part_spans c ps) s) ! i =
          (if c \<le> from + i \<and> from + i < c + length (concat ps) then concat ps ! (from + i - c) else fst s ! i)
      \<and> snd (fold (held_put from to) (part_spans c ps) s) ! i =
          ((c \<le> from + i \<and> from + i < c + length (concat ps)) \<or> snd s ! i))"
  using assms
proof (induction ps arbitrary: c s)
  case (Cons p ps)
  define s' where "s' = held_put from to (c, p) s"
  note one = held_put_spec [OF Cons.prems, where start = c and src = p, folded s'_def]
  then have IH: "length (fst (fold (held_put from to) (part_spans (c + length p) ps) s')) = to - from"
    "length (snd (fold (held_put from to) (part_spans (c + length p) ps) s')) = to - from"
    "\<And>i. i < to - from \<Longrightarrow>
        fst (fold (held_put from to) (part_spans (c + length p) ps) s') ! i =
          (if c + length p \<le> from + i \<and> from + i < c + length p + length (concat ps)
           then concat ps ! (from + i - (c + length p)) else fst s' ! i)
      \<and> snd (fold (held_put from to) (part_spans (c + length p) ps) s') ! i =
          ((c + length p \<le> from + i \<and> from + i < c + length p + length (concat ps)) \<or> snd s' ! i)"
    using Cons.IH [of s' "c + length p"] by blast+
  have split: "(c \<le> k \<and> k < c + length (concat (p # ps))) \<longleftrightarrow>
      (c \<le> k \<and> k < c + length p) \<or> (c + length p \<le> k \<and> k < c + length p + length (concat ps))" for k
    by auto
  have val: "concat (p # ps) ! (k - c) = (if k < c + length p then p ! (k - c) else concat ps ! (k - (c + length p)))"
    if "c \<le> k" for k
    using that by (auto simp: nth_append)
  show ?case
    using IH one by (auto simp: split val s'_def [symmetric] simp del: concat.simps)
qed auto

lemma fold_filter_id: "(\<And>x s. \<not> P x \<Longrightarrow> f x s = s) \<Longrightarrow> fold f (filter P xs) s = fold f xs s"
  by (induction xs arbitrary: s) auto

lemma held_put_outside:
  "from < to \<Longrightarrow> \<not> (start < to \<and> start + length src > from) \<Longrightarrow> held_put from to (start, src) s = s"
  by (cases s) (auto simp: held_put_def Let_def)

lemma rows_spans: "rows_ok seq off rs \<Longrightarrow> map (\<lambda>r. (sg_start r, sg_bytes r)) rs = part_spans off (map sg_bytes rs)"
  by (induction rs arbitrary: seq off) auto

lemma journalHeld_content:
  assumes inv: "journal_inv j" and p: "map_of (j_pending j) run = Some p"
    and range: "from \<le> to" "to \<le> length (journal_content j run)"
  shows "journalHeld j run from to p = Some (take (to - from) (drop from (journal_content j run)))"
proof (cases "to \<le> from")
  case True
  then show ?thesis by (simp add: journalHeld_def)
next
  case False
  have tab: "tables_ok j" and pend: "pending_ok j" using inv by (auto simp: journal_inv_def)
  let ?D = "readJournal j run" and ?B = "buffered j run"
  have B: "concat (pj_parts p) = ?B" "pj_start p = length ?D"
    using p pend head_is_length [OF tab] by (auto simp: buffered_def pending_ok_def)
  let ?s0 = "(replicate (to - from) (0 :: byte), replicate (to - from) False)"
  let ?rows = "filter (\<lambda>r. sg_start r < to \<and> sg_start r + length (sg_bytes r) > from) (run_rows j run)"
  let ?s1 = "fold (held_put from to) (map (\<lambda>r. (sg_start r, sg_bytes r)) ?rows) ?s0"
  let ?s2 = "fold (held_put from to) (part_spans (pj_start p) (pj_parts p)) ?s1"
  have "rows_ok 0 0 (run_rows j run)"
    using tab by (simp add: run_rows_raw) (simp add: tables_ok_def)
  then have spans: "map (\<lambda>r. (sg_start r, sg_bytes r)) (run_rows j run) = part_spans 0 (map sg_bytes (run_rows j run))"
    by (rule rows_spans)
  have "fold (held_put from to) (map (\<lambda>r. (sg_start r, sg_bytes r)) ?rows) ?s0
      = fold (\<lambda>r. held_put from to (sg_start r, sg_bytes r)) ?rows ?s0"
    by (simp add: fold_map comp_def)
  also have "\<dots> = fold (\<lambda>r. held_put from to (sg_start r, sg_bytes r)) (run_rows j run) ?s0"
    using False by (intro fold_filter_id held_put_outside) auto
  also have "\<dots> = fold (held_put from to) (part_spans 0 (map sg_bytes (run_rows j run))) ?s0"
    by (simp only: spans [symmetric] fold_map comp_def)
  finally have s1: "?s1 = fold (held_put from to) (part_spans 0 (map sg_bytes (run_rows j run))) ?s0" .
  define s1 where "s1 = ?s1"
  have f1: "length (fst s1) = to - from \<and> length (snd s1) = to - from \<and> (\<forall>i < to - from.
      fst s1 ! i = (if from + i < length ?D then ?D ! (from + i) else 0)
      \<and> snd s1 ! i = (from + i < length ?D))"
    unfolding s1_def s1 using fold_put_spans [of ?s0 to "from" 0 "map sg_bytes (run_rows j run)"]
    by (simp add: readJournal_def)
  define s2 where "s2 = fold (held_put from to) (part_spans (pj_start p) (pj_parts p)) s1"
  have f2: "length (fst s2) = to - from" "length (snd s2) = to - from"
    "fst s2 ! i = (?D @ ?B) ! (from + i) \<and> snd s2 ! i" if "i < to - from" for i
  proof -
    note f = fold_put_spans [of s1 to "from" "pj_start p" "pj_parts p", folded s2_def, unfolded B]
    then show "length (fst s2) = to - from" "length (snd s2) = to - from" using f1 by blast+
    have "from + i < length ?D + length ?B" using range that by (simp add: journal_content_def)
    then show "fst s2 ! i = (?D @ ?B) ! (from + i) \<and> snd s2 ! i"
      using f f1 that by (cases "from + i < length ?D") (auto simp: nth_append)
  qed
  have l2: "length (fst s2) = to - from" "length (snd s2) = to - from"
    using f2(1,2) [of 0] False by auto
  have "list_all (\<lambda>c. c) (snd s2)"
    using f2(3) l2 by (simp add: list_all_length)
  moreover have "fst s2 = take (to - from) (drop from (journal_content j run))"
  proof (rule nth_equalityI)
    show "length (fst s2) = length (take (to - from) (drop from (journal_content j run)))"
      using l2 range by simp
    show "fst s2 ! i = take (to - from) (drop from (journal_content j run)) ! i" if "i < length (fst s2)" for i
    proof -
      have "fst s2 ! i = journal_content j run ! (from + i)"
        using f2(3) [of i] that l2 by (simp add: journal_content_def)
      then show ?thesis using that l2 range by simp
    qed
  qed
  moreover have "s2 = ?s2" by (simp add: s2_def s1_def)
  ultimately show ?thesis
    using False by (simp add: journalHeld_def Let_def)
qed


section \<open>Runs of the journal\<close>

datatype journal_event =
    JFrame time run_id nat bytes
  | JFlush "string option"
  | JEvict

fun journal_step :: "journal_event \<Rightarrow> journal \<Rightarrow> journal" where
  "journal_step (JFrame now run offset bs) j = onJournalFrame now run offset bs j"
| "journal_step (JFlush computer) j = fst (flushAll computer j)"
| "journal_step JEvict j = journal_evict j"

definition journal_run :: "journal_event list \<Rightarrow> journal \<Rightarrow> journal" where
  "journal_run es j = fold journal_step es j"

text \<open>
  What a supervisor relies on: a store of one byte string per run, part of it durable, whose
  frames are ingested by \<open>abs_ingest\<close>, whose flush makes everything held durable and whose crash
  falls back to what was durable.
\<close>

locale journal_store =
  fixes invar :: "'s \<Rightarrow> bool"
    and content :: "'s \<Rightarrow> run_id \<Rightarrow> bytes"
    and durable :: "'s \<Rightarrow> run_id \<Rightarrow> bytes"
    and step :: "journal_event \<Rightarrow> 's \<Rightarrow> 's"
  assumes invar_step: "invar s \<Longrightarrow> invar (step e s)"
    and durable_prefix: "invar s \<Longrightarrow> prefix (durable s r) (content s r)"
    and content_frame: "invar s \<Longrightarrow> content (step (JFrame now r off bs) s) q =
          (if q = r \<and> bs \<noteq> [] then abs_ingest (content s r) off bs else content s q)"
    and durable_frame: "invar s \<Longrightarrow> durable (step (JFrame now r off bs) s) = durable s"
    and content_flush: "invar s \<Longrightarrow> content (step (JFlush c) s) = content s"
    and durable_flush: "invar s \<Longrightarrow> durable (step (JFlush c) s) = content s"
    and content_evict: "invar s \<Longrightarrow> content (step JEvict s) = durable s"
    and durable_evict: "invar s \<Longrightarrow> durable (step JEvict s) = durable s"
begin

lemmas laws = content_frame durable_frame content_flush durable_flush content_evict durable_evict

lemma invar_run: "invar s \<Longrightarrow> invar (fold step es s)"
  by (induction es arbitrary: s) (auto intro: invar_step)

lemma durable_step_prefix: "invar s \<Longrightarrow> prefix (durable s r) (durable (step e s) r)"
  by (cases e) (simp_all add: laws durable_prefix)

lemma durable_grows: "invar s \<Longrightarrow> prefix (durable s r) (durable (fold step es s) r)"
proof (induction es arbitrary: s)
  case (Cons e es)
  then have "prefix (durable (step e s) r) (durable (fold step es (step e s)) r)"
    by (simp add: invar_step)
  with durable_step_prefix [OF Cons.prems] show ?case
    using prefix_order.order_trans by fastforce
qed simp

end

text \<open>
  A supervisor that streams the terminal output \<open>T\<close> of its runs: every frame is the piece of
  \<open>T\<close> at the offset it claims, and no frame starts beyond what the store holds (it resumes from
  the offset the store acknowledged and streams forward).  Frames may repeat and overlap freely.
\<close>

fun streams :: "('s \<Rightarrow> run_id \<Rightarrow> bytes) \<Rightarrow> (journal_event \<Rightarrow> 's \<Rightarrow> 's) \<Rightarrow> (run_id \<Rightarrow> bytes) \<Rightarrow> 's \<Rightarrow> journal_event list \<Rightarrow> bool" where
  "streams content step T s [] = True"
| "streams content step T s (e # es) =
     ((case e of
         JFrame now r off bs \<Rightarrow>
           off \<le> length (content s r) \<and> bs = take (length bs) (drop off (T r))
       | _ \<Rightarrow> True)
      \<and> streams content step T (step e s) es)"

lemma abs_ingest_prefix:
  assumes "prefix h t" "off \<le> length h" "bs = take (length bs) (drop off t)"
  shows "prefix (abs_ingest h off bs) t"
    "take (min (length bs) (length h - off)) bs = take (min (length bs) (length h - off)) (drop off h)"
proof -
  obtain u where t: "t = h @ u" using assms(1) by (auto simp: prefix_def)
  obtain n where n: "n = length bs" by simp
  have b: "bs = take n (drop off h @ u)"
    using assms(2,3) by (simp add: t n)
  show "take (min (length bs) (length h - off)) bs = take (min (length bs) (length h - off)) (drop off h)"
    unfolding n [symmetric] by (simp add: b min_def)
  have "drop (length h - off) bs = take (n - (length h - off)) (drop (length h - off) (drop off h @ u))"
    by (subst b) (rule drop_take)
  then have "drop (length h - off) bs = take (n - (length h - off)) u"
    by simp
  then show "prefix (abs_ingest h off bs) t"
    using assms(2) by (simp add: abs_ingest_def t take_is_prefix)
qed

context journal_store
begin

lemma streams_prefix:
  assumes "invar s" "\<forall>r. prefix (content s r) (T r)" "streams content step T s es"
  shows "prefix (content (fold step es s) r) (T r)"
  using assms
proof (induction es arbitrary: s)
  case (Cons e es)
  have "prefix (content (step e s) q) (T q)" for q
  proof (cases e)
    case (JFrame now run off bs)
    with Cons.prems abs_ingest_prefix(1) [of "content s run" "T run" off bs] show ?thesis
      by (auto simp: laws)
  next
    case (JFlush c)
    with Cons.prems show ?thesis by (simp add: laws)
  next
    case JEvict
    with Cons.prems durable_prefix show ?thesis
      by (simp add: laws) (meson prefix_order.order_trans)
  qed
  with Cons show ?case by (simp add: invar_step)
qed simp

end

lemma flushAll_laws:
  assumes "journal_inv j"
  shows "journal_inv (fst (flushAll c j))" "journal_content (fst (flushAll c j)) = journal_content j"
    "readJournal (fst (flushAll c j)) = journal_content j" "j_anomalies (fst (flushAll c j)) = j_anomalies j"
  using flushAll_spec [OF assms, of c "fst (flushAll c j)" "snd (flushAll c j)"] by simp_all

lemma frame_content:
  assumes "journal_inv j"
  shows "journal_content (onJournalFrame now r off bs j) q =
     (if q = r \<and> bs \<noteq> [] then abs_ingest (journal_content j r) off bs else journal_content j q)"
proof (cases "bs = []")
  case True
  then show ?thesis by (simp add: onJournalFrame_def)
next
  case False
  then show ?thesis by (simp add: onJournalFrame_content [OF assms False])
qed

lemma frame_durable: "readJournal (onJournalFrame now r off bs j) = readJournal j"
proof -
  obtain p j' where pj: "pendingFor r j = (p, j')" by (cases "pendingFor r j")
  then have "readJournal j' = readJournal j"
    by (auto simp: pendingFor_def Let_def split: option.splits)
  then show ?thesis
    by (simp add: onJournalFrame_def Let_def pj)
qed

lemma journal_step_inv: "journal_inv j \<Longrightarrow> journal_inv (journal_step e j)"
  by (cases e) (simp_all add: onJournalFrame_inv flushAll_laws evict_spec)

lemma content_extends: "prefix (readJournal j r) (journal_content j r)"
  by (simp add: journal_content_def)

lemma evict_durable: "readJournal (journal_evict j) = readJournal j"
  by (simp add: readJournal_def run_rows_def journal_evict_def fun_eq_iff)

interpretation js: journal_store journal_inv journal_content readJournal journal_step
  by unfold_locales
    (simp_all add: journal_step_inv frame_content frame_durable flushAll_laws evict_spec evict_durable
      content_extends)


section \<open>Which anomaly a frame leaves\<close>

lemma recorded_last:
  "j_anomalies (recordJournalAnomaly now r k a l j) \<noteq> []"
  "last (j_anomalies (recordJournalAnomaly now r k a l j)) =
     \<lparr>an_id = j_anomaly_id j, an_run = r, an_kind = k, an_at_offset = a, an_len = l, an_at = now\<rparr>"
  by (simp_all add: recordJournalAnomaly_def Let_def JOURNAL_ANOMALY_KEEP_def)

lemma pendingFor_id: "pendingFor run j = (p, j') \<Longrightarrow> j_anomaly_id j' = j_anomaly_id j"
  by (auto simp: pendingFor_def Let_def split: option.splits)

definition frame_anomaly :: "bytes \<Rightarrow> nat \<Rightarrow> bytes \<Rightarrow> (anomaly_kind \<times> nat \<times> nat) option" where
  "frame_anomaly held offset bs =
     (if bs = [] \<or> offset = length held then None
      else if offset > length held then Some (Gap, length held, offset - length held)
      else let n = min (length bs) (length held - offset)
           in Some (if take n bs = take n (drop offset held) then Duplicate else Divergent, offset, n))"

lemma onJournalFrame_anomalies:
  assumes inv: "journal_inv j"
  shows "j_anomalies (onJournalFrame now run offset bs j) =
    (case frame_anomaly (journal_content j run) offset bs of
       None \<Rightarrow> j_anomalies j
     | Some (k, at, n) \<Rightarrow> j_anomalies (recordJournalAnomaly now run k at n j))"
proof -
  obtain p j' where pj: "pendingFor run j = (p, j')" by (cases "pendingFor run j")
  note spec = pendingFor_spec [OF inv pj]
  have rec: "j_anomalies (recordJournalAnomaly now run k a l j') = j_anomalies (recordJournalAnomaly now run k a l j)" for k a l
    by (simp add: recordJournalAnomaly_def Let_def spec(4) pendingFor_id [OF pj])
  let ?c = "journal_content j run"
  have len: "pj_start p + pj_len p = length ?c"
    using content_length [OF spec(2) spec(1)] by (simp add: spec(3))
  have held: "journalHeld j' run offset (offset + min (length bs) (length ?c - offset)) p =
      Some (take (min (length bs) (length ?c - offset)) (drop offset ?c))" if "offset < length ?c"
    using journalHeld_content [OF spec(2,1), of offset "offset + min (length bs) (length ?c - offset)"] that
    by (simp add: spec(3))
  consider "bs = []" | "bs \<noteq> []" "offset = length ?c" | "bs \<noteq> []" "offset > length ?c"
    | "bs \<noteq> []" "offset < length ?c" by linarith
  then show ?thesis
  proof cases
    case 4
    define n where "n = min (length bs) (length ?c - offset)"
    have h: "journalHeld j' run offset (offset + n) p = Some (take n (drop offset ?c))"
      using held [OF 4(2)] by (simp add: n_def)
    show ?thesis
      using 4 by (simp add: onJournalFrame_def frame_anomaly_def pj Let_def len h rec flip: n_def)
  qed (simp_all add: onJournalFrame_def frame_anomaly_def pj Let_def len rec spec(4))
qed

lemma frame_anomaly_honest:
  assumes "prefix h t" "off \<le> length h" "bs = take (length bs) (drop off t)"
  shows "frame_anomaly h off bs \<in> {None} \<union> range (\<lambda>x. Some (Duplicate, x))"
  using abs_ingest_prefix(2) [OF assms] assms(2) by (auto simp: frame_anomaly_def Let_def)


section \<open>What a flush reports\<close>

lemma buffered_cong: "map_of (j_pending j) r = map_of (j_pending j') r \<Longrightarrow> buffered j r = buffered j' r"
  by (simp add: buffered_def)

lemma flush_runs_outs:
  assumes "journal_inv j" "flush_runs c runs j = (j', outs)"
  shows "(\<forall>x \<in> set outs. fo_bytes x = buffered j (fo_run x) \<and> fo_start x = length (readJournal j (fo_run x))
         \<and> fo_ack x = length (journal_content j (fo_run x)))
    \<and> fo_run ` set outs = {r \<in> set runs. buffered j r \<noteq> []}"
  using assms
proof (induction runs arbitrary: j j' outs)
  case (Cons run runs)
  obtain j1 out where f: "flushRun c run j = (j1, out)" by (cases "flushRun c run j")
  obtain j2 outs' where fs: "flush_runs c runs j1 = (j2, outs')" by (cases "flush_runs c runs j1")
  have outs: "outs = (case out of None \<Rightarrow> outs' | Some x \<Rightarrow> x # outs')" using Cons.prems f fs by auto
  note one = flushRun_spec [OF Cons.prems(1) f]
  then have i: "journal_inv j1" and cont: "journal_content j1 = journal_content j"
    and read: "readJournal j1 = (readJournal j)(run := journal_content j run)"
    and pend: "j_pending j1 = AList.delete run (j_pending j)" by blast+
  have buf: "buffered j1 r = (if r = run then [] else buffered j r)" for r
    by (simp add: buffered_def pend jsmap_simps)
  note IH = Cons.IH [OF i fs, unfolded cont buf read]
  have ne: "fo_run x \<noteq> run" if "x \<in> set outs'" for x
    using IH that by (auto simp: image_iff set_eq_iff split: if_splits)
  have rest: "fo_run ` set outs' = {r \<in> set runs. r \<noteq> run \<and> buffered j r \<noteq> []}"
    using IH by (auto split: if_splits)
  show ?case
  proof (cases out)
    case None
    then show ?thesis using one IH rest ne by (auto simp: outs)
  next
    case (Some x)
    then have x: "fo_run x = run \<and> fo_start x = length (readJournal j run) \<and> fo_bytes x = buffered j run
        \<and> fo_bytes x \<noteq> [] \<and> fo_ack x = length (readJournal j1 run)"
      using one by blast
    then have "buffered j run \<noteq> []" "fo_ack x = length (journal_content j run)" by (auto simp: read)
    then show ?thesis using x Some IH rest ne by (auto simp: outs)
  qed
qed simp

lemma flushAll_outs:
  assumes inv: "journal_inv j" and f: "flushAll c j = (j', outs)"
  shows "(\<forall>x \<in> set outs. fo_bytes x = buffered j (fo_run x) \<and> fo_start x = length (readJournal j (fo_run x))
         \<and> fo_ack x = length (journal_content j (fo_run x)))
    \<and> {r. buffered j r \<noteq> []} = fo_run ` set outs
    \<and> (\<forall>r. map_of (j_pending j') r = None)"
proof -
  let ?j = "j\<lparr>j_timer := False\<rparr>"
  have i: "journal_inv ?j"
    using inv by (simp add: journal_inv_def pending_ok_def)
  have same: "buffered ?j = buffered j" "readJournal ?j = readJournal j" "journal_content ?j = journal_content j"
    by (auto simp: fun_eq_iff buffered_def journal_content_def)
  have none: "map_of (j_pending j) r = None" if "r \<notin> set (map fst (j_pending j))" for r
    using that map_of_eq_None_iff [of "j_pending j" r] by simp
  have nonempty: "r \<in> set (map fst (j_pending j))" if "buffered j r \<noteq> []" for r
    using that none [of r] by (cases "r \<in> set (map fst (j_pending j))") (simp_all add: buffered_def)
  then show ?thesis
    using flush_runs_outs [OF i f [unfolded flushAll_def], unfolded same]
      flush_runs_spec [OF i f [unfolded flushAll_def]] none nonempty
    by auto
qed


section \<open>Honest streams\<close>

lemma empty_content: "journal_content empty_journal r = []"
  by (simp add: journal_content_def buffered_def readJournal_def run_rows_def empty_journal_def)

lemma honest_frame_anomalies:
  assumes "journal_inv j" "prefix (journal_content j run) (T run)" "off \<le> length (journal_content j run)"
    "bs = take (length bs) (drop off (T run))" "\<forall>a \<in> set (j_anomalies j). an_kind a = Duplicate"
  shows "\<forall>a \<in> set (j_anomalies (onJournalFrame now run off bs j)). an_kind a = Duplicate"
  using onJournalFrame_anomalies [OF assms(1), of now run off bs] frame_anomaly_honest [OF assms(2-4)] assms(5)
  by (auto simp: recordJournalAnomaly_def Let_def dest!: in_set_dropD split: option.splits)

lemma honest_run:
  assumes "streams journal_content journal_step T j es" "journal_inv j" "\<forall>r. prefix (journal_content j r) (T r)"
    "\<forall>a \<in> set (j_anomalies j). an_kind a = Duplicate"
  shows "(\<forall>r. prefix (journal_content (fold journal_step es j) r) (T r)) \<and>
    (\<forall>a \<in> set (j_anomalies (fold journal_step es j)). an_kind a = Duplicate)"
  using assms
proof (induction es arbitrary: j)
  case (Cons e es)
  have s1: "streams journal_content journal_step T j [e]" using Cons.prems(1) by simp
  have p: "\<forall>r. prefix (journal_content (journal_step e j) r) (T r)"
    using js.streams_prefix [OF Cons.prems(2,3) s1] by simp
  have a: "\<forall>a \<in> set (j_anomalies (journal_step e j)). an_kind a = Duplicate"
  proof (cases e)
    case (JFrame now run off bs)
    then show ?thesis
      using Cons.prems honest_frame_anomalies [of j run T off bs now] by simp
  qed (use Cons.prems in \<open>simp_all add: flushAll_laws evict_spec\<close>)
  show ?case
    using Cons.IH [OF _ journal_step_inv [OF Cons.prems(2)] p a] Cons.prems(1) by simp
qed simp


section \<open>Properties\<close>

text \<open>C1: The journal refines the abstract log for every sequence of frames, flushes and evictions
  from an empty object: the tables stay consistent (rows of a run contiguous from 0, the head row equal
  to their total length, one segment-index row per journal row), a frame changes only the byte string
  of its own run, by \<open>abs_ingest\<close>: the overlapping part is discarded, the rest appended.\<close>

theorem journal_refines_log:
  "let j = journal_run es empty_journal in
     journal_inv j
   \<and> journal_content (onJournalFrame now r off bs j) =
       (journal_content j)(r := if bs = [] then journal_content j r else abs_ingest (journal_content j r) off bs)
   \<and> readJournal (onJournalFrame now r off bs j) = readJournal j"
proof -
  have i: "journal_inv (journal_run es empty_journal)"
    unfolding journal_run_def by (rule js.invar_run) (rule empty_inv)
  then show ?thesis
    by (auto simp: Let_def frame_content frame_durable fun_eq_iff)
qed

text \<open>C2: A flush makes every ingested byte durable and tells the supervisor exactly that: after
  \<open>flushAll\<close> the durable journal of every run is all that was ingested and nothing is left in the
  buffer, so that a crash right after it loses nothing, while a crash before it loses exactly the
  buffered part; and the acknowledgements sent are, for every run that had buffered bytes, those
  bytes at the offset where they were appended, acknowledged up to the new durable length.\<close>

theorem flush_is_durable:
  assumes "journal_inv j" "flushAll c j = (j', outs)"
  shows "readJournal j' = journal_content j \<and> journal_content j' = journal_content j
    \<and> (\<forall>r. map_of (j_pending j') r = None)
    \<and> journal_content (journal_evict j') = journal_content j
    \<and> journal_content (journal_evict j) = readJournal j
    \<and> (\<forall>x \<in> set outs. fo_bytes x = buffered j (fo_run x) \<and> fo_start x = length (readJournal j (fo_run x))
         \<and> fo_ack x = length (readJournal j' (fo_run x)))
    \<and> {r. buffered j r \<noteq> []} = fo_run ` set outs"
  using flushAll_spec [OF assms] evict_spec [OF assms(1)] evict_spec [OF flushAll_spec(1) [OF assms]]
    flushAll_outs [OF assms]
  by simp

text \<open>The durable journal of a run only ever grows by appending: whatever frames arrive, at
  whatever offsets, with whatever bytes, and however often the object is evicted, what was once durable
  stays a prefix of what is durable.\<close>

theorem durable_only_appends:
  assumes "journal_inv j"
  shows "prefix (readJournal j r) (readJournal (journal_run es j) r)"
  unfolding journal_run_def using assms by (rule js.durable_grows)

theorem durable_only_appends_witness:
  "prefix [1, 2] (readJournal (journal_run [JFrame 5 ''r'' 0 [9, 9, 9], JFlush None, JEvict, JFrame 6 ''r'' 7 [3], JFlush None]
     (fst (flushAll None (onJournalFrame 4 ''r'' 0 [1, 2] empty_journal)))) ''r'')"
proof -
  have i: "journal_inv (fst (flushAll None (onJournalFrame 4 ''r'' 0 [1, 2] empty_journal)))"
    by (intro flushAll_laws onJournalFrame_inv empty_inv)
  have "readJournal (fst (flushAll None (onJournalFrame 4 ''r'' 0 [1, 2] empty_journal))) ''r'' = [1, 2]"
    by code_simp
  then show ?thesis
    using durable_only_appends [OF i, of "''r''" "[JFrame 5 ''r'' 0 [9, 9, 9], JFlush None, JEvict, JFrame 6 ''r'' 7 [3], JFlush None]"]
    by simp
qed

theorem flush_is_durable_witness:
  "let j = onJournalFrame 4 ''r'' 0 [1, 2] empty_journal; j' = fst (flushAll (Some ''c'') j) in
     readJournal j ''r'' = [] \<and> readJournal j' ''r'' = [1, 2] \<and> journal_content (journal_evict j') ''r'' = [1, 2]"
proof -
  let ?j = "onJournalFrame 4 ''r'' 0 [1, 2] empty_journal"
  have i: "journal_inv ?j" by (intro onJournalFrame_inv empty_inv)
  have "journal_content ?j ''r'' = [1, 2] \<and> readJournal ?j ''r'' = []" by code_simp
  then show ?thesis
    using flush_is_durable [OF i prod.collapse [symmetric], of "Some ''c''"] by (simp add: Let_def)
qed

text \<open>C3: A supervisor that streams the true terminal output \<open>T\<close> (each frame the piece of \<open>T\<close>
  at the offset it claims, none starting beyond what the object holds; frames may repeat and overlap)
  is journalled faithfully: after any such sequence of frames, flushes and evictions the journal of
  every run is a prefix of \<open>T\<close>, and no such frame is ever recorded as a divergence or a gap.\<close>

theorem honest_stream_journalled:
  assumes "streams journal_content journal_step T empty_journal es"
  shows "let j = journal_run es empty_journal in
     prefix (journal_content j r) (T r)
   \<and> (\<forall>a \<in> set (j_anomalies j). an_kind a = Duplicate)"
proof -
  have "j_anomalies empty_journal = []" by (simp add: empty_journal_def)
  then show ?thesis
    using honest_run [OF assms empty_inv] by (simp add: Let_def journal_run_def empty_content)
qed

theorem honest_stream_journalled_witness:
  "let j = journal_run [JFrame 1 ''r'' 0 [1, 2], JFlush None, JFrame 2 ''r'' 1 [2, 3], JEvict, JFrame 3 ''r'' 2 [3, 4]] empty_journal in
     prefix (journal_content j ''r'') [1, 2, 3, 4, 5] \<and> length (journal_content j ''r'') = 4
   \<and> map an_kind (j_anomalies j) = [Duplicate]"
proof -
  let ?es = "[JFrame 1 ''r'' 0 [1, 2], JFlush None, JFrame 2 ''r'' 1 [2, 3], JEvict, JFrame 3 ''r'' 2 [3, 4]]"
  have s: "streams journal_content journal_step (\<lambda>_. [1, 2, 3, 4, 5]) empty_journal ?es" by code_simp
  have e: "length (journal_content (journal_run ?es empty_journal) ''r'') = 4 \<and>
      map an_kind (j_anomalies (journal_run ?es empty_journal)) = [Duplicate]" by code_simp
  show ?thesis
    using honest_stream_journalled [OF s, of "''r''"] e by (simp add: Let_def)
qed

text \<open>The anomaly log says what happened: a frame leaves a record exactly when it does not start
  at the end of what is held; \<open>Gap\<close> with the missing range when it starts beyond it, \<open>Duplicate\<close>
  when the overlapping bytes agree with what was already ingested (durable or still buffered) and
  \<open>Divergent\<close> exactly when they differ.\<close>

theorem anomaly_classifies_frame:
  assumes "journal_inv j" "bs \<noteq> []"
  shows "let h = length (journal_content j run); j' = onJournalFrame now run offset bs j;
             n = min (length bs) (h - offset); a = last (j_anomalies j') in
     (offset = h \<longrightarrow> j_anomalies j' = j_anomalies j)
   \<and> (offset > h \<longrightarrow> a = \<lparr>an_id = j_anomaly_id j, an_run = run, an_kind = Gap, an_at_offset = h,
                          an_len = offset - h, an_at = now\<rparr>)
   \<and> (offset < h \<longrightarrow> an_at_offset a = offset \<and> an_len a = n \<and>
        an_kind a = (if take n bs = take n (drop offset (journal_content j run)) then Duplicate else Divergent))"
proof (cases "offset = length (journal_content j run)")
  case True
  then show ?thesis
    using onJournalFrame_anomalies [OF assms(1), of now run offset bs] by (simp add: frame_anomaly_def)
next
  case False
  then show ?thesis
    using assms(2) onJournalFrame_anomalies [OF assms(1), of now run offset bs]
    by (simp add: Let_def frame_anomaly_def recorded_last)
qed

theorem anomaly_classifies_frame_witness:
  "let j = onJournalFrame 1 ''r'' 0 [1, 2] empty_journal in
     an_kind (last (j_anomalies (onJournalFrame 2 ''r'' 1 [9] j))) = Divergent
   \<and> an_kind (last (j_anomalies (onJournalFrame 2 ''r'' 1 [2, 3] j))) = Duplicate
   \<and> an_len (last (j_anomalies (onJournalFrame 2 ''r'' 5 [2, 3] j))) = 3"
proof -
  let ?j = "onJournalFrame 1 ''r'' 0 [1, 2] empty_journal"
  have i: "journal_inv ?j" by (intro onJournalFrame_inv empty_inv)
  have "journal_content ?j ''r'' = [1, 2]" by code_simp
  then show ?thesis
    using anomaly_classifies_frame [OF i, of "[9]" "''r''" 2 1] anomaly_classifies_frame [OF i, of "[2, 3]" "''r''" 2 1]
      anomaly_classifies_frame [OF i, of "[2, 3]" "''r''" 2 5]
    by (simp add: Let_def)
qed

end
