(* ===== verification/Messages.thy ===== *)
theory Messages
  imports Prelude
begin

text \<open>
  The wire vocabulary shared by supervisor, Durable Object and client:
  \<^verbatim>\<open>packages/shared/src/messages.ts\<close> (supervisor and control envelopes), \<^verbatim>\<open>attach.ts\<close> (client
  envelopes) and the part of \<^verbatim>\<open>manifest.ts\<close> they use.  Every envelope is a datatype with one
  constructor per variant; the selectors carry the field names.  Fields of type \<^verbatim>\<open>u64\<close> are
  \<open>nat\<close>: validation (theory Validate) admits only safe integers.  Run, computer, manifest and
  chunk ids are strings.
\<close>

section \<open>Storage vocabulary (manifest.ts)\<close>

datatype entry_kind = EFile | EDir | ESymlink

datatype snapshot_reason = SrPreRun | SrScheduled | SrCommand | SrFinal

datatype computer_state = StAwake | StWarm | StCold | StWaking

record chunk_ref =
  cr_chunk :: string
  cr_len :: nat

record manifest_entry =
  me_path :: string
  me_kind :: entry_kind
  me_mode :: nat
  me_size :: nat
  me_symlink_target :: "string option"
  me_chunks :: "chunk_ref list"

record manifest =
  mf_version :: nat
  mf_parent :: "manifest_id option"
  mf_created_at :: nat
  mf_entries :: "manifest_entry list"

record diff_summary =
  ds_added :: nat
  ds_modified :: nat
  ds_removed :: nat

section \<open>Supervisor to control plane\<close>

datatype attention_kind = AkBell | AkOsc | AkBlockedRead | AkInterrupted

datatype exit_status = EsExited (es_code: int) | EsSignaled (es_signal: int)

record run_rollback =
  rb_run :: run_id
  rb_control_offset :: nat
  rb_disk_offset :: nat
  rb_replayed :: bool

datatype supervisor_message =
    Hello (sm_computer: string) (sm_epoch: nat) (sm_token: string) (sm_proto_version: nat)
  | JournalFrame (sm_run: run_id) (sm_offset: nat) (sm_bytes: bytes)
  | RunStarted (sm_run: run_id) (sm_pre_run_manifest: manifest_id)
  | RunCompleted (sm_run: run_id) (sm_exit: exit_status) (sm_post_run_manifest: manifest_id)
      (sm_diff: diff_summary)
  | SnapshotWritten (sm_manifest: manifest_id) (sm_epoch: nat) (sm_reason: snapshot_reason)
  | HeadAdvanceRequest (sm_manifest: manifest_id) (sm_epoch: nat)
  | Attention (sm_run: run_id) (sm_kind: attention_kind)
  | RunHeartbeat (sm_run: run_id)
  | RollbackDetected (sm_disk_manifest: manifest_id) (sm_recorded_manifest: "manifest_id option")
      (sm_diff: diff_summary) (sm_runs: "run_rollback list")

section \<open>Control plane to supervisor\<close>

datatype control_message =
    HelloAck (cm_acked: "(run_id \<times> nat) list")
  | JournalAck (cm_run: run_id) (cm_offset: nat)
  | StartRun (cm_run: run_id) (cm_argv: "string list") (cm_env_names: "string list") (cm_cwd: string)
  | StopRun (cm_run: run_id)
  | Input (cm_run: run_id) (cm_bytes: bytes)
  | Resize (cm_run: run_id) (cm_cols: nat) (cm_rows: nat)
  | SnapshotNow (cm_reason: snapshot_reason)
  | PrepareForCold
  | HeadAdvanceResult (cm_accepted: bool) (cm_current_epoch: nat)
  | RestoreToManifest (cm_manifest: manifest_id)

section \<open>Client and Durable Object (attach.ts)\<close>

record grid_cell =
  gc_ch :: string
  gc_attrs :: nat
  gc_fg :: int
  gc_bg :: int

record grid_snapshot =
  gs_cols :: nat
  gs_rows :: nat
  gs_cells :: "grid_cell list list"
  gs_cursorCol :: nat
  gs_cursorRow :: nat
  gs_cursorVisible :: bool

datatype client_to_do =
    ClientAttach (cl_run: run_id) (cl_cols: nat) (cl_rows: nat)
  | ClientInput (cl_run: run_id) (cl_bytes: bytes)
  | ClientResize (cl_run: run_id) (cl_cols: nat) (cl_rows: nat)
  | ClientDetach (cl_run: run_id)

datatype do_to_client =
    DoGridSnapshot (dc_run: run_id) (dc_grid: grid_snapshot) (dc_baseOffset: nat)
  | DoFrame (dc_run: run_id) (dc_offset: nat) (dc_bytes: bytes)
  | DoRunStatus (dc_run: run_id) (dc_alive: bool) (dc_exitCode: "int option")

end
