(* ===== verification/RunTable.thy ===== *)
theory RunTable
  imports Messages Runs Journal
begin

text \<open>
  The runs of a computer as its Durable Object keeps them
  (\<^verbatim>\<open>packages/control-plane/src/computer-do.ts\<close>): the SQL tables \<^verbatim>\<open>runs\<close> and \<^verbatim>\<open>attention\<close> and the
  operations on them: request, dispatch, stop, the supervisor's reports, degradation of the runs of
  a lost machine, keep and revert, attention and its dismissal, and the records shown to clients.
  The epoch, the computer root, the clock and whether a send succeeds are arguments; the events and
  control messages an operation sends are its output.
\<close>

section \<open>Tables\<close>

record run_row =
  rr_id :: run_id
  rr_kind :: run_kind
  rr_argv :: "string list"
  rr_cwd :: string
  rr_envNames :: "string list"
  rr_agent :: "string option"
  rr_status :: run_status
  rr_dispatched :: bool
  rr_queuedAt :: time
  rr_dispatchedAt :: "time option"
  rr_startedAt :: "time option"
  rr_endedAt :: "time option"
  rr_preManifest :: "manifest_id option"
  rr_postManifest :: "manifest_id option"
  rr_exit :: "run_exit option"
  rr_diff :: "diff_summary option"
  rr_disposition :: run_disposition
  rr_dispositionAt :: "time option"
  rr_epoch :: nat
  rr_writePath :: "string option"
  rr_seq :: nat
  rr_requeues :: nat

record attention_row =
  at_id :: nat
  at_run :: run_id
  at_kind :: attention_kind
  at_at :: time
  at_dismissed :: bool

record run_db =
  db_runs :: "run_row list"
  db_attention :: "attention_row list"
  db_attention_id :: nat

definition empty_db :: run_db where
  "empty_db = \<lparr>db_runs = [], db_attention = [], db_attention_id = 1\<rparr>"

text \<open>Events raised inside the object (\<^verbatim>\<open>EmitEvent\<close>); a cleared badge carries no kind and no time.\<close>

datatype do_event =
    EvAttention run_id attention_kind time
  | EvCleared run_id
  | EvRun run_id client_state "int option option"
  | EvState computer_state

definition MAX_RUN_REQUEUES :: nat where "MAX_RUN_REQUEUES = 1"

text \<open>\<^verbatim>\<open>UPDATE ... WHERE\<close> on a table held in insertion order.\<close>

definition sql_update :: "('r \<Rightarrow> bool) \<Rightarrow> ('r \<Rightarrow> 'r) \<Rightarrow> 'r list \<Rightarrow> 'r list" where
  "sql_update cond f rows = map (\<lambda>r. if cond r then f r else r) rows"

definition update_runs :: "(run_row \<Rightarrow> bool) \<Rightarrow> (run_row \<Rightarrow> run_row) \<Rightarrow> run_db \<Rightarrow> run_db" where
  "update_runs cond f db = db\<lparr>db_runs := sql_update cond f (db_runs db)\<rparr>"

definition runRow :: "run_id \<Rightarrow> run_db \<Rightarrow> run_row option" where
  "runRow run db = find (\<lambda>r. rr_id r = run) (db_runs db)"

definition runRows :: "run_db \<Rightarrow> run_row list" where
  "runRows db = rev (sort_key rr_seq (db_runs db))"

definition next_seq :: "run_db \<Rightarrow> nat" where
  "next_seq db = fold max (map rr_seq (db_runs db)) 0 + 1"

definition coalesce :: "'a option \<Rightarrow> 'a \<Rightarrow> 'a option" where
  "coalesce v d = (case v of None \<Rightarrow> Some d | Some x \<Rightarrow> Some x)"

section \<open>Attention\<close>

definition hasUndismissedInterrupted :: "run_id \<Rightarrow> run_db \<Rightarrow> bool" where
  "hasUndismissedInterrupted run db =
     list_ex (\<lambda>a. at_run a = run \<and> at_kind a = AkInterrupted \<and> \<not> at_dismissed a) (db_attention db)"

definition onAttention :: "time \<Rightarrow> run_id \<Rightarrow> attention_kind \<Rightarrow> run_db \<Rightarrow> run_db \<times> do_event list" where
  "onAttention now run kind db =
     (if kind = AkInterrupted \<and> hasUndismissedInterrupted run db then (db, [])
      else (db\<lparr>db_attention := db_attention db @
                 [\<lparr>at_id = db_attention_id db, at_run = run, at_kind = kind, at_at = now, at_dismissed = False\<rparr>],
               db_attention_id := Suc (db_attention_id db)\<rparr>,
            [EvAttention run kind now]))"

definition raiseInterrupted :: "time \<Rightarrow> run_id \<Rightarrow> run_db \<Rightarrow> run_db \<times> do_event list" where
  "raiseInterrupted now run db =
     (if hasUndismissedInterrupted run db then (db, []) else onAttention now run AkInterrupted db)"

definition listAttention :: "run_db \<Rightarrow> attention_row list" where
  "listAttention db = sort_key at_id (filter (\<lambda>a. \<not> at_dismissed a) (db_attention db))"

definition dismissAttention :: "nat \<Rightarrow> run_db \<Rightarrow> bool \<times> run_db \<times> do_event list" where
  "dismissAttention aid db =
     (let row = find (\<lambda>a. at_id a = aid \<and> \<not> at_dismissed a) (db_attention db);
          dismissed = list_ex (\<lambda>a. at_id a = aid \<and> \<not> at_dismissed a) (db_attention db)
      in (dismissed,
          db\<lparr>db_attention := sql_update (\<lambda>a. at_id a = aid \<and> \<not> at_dismissed a)
               (\<lambda>a. a\<lparr>at_dismissed := True\<rparr>) (db_attention db)\<rparr>,
          (case row of Some a \<Rightarrow> if dismissed then [EvCleared (at_run a)] else [] | None \<Rightarrow> [])))"

text \<open>\<^verbatim>\<open>GROUP BY run\<close>: one count per run with an undismissed event; a run without one counts 0.\<close>

definition attentionCount :: "run_db \<Rightarrow> run_id \<Rightarrow> nat" where
  "attentionCount db run = length (filter (\<lambda>a. at_run a = run \<and> \<not> at_dismissed a) (db_attention db))"

section \<open>Request and dispatch\<close>

record run_request =
  rq_runId :: run_id
  rq_kind :: run_kind
  rq_argv :: "string list"
  rq_cwd :: "string option"
  rq_envNames :: "string list"
  rq_agent :: "string option"
  rq_writePath :: "string option"

definition new_row :: "run_id \<Rightarrow> run_kind \<Rightarrow> string list \<Rightarrow> string \<Rightarrow> run_status \<Rightarrow> bool \<Rightarrow> time \<Rightarrow> nat \<Rightarrow> run_row" where
  "new_row run kind argv cwd status dispatched now seq =
     \<lparr>rr_id = run, rr_kind = kind, rr_argv = argv, rr_cwd = cwd, rr_envNames = [], rr_agent = None,
      rr_status = status, rr_dispatched = dispatched, rr_queuedAt = now, rr_dispatchedAt = None,
      rr_startedAt = None, rr_endedAt = None, rr_preManifest = None, rr_postManifest = None,
      rr_exit = None, rr_diff = None, rr_disposition = DPending, rr_dispositionAt = None,
      rr_epoch = 0, rr_writePath = None, rr_seq = seq, rr_requeues = 0\<rparr>"

text \<open>The \<^verbatim>\<open>INSERT\<close> of \<^verbatim>\<open>enqueueRun\<close>; \<open>None\<close> is the primary-key violation it throws for a known id.\<close>

definition enqueue_insert :: "string \<Rightarrow> time \<Rightarrow> run_request \<Rightarrow> run_db \<Rightarrow> (run_db \<times> do_event list) option" where
  "enqueue_insert root now rq db =
     (if runRow (rq_runId rq) db \<noteq> None then None
      else Some
        (db\<lparr>db_runs := db_runs db @
              [(new_row (rq_runId rq) (rq_kind rq) (rq_argv rq) (resolveRunCwd root (rq_cwd rq))
                  Queued False now (next_seq db))
                 \<lparr>rr_envNames := rq_envNames rq, rr_agent := rq_agent rq, rr_writePath := rq_writePath rq\<rparr>]\<rparr>,
         [EvRun (rq_runId rq) CPending None]))"

text \<open>\<^verbatim>\<open>enqueueWrite\<close>: the request it builds; \<open>root\<close> is \<^verbatim>\<open>COMPUTER_ROOT\<close> as configured.\<close>

definition write_request :: "string option \<Rightarrow> run_id \<Rightarrow> string \<Rightarrow> string \<Rightarrow> string list \<Rightarrow> run_request" where
  "write_request computer_root run path content envNames =
     (let root = strip_trailing (CHR ''/'') (case computer_root of None \<Rightarrow> [] | Some r \<Rightarrow> r);
          target = (if root = [] then path else root @ path)
      in \<lparr>rq_runId = run, rq_kind = KWrite, rq_argv = writeRunArgv target content run,
          rq_cwd = Some DEFAULT_CWD, rq_envNames = envNames, rq_agent = None, rq_writePath = Some path\<rparr>)"

definition start_run :: "string \<Rightarrow> run_row \<Rightarrow> control_message" where
  "start_run root r = StartRun (rr_id r) (rr_argv r) (rr_envNames r) (resolveRunCwd root (Some (rr_cwd r)))"

definition dispatch_one :: "string \<Rightarrow> time \<Rightarrow> nat \<Rightarrow> (run_id \<Rightarrow> bool) \<Rightarrow> run_row
    \<Rightarrow> run_db \<times> control_message list \<Rightarrow> run_db \<times> control_message list" where
  "dispatch_one root now epoch send_ok row = (\<lambda>(db, out).
     let run = rr_id row;
         claim = (\<lambda>r. rr_id r = run \<and> \<not> rr_dispatched r)
     in if \<not> list_ex claim (db_runs db) then (db, out)
        else let db1 = update_runs claim
                   (\<lambda>r. r\<lparr>rr_dispatched := True, rr_status := Dispatched, rr_dispatchedAt := Some now,
                          rr_epoch := epoch\<rparr>) db
             in if send_ok run then (db1, out @ [start_run root row])
                else (update_runs (\<lambda>r. rr_id r = run \<and> rr_status r = Dispatched)
                        (\<lambda>r. r\<lparr>rr_dispatched := False, rr_status := Queued, rr_dispatchedAt := None\<rparr>) db1,
                      out))"

definition queued_rows :: "run_db \<Rightarrow> run_row list" where
  "queued_rows db = sort_key rr_seq (filter (\<lambda>r. \<not> rr_dispatched r \<and> rr_status r = Queued) (db_runs db))"

definition dispatchQueued :: "string \<Rightarrow> time \<Rightarrow> nat \<Rightarrow> (run_id \<Rightarrow> bool) \<Rightarrow> run_db \<Rightarrow> run_db \<times> control_message list" where
  "dispatchQueued root now epoch send_ok db =
     fold (dispatch_one root now epoch send_ok) (queued_rows db) (db, [])"

definition hasQueuedRuns :: "run_db \<Rightarrow> bool" where
  "hasQueuedRuns db = list_ex (\<lambda>r. \<not> rr_dispatched r \<and> rr_status r = Queued) (db_runs db)"

definition pendingWork :: "run_db \<Rightarrow> nat" where
  "pendingWork db =
     length (filter (\<lambda>r. rr_status r \<in> {Queued, Dispatched, Running, Stopping}) (db_runs db))"

definition activeRunIds :: "run_db \<Rightarrow> run_id list" where
  "activeRunIds db =
     map rr_id (sort_key rr_seq (filter (\<lambda>r. rr_status r \<in> {Queued, Dispatched, Running}) (db_runs db)))"

section \<open>Stop and the supervisor's reports\<close>

record stop_result =
  so_ok :: bool
  so_status :: "run_status option"
  so_sent :: bool

text \<open>\<open>attached\<close>: a supervisor socket is held, so \<^verbatim>\<open>#sendControl\<close> sends.\<close>

definition stopRun :: "time \<Rightarrow> bool \<Rightarrow> run_id \<Rightarrow> run_db \<Rightarrow> stop_result \<times> run_db \<times> control_message list \<times> do_event list" where
  "stopRun now attached run db =
     (case runRow run db of
        None \<Rightarrow> (\<lparr>so_ok = False, so_status = None, so_sent = False\<rparr>, db, [], [])
      | Some row \<Rightarrow>
          if rr_status row \<in> {Completed, Cancelled, Interrupted} then
            (\<lparr>so_ok = True, so_status = Some (rr_status row), so_sent = False\<rparr>, db, [], [])
          else if \<not> rr_dispatched row then
            (\<lparr>so_ok = True, so_status = Some Cancelled, so_sent = False\<rparr>,
             update_runs (\<lambda>r. rr_id r = run \<and> \<not> rr_dispatched r)
               (\<lambda>r. r\<lparr>rr_status := Cancelled, rr_dispatched := True, rr_endedAt := Some now\<rparr>) db,
             [], [EvRun run CFailed None])
          else
            (\<lparr>so_ok = True, so_status = Some Stopping, so_sent = attached\<rparr>,
             update_runs (\<lambda>r. rr_id r = run) (\<lambda>r. r\<lparr>rr_status := Stopping\<rparr>) db,
             (if attached then [StopRun run] else []), [EvRun run CStopping None]))"

definition onRunStarted :: "time \<Rightarrow> nat \<Rightarrow> run_id \<Rightarrow> manifest_id \<Rightarrow> run_db \<Rightarrow> run_db \<times> do_event list" where
  "onRunStarted now epoch run preManifest db =
     (let db1 = (if runRow run db \<noteq> None then db
                 else db\<lparr>db_runs := db_runs db @
                   [(new_row run KCommand [] ''/'' Running True now (next_seq db))\<lparr>rr_epoch := epoch\<rparr>]\<rparr>)
      in (update_runs (\<lambda>r. rr_id r = run)
            (\<lambda>r. r\<lparr>rr_status := (if rr_status r \<in> {Stopping, Completed, Cancelled} then rr_status r else Running),
                   rr_startedAt := coalesce (rr_startedAt r) now, rr_preManifest := Some preManifest,
                   rr_epoch := epoch\<rparr>) db1,
          [EvRun run CRunning None]))"

text \<open>The time a completion notes for billing is an output: \<open>Some ms\<close> when it is the first one.\<close>

definition onRunCompleted :: "time \<Rightarrow> nat \<Rightarrow> run_id \<Rightarrow> run_exit \<Rightarrow> manifest_id \<Rightarrow> diff_summary \<Rightarrow> run_db
    \<Rightarrow> run_db \<times> do_event list \<times> int option" where
  "onRunCompleted now epoch run ex postManifest diff db =
     (let (db1, evs) = (if runRow run db = None then onRunStarted now epoch run postManifest db else (db, []));
          before = runRow run db1;
          db2 = update_runs (\<lambda>r. rr_id r = run)
                  (\<lambda>r. r\<lparr>rr_status := Completed, rr_endedAt := Some now, rr_postManifest := Some postManifest,
                         rr_exit := Some ex, rr_diff := Some diff\<rparr>) db1;
          startedAt = (case before of None \<Rightarrow> now
                       | Some b \<Rightarrow> (case rr_startedAt b of None \<Rightarrow> now | Some s \<Rightarrow> s))
      in (db2,
          evs @ [EvRun run (if ex_kind ex = Exited then CExited else CFailed)
                   (Some (if ex_kind ex = Exited then Some (ex_code ex) else None))],
          (if map_option rr_status before \<noteq> Some Completed then Some (max 0 (now - startedAt)) else None)))"

section \<open>Degradation of the runs of a lost machine\<close>

definition run_ran :: "journal \<Rightarrow> run_row \<Rightarrow> bool" where
  "run_ran j r \<longleftrightarrow> rr_startedAt r \<noteq> None \<or> rr_preManifest r \<noteq> None \<or> fst (runHead j (rr_id r)) > 0
     \<or> (case map_of (j_pending j) (rr_id r) of None \<Rightarrow> 0 | Some p \<Rightarrow> pj_len p) > 0"

abbreviation in_flight :: "run_status \<Rightarrow> bool" where
  "in_flight s \<equiv> s \<in> {Dispatched, Running, Stopping}"

definition degrade_one :: "time \<Rightarrow> journal \<Rightarrow> run_row \<Rightarrow> run_db \<times> do_event list \<Rightarrow> run_db \<times> do_event list" where
  "degrade_one now j row = (\<lambda>(db, evs).
     let run = rr_id row
     in if \<not> run_ran j row \<and> rr_requeues row < MAX_RUN_REQUEUES then
          (update_runs (\<lambda>r. rr_id r = run \<and> in_flight (rr_status r))
             (\<lambda>r. r\<lparr>rr_status := Queued, rr_dispatched := False, rr_dispatchedAt := None, rr_epoch := 0,
                    rr_requeues := Suc (rr_requeues r)\<rparr>) db,
           evs @ [EvRun run CPending None])
        else
          (let db1 = update_runs (\<lambda>r. rr_id r = run)
                       (\<lambda>r. r\<lparr>rr_status := Interrupted, rr_endedAt := coalesce (rr_endedAt r) now\<rparr>) db;
               (db2, evs2) = raiseInterrupted now run db1
           in (db2, evs @ evs2 @ [EvRun run CFailed None])))"

definition degradeInFlightRuns :: "time \<Rightarrow> journal \<Rightarrow> run_db \<Rightarrow> run_db \<times> do_event list" where
  "degradeInFlightRuns now j db =
     fold (degrade_one now j) (filter (\<lambda>r. in_flight (rr_status r)) (db_runs db)) (db, [])"

section \<open>Keep and revert\<close>

text \<open>\<open>heads\<close> is the pair of \<^verbatim>\<open>meta.head\<close> and \<^verbatim>\<open>meta.prevHead\<close>.\<close>

type_synonym heads = "manifest_id option \<times> manifest_id option"

definition setHead :: "manifest_id option \<Rightarrow> heads \<Rightarrow> heads" where
  "setHead h hs = (if fst hs = h then hs else (h, fst hs))"

datatype disposition_error =
  DeStaleEpoch | DeNotFound | DeAlreadyKept | DeAlreadyReverted | DeNoPreManifest | DeNoPostManifest | DeRunActive

record disposition_result =
  dr_ok :: bool
  dr_error :: "disposition_error option"
  dr_disposition :: run_disposition
  dr_head :: "manifest_id option"
  dr_applied :: bool
  dr_currentEpoch :: nat

definition disposition_res :: "heads \<Rightarrow> nat \<Rightarrow> bool \<Rightarrow> disposition_error option \<Rightarrow> run_disposition \<Rightarrow> bool \<Rightarrow> disposition_result" where
  "disposition_res hs epoch ok err d applied =
     \<lparr>dr_ok = ok, dr_error = err, dr_disposition = d, dr_head = fst hs, dr_applied = applied, dr_currentEpoch = epoch\<rparr>"

definition markDisposition :: "time \<Rightarrow> run_id \<Rightarrow> run_disposition \<Rightarrow> run_db \<Rightarrow> run_db" where
  "markDisposition now run d =
     update_runs (\<lambda>r. rr_id r = run) (\<lambda>r. r\<lparr>rr_disposition := d, rr_dispositionAt := Some now\<rparr>)"

definition falsy :: "string option \<Rightarrow> bool" where
  "falsy s \<longleftrightarrow> s = None \<or> s = Some []"

definition keepRun :: "time \<Rightarrow> nat \<Rightarrow> run_id \<Rightarrow> nat option \<Rightarrow> heads \<Rightarrow> run_db \<Rightarrow> disposition_result \<times> heads \<times> run_db" where
  "keepRun now epoch run observed hs db =
     (let res = (\<lambda>ok err d applied hs'. disposition_res hs' epoch ok err d applied)
      in case runRow run db of
        None \<Rightarrow> (res False (Some DeNotFound) DPending False hs, hs, db)
      | Some row \<Rightarrow>
          if observed \<noteq> None \<and> observed \<noteq> Some epoch then
            (res False (Some DeStaleEpoch) (rr_disposition row) False hs, hs, db)
          else if rr_disposition row = DReverted then
            (res False (Some DeAlreadyReverted) DReverted False hs, hs, db)
          else if rr_disposition row = DKept then (res True None DKept False hs, hs, db)
          else if falsy (rr_postManifest row) then
            (res False (Some DeNoPostManifest) DPending False hs, hs, db)
          else let hs' = (if fst hs \<noteq> rr_postManifest row then setHead (rr_postManifest row) hs else hs)
               in (res True None DKept True hs', hs', markDisposition now run DKept db))"

definition revertRun :: "time \<Rightarrow> nat \<Rightarrow> bool \<Rightarrow> run_id \<Rightarrow> nat option \<Rightarrow> heads \<Rightarrow> run_db
    \<Rightarrow> disposition_result \<times> heads \<times> run_db \<times> control_message list" where
  "revertRun now epoch attached run observed hs db =
     (let res = (\<lambda>ok err d applied hs'. disposition_res hs' epoch ok err d applied)
      in case runRow run db of
        None \<Rightarrow> (res False (Some DeNotFound) DPending False hs, hs, db, [])
      | Some row \<Rightarrow>
          if observed \<noteq> None \<and> observed \<noteq> Some epoch then
            (res False (Some DeStaleEpoch) (rr_disposition row) False hs, hs, db, [])
          else if rr_disposition row = DKept then
            (res False (Some DeAlreadyKept) DKept False hs, hs, db, [])
          else if rr_disposition row = DReverted then (res True None DReverted False hs, hs, db, [])
          else if falsy (rr_preManifest row) then
            (res False (Some DeNoPreManifest) DPending False hs, hs, db, [])
          else if rr_status row \<notin> {Completed, Cancelled, Interrupted} then
            (res False (Some DeRunActive) DPending False hs, hs, db, [])
          else let hs' = setHead (rr_preManifest row) hs
               in (res True None DReverted True hs', hs', markDisposition now run DReverted db,
                   (if attached then [RestoreToManifest (the (rr_preManifest row))] else [])))"

section \<open>Records shown to clients\<close>

record run_record =
  rc_row :: run_row
  rc_cwd :: string
  rc_attention :: nat

definition toRecord :: "string \<Rightarrow> run_row \<Rightarrow> nat \<Rightarrow> run_record" where
  "toRecord root row attention =
     \<lparr>rc_row = row, rc_cwd = resolveRunCwd root (Some (rr_cwd row)), rc_attention = attention\<rparr>"

text \<open>\<^verbatim>\<open>Array.sort\<close> is stable, so equal times keep the \<^verbatim>\<open>ORDER BY seq DESC\<close> of the rows.\<close>

definition listRuns :: "string \<Rightarrow> run_db \<Rightarrow> run_record list" where
  "listRuns root db =
     sort_key (\<lambda>rec. - rr_queuedAt (rc_row rec))
       (map (\<lambda>r. toRecord root r (attentionCount db (rr_id r))) (runRows db))"

record run_detail =
  rd_record :: run_record
  rd_journalLength :: nat
  rd_tailOffset :: nat
  rd_tail :: bytes

definition runDetail :: "string \<Rightarrow> journal \<Rightarrow> run_id \<Rightarrow> run_db \<Rightarrow> run_detail option" where
  "runDetail root j run db =
     (case runRow run db of None \<Rightarrow> None
      | Some row \<Rightarrow>
          let jr = readJournal j run; start = length jr - JOURNAL_TAIL_BYTES
          in Some \<lparr>rd_record = toRecord root row (attentionCount db run), rd_journalLength = length jr,
                   rd_tailOffset = start, rd_tail = drop start jr\<rparr>)"

section \<open>The row of one run\<close>

definition ids_ok :: "run_db \<Rightarrow> bool" where
  "ids_ok db \<longleftrightarrow> distinct (map rr_id (db_runs db))"

lemma find_map_keep:
  assumes "\<And>r. rr_id (f r) = rr_id r"
  shows "find (\<lambda>r. rr_id r = q) (map f rs) = map_option f (find (\<lambda>r. rr_id r = q) rs)"
  using assms by (induction rs) auto

lemma runRow_update:
  assumes "\<And>r. rr_id (f r) = rr_id r"
  shows "runRow q (update_runs c f db) = map_option (\<lambda>r. if c r then f r else r) (runRow q db)"
  unfolding runRow_def update_runs_def sql_update_def
  by (simp add: find_map_keep assms)

lemma find_append: "find P (xs @ ys) = (case find P xs of None \<Rightarrow> find P ys | Some x \<Rightarrow> Some x)"
  by (induction xs) auto

lemma runRow_insert [step_simps]:
  "runRow q (db\<lparr>db_runs := db_runs db @ [r]\<rparr>) =
     (case runRow q db of None \<Rightarrow> if rr_id r = q then Some r else None | Some x \<Rightarrow> Some x)"
  by (cases "find (\<lambda>r. rr_id r = q) (db_runs db)") (simp_all add: runRow_def find_append)

lemma runRow_attention [simp]:
  "runRow q (db\<lparr>db_attention := a\<rparr>) = runRow q db" "runRow q (db\<lparr>db_attention_id := n\<rparr>) = runRow q db"
  by (simp_all add: runRow_def)

lemma ids_attention [simp]:
  "ids_ok (db\<lparr>db_attention := a\<rparr>) = ids_ok db" "ids_ok (db\<lparr>db_attention_id := n\<rparr>) = ids_ok db"
  by (simp_all add: ids_ok_def)

lemma runRow_Some: "runRow q db = Some r \<Longrightarrow> r \<in> set (db_runs db) \<and> rr_id r = q"
  by (auto simp: runRow_def find_Some_iff)

lemma runRow_None: "runRow q db = None \<longleftrightarrow> q \<notin> rr_id ` set (db_runs db)"
  by (auto simp: runRow_def find_None_iff)

lemma find_id_None: "q \<notin> rr_id ` set rs \<Longrightarrow> find (\<lambda>r. rr_id r = q) rs = None"
  by (induction rs) auto

lemma find_id:
  "distinct (map rr_id rs) \<Longrightarrow> find (\<lambda>r. rr_id r = q) rs = Some r \<longleftrightarrow> r \<in> set rs \<and> rr_id r = q"
  by (induction rs) (auto simp: image_iff)

lemma option_eqI: "(\<And>x. a = Some x \<longleftrightarrow> b = Some x) \<Longrightarrow> a = b"
  by (cases a; cases b) auto

lemma find_id_filter:
  assumes "distinct (map rr_id rs)"
  shows "find (\<lambda>r. rr_id r = q) (filter P rs) =
    (case find (\<lambda>r. rr_id r = q) rs of None \<Rightarrow> None | Some r \<Rightarrow> if P r then Some r else None)"
  using assms
proof (induction rs)
  case (Cons r rs)
  then have "rr_id r \<notin> rr_id ` set (filter P rs)" by auto
  then show ?case using Cons by (auto simp: find_id_None)
qed simp

lemma runRow_unique: "ids_ok db \<Longrightarrow> r \<in> set (db_runs db) \<Longrightarrow> runRow (rr_id r) db = Some r"
  by (simp add: ids_ok_def runRow_def find_id)

lemma ids_update [simp]:
  assumes "\<And>r. rr_id (f r) = rr_id r"
  shows "ids_ok (update_runs c f db) = ids_ok db"
proof -
  have "map rr_id (sql_update c f rs) = map rr_id rs" for rs
    unfolding sql_update_def using assms by (induction rs) auto
  then show ?thesis by (simp add: ids_ok_def update_runs_def)
qed

lemma ids_insert: "ids_ok db \<Longrightarrow> runRow (rr_id r) db = None \<Longrightarrow> ids_ok (db\<lparr>db_runs := db_runs db @ [r]\<rparr>)"
  by (auto simp: ids_ok_def runRow_None)

text \<open>
  An operation that loops over rows of distinct runs, each round reading and writing only what
  belongs to its own run, does to each run what the round of that run does.
\<close>

locale run_loop =
  fixes ok :: "'s \<Rightarrow> bool"
    and view :: "run_id \<Rightarrow> 's \<Rightarrow> 'v"
    and body :: "run_row \<Rightarrow> 's \<Rightarrow> 's"
    and local_body :: "run_row \<Rightarrow> 'v \<Rightarrow> 'v"
  assumes body_ok: "ok s \<Longrightarrow> ok (body row s)"
    and body_view: "ok s \<Longrightarrow> view q (body row s) = (if rr_id row = q then local_body row (view q s) else view q s)"
begin

lemma loop_ok: "ok s \<Longrightarrow> ok (fold body rows s)"
  by (induction rows arbitrary: s) (auto intro: body_ok)

lemma loop_view:
  assumes "ok s" "distinct (map rr_id rows)"
  shows "view q (fold body rows s) =
    (case find (\<lambda>r. rr_id r = q) rows of None \<Rightarrow> view q s | Some row \<Rightarrow> local_body row (view q s))"
  using assms
proof (induction rows arbitrary: s)
  case (Cons r rows)
  show ?case
  proof (cases "rr_id r = q")
    case True
    then have "find (\<lambda>r. rr_id r = q) rows = None"
      using Cons.prems(2) by (intro find_id_None) auto
    then show ?thesis
      using Cons True by (simp add: body_ok body_view split: option.split)
  next
    case False
    then have "view q (body r s) = view q s" using Cons.prems(1) by (simp add: body_view)
    then show ?thesis using False Cons by (simp add: body_ok split: option.split)
  qed
qed simp

end

lemma list_ex_claim:
  assumes "ids_ok db"
  shows "list_ex (\<lambda>r. rr_id r = q \<and> P r) (db_runs db) \<longleftrightarrow> (\<exists>r. runRow q db = Some r \<and> P r)"
proof
  assume "list_ex (\<lambda>r. rr_id r = q \<and> P r) (db_runs db)"
  then obtain r where "r \<in> set (db_runs db)" "rr_id r = q" "P r" by (auto simp: list_ex_iff)
  then show "\<exists>r. runRow q db = Some r \<and> P r" using runRow_unique [OF assms] by blast
qed (auto simp: list_ex_iff dest!: runRow_Some)

lemma find_filter_row:
  assumes "ids_ok db"
  shows "find (\<lambda>r. rr_id r = q) (filter P (db_runs db)) =
    (case runRow q db of None \<Rightarrow> None | Some r \<Rightarrow> if P r then Some r else None)"
  using assms unfolding ids_ok_def runRow_def by (rule find_id_filter)

lemma find_sort_row:
  assumes "ids_ok db"
  shows "find (\<lambda>r. rr_id r = q) (sort_key k (filter P (db_runs db))) =
    (case runRow q db of None \<Rightarrow> None | Some r \<Rightarrow> if P r then Some r else None)"
proof -
  have d: "distinct (map rr_id (filter P (db_runs db)))"
    using assms by (simp add: ids_ok_def distinct_map_filter)
  have "distinct (map rr_id (sort_key k (filter P (db_runs db))))"
    using d by (simp add: distinct_map)
  then have "find (\<lambda>r. rr_id r = q) (sort_key k (filter P (db_runs db))) = find (\<lambda>r. rr_id r = q) (filter P (db_runs db))"
    using d by (intro option_eqI) (simp add: find_id)
  then show ?thesis by (simp add: find_filter_row [OF assms])
qed


section \<open>What each operation does to a row\<close>

definition dispatch_row :: "time \<Rightarrow> nat \<Rightarrow> bool \<Rightarrow> run_row \<Rightarrow> run_row" where
  "dispatch_row now epoch ok r =
     (if ok then r\<lparr>rr_dispatched := True, rr_status := Dispatched, rr_dispatchedAt := Some now, rr_epoch := epoch\<rparr>
      else r\<lparr>rr_dispatched := False, rr_status := Queued, rr_dispatchedAt := None, rr_epoch := epoch\<rparr>)"

definition waiting :: "run_row \<Rightarrow> bool" where
  "waiting r \<longleftrightarrow> \<not> rr_dispatched r \<and> rr_status r = Queued"

fun starts_run :: "run_id \<Rightarrow> control_message \<Rightarrow> bool" where
  "starts_run q (StartRun run argv env cwd) = (run = q)"
| "starts_run q _ = False"

lemma starts_start_run [simp]: "starts_run q (start_run root r) \<longleftrightarrow> rr_id r = q"
  by (simp add: start_run_def)

definition dispatch_view :: "run_id \<Rightarrow> run_db \<times> control_message list \<Rightarrow> run_row option \<times> control_message list" where
  "dispatch_view q s = (runRow q (fst s), filter (starts_run q) (snd s))"

definition dispatch_local :: "string \<Rightarrow> time \<Rightarrow> nat \<Rightarrow> (run_id \<Rightarrow> bool) \<Rightarrow> run_row
    \<Rightarrow> run_row option \<times> control_message list \<Rightarrow> run_row option \<times> control_message list" where
  "dispatch_local root now epoch send_ok row v =
     (case fst v of
        None \<Rightarrow> v
      | Some x \<Rightarrow>
          if rr_dispatched x then v
          else (Some (dispatch_row now epoch (send_ok (rr_id row)) x),
                snd v @ (if send_ok (rr_id row) then [start_run root row] else [])))"

lemma runRow_update_at [step_simps]:
  assumes "\<And>r. rr_id (f r) = rr_id r"
  shows "runRow q (update_runs (\<lambda>r. rr_id r = p \<and> P r) f db) =
      (if p = q then map_option (\<lambda>r. if P r then f r else r) (runRow q db) else runRow q db)"
    "runRow q (update_runs (\<lambda>r. rr_id r = p) f db) =
      (if p = q then map_option f (runRow q db) else runRow q db)"
  using assms by (cases "runRow q db"; auto simp: runRow_update dest: runRow_Some)+

lemma dispatch_one_view:
  assumes ids: "ids_ok db"
  shows "dispatch_view q (dispatch_one root now epoch send_ok row (db, out)) =
    (if rr_id row = q then dispatch_local root now epoch send_ok row (dispatch_view q (db, out))
     else dispatch_view q (db, out))"
proof (cases "rr_id row = q")
  case False
  then show ?thesis
    by (simp add: dispatch_one_def Let_def dispatch_view_def step_simps)
next
  case True
  have claim: "list_ex (\<lambda>r. rr_id r = q \<and> \<not> rr_dispatched r) (db_runs db) \<longleftrightarrow> (\<exists>r. runRow q db = Some r \<and> \<not> rr_dispatched r)"
    by (rule list_ex_claim [OF ids])
  show ?thesis
  proof (cases "runRow q db")
    case None
    then show ?thesis using True claim by (simp add: dispatch_one_def Let_def dispatch_view_def dispatch_local_def)
  next
    case (Some x)
    have "rr_id x = q" using runRow_Some [OF Some] by simp
    then show ?thesis
      using True Some claim
      by (simp add: dispatch_one_def Let_def dispatch_view_def dispatch_local_def dispatch_row_def step_simps)
  qed
qed

lemma dispatch_one_ids: "ids_ok db \<Longrightarrow> ids_ok (fst (dispatch_one root now epoch send_ok row (db, out)))"
  by (simp add: dispatch_one_def Let_def)

interpretation dl: run_loop "\<lambda>s. ids_ok (fst s)" dispatch_view
  "dispatch_one root now epoch send_ok" "dispatch_local root now epoch send_ok"
  for root now epoch send_ok
  by unfold_locales (metis dispatch_one_ids prod.collapse, metis dispatch_one_view prod.collapse)

lemma dispatch_spec:
  assumes "ids_ok db" "dispatchQueued root now epoch send_ok db = (db', out)"
  shows "ids_ok db'"
    "runRow q db' = map_option (\<lambda>r. if waiting r then dispatch_row now epoch (send_ok q) r else r) (runRow q db)"
    "filter (starts_run q) out =
       (case runRow q db of None \<Rightarrow> [] | Some r \<Rightarrow> if waiting r \<and> send_ok q then [start_run root r] else [])"
proof -
  let ?body = "dispatch_one root now epoch send_ok"
  have d: "fold ?body (queued_rows db) (db, []) = (db', out)"
    using assms(2) by (simp add: dispatchQueued_def)
  show "ids_ok db'"
    using dl.loop_ok [of "(db, [])" root now epoch send_ok "queued_rows db"] assms(1) by (simp add: d)
  have dist: "distinct (map rr_id (queued_rows db))"
    using assms(1) by (simp add: queued_rows_def distinct_map ids_ok_def inj_on_def)
  have v: "dispatch_view q (db', out) =
      (case find (\<lambda>r. rr_id r = q) (queued_rows db) of None \<Rightarrow> dispatch_view q (db, [])
       | Some row \<Rightarrow> dispatch_local root now epoch send_ok row (dispatch_view q (db, [])))"
    using dl.loop_view [of "(db, [])" "queued_rows db" q root now epoch send_ok] assms(1) dist by (simp add: d)
  have f: "find (\<lambda>r. rr_id r = q) (queued_rows db) =
      (case runRow q db of None \<Rightarrow> None | Some r \<Rightarrow> if waiting r then Some r else None)"
    unfolding queued_rows_def waiting_def by (rule find_sort_row [OF assms(1)])
  show "runRow q db' = map_option (\<lambda>r. if waiting r then dispatch_row now epoch (send_ok q) r else r) (runRow q db)"
    "filter (starts_run q) out =
       (case runRow q db of None \<Rightarrow> [] | Some r \<Rightarrow> if waiting r \<and> send_ok q then [start_run root r] else [])"
    using v f by (auto simp: waiting_def dispatch_view_def dispatch_local_def dest: runRow_Some
        split: option.splits if_splits)
qed


text \<open>Degradation.\<close>

definition requeue_row :: "run_row \<Rightarrow> run_row" where
  "requeue_row r = r\<lparr>rr_status := Queued, rr_dispatched := False, rr_dispatchedAt := None, rr_epoch := 0,
     rr_requeues := Suc (rr_requeues r)\<rparr>"

definition interrupt_row :: "time \<Rightarrow> run_row \<Rightarrow> run_row" where
  "interrupt_row now r = r\<lparr>rr_status := Interrupted, rr_endedAt := coalesce (rr_endedAt r) now\<rparr>"

definition retriable :: "journal \<Rightarrow> run_row \<Rightarrow> bool" where
  "retriable j r \<longleftrightarrow> \<not> run_ran j r \<and> rr_requeues r < MAX_RUN_REQUEUES"

definition degrade_view :: "run_id \<Rightarrow> run_db \<times> do_event list \<Rightarrow> run_row option \<times> bool" where
  "degrade_view q s = (runRow q (fst s), hasUndismissedInterrupted q (fst s))"

definition degrade_local :: "time \<Rightarrow> journal \<Rightarrow> run_row \<Rightarrow> run_row option \<times> bool \<Rightarrow> run_row option \<times> bool" where
  "degrade_local now j row v =
     (if retriable j row then (map_option (\<lambda>x. if in_flight (rr_status x) then requeue_row x else x) (fst v), snd v)
      else (map_option (interrupt_row now) (fst v), True))"

lemma interrupted_update [simp]:
  "hasUndismissedInterrupted q (update_runs c f db) = hasUndismissedInterrupted q db"
  by (simp add: hasUndismissedInterrupted_def update_runs_def)

lemma runs_attention [simp]:
  "runRow q (fst (onAttention now run k db)) = runRow q db"
  "ids_ok (fst (onAttention now run k db)) = ids_ok db"
  "runRow q (fst (raiseInterrupted now run db)) = runRow q db"
  "ids_ok (fst (raiseInterrupted now run db)) = ids_ok db"
  by (simp_all add: onAttention_def raiseInterrupted_def)

lemma raise_badge:
  "hasUndismissedInterrupted q (fst (raiseInterrupted now run db)) \<longleftrightarrow> q = run \<or> hasUndismissedInterrupted q db"
  by (auto simp: raiseInterrupted_def onAttention_def hasUndismissedInterrupted_def)

lemma degrade_one_view:
  "degrade_view q (degrade_one now j row (db, evs)) =
    (if rr_id row = q then degrade_local now j row (degrade_view q (db, evs)) else degrade_view q (db, evs))"
proof -
  obtain db2 evs2 where r: "raiseInterrupted now (rr_id row) (update_runs (\<lambda>r. rr_id r = rr_id row)
      (\<lambda>r. r\<lparr>rr_status := Interrupted, rr_endedAt := coalesce (rr_endedAt r) now\<rparr>) db) = (db2, evs2)"
    by (rule prod.exhaust)
  have d2: "runRow q db2 = (if rr_id row = q then map_option (interrupt_row now) (runRow q db) else runRow q db)" for q
    using arg_cong [OF r, of "\<lambda>x. runRow q (fst x)"] by (auto simp: step_simps interrupt_row_def [abs_def] split: if_splits)
  have b2: "hasUndismissedInterrupted q db2 \<longleftrightarrow> q = rr_id row \<or> hasUndismissedInterrupted q db" for q
    using arg_cong [OF r, of "\<lambda>x. hasUndismissedInterrupted q (fst x)"] by (simp add: raise_badge)
  show ?thesis
    by (auto simp: degrade_one_def Let_def r degrade_view_def degrade_local_def step_simps retriable_def
          requeue_row_def [abs_def] d2 b2 intro!: option.map_cong)
qed

lemma degrade_one_ids: "ids_ok db \<Longrightarrow> ids_ok (fst (degrade_one now j row (db, evs)))"
  by (auto simp: degrade_one_def Let_def split: prod.splits dest: arg_cong [of _ _ "\<lambda>x. ids_ok (fst x)"])

interpretation gl: run_loop "\<lambda>s. ids_ok (fst s)" degrade_view "degrade_one now j" "degrade_local now j"
  for now j
  by unfold_locales (metis degrade_one_ids prod.collapse, metis degrade_one_view prod.collapse)

definition degrade_row :: "time \<Rightarrow> journal \<Rightarrow> run_row \<Rightarrow> run_row" where
  "degrade_row now j r =
     (if \<not> in_flight (rr_status r) then r else if retriable j r then requeue_row r else interrupt_row now r)"

lemma degrade_spec:
  assumes "ids_ok db" "degradeInFlightRuns now j db = (db', evs)"
  shows "ids_ok db'" "runRow q db' = map_option (degrade_row now j) (runRow q db)"
    "hasUndismissedInterrupted q db' \<longleftrightarrow> hasUndismissedInterrupted q db \<or>
       (\<exists>r. runRow q db = Some r \<and> in_flight (rr_status r) \<and> \<not> retriable j r)"
proof -
  let ?rows = "filter (\<lambda>r. in_flight (rr_status r)) (db_runs db)"
  have d: "fold (degrade_one now j) ?rows (db, []) = (db', evs)"
    using assms(2) by (simp add: degradeInFlightRuns_def)
  show "ids_ok db'"
    using gl.loop_ok [of "(db, [])" now j ?rows] assms(1) by (simp only: d fst_conv)
  have "distinct (map rr_id ?rows)"
    using assms(1) by (simp only: ids_ok_def distinct_map_filter)
  then have v: "degrade_view q (db', evs) =
      (case find (\<lambda>r. rr_id r = q) ?rows of None \<Rightarrow> degrade_view q (db, [])
       | Some row \<Rightarrow> degrade_local now j row (degrade_view q (db, [])))"
    using gl.loop_view [of "(db, [])" ?rows q now j] assms(1) by (simp only: d fst_conv)
  note f = find_filter_row [OF assms(1), of q "\<lambda>r. in_flight (rr_status r)"]
  show "runRow q db' = map_option (degrade_row now j) (runRow q db)"
    "hasUndismissedInterrupted q db' \<longleftrightarrow> hasUndismissedInterrupted q db \<or>
       (\<exists>r. runRow q db = Some r \<and> in_flight (rr_status r) \<and> \<not> retriable j r)"
    using v unfolding f
    by (cases "runRow q db"; auto simp: degrade_view_def degrade_local_def degrade_row_def split: if_splits)+
qed


section \<open>Sequences of operations\<close>

datatype run_event =
    ReEnqueue time run_request
  | ReDispatch time nat "run_id \<Rightarrow> bool"
  | ReStop time bool run_id
  | ReStarted time nat run_id manifest_id
  | ReCompleted time nat run_id run_exit manifest_id diff_summary
  | ReDegrade time journal
  | ReAttention time run_id attention_kind
  | ReDismiss nat
  | ReKeep time nat run_id "nat option"
  | ReRevert time nat bool run_id "nat option"

fun is_degrade :: "run_event \<Rightarrow> bool" where
  "is_degrade (ReDegrade _ _) = True"
| "is_degrade _ = False"

fun run_step :: "string \<Rightarrow> run_event \<Rightarrow> heads \<times> run_db \<Rightarrow> (heads \<times> run_db) \<times> control_message list" where
  "run_step root (ReEnqueue now rq) (hs, db) =
     ((hs, case enqueue_insert root now rq db of None \<Rightarrow> db | Some (db', _) \<Rightarrow> db'), [])"
| "run_step root (ReDispatch now epoch ok) (hs, db) =
     (case dispatchQueued root now epoch ok db of (db', out) \<Rightarrow> ((hs, db'), out))"
| "run_step root (ReStop now attached run) (hs, db) =
     (case stopRun now attached run db of (_, db', out, _) \<Rightarrow> ((hs, db'), out))"
| "run_step root (ReStarted now epoch run pre) (hs, db) = ((hs, fst (onRunStarted now epoch run pre db)), [])"
| "run_step root (ReCompleted now epoch run ex post diff) (hs, db) =
     ((hs, fst (onRunCompleted now epoch run ex post diff db)), [])"
| "run_step root (ReDegrade now j) (hs, db) = ((hs, fst (degradeInFlightRuns now j db)), [])"
| "run_step root (ReAttention now run k) (hs, db) = ((hs, fst (onAttention now run k db)), [])"
| "run_step root (ReDismiss aid) (hs, db) = ((hs, fst (snd (dismissAttention aid db))), [])"
| "run_step root (ReKeep now epoch run obs) (hs, db) =
     (case keepRun now epoch run obs hs db of (_, hs', db') \<Rightarrow> ((hs', db'), []))"
| "run_step root (ReRevert now epoch attached run obs) (hs, db) =
     (case revertRun now epoch attached run obs hs db of (_, hs', db', out) \<Rightarrow> ((hs', db'), out))"

fun run_trace :: "string \<Rightarrow> run_event list \<Rightarrow> heads \<times> run_db \<Rightarrow> (heads \<times> run_db) \<times> control_message list" where
  "run_trace root [] s = (s, [])"
| "run_trace root (e # es) s =
     (case run_step root e s of (s1, out1) \<Rightarrow> (case run_trace root es s1 of (s2, out2) \<Rightarrow> (s2, out1 @ out2)))"

abbreviation finished :: "run_status \<Rightarrow> bool" where
  "finished s \<equiv> s \<in> {Completed, Cancelled}"

text \<open>How one operation may move the row of one run, \<open>k\<close> being the \<^verbatim>\<open>start_run\<close> frames it sends for it.\<close>

definition row_kept :: "bool \<Rightarrow> run_row \<Rightarrow> run_row \<Rightarrow> nat \<Rightarrow> bool" where
  "row_kept degrade r r' k \<longleftrightarrow>
     (k = 0 \<or> k = 1 \<and> waiting r \<and> rr_dispatched r')
   \<and> (rr_requeues r' = rr_requeues r \<and> (rr_dispatched r \<longrightarrow> rr_dispatched r')
      \<or> degrade \<and> k = 0 \<and> rr_requeues r < MAX_RUN_REQUEUES \<and> rr_requeues r' = Suc (rr_requeues r))
   \<and> (finished (rr_status r) \<longrightarrow> finished (rr_status r'))
   \<and> (rr_disposition r \<noteq> DPending \<longrightarrow> rr_disposition r' = rr_disposition r)"

definition row_move :: "bool \<Rightarrow> run_row option \<Rightarrow> run_row option \<Rightarrow> nat \<Rightarrow> bool" where
  "row_move degrade a b k =
     (case a of
        None \<Rightarrow> k = 0 \<and> (case b of None \<Rightarrow> True | Some r \<Rightarrow> rr_requeues r = 0)
      | Some r \<Rightarrow> (case b of None \<Rightarrow> False | Some r' \<Rightarrow> row_kept degrade r r' k))"

lemma row_move_same: "row_move d a a 0"
  by (simp add: row_move_def row_kept_def split: option.split)

lemma row_move_map:
  "(\<And>r. a = Some r \<Longrightarrow> row_kept d r (f r) 0) \<Longrightarrow> row_move d a (map_option f a) 0"
  by (simp add: row_move_def split: option.split)

text \<open>The reports and the decisions, row by row.\<close>

lemma enqueue_row:
  assumes "enqueue_insert root now rq db = Some (db', evs)"
  shows "ids_ok db \<Longrightarrow> ids_ok db'" "runRow (rq_runId rq) db = None"
    "q \<noteq> rq_runId rq \<Longrightarrow> runRow q db' = runRow q db"
    "\<exists>r. runRow (rq_runId rq) db' = Some r \<and> waiting r \<and> rr_requeues r = 0 \<and> rr_disposition r = DPending"
  using assms
  by (auto simp: enqueue_insert_def runRow_insert new_row_def waiting_def intro!: ids_insert
      split: if_splits option.splits)

lemma stop_rows:
  assumes "stopRun now attached run db = (res, db', out, evs)"
  shows "ids_ok db' = ids_ok db"
    "runRow q db' = (if q = run then map_option (\<lambda>r.
        if rr_status r \<in> {Completed, Cancelled, Interrupted} then r
        else if \<not> rr_dispatched r then r\<lparr>rr_status := Cancelled, rr_dispatched := True, rr_endedAt := Some now\<rparr>
        else r\<lparr>rr_status := Stopping\<rparr>) (runRow q db) else runRow q db)"
    "filter (starts_run q) out = []"
  using assms by (auto simp: stopRun_def step_simps split: option.splits if_splits)

definition started_row :: "time \<Rightarrow> nat \<Rightarrow> manifest_id \<Rightarrow> run_row \<Rightarrow> run_row" where
  "started_row now epoch pre r =
     r\<lparr>rr_status := (if rr_status r \<in> {Stopping, Completed, Cancelled} then rr_status r else Running),
       rr_startedAt := coalesce (rr_startedAt r) now, rr_preManifest := Some pre, rr_epoch := epoch\<rparr>"

lemma started_rows:
  "ids_ok db \<Longrightarrow> ids_ok (fst (onRunStarted now epoch run pre db))"
  "runRow q (fst (onRunStarted now epoch run pre db)) =
     (if q = run then
        Some (started_row now epoch pre
          (case runRow run db of
             None \<Rightarrow> (new_row run KCommand [] ''/'' Running True now (next_seq db))\<lparr>rr_epoch := epoch\<rparr>
           | Some r \<Rightarrow> r))
      else runRow q db)"
  by (auto simp: onRunStarted_def Let_def step_simps started_row_def [abs_def] new_row_def
      intro!: ids_insert split: option.splits)

definition completed_row :: "time \<Rightarrow> run_exit \<Rightarrow> manifest_id \<Rightarrow> diff_summary \<Rightarrow> run_row \<Rightarrow> run_row" where
  "completed_row now ex post diff r =
     r\<lparr>rr_status := Completed, rr_endedAt := Some now, rr_postManifest := Some post, rr_exit := Some ex,
       rr_diff := Some diff\<rparr>"

lemma completed_rows:
  "ids_ok db \<Longrightarrow> ids_ok (fst (onRunCompleted now epoch run ex post diff db))"
  "runRow q (fst (onRunCompleted now epoch run ex post diff db)) =
     (if q = run then
        Some (completed_row now ex post diff
          (case runRow run db of
             None \<Rightarrow> started_row now epoch post
               ((new_row run KCommand [] ''/'' Running True now (next_seq db))\<lparr>rr_epoch := epoch\<rparr>)
           | Some r \<Rightarrow> r))
      else runRow q db)"
  by (auto simp: onRunCompleted_def Let_def step_simps started_rows completed_row_def [abs_def]
      case_prod_unfold)


lemma mark_rows [step_simps]:
  "ids_ok (markDisposition now run d db) = ids_ok db"
  "runRow q (markDisposition now run d db) =
     (if run = q then map_option (\<lambda>r. r\<lparr>rr_disposition := d, rr_dispositionAt := Some now\<rparr>) (runRow q db) else runRow q db)"
  by (simp_all add: markDisposition_def step_simps)

lemma dismiss_rows [simp]:
  "ids_ok (fst (snd (dismissAttention aid db))) = ids_ok db"
  "runRow q (fst (snd (dismissAttention aid db))) = runRow q db"
  by (simp_all add: dismissAttention_def Let_def)

lemma starts_restore [simp]: "filter (starts_run q) (if b then [RestoreToManifest m] else []) = []"
  by simp

lemma disposition_all: "d \<noteq> DPending \<Longrightarrow> d \<noteq> DKept \<Longrightarrow> d \<noteq> DReverted \<Longrightarrow> False"
  by (cases d) simp_all

lemma keep_rows:
  assumes "keepRun now epoch run obs hs db = (res, hs', db')"
  shows "ids_ok db' = ids_ok db"
    "row_move d (runRow q db) (runRow q db') 0"
  using assms
  by (auto simp: keepRun_def Let_def step_simps row_move_def row_kept_def dest: disposition_all
      split: option.splits if_splits)

lemma revert_rows:
  assumes "revertRun now epoch attached run obs hs db = (res, hs', db', out)"
  shows "ids_ok db' = ids_ok db"
    "row_move d (runRow q db) (runRow q db') 0" "filter (starts_run q) out = []"
proof -
  have "db' = db \<and> out = [] \<or>
      db' = markDisposition now run DReverted db \<and> filter (starts_run q) out = []
        \<and> map_option rr_disposition (runRow run db) = Some DPending"
  proof (cases "runRow run db")
    case (Some row)
    then show ?thesis
      using assms by (cases "rr_disposition row") (auto simp: revertRun_def Let_def split: if_splits)
  qed (use assms in \<open>simp add: revertRun_def Let_def\<close>)
  then show "ids_ok db' = ids_ok db" "row_move d (runRow q db) (runRow q db') 0" "filter (starts_run q) out = []"
    by (auto simp: step_simps row_move_same row_kept_def intro!: row_move_map)
qed

lemma run_step_moves:
  assumes ids: "ids_ok db" and step: "run_step root e (hs, db) = ((hs', db'), out)"
  shows "ids_ok db' \<and> row_move (is_degrade e) (runRow q db) (runRow q db') (length (filter (starts_run q) out))"
proof (cases e)
  case (ReEnqueue now rq)
  show ?thesis
  proof (cases "enqueue_insert root now rq db")
    case None
    then show ?thesis using ReEnqueue step ids by (simp add: row_move_same)
  next
    case (Some x)
    then obtain evs where x: "enqueue_insert root now rq db = Some (db', evs)" and out: "out = []"
      using ReEnqueue step by (auto split: prod.splits)
    show ?thesis
      using enqueue_row [OF x] ids out
      by (cases "q = rq_runId rq") (auto simp: row_move_same, auto simp: row_move_def)
  qed
next
  case (ReDispatch now epoch ok)
  then have d: "dispatchQueued root now epoch ok db = (db', out)" using step by (auto split: prod.splits)
  note s = dispatch_spec [OF ids d]
  show ?thesis
    using s(1) s(2) [of q] s(3) [of q]
    by (cases "runRow q db") (auto simp: row_move_def row_kept_def dispatch_row_def waiting_def)
next
  case (ReStop now attached run)
  then obtain res evs where "stopRun now attached run db = (res, db', out, evs)"
    using step by (auto split: prod.splits)
  note s = stop_rows [OF this]
  show ?thesis
    using s(1) s(2) [of q] s(3) [of q] ids
    by (auto simp: row_move_same row_kept_def intro!: row_move_map)
next
  case (ReStarted now epoch run pre)
  then show ?thesis
    using step ids
    by (cases "runRow run db"; cases "q = run")
       (auto simp: started_rows row_move_same, auto simp: row_move_def row_kept_def started_row_def new_row_def)
next
  case (ReCompleted now epoch run ex post diff)
  then show ?thesis
    using step ids
    by (cases "runRow run db"; cases "q = run")
       (auto simp: completed_rows row_move_same,
        auto simp: row_move_def row_kept_def completed_row_def started_row_def new_row_def)
next
  case (ReDegrade now j)
  then obtain evs where "degradeInFlightRuns now j db = (db', evs)" and out: "out = []"
    using step by (cases "degradeInFlightRuns now j db") auto
  note s = degrade_spec [OF ids this(1)]
  show ?thesis
    using s(1) s(2) [of q] ReDegrade out
    by (auto simp: row_kept_def degrade_row_def requeue_row_def interrupt_row_def retriable_def intro!: row_move_map)
next
  case (ReKeep now epoch run obs)
  then obtain res where k: "keepRun now epoch run obs hs db = (res, hs', db')" and "out = []"
    using step by (auto split: prod.splits)
  then show ?thesis using keep_rows [OF k] ids by simp
next
  case (ReRevert now epoch attached run obs)
  then obtain res where k: "revertRun now epoch attached run obs hs db = (res, hs', db', out)"
    using step by (auto split: prod.splits)
  then show ?thesis using revert_rows [OF k] ids by simp
qed (use step ids in \<open>auto simp: row_move_same\<close>)


text \<open>The budget of \<^verbatim>\<open>start_run\<close> frames of one run.\<close>

definition sent_budget :: "run_row option \<Rightarrow> nat \<Rightarrow> bool" where
  "sent_budget ro n \<longleftrightarrow>
     (case ro of None \<Rightarrow> n = 0
      | Some r \<Rightarrow> n \<le> rr_requeues r + (if rr_dispatched r then 1 else 0) \<and> rr_requeues r \<le> MAX_RUN_REQUEUES)"

lemma row_move_budget:
  assumes "row_move d a b k" "sent_budget a n"
  shows "sent_budget b (n + k)"
proof (cases a)
  case None
  then show ?thesis
    using assms by (cases b) (simp_all add: row_move_def sent_budget_def)
next
  case (Some r)
  then obtain r' where "b = Some r'" "row_kept d r r' k"
    using assms(1) by (cases b) (simp_all add: row_move_def)
  then have b: "b = Some r'" and k: "k = 0 \<or> k = 1 \<and> \<not> rr_dispatched r \<and> rr_dispatched r'"
    and q: "rr_requeues r' = rr_requeues r \<and> (rr_dispatched r \<longrightarrow> rr_dispatched r')
      \<or> d \<and> k = 0 \<and> rr_requeues r < MAX_RUN_REQUEUES \<and> rr_requeues r' = Suc (rr_requeues r)"
    by (auto simp only: row_kept_def waiting_def)
  have n: "n \<le> rr_requeues r + (if rr_dispatched r then 1 else 0)" "rr_requeues r \<le> MAX_RUN_REQUEUES"
    using assms(2) Some by (simp_all add: sent_budget_def)
  show ?thesis
    using k q n unfolding b sent_budget_def option.case by (elim disjE conjE) (simp_all split: if_splits)
qed

lemma run_trace_budget:
  assumes "ids_ok db" "sent_budget (runRow q db) n" "run_trace root es (hs, db) = ((hs', db'), out)"
  shows "ids_ok db' \<and> sent_budget (runRow q db') (n + length (filter (starts_run q) out))"
  using assms
proof (induction es arbitrary: hs db n out)
  case (Cons e es)
  obtain hs1 db1 out1 where s: "run_step root e (hs, db) = ((hs1, db1), out1)" by (metis surj_pair)
  obtain out2 where t: "run_trace root es (hs1, db1) = ((hs', db'), out2)" and out: "out = out1 @ out2"
    using Cons.prems(3) s by (auto split: prod.splits)
  note m = run_step_moves [OF Cons.prems(1) s, of q]
  have "sent_budget (runRow q db1) (n + length (filter (starts_run q) out1))"
    using row_move_budget [of "is_degrade e"] m Cons.prems(2) by blast
  from Cons.IH [OF _ this t] m show ?case by (simp add: out add.assoc)
qed simp

lemma run_trace_latch:
  assumes "ids_ok db" "case runRow q db of None \<Rightarrow> n = 0 | Some r \<Rightarrow> n \<le> (if rr_dispatched r then 1 else 0)"
    "list_all (\<lambda>e. \<not> is_degrade e) es" "run_trace root es (hs, db) = ((hs', db'), out)"
  shows "n + length (filter (starts_run q) out) \<le> 1"
  using assms
proof (induction es arbitrary: hs db n out)
  case (Cons e es)
  obtain hs1 db1 out1 where s: "run_step root e (hs, db) = ((hs1, db1), out1)" by (metis surj_pair)
  obtain out2 where t: "run_trace root es (hs1, db1) = ((hs', db'), out2)" and out: "out = out1 @ out2"
    using Cons.prems(4) s by (auto split: prod.splits)
  have nd: "\<not> is_degrade e" "list_all (\<lambda>e. \<not> is_degrade e) es" using Cons.prems(3) by simp_all
  note m = run_step_moves [OF Cons.prems(1) s, of q]
  have "case runRow q db1 of None \<Rightarrow> n + length (filter (starts_run q) out1) = 0
      | Some r \<Rightarrow> n + length (filter (starts_run q) out1) \<le> (if rr_dispatched r then 1 else 0)"
    using m nd(1) Cons.prems(2)
    by (auto simp: row_move_def row_kept_def waiting_def split: option.splits if_splits)
  from Cons.IH [OF _ this nd(2) t] m show ?case by (simp add: out add.assoc)
qed (auto split: option.splits if_splits)

lemma run_trace_finished:
  assumes "ids_ok db" "runRow q db = Some r" "finished (rr_status r)" "run_trace root es (hs, db) = ((hs', db'), out)"
  shows "\<exists>r'. runRow q db' = Some r' \<and> finished (rr_status r') \<and> filter (starts_run q) out = []"
  using assms
proof (induction es arbitrary: hs db r out)
  case (Cons e es)
  obtain hs1 db1 out1 where s: "run_step root e (hs, db) = ((hs1, db1), out1)" by (metis surj_pair)
  obtain out2 where t: "run_trace root es (hs1, db1) = ((hs', db'), out2)" and out: "out = out1 @ out2"
    using Cons.prems(4) s by (auto split: prod.splits)
  note m = run_step_moves [OF Cons.prems(1) s, of q]
  obtain r1 where r1: "runRow q db1 = Some r1" "finished (rr_status r1)" and k: "filter (starts_run q) out1 = []"
    using m Cons.prems(2,3) by (auto simp: row_move_def row_kept_def waiting_def split: option.splits)
  from Cons.IH [OF _ r1 t] m show ?case by (auto simp: out k)
qed auto

lemma run_trace_disposition:
  assumes "ids_ok db" "runRow q db = Some r" "rr_disposition r \<noteq> DPending" "run_trace root es (hs, db) = ((hs', db'), out)"
  shows "\<exists>r'. runRow q db' = Some r' \<and> rr_disposition r' = rr_disposition r"
  using assms
proof (induction es arbitrary: hs db r out)
  case (Cons e es)
  obtain hs1 db1 out1 where s: "run_step root e (hs, db) = ((hs1, db1), out1)" by (metis surj_pair)
  obtain out2 where t: "run_trace root es (hs1, db1) = ((hs', db'), out2)"
    using Cons.prems(4) s by (auto split: prod.splits)
  note m = run_step_moves [OF Cons.prems(1) s, of q]
  obtain r1 where "runRow q db1 = Some r1" "rr_disposition r1 = rr_disposition r"
    using m Cons.prems(2,3) by (auto simp: row_move_def row_kept_def split: option.splits)
  with Cons.IH [OF _ this(1) _ t] m Cons.prems(3) show ?case by auto
qed auto

text \<open>One badge per interruption.\<close>

definition badges :: "run_id \<Rightarrow> run_db \<Rightarrow> nat" where
  "badges q db = length (filter (\<lambda>a. at_run a = q \<and> at_kind a = AkInterrupted \<and> \<not> at_dismissed a) (db_attention db))"

lemma badges_zero: "badges q db = 0 \<longleftrightarrow> \<not> hasUndismissedInterrupted q db"
  by (auto simp: badges_def hasUndismissedInterrupted_def list_ex_iff filter_empty_conv)

lemma badges_attention:
  assumes "badges q db \<le> 1"
  shows "badges q (fst (onAttention now run k db)) \<le> 1" "badges q (fst (raiseInterrupted now run db)) \<le> 1"
proof -
  have "badges q (fst (onAttention now run k db)) \<le> 1" for k
  proof (cases "k = AkInterrupted \<and> hasUndismissedInterrupted run db")
    case True
    then show ?thesis using assms by (simp add: onAttention_def)
  next
    case False
    then show ?thesis
      using assms badges_zero [of run db] by (auto simp: onAttention_def badges_def)
  qed
  then show "badges q (fst (onAttention now run k db)) \<le> 1" "badges q (fst (raiseInterrupted now run db)) \<le> 1"
    using assms by (simp_all add: raiseInterrupted_def)
qed

lemma badges_runs [simp]: "badges q (db\<lparr>db_runs := rs\<rparr>) = badges q db" "badges q (update_runs c f db) = badges q db"
  by (simp_all add: badges_def update_runs_def)

lemma badges_degrade:
  assumes "badges q db \<le> 1"
  shows "badges q (fst (fold (degrade_one now j) rows (db, evs))) \<le> 1"
  using assms
proof (induction rows arbitrary: db evs)
  case (Cons r rows)
  obtain db1 evs1 where d: "degrade_one now j r (db, evs) = (db1, evs1)" by (rule prod.exhaust)
  have "badges q (fst (degrade_one now j r (db, evs))) \<le> 1"
    using Cons.prems badges_attention(2) [of q "update_runs (\<lambda>x. rr_id x = rr_id r)
        (\<lambda>x. x\<lparr>rr_status := Interrupted, rr_endedAt := coalesce (rr_endedAt x) now\<rparr>) db" now "rr_id r"]
    by (simp add: degrade_one_def Let_def case_prod_unfold)
  with Cons.IH [of db1 evs1] show ?case by (simp add: d)
qed simp

lemma badges_fold_dispatch: "badges q (fst (fold (dispatch_one root now epoch ok) rows s)) = badges q (fst s)"
proof (induction rows arbitrary: s)
  case (Cons r rows)
  have "badges q (fst (dispatch_one root now epoch ok r s)) = badges q (fst s)"
    by (cases s) (simp add: dispatch_one_def Let_def)
  with Cons show ?case by simp
qed simp

lemma badges_dismiss: "badges q (fst (snd (dismissAttention aid db))) \<le> badges q db"
proof -
  have "length (filter P (sql_update c f xs)) \<le> length (filter P xs)"
    if "\<And>x. c x \<Longrightarrow> \<not> P (f x)" for P c and f :: "attention_row \<Rightarrow> attention_row" and xs
    using that unfolding sql_update_def by (induction xs) auto
  then show ?thesis by (simp add: dismissAttention_def Let_def badges_def)
qed

lemma run_step_badges:
  assumes "badges q (snd s) \<le> 1"
  shows "badges q (snd (fst (run_step root e s))) \<le> 1"
proof -
  obtain hs db where s: "s = (hs, db)" by (cases s)
  have b: "badges q db \<le> 1" using assms by (simp add: s)
  have st: "badges q (fst (onRunStarted now epoch run pre db)) = badges q db" for now epoch run pre
    by (simp add: onRunStarted_def Let_def)
  show ?thesis
  proof (cases e)
    case (ReDispatch now epoch ok)
    then show ?thesis
      using b badges_fold_dispatch [of q root now epoch ok "queued_rows db" "(db, [])"]
      by (simp add: s dispatchQueued_def case_prod_unfold)
  next
    case (ReDegrade now j)
    then show ?thesis using badges_degrade [OF b] by (simp add: s degradeInFlightRuns_def)
  next
    case (ReAttention now run k)
    then show ?thesis using badges_attention(1) [OF b] by (simp add: s)
  next
    case (ReDismiss aid)
    then show ?thesis using badges_dismiss [of q aid db] b by (simp add: s)
  qed (use b st in \<open>auto simp: s enqueue_insert_def stopRun_def onRunCompleted_def Let_def case_prod_unfold
        keepRun_def revertRun_def markDisposition_def split: option.splits\<close>)
qed

lemma run_trace_badges: "badges q (snd s) \<le> 1 \<Longrightarrow> badges q (snd (fst (run_trace root es s))) \<le> 1"
proof (induction es arbitrary: s)
  case (Cons e es)
  then show ?case using run_step_badges [OF Cons.prems, of root e] by (simp add: case_prod_unfold)
qed simp

text \<open>Frames go out in queue order.\<close>

lemma dispatch_one_out:
  assumes "ids_ok db" "runRow (rr_id row) db = Some x" "\<not> rr_dispatched x"
  shows "snd (dispatch_one root now epoch ok row (db, out)) = out @ (if ok (rr_id row) then [start_run root row] else [])"
  using list_ex_claim [OF assms(1), of "rr_id row" "\<lambda>r. \<not> rr_dispatched r"] assms(2,3)
  by (simp add: dispatch_one_def Let_def)

lemma dispatch_fold_out:
  assumes "ids_ok db" "distinct (map rr_id rows)" "\<forall>row \<in> set rows. \<exists>x. runRow (rr_id row) db = Some x \<and> \<not> rr_dispatched x"
  shows "snd (fold (dispatch_one root now epoch ok) rows (db, out)) =
    out @ map (start_run root) (filter (\<lambda>r. ok (rr_id r)) rows)"
  using assms
proof (induction rows arbitrary: db out)
  case (Cons row rows)
  obtain db1 out1 where d: "dispatch_one root now epoch ok row (db, out) = (db1, out1)" by (rule prod.exhaust)
  have i: "ids_ok db1" using dispatch_one_ids [OF Cons.prems(1), of root now epoch ok row out] by (simp add: d)
  obtain x where x: "runRow (rr_id row) db = Some x" "\<not> rr_dispatched x" using Cons.prems(3) by auto
  have o: "out1 = out @ (if ok (rr_id row) then [start_run root row] else [])"
    using dispatch_one_out [OF Cons.prems(1) x, of root now epoch ok out] by (simp add: d)
  have rest: "\<forall>r \<in> set rows. \<exists>x. runRow (rr_id r) db1 = Some x \<and> \<not> rr_dispatched x"
  proof
    fix r assume r: "r \<in> set rows"
    then have "rr_id row \<noteq> rr_id r" using Cons.prems(2) by auto
    then have "runRow (rr_id r) db1 = runRow (rr_id r) db"
      using dispatch_one_view [OF Cons.prems(1), of "rr_id r" root now epoch ok row out] by (simp add: d dispatch_view_def)
    then show "\<exists>x. runRow (rr_id r) db1 = Some x \<and> \<not> rr_dispatched x" using Cons.prems(3) r by simp
  qed
  show ?case
    using Cons.IH [OF i _ rest, of out1] Cons.prems(2) by (simp add: d o)
qed simp

lemma dispatch_out:
  assumes "ids_ok db"
  shows "snd (dispatchQueued root now epoch ok db) = map (start_run root) (filter (\<lambda>r. ok (rr_id r)) (queued_rows db))"
proof -
  have "distinct (map rr_id (queued_rows db))"
    using assms by (simp add: queued_rows_def distinct_map ids_ok_def inj_on_def)
  moreover have "\<forall>row \<in> set (queued_rows db). \<exists>x. runRow (rr_id row) db = Some x \<and> \<not> rr_dispatched x"
    using runRow_unique [OF assms] by (auto simp: queued_rows_def)
  ultimately show ?thesis
    using dispatch_fold_out [OF assms] by (simp add: dispatchQueued_def)
qed


section \<open>Properties\<close>

text \<open>C5: A run is handed to a supervisor at most twice in its life, and at most once as long as no
  machine is lost: for every sequence of requests, dispatches (with any pattern of failing sends), stops,
  supervisor reports, degradations and decisions from an empty table, the number of \<open>start_run\<close>
  frames ever sent for a run is at most \<open>1 + MAX_RUN_REQUEUES\<close>, and at most 1 without a degradation.\<close>

theorem dispatch_exactly_once:
  assumes "run_trace root es (hs, empty_db) = ((hs', db'), out)"
  shows "length (filter (starts_run q) out) \<le> 1 + MAX_RUN_REQUEUES
    \<and> (list_all (\<lambda>e. \<not> is_degrade e) es \<longrightarrow> length (filter (starts_run q) out) \<le> 1)"
proof -
  have e: "ids_ok empty_db" "runRow q empty_db = None" by (simp_all add: empty_db_def ids_ok_def runRow_def)
  have "sent_budget (runRow q db') (length (filter (starts_run q) out))"
    using run_trace_budget [OF e(1) _ assms, of q 0] e(2) by (simp add: sent_budget_def)
  then show ?thesis
    using run_trace_latch [where q = q and n = 0, OF e(1) _ _ assms] e(2)
    by (auto simp: sent_budget_def split: option.splits if_splits)
qed

text \<open>A dispatch hands over exactly the waiting runs, in the order they were requested: the frames
  sent are the \<open>start_run\<close> of the queued rows whose send succeeds, in \<open>seq\<close> order; each of those rows
  is latched and carries the current epoch; a row whose send failed is queued again; no other row changes.\<close>

theorem dispatch_hands_over_queue:
  assumes "ids_ok db" "dispatchQueued root now epoch send_ok db = (db', out)"
  shows "out = map (start_run root) (filter (\<lambda>r. send_ok (rr_id r)) (queued_rows db))
    \<and> (\<forall>q r. runRow q db = Some r \<longrightarrow>
          runRow q db' = Some (if waiting r then dispatch_row now epoch (send_ok q) r else r))
    \<and> (\<forall>q. runRow q db = None \<longrightarrow> runRow q db' = None)
    \<and> (hasQueuedRuns db' \<longrightarrow> (\<exists>r \<in> set (queued_rows db). \<not> send_ok (rr_id r)))"
proof -
  note s = dispatch_spec [OF assms]
  have "\<exists>r \<in> set (queued_rows db). \<not> send_ok (rr_id r)" if q': "hasQueuedRuns db'"
  proof -
    obtain r' where r': "r' \<in> set (db_runs db')" "waiting r'"
      using q' unfolding hasQueuedRuns_def list_ex_iff waiting_def by blast
    have "runRow (rr_id r') db' = Some r'" by (rule runRow_unique [OF s(1) r'(1)])
    then obtain r where r: "runRow (rr_id r') db = Some r"
      and e: "r' = (if waiting r then dispatch_row now epoch (send_ok (rr_id r')) r else r)"
      using s(2) [of "rr_id r'"] by auto
    have w: "waiting r" using e r'(2) by (cases "waiting r") auto
    moreover have "\<not> send_ok (rr_id r')"
    proof
      assume "send_ok (rr_id r')"
      then have "rr_dispatched r'" by (subst e) (simp add: w dispatch_row_def)
      then show False using r'(2) by (simp add: waiting_def)
    qed
    moreover note r
    ultimately show ?thesis
      using runRow_Some [OF r] by (auto simp: queued_rows_def waiting_def intro!: bexI [of _ r])
  qed
  then show ?thesis
    using s(2) dispatch_out [OF assms(1), of root now epoch send_ok] by (auto simp: assms(2))
qed

text \<open>A run that is over stays over: once a run is completed or cancelled, no later operation
  hands it to a supervisor or moves it out of these two statuses, whatever late, duplicated or
  reordered reports arrive.\<close>

theorem finished_stays_finished:
  assumes "ids_ok db" "runRow q db = Some r" "finished (rr_status r)"
    and "run_trace root es (hs, db) = ((hs', db'), out)"
  shows "\<exists>r'. runRow q db' = Some r' \<and> finished (rr_status r') \<and> filter (starts_run q) out = []"
  using assms by (rule run_trace_finished)

text \<open>What a lost machine does to its runs: a run in flight that produced nothing and was not
  requeued before goes back to the queue; any other run in flight is interrupted, keeps its journal and
  has an undismissed interruption badge; every run not in flight is left as it was.\<close>

theorem degrade_classifies:
  assumes "ids_ok db" "degradeInFlightRuns now j db = (db', evs)" "runRow q db = Some r"
  shows "(in_flight (rr_status r) \<and> retriable j r \<longrightarrow> runRow q db' = Some (requeue_row r) \<and> waiting (requeue_row r))
    \<and> (in_flight (rr_status r) \<and> \<not> retriable j r \<longrightarrow>
         runRow q db' = Some (interrupt_row now r) \<and> hasUndismissedInterrupted q db')
    \<and> (\<not> in_flight (rr_status r) \<longrightarrow> runRow q db' = Some r)"
  using degrade_spec(2) [OF assms(1,2), of q] degrade_spec(3) [OF assms(1,2), of q] assms(3)
  by (auto simp: degrade_row_def requeue_row_def waiting_def)

text \<open>A run the user stopped before it produced anything is started again when its machine is
  lost: stopping it leaves the row \<open>stopping\<close>, the degradation queues it like any run that never ran,
  and the next dispatch sends \<open>start_run\<close> for it.\<close>

theorem stopped_run_restarted:
  assumes "ids_ok db" "runRow q db = Some r" "rr_status r = Dispatched" "rr_dispatched r" "retriable j r"
    and "stopRun now True q db = (res, db1, out1, evs1)"
    and "degradeInFlightRuns now' j db1 = (db2, evs2)"
    and "dispatchQueued root now'' epoch (\<lambda>_. True) db2 = (db3, out3)"
  shows "so_status res = Some Stopping \<and> filter (starts_run q) out3 = [start_run root (requeue_row (r\<lparr>rr_status := Stopping\<rparr>))]"
proof -
  note s = stop_rows [OF assms(6)]
  have r1: "runRow q db1 = Some (r\<lparr>rr_status := Stopping\<rparr>)" using s(2) [of q] assms(2-4) by simp
  have i1: "ids_ok db1" using s(1) assms(1) by simp
  have "retriable j (r\<lparr>rr_status := Stopping\<rparr>)" using assms(5) by (simp add: retriable_def run_ran_def)
  then have r2: "runRow q db2 = Some (requeue_row (r\<lparr>rr_status := Stopping\<rparr>))"
    using degrade_spec(2) [OF i1 assms(7), of q] r1 by (simp add: degrade_row_def)
  have "so_status res = Some Stopping" using assms(2-4,6) by (auto simp: stopRun_def)
  then show ?thesis
    using dispatch_spec(3) [OF degrade_spec(1) [OF i1 assms(7)] assms(8), of q] r2
    by (simp add: waiting_def requeue_row_def)
qed

text \<open>Keeping and reverting are decisions taken once: a decided run keeps its disposition through
  every later operation; a caller that observed another epoch, or decides a decided run, changes neither
  tables nor head; a revert that is applied concerns a run that is over, moves the head to the manifest
  from before the run and tells the attached supervisor to restore exactly it.\<close>

theorem disposition_decided_once:
  assumes "ids_ok db" "runRow q db = Some r"
  shows "(rr_disposition r \<noteq> DPending \<longrightarrow>
        (\<forall>root es hs hs' db' out. run_trace root es (hs, db) = ((hs', db'), out) \<longrightarrow>
           (\<exists>r'. runRow q db' = Some r' \<and> rr_disposition r' = rr_disposition r)))
    \<and> (observed \<noteq> None \<and> observed \<noteq> Some epoch \<or> rr_disposition r \<noteq> DPending \<longrightarrow>
         snd (keepRun now epoch q observed hs db) = (hs, db)
       \<and> snd (revertRun now epoch attached q observed hs db) = (hs, db, []))
    \<and> (case revertRun now epoch attached q observed hs db of (res, hs', db', out) \<Rightarrow>
         dr_applied res \<longrightarrow> rr_status r \<in> {Completed, Cancelled, Interrupted} \<and> fst hs' = rr_preManifest r
           \<and> rr_preManifest r \<noteq> None \<and> out = (if attached then [RestoreToManifest (the (rr_preManifest r))] else [])
           \<and> map_option rr_disposition (runRow q db') = Some DReverted)
    \<and> (case keepRun now epoch q observed hs db of (res, hs', db') \<Rightarrow>
         dr_applied res \<longrightarrow> fst hs' = rr_postManifest r \<and> rr_postManifest r \<noteq> None
           \<and> map_option rr_disposition (runRow q db') = Some DKept)"
proof (intro conjI)
  show "rr_disposition r \<noteq> DPending \<longrightarrow>
        (\<forall>root es hs hs' db' out. run_trace root es (hs, db) = ((hs', db'), out) \<longrightarrow>
           (\<exists>r'. runRow q db' = Some r' \<and> rr_disposition r' = rr_disposition r))"
    using run_trace_disposition [OF assms] by blast
qed (use assms(2) in \<open>cases "rr_disposition r";
      simp add: keepRun_def revertRun_def Let_def disposition_res_def setHead_def falsy_def step_simps\<close>)+

text \<open>A user is told once about one interruption: from an empty table, after any sequence of
  operations, every run has at most one undismissed interruption badge, whether the supervisor or the
  control plane raised it.\<close>

theorem one_badge_per_interruption:
  "badges q (snd (fst (run_trace root es (hs, empty_db)))) \<le> 1"
  by (rule run_trace_badges) (simp add: badges_def empty_db_def)


section \<open>The properties at concrete inputs\<close>

definition sample_request :: run_request where
  "sample_request = \<lparr>rq_runId = ''r1'', rq_kind = KCommand, rq_argv = [''ls''], rq_cwd = None, rq_envNames = [],
     rq_agent = None, rq_writePath = None\<rparr>"

definition sample_db :: run_db where
  "sample_db = snd (fst (run_trace ''/work'' [ReEnqueue 1 sample_request] ((None, None), empty_db)))"

lemma sample_ids: "ids_ok sample_db" by code_simp

lemma sample_dispatched_ids: "ids_ok (fst (dispatchQueued ''/work'' 2 1 (\<lambda>_. True) sample_db))" by code_simp

theorem dispatch_exactly_once_witness:
  "let t = run_trace ''/work'' [ReEnqueue 1 sample_request, ReDispatch 2 1 (\<lambda>_. True), ReDispatch 3 1 (\<lambda>_. True)]
             ((None, None), empty_db)
   in length (filter (starts_run ''r1'') (snd t)) = 1 \<and> length (filter (starts_run ''r1'') (snd t)) \<le> 1 + MAX_RUN_REQUEUES"
proof -
  let ?es = "[ReEnqueue 1 sample_request, ReDispatch 2 1 (\<lambda>_. True), ReDispatch 3 1 (\<lambda>_. True)]"
  let ?t = "run_trace ''/work'' ?es ((None, None), empty_db)"
  have "?t = ((fst (fst ?t), snd (fst ?t)), snd ?t)" by simp
  from dispatch_exactly_once [OF this, of "''r1''"]
  have "length (filter (starts_run ''r1'') (snd ?t)) \<le> 1 + MAX_RUN_REQUEUES" by blast
  moreover have "length (filter (starts_run ''r1'') (snd ?t)) = 1" by code_simp
  ultimately show ?thesis by (simp only: Let_def simp_thms)
qed

theorem dispatch_hands_over_queue_witness:
  "snd (dispatchQueued ''/work'' 2 1 (\<lambda>_. True) sample_db) = [StartRun ''r1'' [''ls''] [] ''/work'']
   \<and> \<not> hasQueuedRuns (fst (dispatchQueued ''/work'' 2 1 (\<lambda>_. True) sample_db))"
proof -
  let ?d = "dispatchQueued ''/work'' 2 1 (\<lambda>_. True) sample_db"
  note p = dispatch_hands_over_queue [OF sample_ids prod.collapse [symmetric], of "''/work''" 2 1 "\<lambda>_. True"]
  have "map (start_run ''/work'') (queued_rows sample_db) = [StartRun ''r1'' [''ls''] [] ''/work'']" by code_simp
  with p show ?thesis by auto
qed

theorem finished_stays_finished_witness:
  "let db = fst (snd (stopRun 2 False ''r1'' sample_db)) in
   map_option rr_status (runRow ''r1'' db) = Some Cancelled
   \<and> filter (starts_run ''r1'') (snd (run_trace ''/work'' [ReDispatch 3 1 (\<lambda>_. True), ReStarted 4 1 ''r1'' ''m'']
        ((None, None), db))) = []"
proof -
  let ?db = "fst (snd (stopRun 2 False ''r1'' sample_db))"
  let ?t = "run_trace ''/work'' [ReDispatch 3 1 (\<lambda>_. True), ReStarted 4 1 ''r1'' ''m''] ((None, None), ?db)"
  have i: "ids_ok ?db" by code_simp
  have st: "map_option rr_status (runRow ''r1'' ?db) = Some Cancelled" by code_simp
  then obtain r where r: "runRow ''r1'' ?db = Some r" "finished (rr_status r)" by auto
  have "?t = ((fst (fst ?t), snd (fst ?t)), snd ?t)" by simp
  from finished_stays_finished [OF i r this] have "filter (starts_run ''r1'') (snd ?t) = []" by blast
  with st show ?thesis by (simp only: Let_def simp_thms)
qed

theorem degrade_classifies_witness:
  "let db = fst (dispatchQueued ''/work'' 2 1 (\<lambda>_. True) sample_db) in
   map_option rr_status (runRow ''r1'' (fst (degradeInFlightRuns 3 empty_journal db))) = Some Queued"
proof -
  let ?db = "fst (dispatchQueued ''/work'' 2 1 (\<lambda>_. True) sample_db)"
  have "map_option (\<lambda>r. in_flight (rr_status r) \<and> retriable empty_journal r) (runRow ''r1'' ?db) = Some True" by code_simp
  then obtain r where r: "runRow ''r1'' ?db = Some r" "in_flight (rr_status r)" "retriable empty_journal r" by auto
  from degrade_classifies [OF sample_dispatched_ids prod.collapse [symmetric] r(1), where j = empty_journal and now = 3] r(2,3)
  have "runRow ''r1'' (fst (degradeInFlightRuns 3 empty_journal ?db)) = Some (requeue_row r)" by blast
  then show ?thesis by (simp add: Let_def requeue_row_def)
qed

theorem stopped_run_restarted_witness:
  "let db = fst (dispatchQueued ''/work'' 2 1 (\<lambda>_. True) sample_db);
       db1 = fst (snd (stopRun 3 True ''r1'' db));
       db2 = fst (degradeInFlightRuns 4 empty_journal db1)
   in so_status (fst (stopRun 3 True ''r1'' db)) = Some Stopping
    \<and> length (filter (starts_run ''r1'') (snd (dispatchQueued ''/work'' 5 2 (\<lambda>_. True) db2))) = 1"
proof -
  let ?db = "fst (dispatchQueued ''/work'' 2 1 (\<lambda>_. True) sample_db)"
  have "map_option (\<lambda>r. rr_status r = Dispatched \<and> rr_dispatched r \<and> retriable empty_journal r) (runRow ''r1'' ?db) = Some True"
    by code_simp
  then obtain r where r: "runRow ''r1'' ?db = Some r" "rr_status r = Dispatched" "rr_dispatched r" "retriable empty_journal r"
    by auto
  let ?s = "stopRun 3 True ''r1'' ?db"
  have s: "?s = (fst ?s, fst (snd ?s), fst (snd (snd ?s)), snd (snd (snd ?s)))" by simp
  show ?thesis
    using stopped_run_restarted [OF sample_dispatched_ids r s prod.collapse [symmetric] prod.collapse [symmetric],
        where now' = 4 and root = "''/work''" and now'' = 5 and epoch = 2]
    by (simp add: Let_def)
qed

theorem disposition_decided_once_witness:
  "let db = snd (fst (run_trace ''/work'' [ReEnqueue 1 sample_request, ReDispatch 2 1 (\<lambda>_. True), ReStarted 3 1 ''r1'' ''m0'',
                        ReCompleted 4 1 ''r1'' \<lparr>ex_kind = Exited, ex_code = 0\<rparr> ''m1'' \<lparr>ds_added = 1, ds_modified = 0, ds_removed = 0\<rparr>]
                        ((None, None), empty_db)));
       rv = revertRun 5 1 True ''r1'' (Some 1) (Some ''m1'', None) db
   in dr_applied (fst rv) \<and> fst (fst (snd rv)) = Some ''m0'' \<and> snd (snd (snd rv)) = [RestoreToManifest ''m0'']"
proof -
  let ?db = "snd (fst (run_trace ''/work'' [ReEnqueue 1 sample_request, ReDispatch 2 1 (\<lambda>_. True), ReStarted 3 1 ''r1'' ''m0'',
      ReCompleted 4 1 ''r1'' \<lparr>ex_kind = Exited, ex_code = 0\<rparr> ''m1'' \<lparr>ds_added = 1, ds_modified = 0, ds_removed = 0\<rparr>]
      ((None, None), empty_db)))"
  let ?rv = "revertRun 5 1 True ''r1'' (Some 1) (Some ''m1'', None) ?db"
  have i: "ids_ok ?db" by code_simp
  have "map_option rr_preManifest (runRow ''r1'' ?db) = Some (Some ''m0'')" by code_simp
  then obtain r where r: "runRow ''r1'' ?db = Some r" "rr_preManifest r = Some ''m0''" by auto
  have a: "dr_applied (fst ?rv)" by code_simp
  have "?rv = (fst ?rv, fst (snd ?rv), fst (snd (snd ?rv)), snd (snd (snd ?rv)))" by simp
  then show ?thesis
    using disposition_decided_once [OF i r(1), of "Some 1" 1 5 "(Some ''m1'', None)" True] a r(2)
    by (simp add: Let_def case_prod_unfold)
qed

end
