(* ===== verification/ComputerState.thy ===== *)
theory ComputerState
  imports RunTable
begin

text \<open>
  The state of a computer's Durable Object (\<^verbatim>\<open>packages/control-plane/src/computer-do.ts\<close>): the
  persisted record \<^verbatim>\<open>Meta\<close>, the copy of it in storage, the SQL tables, the one alarm, and what lives in
  memory only (sockets, authentication, the wake in flight).  Then the primitives every operation is
  made of: deadlines and the alarm, persistence, events, incidents, the meter of awake time.

  Deployment variables are a record \<open>config\<close> of their parsed values.  What the outside answers during
  one operation (the substrate, the random token, whether a send succeeds) is a record \<open>answers\<close>;
  \<open>now\<close> is the clock read by the operation.  What an operation asks of the outside is appended to \<open>c_out\<close>.
\<close>

section \<open>Configuration, answers, effects\<close>

type_synonym sock = nat
type_synonym handle = string

record config =
  cf_root :: "string option"
  cf_warmIdle :: "int option"
  cf_coldIdle :: "int option"
  cf_grace :: "int option"
  cf_liveness :: "int option"
  cf_coldFinalize :: "int option"
  cf_wakeTimeout :: "int option"
  cf_s3_store :: bool
  cf_credential_ttl :: int
  cf_supportsWarm :: bool
  cf_resumeBeforeCold :: "handle \<Rightarrow> bool"
  cf_unbacked :: bool
  cf_events :: bool

datatype instance_status = Alive | Gone | Unknown

record answers =
  an_token :: string
  an_materialize :: "handle option"
  an_resume :: bool
  an_destroy :: bool
  an_sleep :: bool
  an_probe :: instance_status
  an_send :: "run_id \<Rightarrow> bool"

datatype effect =
    FxEvent do_event
  | FxFleet computer_state "manifest_id option"
  | FxAwake time time
  | FxRunNote int
  | FxMaterialize nat string "manifest_id option"
  | FxResume handle
  | FxSleep handle
  | FxDestroy handle
  | FxControl sock control_message
  | FxClient sock do_to_client
  | FxClose sock

datatype incident_kind =
    SubstrateLost | SubstrateUnknown | SupervisorLost | FinalSnapshotMissed | DestroyFailed
  | WakeAbandoned | RecoveryExhausted | CredentialRotation

record incident =
  in_id :: nat
  in_kind :: incident_kind
  in_at :: time
  in_epoch :: nat

section \<open>State\<close>

record meta =
  computerId :: "string option"
  state :: computer_state
  epoch :: nat
  token :: "string option"
  head_prev :: heads
  handle_of :: "handle option"
  layout :: "string option"
  idleSince :: time
  armedIdleSince :: "time option"
  coldPending :: bool
  rotationPending :: bool
  wakeRetryAt :: "time option"
  wakeFailures :: nat
  tierAt :: "time option"
  livenessAt :: "time option"
  coldAt :: "time option"
  credentialAt :: "time option"
  wakingAt :: "time option"
  generationAt :: "time option"
  supervisorSeen :: bool
  supervisorLostAt :: "time option"
  livenessStrikes :: nat
  recoveryStreak :: nat
  awakeMs :: int
  awakeSince :: "time option"
  updatedAt :: time

definition initialMeta :: meta where
  "initialMeta = \<lparr>computerId = None, state = StCold, epoch = 0, token = None, head_prev = (None, None),
     handle_of = None, layout = None, idleSince = 0, armedIdleSince = None, coldPending = False,
     rotationPending = False, wakeRetryAt = None, wakeFailures = 0, tierAt = None, livenessAt = None,
     coldAt = None, credentialAt = None, wakingAt = None, generationAt = None, supervisorSeen = False,
     supervisorLostAt = None, livenessStrikes = 0, recoveryStreak = 0, awakeMs = 0, awakeSince = None,
     updatedAt = 0\<rparr>"

text \<open>A wake in flight: what its continuation holds, whether it resumes and the token it minted.\<close>

record wake_flight =
  wf_wasWarm :: bool
  wf_token :: string

record computer =
  c_meta :: meta
  c_stored :: "meta option"
  c_alarm :: "time option"
  c_db :: run_db
  c_journal :: journal
  c_incidents :: "incident list"
  c_incident_id :: nat
  c_supervisor :: "sock option"
  c_auth :: "(sock \<times> nat) list"
  c_clients :: "(sock \<times> run_id list) list"
  c_flight :: "wake_flight option"
  c_lastSupervisorAt :: time
  c_probeCount :: nat
  c_out :: "effect list"

definition fresh_computer :: computer where
  "fresh_computer = \<lparr>c_meta = initialMeta, c_stored = None, c_alarm = None, c_db = empty_db,
     c_journal = empty_journal, c_incidents = [], c_incident_id = 1, c_supervisor = None, c_auth = [],
     c_clients = [], c_flight = None, c_lastSupervisorAt = 0, c_probeCount = 0, c_out = []\<rparr>"

section \<open>Constants and configuration\<close>

definition WAKE_RETRY_MS :: "int list" where
  "WAKE_RETRY_MS = [5000, 20000, 60000, 120000, 240000, 300000]"
definition DEFAULT_SUPERVISOR_GRACE_MS :: int where "DEFAULT_SUPERVISOR_GRACE_MS = 15000"
definition DEFAULT_LIVENESS_MS :: int where "DEFAULT_LIVENESS_MS = 30000"
definition DEFAULT_COLD_FINALIZE_MS :: int where "DEFAULT_COLD_FINALIZE_MS = 20000"
definition DEFAULT_WAKE_TIMEOUT_MS :: int where "DEFAULT_WAKE_TIMEOUT_MS = 120000"
definition WAKING_REVIVE_MS :: int where "WAKING_REVIVE_MS = 500"
definition LIVENESS_STRIKES_MAX :: nat where "LIVENESS_STRIKES_MAX = 2"
definition RECOVERY_STREAK_MAX :: nat where "RECOVERY_STREAK_MAX = 3"
definition DEFAULT_COMPUTER_ROOT :: string where "DEFAULT_COMPUTER_ROOT = ''/work''"
definition DEFAULT_WARM_IDLE_MS :: int where "DEFAULT_WARM_IDLE_MS = 5 * 60 * 1000"
definition DEFAULT_COLD_IDLE_MS :: int where "DEFAULT_COLD_IDLE_MS = 30 * 60 * 1000"
definition INCIDENT_KEEP :: nat where "INCIDENT_KEEP = 100"
definition PROTO_VERSION :: nat where "PROTO_VERSION = 1"

text \<open>\<^verbatim>\<open>numberVar\<close> and its uses: the variable as a number, kept when positive, else the default.\<close>

definition numberVar :: "int option \<Rightarrow> int option" where
  "numberVar v = (case v of None \<Rightarrow> None | Some n \<Rightarrow> if n > 0 then Some n else None)"

definition or_default :: "int option \<Rightarrow> int \<Rightarrow> int" where
  "or_default v d = (case v of None \<Rightarrow> d | Some n \<Rightarrow> n)"

definition warmIdleMs :: "config \<Rightarrow> int" where "warmIdleMs cf = or_default (numberVar (cf_warmIdle cf)) DEFAULT_WARM_IDLE_MS"
definition coldIdleMs :: "config \<Rightarrow> int" where "coldIdleMs cf = or_default (numberVar (cf_coldIdle cf)) DEFAULT_COLD_IDLE_MS"
definition supervisorGraceMs :: "config \<Rightarrow> int" where
  "supervisorGraceMs cf = or_default (numberVar (cf_grace cf)) DEFAULT_SUPERVISOR_GRACE_MS"
definition livenessMs :: "config \<Rightarrow> int" where "livenessMs cf = or_default (numberVar (cf_liveness cf)) DEFAULT_LIVENESS_MS"
definition coldFinalizeMs :: "config \<Rightarrow> int" where
  "coldFinalizeMs cf = or_default (numberVar (cf_coldFinalize cf)) DEFAULT_COLD_FINALIZE_MS"
definition wakeTimeoutMs :: "config \<Rightarrow> int" where
  "wakeTimeoutMs cf = or_default (numberVar (cf_wakeTimeout cf)) DEFAULT_WAKE_TIMEOUT_MS"

definition computerRoot :: "config \<Rightarrow> string" where
  "computerRoot cf =
     (let root = strip_trailing (CHR ''/'') (case cf_root cf of None \<Rightarrow> DEFAULT_COMPUTER_ROOT | Some r \<Rightarrow> r)
      in if root = [] then ''/'' else root)"

section \<open>Primitives\<close>

definition upd :: "(meta \<Rightarrow> meta) \<Rightarrow> computer \<Rightarrow> computer" where
  "upd f c = c\<lparr>c_meta := f (c_meta c)\<rparr>"

definition fx :: "effect list \<Rightarrow> computer \<Rightarrow> computer" where
  "fx es c = c\<lparr>c_out := c_out c @ es\<rparr>"

definition persist :: "computer \<Rightarrow> computer" where
  "persist c = c\<lparr>c_stored := Some (c_meta c)\<rparr>"

definition setComputerId :: "string option \<Rightarrow> computer \<Rightarrow> computer" where
  "setComputerId cid c =
     (if \<not> falsy cid \<and> falsy (computerId (c_meta c)) then upd (\<lambda>m. m\<lparr>computerId := cid\<rparr>) c else c)"

definition emit :: "config \<Rightarrow> do_event \<Rightarrow> computer \<Rightarrow> computer" where
  "emit cf e c = (if falsy (computerId (c_meta c)) \<or> \<not> cf_events cf then c else fx [FxEvent e] c)"

definition emits :: "config \<Rightarrow> do_event list \<Rightarrow> computer \<Rightarrow> computer" where
  "emits cf es c = fold (emit cf) es c"

definition isCurrentSupervisor :: "computer \<Rightarrow> sock \<Rightarrow> bool" where
  "isCurrentSupervisor c s \<longleftrightarrow> map_of (c_auth c) s = Some (epoch (c_meta c))"

definition liveSupervisor :: "computer \<Rightarrow> bool" where
  "liveSupervisor c \<longleftrightarrow> (case c_supervisor c of None \<Rightarrow> False | Some s \<Rightarrow> isCurrentSupervisor c s)"

definition sendControl :: "control_message \<Rightarrow> computer \<Rightarrow> computer" where
  "sendControl msg c = (case c_supervisor c of None \<Rightarrow> c | Some s \<Rightarrow> fx [FxControl s msg] c)"

definition dropSupervisorSockets :: "computer \<Rightarrow> computer" where
  "dropSupervisorSockets c =
     (let closed = map fst (c_auth c) @ (case c_supervisor c of None \<Rightarrow> [] | Some s \<Rightarrow> [s])
      in (fx (map FxClose closed) c)\<lparr>c_auth := [], c_supervisor := None\<rparr>)"

definition recordIncident :: "time \<Rightarrow> incident_kind \<Rightarrow> computer \<Rightarrow> computer" where
  "recordIncident now k c =
     (let rows = c_incidents c @ [\<lparr>in_id = c_incident_id c, in_kind = k, in_at = now, in_epoch = epoch (c_meta c)\<rparr>]
      in c\<lparr>c_incidents := drop (length rows - INCIDENT_KEEP) rows, c_incident_id := Suc (c_incident_id c)\<rparr>)"

definition listIncidents :: "int \<Rightarrow> computer \<Rightarrow> incident list" where
  "listIncidents limit c = take (nat (max 1 (min (int INCIDENT_KEEP) limit))) (rev (c_incidents c))"

definition syncFleetState :: "time \<Rightarrow> computer \<Rightarrow> computer" where
  "syncFleetState now c =
     (let c1 = persist (upd (\<lambda>m. m\<lparr>updatedAt := now\<rparr>) c)
      in if falsy (computerId (c_meta c1)) then c1
         else fx [FxFleet (state (c_meta c1)) (fst (head_prev (c_meta c1)))] c1)"

definition closeAwakeStretch :: "time \<Rightarrow> bool \<Rightarrow> computer \<Rightarrow> computer" where
  "closeAwakeStretch now reopen c =
     (case awakeSince (c_meta c) of
        None \<Rightarrow> c
      | Some startedAt \<Rightarrow>
          let elapsed = max 0 (now - startedAt);
              c1 = upd (\<lambda>m. m\<lparr>awakeMs := awakeMs m + elapsed, awakeSince := (if reopen then Some now else None)\<rparr>) c
          in if elapsed > 0 then fx [FxAwake startedAt now] c1 else c1)"

text \<open>\<^verbatim>\<open>#awakeSeconds\<close>, in milliseconds.\<close>

definition awakeMillis :: "time \<Rightarrow> computer \<Rightarrow> int" where
  "awakeMillis now c =
     awakeMs (c_meta c) + (case awakeSince (c_meta c) of None \<Rightarrow> 0 | Some s \<Rightarrow> max 0 (now - s))"

section \<open>Deadlines and the alarm\<close>

datatype deadline_name = WakeRetry | WakingD | Liveness | Credential | ColdD | Tier

definition DEADLINES :: "deadline_name list" where
  "DEADLINES = [WakeRetry, WakingD, Liveness, Credential, ColdD, Tier]"

fun deadlineAt :: "deadline_name \<Rightarrow> meta \<Rightarrow> time option" where
  "deadlineAt WakeRetry m = wakeRetryAt m"
| "deadlineAt WakingD m = wakingAt m"
| "deadlineAt Liveness m = livenessAt m"
| "deadlineAt ColdD m = coldAt m"
| "deadlineAt Credential m = credentialAt m"
| "deadlineAt Tier m = tierAt m"

fun set_deadline :: "deadline_name \<Rightarrow> time option \<Rightarrow> meta \<Rightarrow> meta" where
  "set_deadline WakeRetry t m = m\<lparr>wakeRetryAt := t\<rparr>"
| "set_deadline WakingD t m = m\<lparr>wakingAt := t\<rparr>"
| "set_deadline Liveness t m = m\<lparr>livenessAt := t\<rparr>"
| "set_deadline ColdD t m = m\<lparr>coldAt := t\<rparr>"
| "set_deadline Credential t m = m\<lparr>credentialAt := t\<rparr>"
| "set_deadline Tier t m = m\<lparr>tierAt := t\<rparr>"

definition setDeadline :: "deadline_name \<Rightarrow> time option \<Rightarrow> computer \<Rightarrow> computer" where
  "setDeadline name t = upd (set_deadline name t)"

text \<open>The loop over \<^verbatim>\<open>DEADLINES\<close>: the earliest pending time.\<close>

definition earlier :: "time option \<Rightarrow> time option \<Rightarrow> time option" where
  "earlier best t =
     (case t of None \<Rightarrow> best
      | Some a \<Rightarrow> (case best of None \<Rightarrow> Some a | Some b \<Rightarrow> if a < b then Some a else Some b))"

definition earliest :: "meta \<Rightarrow> time option" where
  "earliest m = fold (\<lambda>name best. earlier best (deadlineAt name m)) DEADLINES None"

definition armAlarm :: "computer \<Rightarrow> computer" where
  "armAlarm c = c\<lparr>c_alarm := earliest (c_meta c)\<rparr>"

definition armLiveness :: "config \<Rightarrow> time \<Rightarrow> computer \<Rightarrow> computer" where
  "armLiveness cf now c =
     (let m = c_meta c in
      if state m \<noteq> StAwake then setDeadline Liveness None c
      else if \<not> (supervisorLostAt m \<noteq> None \<or> pendingWork (c_db c) > 0) then setDeadline Liveness None c
      else let at = now + (if supervisorLostAt m \<noteq> None then supervisorGraceMs cf else livenessMs cf)
           in (case livenessAt m of
                 Some current \<Rightarrow> if current \<le> at then c else setDeadline Liveness (Some at) c
               | None \<Rightarrow> setDeadline Liveness (Some at) c))"

definition armTier :: "config \<Rightarrow> time \<Rightarrow> int \<Rightarrow> computer \<Rightarrow> computer" where
  "armTier cf now afterMs c =
     armAlarm (armLiveness cf now
       (setDeadline Tier (Some (now + afterMs)) (upd (\<lambda>m. m\<lparr>armedIdleSince := Some (idleSince m)\<rparr>) c)))"

definition touch :: "config \<Rightarrow> time \<Rightarrow> computer \<Rightarrow> computer" where
  "touch cf now c =
     (let c1 = upd (\<lambda>m. m\<lparr>idleSince := now\<rparr>) c
      in if state (c_meta c1) = StAwake then
           armTier cf now (warmIdleMs cf)
             (if \<not> rotationPending (c_meta c1)
              then setDeadline ColdD None (upd (\<lambda>m. m\<lparr>coldPending := False\<rparr>) c1) else c1)
         else c1)"

section \<open>Journal and runs inside the object\<close>

definition with_db :: "config \<Rightarrow> run_db \<times> do_event list \<Rightarrow> computer \<Rightarrow> computer" where
  "with_db cf r c = emits cf (snd r) (c\<lparr>c_db := fst r\<rparr>)"

definition degradeRuns :: "config \<Rightarrow> time \<Rightarrow> computer \<Rightarrow> computer" where
  "degradeRuns cf now c = with_db cf (degradeInFlightRuns now (c_journal c) (c_db c)) c"

definition dispatchTo :: "config \<Rightarrow> time \<Rightarrow> answers \<Rightarrow> sock \<Rightarrow> computer \<Rightarrow> nat \<times> computer" where
  "dispatchTo cf now ans s c =
     (case dispatchQueued (computerRoot cf) now (epoch (c_meta c)) (an_send ans) (c_db c) of
        (db, msgs) \<Rightarrow> (length msgs, fx (map (FxControl s) msgs) (c\<lparr>c_db := db\<rparr>)))"

end
