(* ===== verification/Lifecycle.thy ===== *)
theory Lifecycle
  imports ComputerState
begin

text \<open>
  The lifecycle of a computer (\<^verbatim>\<open>packages/control-plane/src/computer-do.ts\<close>): wake, its refusal and
  its retry, recovery of a lost machine, sleep, the transition to COLD, and the one alarm with its six
  deadline handlers.  A wake is split where the code awaits the substrate: \<open>wakeInner\<close> runs up to the
  call and leaves the wake in flight, \<open>wake_answer\<close> is the continuation, and any other operation may
  run between the two.  Every other operation runs with the answers of its own substrate calls.
  A handler that throws (a failing storage write) and the concurrency guard of two recoveries are not
  modelled.
\<close>

section \<open>Wake\<close>

record wake_result =
  wr_ok :: bool
  wr_error :: "string option"
  wr_state :: computer_state
  wr_epoch :: nat
  wr_token :: string
  wr_retrying :: bool
  wr_retryAt :: "time option"

datatype wake_outcome = WakeDone wake_result | WakeInFlight

datatype awake_verdict = Supervised | Booting | Broken incident_kind

definition probeInstance :: "answers \<Rightarrow> computer \<Rightarrow> instance_status \<times> computer" where
  "probeInstance ans c =
     (case handle_of (c_meta c) of
        None \<Rightarrow> (Gone, c)
      | Some _ \<Rightarrow> (an_probe ans, c\<lparr>c_probeCount := Suc (c_probeCount c)\<rparr>))"

definition tearDownInstance :: "time \<Rightarrow> answers \<Rightarrow> computer \<Rightarrow> computer" where
  "tearDownInstance now ans c =
     (case handle_of (c_meta c) of
        None \<Rightarrow> c
      | Some h \<Rightarrow>
          let c1 = fx [FxDestroy h] c;
              c2 = (if an_destroy ans then c1 else recordIncident now DestroyFailed c1)
          in upd (\<lambda>m. m\<lparr>handle_of := None\<rparr>) c2)"

definition verifyAwake :: "config \<Rightarrow> time \<Rightarrow> answers \<Rightarrow> computer \<Rightarrow> awake_verdict \<times> computer" where
  "verifyAwake cf now ans c =
     (if liveSupervisor c then (Supervised, c)
      else if now - (case generationAt (c_meta c) of None \<Rightarrow> 0 | Some g \<Rightarrow> g) < supervisorGraceMs cf then (Booting, c)
      else case probeInstance ans c of (st, c1) \<Rightarrow>
        ((case st of Gone \<Rightarrow> Broken SubstrateLost | Unknown \<Rightarrow> Broken SubstrateUnknown
          | Alive \<Rightarrow> Broken SupervisorLost), c1))"

text \<open>\<^verbatim>\<open>#recoverInner\<close> up to the question whether to wake again.\<close>

definition recoverCold :: "config \<Rightarrow> time \<Rightarrow> answers \<Rightarrow> incident_kind \<Rightarrow> computer \<Rightarrow> computer" where
  "recoverCold cf now ans reason c =
     (let c1 = tearDownInstance now ans (recordIncident now reason c);
          c2 = upd (\<lambda>m. m\<lparr>token := None, state := StCold, coldPending := False, rotationPending := False,
                  generationAt := None, supervisorSeen := False, supervisorLostAt := None,
                  livenessStrikes := 0, recoveryStreak := Suc (recoveryStreak m)\<rparr>) c1;
          c3 = closeAwakeStretch now False c2;
          c4 = fold (\<lambda>d. setDeadline d None) [Liveness, Credential, ColdD, WakingD, Tier] c3;
          c5 = syncFleetState now (persist (dropSupervisorSockets c4))
      in persist (degradeRuns cf now (emit cf (EvState StCold) c5)))"

text \<open>\<^verbatim>\<open>#wakeInner\<close> from \<^verbatim>\<open>wasWarm\<close> to the substrate call.\<close>

definition wake_mint :: "config \<Rightarrow> time \<Rightarrow> answers \<Rightarrow> computer \<Rightarrow> computer" where
  "wake_mint cf now ans c =
     (let wasWarm = (state (c_meta c) = StWarm \<and> handle_of (c_meta c) \<noteq> None);
          c1 = setDeadline WakingD (Some (now + wakeTimeoutMs cf * 2)) (upd (\<lambda>m. m\<lparr>state := StWaking\<rparr>) c);
          c2 = emit cf (EvState StWaking) (persist (armAlarm c1));
          c3 = upd (\<lambda>m. m\<lparr>epoch := Suc (epoch m), supervisorSeen := False, supervisorLostAt := None,
                  livenessStrikes := 0, coldPending := False, rotationPending := False,
                  token := Some (an_token ans)\<rparr>) c2;
          c4 = persist (c3\<lparr>c_lastSupervisorAt := 0, c_flight := Some \<lparr>wf_wasWarm = wasWarm, wf_token = an_token ans\<rparr>\<rparr>)
      in fx [if wasWarm then FxResume (the (handle_of (c_meta c4)))
             else FxMaterialize (epoch (c_meta c4)) (an_token ans) (fst (head_prev (c_meta c4)))] c4)"

definition wakeInner :: "config \<Rightarrow> time \<Rightarrow> answers \<Rightarrow> computer \<Rightarrow> wake_outcome \<times> computer" where
  "wakeInner cf now ans c =
     (let m = c_meta c in
      if cf_unbacked cf then
        (WakeDone \<lparr>wr_ok = False, wr_error = Some ''substrate_not_configured'', wr_state = state m,
           wr_epoch = epoch m, wr_token = [], wr_retrying = False, wr_retryAt = None\<rparr>, c)
      else if state m = StAwake \<and> \<not> falsy (token m) \<and> handle_of m \<noteq> None then
        (case verifyAwake cf now ans c of
           (Broken reason, c1) \<Rightarrow> (WakeInFlight, wake_mint cf now ans (recoverCold cf now ans reason c1))
         | (_, c1) \<Rightarrow>
             let c2 = persist (touch cf now c1)
             in (WakeDone \<lparr>wr_ok = True, wr_error = None, wr_state = StAwake, wr_epoch = epoch (c_meta c2),
                   wr_token = the (token (c_meta c2)), wr_retrying = False, wr_retryAt = None\<rparr>, c2))
      else (WakeInFlight, wake_mint cf now ans c))"

definition wake :: "config \<Rightarrow> time \<Rightarrow> answers \<Rightarrow> string option \<Rightarrow> computer \<Rightarrow> wake_outcome \<times> computer" where
  "wake cf now ans cid c =
     (let c1 = setComputerId cid c
      in if c_flight c1 \<noteq> None then (WakeInFlight, c1) else wakeInner cf now ans c1)"

definition wakeInBackground :: "config \<Rightarrow> time \<Rightarrow> answers \<Rightarrow> computer \<Rightarrow> computer" where
  "wakeInBackground cf now ans c =
     (let m = c_meta c in
      if state m = StAwake \<and> \<not> falsy (token m) \<and> handle_of m \<noteq> None \<and> liveSupervisor c then c
      else if c_flight c \<noteq> None then c
      else snd (wake cf now ans None c))"

definition failWake :: "config \<Rightarrow> time \<Rightarrow> answers \<Rightarrow> bool \<Rightarrow> computer \<Rightarrow> computer" where
  "failWake cf now ans wasWarm c =
     (let resumable = (wasWarm \<and> handle_of (c_meta c) \<noteq> None);
          st = (if resumable then StWarm else StCold);
          c1 = upd (\<lambda>m. m\<lparr>state := st\<rparr>) c;
          c2 = (if resumable then c1 else upd (\<lambda>m. m\<lparr>token := None\<rparr>) (tearDownInstance now ans c1));
          c3 = upd (\<lambda>m. m\<lparr>generationAt := None, supervisorSeen := False\<rparr>) c2;
          c4 = fold (\<lambda>d. setDeadline d None) [WakingD, Liveness, Credential] c3;
          attempt = wakeFailures (c_meta c4);
          c5 = upd (\<lambda>m. m\<lparr>wakeFailures := Suc (wakeFailures m), wakeRetryAt := None\<rparr>) (closeAwakeStretch now False c4);
          c6 = (if attempt < length WAKE_RETRY_MS \<and> pendingWork (c_db c5) > 0
                then upd (\<lambda>m. m\<lparr>wakeRetryAt := Some (now + WAKE_RETRY_MS ! attempt)\<rparr>) c5 else c5);
          c7 = (if st = StWarm then upd (\<lambda>m. m\<lparr>armedIdleSince := Some (idleSince m)\<rparr>)
                  (setDeadline Tier (Some (now + coldIdleMs cf)) c6) else c6)
      in emit cf (EvState st) (syncFleetState now (persist (armAlarm c7))))"

text \<open>The substrate accepted.\<close>

definition credential_lead :: "int \<Rightarrow> int" where
  "credential_lead ttlMs = min (60 * 60000) (ttlMs div 10)"

definition wake_complete :: "config \<Rightarrow> time \<Rightarrow> wake_flight \<Rightarrow> handle option \<Rightarrow> computer \<Rightarrow> wake_result \<times> computer" where
  "wake_complete cf now f new c =
     (let c1 = (case new of None \<Rightarrow> c | Some h \<Rightarrow> persist (upd (\<lambda>m. m\<lparr>handle_of := Some h\<rparr>) c));
          c2 = upd (\<lambda>m. m\<lparr>state := StAwake, wakeFailures := 0, wakeRetryAt := None, generationAt := Some now\<rparr>) c1;
          ttlMs = cf_credential_ttl cf * 1000;
          c3 = setDeadline Credential
                 (if cf_s3_store cf then Some (now + ttlMs - credential_lead ttlMs) else None) c2;
          c4 = setDeadline WakingD None c3;
          c5 = upd (\<lambda>m. m\<lparr>awakeSince := (case awakeSince m of None \<Rightarrow> Some now | Some s \<Rightarrow> Some s)\<rparr>) c4;
          c6 = emit cf (EvState StAwake) (syncFleetState now (persist (touch cf now c5)))
      in (\<lparr>wr_ok = True, wr_error = None, wr_state = StAwake, wr_epoch = epoch (c_meta c6),
           wr_token = wf_token f, wr_retrying = False, wr_retryAt = None\<rparr>, c6\<lparr>c_flight := None\<rparr>))"

definition wake_refuse :: "config \<Rightarrow> time \<Rightarrow> answers \<Rightarrow> bool \<Rightarrow> computer \<Rightarrow> wake_outcome \<times> computer" where
  "wake_refuse cf now ans wasWarm c =
     (case (if wasWarm \<and> handle_of (c_meta c) \<noteq> None then probeInstance ans c else (Alive, c)) of
        (st, c1) \<Rightarrow>
          if st = Gone then
            (case wakeInner cf now ans (recoverCold cf now ans SubstrateLost c1) of
               (WakeDone r, c2) \<Rightarrow> (WakeDone r, c2\<lparr>c_flight := None\<rparr>)
             | (WakeInFlight, c2) \<Rightarrow> (WakeInFlight, c2))
          else
            let c2 = failWake cf now ans wasWarm c1; m = c_meta c2
            in (WakeDone \<lparr>wr_ok = False, wr_error = Some ''wake_failed'', wr_state = state m, wr_epoch = epoch m,
                  wr_token = [], wr_retrying = (wakeRetryAt m \<noteq> None), wr_retryAt = wakeRetryAt m\<rparr>,
                c2\<lparr>c_flight := None\<rparr>))"

definition wake_answer :: "config \<Rightarrow> time \<Rightarrow> answers \<Rightarrow> computer \<Rightarrow> wake_outcome option \<times> computer" where
  "wake_answer cf now ans c =
     (case c_flight c of
        None \<Rightarrow> (None, c)
      | Some f \<Rightarrow>
          if wf_wasWarm f \<and> an_resume ans then
            (case wake_complete cf now f None c of (r, c') \<Rightarrow> (Some (WakeDone r), c'))
          else if \<not> wf_wasWarm f \<and> an_materialize ans \<noteq> None then
            (case wake_complete cf now f (an_materialize ans) c of (r, c') \<Rightarrow> (Some (WakeDone r), c'))
          else (case wake_refuse cf now ans (wf_wasWarm f) c of (r, c') \<Rightarrow> (Some r, c')))"

section \<open>Recovery\<close>

definition recover :: "config \<Rightarrow> time \<Rightarrow> answers \<Rightarrow> incident_kind \<Rightarrow> computer \<Rightarrow> computer" where
  "recover cf now ans reason c =
     (let hadWork = (pendingWork (c_db c) > 0);
          c1 = recoverCold cf now ans reason c
      in if recoveryStreak (c_meta c1) > RECOVERY_STREAK_MAX then
           armAlarm (persist (recordIncident now RecoveryExhausted c1))
         else if hadWork \<or> hasQueuedRuns (c_db c1) then wakeInBackground cf now ans c1
         else armAlarm c1)"

section \<open>Sleep and cold\<close>

definition finalizeCold :: "config \<Rightarrow> time \<Rightarrow> answers \<Rightarrow> manifest_id option \<Rightarrow> computer \<Rightarrow> computer" where
  "finalizeCold cf now ans final c =
     (let c1 = (if falsy final then c else upd (\<lambda>m. m\<lparr>head_prev := setHead final (head_prev m)\<rparr>) c);
          c2 = tearDownInstance now ans (upd (\<lambda>m. m\<lparr>coldPending := False, rotationPending := False\<rparr>) c1);
          c3 = upd (\<lambda>m. m\<lparr>token := None, state := StCold, generationAt := None, supervisorSeen := False,
                  supervisorLostAt := None, livenessStrikes := 0\<rparr>) c2;
          c4 = fold (\<lambda>d. setDeadline d None) [Liveness, Credential, ColdD, Tier, WakingD]
                 (closeAwakeStretch now False c3);
          c5 = emit cf (EvState StCold) (syncFleetState now (persist c4));
          c6 = degradeRuns cf now (dropSupervisorSockets c5);
          c7 = (if hasQueuedRuns (c_db c6)
                then upd (\<lambda>m. m\<lparr>wakeFailures := 0, wakeRetryAt := Some (now + hd WAKE_RETRY_MS)\<rparr>) c6 else c6)
      in armAlarm (persist c7))"

definition ask_final :: "config \<Rightarrow> time \<Rightarrow> computer \<Rightarrow> computer" where
  "ask_final cf now c =
     sendControl PrepareForCold (persist (armAlarm
       (setDeadline ColdD (Some (now + coldFinalizeMs cf)) (upd (\<lambda>m. m\<lparr>coldPending := True\<rparr>) c))))"

definition beginCold :: "config \<Rightarrow> time \<Rightarrow> answers \<Rightarrow> computer \<Rightarrow> computer" where
  "beginCold cf now ans c =
     (if liveSupervisor c then
        (case handle_of (c_meta c) of
           Some h \<Rightarrow>
             if cf_resumeBeforeCold cf h then
               let c1 = fx [FxResume h] c
               in if an_resume ans then ask_final cf now c1
                  else finalizeCold cf now ans None (recordIncident now FinalSnapshotMissed c1)
             else ask_final cf now c
         | None \<Rightarrow> ask_final cf now c)
      else finalizeCold cf now ans None
        (if state (c_meta c) = StAwake \<and> handle_of (c_meta c) \<noteq> None
         then recordIncident now FinalSnapshotMissed c else c))"

definition sleepNow :: "config \<Rightarrow> time \<Rightarrow> answers \<Rightarrow> computer \<Rightarrow> computer" where
  "sleepNow cf now ans c =
     (case handle_of (c_meta c) of
        Some h \<Rightarrow>
          if state (c_meta c) = StAwake then
            let c1 = fx [FxSleep h] c
            in if \<not> an_sleep ans then
                 (case probeInstance ans c1 of (st, c2) \<Rightarrow>
                    if st = Gone then recover cf now ans SubstrateLost c2 else c2)
               else
                 let c2 = closeAwakeStretch now False (upd (\<lambda>m. m\<lparr>state := StWarm\<rparr>) c1);
                     c3 = upd (\<lambda>m. m\<lparr>supervisorLostAt := None, armedIdleSince := Some (idleSince m)\<rparr>)
                            (setDeadline Liveness None c2);
                     c4 = armAlarm (setDeadline Tier (Some (now + coldIdleMs cf)) c3)
                 in emit cf (EvState StWarm) (syncFleetState now (persist c4))
          else c
      | None \<Rightarrow> c)"

definition deepSleepNow :: "config \<Rightarrow> time \<Rightarrow> answers \<Rightarrow> computer \<Rightarrow> computer" where
  "deepSleepNow cf now ans c = (if state (c_meta c) = StCold then c else beginCold cf now ans c)"

section \<open>The deadline handlers\<close>

datatype liveness_verdict = VNotAwake | VIdle | VSupervised | VUnsupervisedIdle | VInconclusive | VMute | VRecovered

definition onWakeRetryDeadline :: "config \<Rightarrow> time \<Rightarrow> answers \<Rightarrow> computer \<Rightarrow> computer" where
  "onWakeRetryDeadline cf now ans c =
     (if state (c_meta c) = StAwake then c
      else if pendingWork (c_db c) > 0 then wakeInBackground cf now ans c else c)"

definition onWakingDeadline :: "config \<Rightarrow> time \<Rightarrow> answers \<Rightarrow> computer \<Rightarrow> computer" where
  "onWakingDeadline cf now ans c =
     (if state (c_meta c) \<noteq> StWaking then c
      else if c_flight c \<noteq> None then setDeadline WakingD (Some (now + wakeTimeoutMs cf)) c
      else failWake cf now ans False (recordIncident now WakeAbandoned c))"

definition onLivenessDeadline :: "config \<Rightarrow> time \<Rightarrow> answers \<Rightarrow> computer \<Rightarrow> liveness_verdict \<times> computer" where
  "onLivenessDeadline cf now ans c =
     (if state (c_meta c) \<noteq> StAwake then (VNotAwake, c)
      else let live = liveSupervisor c; pending = pendingWork (c_db c) in
      if live \<and> pending = 0 then (VIdle, upd (\<lambda>m. m\<lparr>supervisorLostAt := None\<rparr>) c)
      else if live \<and> c_lastSupervisorAt c > 0 \<and> now - c_lastSupervisorAt c < livenessMs cf then
        (VSupervised, armLiveness cf now (upd (\<lambda>m. m\<lparr>livenessStrikes := 0\<rparr>) c))
      else case probeInstance ans c of (st, c1) \<Rightarrow>
        let struck = upd (\<lambda>m. m\<lparr>livenessStrikes := Suc (livenessStrikes m)\<rparr>) c1;
            spent = (livenessStrikes (c_meta struck) \<ge> LIVENESS_STRIKES_MAX)
        in (case st of
              Gone \<Rightarrow> (VRecovered, recover cf now ans SubstrateLost c1)
            | Unknown \<Rightarrow>
                if spent then (VRecovered, recover cf now ans SubstrateUnknown struck)
                else (VInconclusive, armLiveness cf now struck)
            | Alive \<Rightarrow>
                if \<not> live then
                  if pending > 0 then (VRecovered, recover cf now ans SupervisorLost c1)
                  else (VUnsupervisedIdle, upd (\<lambda>m. m\<lparr>supervisorLostAt := None\<rparr>) c1)
                else if spent then (VRecovered, recover cf now ans SupervisorLost struck)
                else (VMute, armLiveness cf now struck)))"

definition onColdDeadline :: "config \<Rightarrow> time \<Rightarrow> answers \<Rightarrow> computer \<Rightarrow> computer" where
  "onColdDeadline cf now ans c =
     (if \<not> coldPending (c_meta c) \<or> state (c_meta c) = StCold then c
      else finalizeCold cf now ans None (recordIncident now FinalSnapshotMissed c))"

definition onCredentialDeadline :: "config \<Rightarrow> time \<Rightarrow> answers \<Rightarrow> computer \<Rightarrow> computer" where
  "onCredentialDeadline cf now ans c =
     (if state (c_meta c) \<noteq> StAwake \<and> state (c_meta c) \<noteq> StWarm then c
      else beginCold cf now ans (upd (\<lambda>m. m\<lparr>rotationPending := True\<rparr>) (recordIncident now CredentialRotation c)))"

definition onTierDeadline :: "config \<Rightarrow> time \<Rightarrow> answers \<Rightarrow> computer \<Rightarrow> computer" where
  "onTierDeadline cf now ans c =
     (let m = c_meta c in
      if armedIdleSince m \<noteq> Some (idleSince m) then
        (if state m = StAwake then armTier cf now (warmIdleMs cf) c else c)
      else if state m = StAwake then
        (if \<not> cf_supportsWarm cf then beginCold cf now ans c
         else
           let c1 = (case handle_of m of None \<Rightarrow> c | Some h \<Rightarrow> fx [FxSleep h] c)
           in if handle_of m \<noteq> None \<and> \<not> an_sleep ans then
                (case probeInstance ans c1 of (st, c2) \<Rightarrow>
                   if st = Gone then recover cf now ans SubstrateLost c2 else beginCold cf now ans c2)
              else
                let c2 = setDeadline Liveness None (closeAwakeStretch now False (upd (\<lambda>m. m\<lparr>state := StWarm\<rparr>) c1));
                    c3 = persist (armTier cf now (coldIdleMs cf) c2)
                in emit cf (EvState StWarm) (syncFleetState now c3))
      else if state m = StWarm then beginCold cf now ans c
      else c)"

fun onDeadline :: "config \<Rightarrow> time \<Rightarrow> answers \<Rightarrow> deadline_name \<Rightarrow> computer \<Rightarrow> computer" where
  "onDeadline cf now ans WakeRetry c = onWakeRetryDeadline cf now ans c"
| "onDeadline cf now ans WakingD c = onWakingDeadline cf now ans c"
| "onDeadline cf now ans Liveness c = snd (onLivenessDeadline cf now ans c)"
| "onDeadline cf now ans ColdD c = onColdDeadline cf now ans c"
| "onDeadline cf now ans Credential c = onCredentialDeadline cf now ans c"
| "onDeadline cf now ans Tier c = onTierDeadline cf now ans c"

section \<open>The alarm\<close>

definition alarm_one :: "config \<Rightarrow> time \<Rightarrow> (deadline_name \<Rightarrow> answers) \<Rightarrow> bool \<Rightarrow> deadline_name \<Rightarrow> computer \<Rightarrow> computer" where
  "alarm_one cf now ans forced name c =
     (case deadlineAt name (c_meta c) of
        None \<Rightarrow> c
      | Some scheduled \<Rightarrow>
          if \<not> forced \<and> scheduled > now then c
          else onDeadline cf now (ans name) name (persist (setDeadline name None c)))"

definition due_names :: "time \<Rightarrow> meta \<Rightarrow> deadline_name list" where
  "due_names now m = filter (\<lambda>name. case deadlineAt name m of None \<Rightarrow> False | Some t \<Rightarrow> t \<le> now) DEADLINES"

definition earliest_name :: "meta \<Rightarrow> deadline_name option" where
  "earliest_name m = fold (\<lambda>name best.
     case deadlineAt name m of
       None \<Rightarrow> best
     | Some t \<Rightarrow> (case best of None \<Rightarrow> Some name
                 | Some b \<Rightarrow> if t < the (deadlineAt b m) then Some name else best)) DEADLINES None"

text \<open>The platform clears the alarm when it fires.\<close>

definition alarm :: "config \<Rightarrow> time \<Rightarrow> (deadline_name \<Rightarrow> answers) \<Rightarrow> computer \<Rightarrow> computer" where
  "alarm cf now ans c0 =
     (let c = c0\<lparr>c_alarm := None\<rparr>;
          c1 = (if state (c_meta c) = StAwake then closeAwakeStretch now True c else c);
          due = due_names now (c_meta c1)
      in if due \<noteq> [] then armAlarm (persist (fold (alarm_one cf now ans False) due c1))
         else (case earliest_name (c_meta c1) of
                 None \<Rightarrow> c1
               | Some name \<Rightarrow> armAlarm (persist (alarm_one cf now ans True name c1))))"

definition healthCheck :: "config \<Rightarrow> time \<Rightarrow> answers \<Rightarrow> computer \<Rightarrow> (liveness_verdict \<times> nat) \<times> computer" where
  "healthCheck cf now ans c =
     (case onLivenessDeadline cf now ans c of (v, c1) \<Rightarrow>
        let c2 = armAlarm (persist c1) in ((v, c_probeCount c2 - c_probeCount c), c2))"

section \<open>Eviction and construction\<close>

text \<open>
  The object is evicted and constructed again: memory is gone, the stored record is read back, and a
  computer found WAKING gets a fresh watchdog.  The sockets died with the process.
\<close>

definition evict :: "time \<Rightarrow> computer \<Rightarrow> computer" where
  "evict now c =
     (let m = (case c_stored c of None \<Rightarrow> initialMeta | Some m \<Rightarrow> m);
          c1 = c\<lparr>c_meta := m, c_journal := journal_evict (c_journal c), c_supervisor := None, c_auth := [],
                 c_clients := [], c_flight := None, c_lastSupervisorAt := 0, c_probeCount := 0\<rparr>
      in if state m = StWaking
         then armAlarm (persist (upd (\<lambda>m. m\<lparr>wakingAt := Some (now + WAKING_REVIVE_MS)\<rparr>) c1)) else c1)"

end
