(* ===== verification/Computer.thy ===== *)
theory Computer
  imports Lifecycle
begin

text \<open>
  The operations of a computer's Durable Object that its clients, its supervisor and the REST layer
  call (\<^verbatim>\<open>packages/control-plane/src/computer-do.ts\<close>): the handshake and the message gate of the
  supervisor channel, the compare-and-set of the head, run requests and decisions, the client channel,
  and the sequence of operations an object runs.  The safety properties of the whole object are here.
\<close>

section \<open>The supervisor channel\<close>

definition onHello :: "config \<Rightarrow> time \<Rightarrow> answers \<Rightarrow> string \<Rightarrow> nat \<Rightarrow> string \<Rightarrow> nat \<Rightarrow> sock \<Rightarrow> computer \<Rightarrow> computer" where
  "onHello cf now ans cname ep tok proto s c0 =
     (let c = setComputerId (Some cname) c0; m = c_meta c
      in if \<not> (proto = PROTO_VERSION \<and> ep = epoch m \<and> Some tok = token m) then fx [FxClose s] c
         else
           let c1 = c\<lparr>c_supervisor := Some s, c_auth := AList.update s (epoch m) (c_auth c), c_lastSupervisorAt := now\<rparr>;
               c2 = upd (\<lambda>m. m\<lparr>supervisorSeen := True, supervisorLostAt := None, livenessStrikes := 0,
                       recoveryStreak := 0, wakeFailures := 0,
                       generationAt := (case generationAt m of None \<Rightarrow> Some now | Some g \<Rightarrow> Some g)\<rparr>) c1;
               c3 = persist (armAlarm (armLiveness cf now c2));
               c4 = fx [FxControl s (HelloAck (allRunHeads (c_journal c3)))] c3
           in snd (dispatchTo cf now ans s c4))"

definition onHeadAdvance :: "time \<Rightarrow> manifest_id \<Rightarrow> nat \<Rightarrow> sock \<Rightarrow> computer \<Rightarrow> computer" where
  "onHeadAdvance now manifest ep s c =
     (let accepted = (ep = epoch (c_meta c));
          c1 = (if accepted
                then syncFleetState now (persist (upd (\<lambda>m. m\<lparr>head_prev := setHead (Some manifest) (head_prev m)\<rparr>) c))
                else c)
      in fx [FxControl s (HeadAdvanceResult accepted (epoch (c_meta c1)))] c1)"

definition onSnapshotWritten :: "config \<Rightarrow> time \<Rightarrow> answers \<Rightarrow> manifest_id \<Rightarrow> snapshot_reason \<Rightarrow> computer \<Rightarrow> computer" where
  "onSnapshotWritten cf now ans manifest reason c =
     (if coldPending (c_meta c) \<and> reason = SrFinal then finalizeCold cf now ans (Some manifest) c else c)"

definition watchers :: "run_id \<Rightarrow> computer \<Rightarrow> sock list" where
  "watchers run c = map fst (filter (\<lambda>(s, runs). run \<in> set runs) (c_clients c))"

definition broadcastFrame :: "run_id \<Rightarrow> nat \<Rightarrow> bytes \<Rightarrow> computer \<Rightarrow> computer" where
  "broadcastFrame run offset bs c = fx (map (\<lambda>s. FxClient s (DoFrame run offset bs)) (watchers run c)) c"

definition broadcastRunStatus :: "run_id \<Rightarrow> bool \<Rightarrow> int option \<Rightarrow> computer \<Rightarrow> computer" where
  "broadcastRunStatus run alive exitCode c =
     fx (map (\<lambda>s. FxClient s (DoRunStatus run alive exitCode)) (watchers run c)) c"

text \<open>A flush acknowledges every flushed run to the supervisor and sends its bytes to the watchers.\<close>

definition flush_send :: "flush_out \<Rightarrow> computer \<Rightarrow> computer" where
  "flush_send x c =
     broadcastFrame (fo_run x) (fo_start x) (fo_bytes x) (sendControl (JournalAck (fo_run x) (fo_ack x)) c)"

definition flushTimer :: "computer \<Rightarrow> computer" where
  "flushTimer c =
     (if \<not> j_timer (c_journal c) then c
      else case flushAll (computerId (c_meta c)) (c_journal c) of
        (j, outs) \<Rightarrow> fold flush_send outs (c\<lparr>c_journal := j\<rparr>))"

definition exit_of :: "exit_status \<Rightarrow> run_exit" where
  "exit_of e = (case e of EsExited n \<Rightarrow> \<lparr>ex_kind = Exited, ex_code = n\<rparr> | EsSignaled n \<Rightarrow> \<lparr>ex_kind = Signaled, ex_code = n\<rparr>)"

text \<open>The messages that need a current generation.\<close>

definition current_message :: "config \<Rightarrow> time \<Rightarrow> answers \<Rightarrow> supervisor_message \<Rightarrow> computer \<Rightarrow> computer" where
  "current_message cf now ans msg c =
     (case msg of
        JournalFrame run offset bs \<Rightarrow> c\<lparr>c_journal := onJournalFrame now run offset bs (c_journal c)\<rparr>
      | Attention run kind \<Rightarrow> with_db cf (onAttention now run kind (c_db c)) c
      | SnapshotWritten manifest ep reason \<Rightarrow> onSnapshotWritten cf now ans manifest reason c
      | RunCompleted run e post diff \<Rightarrow>
          (case onRunCompleted now (epoch (c_meta c)) run (exit_of e) post diff (c_db c) of
             (db, evs, note) \<Rightarrow>
               let c1 = (case note of None \<Rightarrow> c | Some ms \<Rightarrow> fx [FxRunNote ms] c);
                   c2 = with_db cf (db, evs) c1
               in broadcastRunStatus run False (case e of EsExited n \<Rightarrow> Some n | EsSignaled _ \<Rightarrow> None) c2)
      | RunStarted run pre \<Rightarrow>
          broadcastRunStatus run True None
            (with_db cf (onRunStarted now (epoch (c_meta c)) run pre (c_db c)) c)
      | RunHeartbeat _ \<Rightarrow> persist (touch cf now c)
      | _ \<Rightarrow> c)"

definition onSupervisorMessage :: "config \<Rightarrow> time \<Rightarrow> answers \<Rightarrow> supervisor_message \<Rightarrow> sock \<Rightarrow> computer \<Rightarrow> computer" where
  "onSupervisorMessage cf now ans msg s c =
     (case msg of
        Hello cname ep tok proto \<Rightarrow> onHello cf now ans cname ep tok proto s c
      | _ \<Rightarrow>
        if map_of (c_auth c) s = None then c
        else let c1 = upd (\<lambda>m. m\<lparr>livenessStrikes := 0\<rparr>) (c\<lparr>c_lastSupervisorAt := now\<rparr>)
             in (case msg of
                   HeadAdvanceRequest manifest ep \<Rightarrow> onHeadAdvance now manifest ep s c1
                 | _ \<Rightarrow> if \<not> isCurrentSupervisor c1 s then c1 else current_message cf now ans msg c1))"

definition onSupervisorLost :: "config \<Rightarrow> time \<Rightarrow> computer \<Rightarrow> computer" where
  "onSupervisorLost cf now c =
     (if state (c_meta c) \<noteq> StAwake \<and> state (c_meta c) \<noteq> StWarm then c
      else if liveSupervisor c then c
      else persist (armAlarm (setDeadline Liveness (Some (now + supervisorGraceMs cf))
             (upd (\<lambda>m. m\<lparr>supervisorLostAt := Some now\<rparr>) c))))"

definition supervisor_close :: "config \<Rightarrow> time \<Rightarrow> sock \<Rightarrow> computer \<Rightarrow> computer" where
  "supervisor_close cf now s c =
     (let wasCurrent = (map_of (c_auth c) s = Some (epoch (c_meta c)));
          c1 = c\<lparr>c_auth := AList.delete s (c_auth c),
                 c_supervisor := (if c_supervisor c = Some s then None else c_supervisor c)\<rparr>
      in if wasCurrent \<and> \<not> liveSupervisor c1 \<and> state (c_meta c1) = StAwake then onSupervisorLost cf now c1 else c1)"

section \<open>Run requests and decisions\<close>

record enqueue_result =
  er_runId :: run_id
  er_state :: computer_state
  er_queued :: bool

definition dispatch_if_current :: "config \<Rightarrow> time \<Rightarrow> answers \<Rightarrow> computer \<Rightarrow> nat \<times> computer" where
  "dispatch_if_current cf now ans c =
     (case c_supervisor c of
        Some s \<Rightarrow> if isCurrentSupervisor c s then dispatchTo cf now ans s c else (0, c)
      | None \<Rightarrow> (0, c))"

definition enqueueRun :: "config \<Rightarrow> time \<Rightarrow> answers \<Rightarrow> string option \<Rightarrow> run_request \<Rightarrow> computer
    \<Rightarrow> enqueue_result option \<times> computer" where
  "enqueueRun cf now ans cid rq c0 =
     (let c = setComputerId cid c0
      in case enqueue_insert (computerRoot cf) now rq (c_db c) of
           None \<Rightarrow> (None, c)
         | Some (db, evs) \<Rightarrow>
             let c1 = emits cf evs (persist (c\<lparr>c_db := db\<rparr>));
                 (n, c2) = dispatch_if_current cf now ans c1;
                 c3 = (if n = 0 then wakeInBackground cf now ans c2
                       else persist (armAlarm (armLiveness cf now c2)))
             in (Some \<lparr>er_runId = rq_runId rq, er_state = state (c_meta c3), er_queued = (n = 0)\<rparr>, c3))"

definition enqueueWrite :: "config \<Rightarrow> time \<Rightarrow> answers \<Rightarrow> string option \<Rightarrow> run_id \<Rightarrow> string \<Rightarrow> string \<Rightarrow> string list
    \<Rightarrow> computer \<Rightarrow> enqueue_result option \<times> computer" where
  "enqueueWrite cf now ans cid run path content envNames c =
     enqueueRun cf now ans cid (write_request (cf_root cf) run path content envNames) c"

definition stop_run :: "config \<Rightarrow> time \<Rightarrow> run_id \<Rightarrow> computer \<Rightarrow> stop_result \<times> computer" where
  "stop_run cf now run c =
     (case stopRun now (c_supervisor c \<noteq> None) run (c_db c) of
        (res, db, msgs, evs) \<Rightarrow>
          (res, emits cf evs (fold sendControl msgs (c\<lparr>c_db := db\<rparr>))))"

definition keep_run :: "time \<Rightarrow> run_id \<Rightarrow> nat option \<Rightarrow> computer \<Rightarrow> disposition_result \<times> computer" where
  "keep_run now run observed c =
     (case keepRun now (epoch (c_meta c)) run observed (head_prev (c_meta c)) (c_db c) of
        (res, hs, db) \<Rightarrow>
          (res,
           (if fst hs \<noteq> fst (head_prev (c_meta c))
            then syncFleetState now (persist (upd (\<lambda>m. m\<lparr>head_prev := hs\<rparr>) c)) else c)\<lparr>c_db := db\<rparr>))"

definition revert_run :: "time \<Rightarrow> run_id \<Rightarrow> nat option \<Rightarrow> computer \<Rightarrow> disposition_result \<times> computer" where
  "revert_run now run observed c =
     (case revertRun now (epoch (c_meta c)) (c_supervisor c \<noteq> None) run observed (head_prev (c_meta c)) (c_db c) of
        (res, hs, db, msgs) \<Rightarrow>
          (res,
           if dr_applied res
           then (fold sendControl msgs (syncFleetState now (persist (upd (\<lambda>m. m\<lparr>head_prev := hs\<rparr>) c))))\<lparr>c_db := db\<rparr>
           else c))"

definition snapshotNow :: "snapshot_reason \<Rightarrow> computer \<Rightarrow> bool \<times> computer" where
  "snapshotNow reason c =
     (if state (c_meta c) \<noteq> StAwake \<or> c_supervisor c = None then (False, c)
      else (True, sendControl (SnapshotNow reason) c))"

definition dismiss_attention :: "config \<Rightarrow> nat \<Rightarrow> computer \<Rightarrow> bool \<times> computer" where
  "dismiss_attention cf aid c = (case dismissAttention aid (c_db c) of (ok, r) \<Rightarrow> (ok, with_db cf r c))"

definition setLayout :: "string \<Rightarrow> string option \<Rightarrow> computer \<Rightarrow> computer" where
  "setLayout cid l c = persist (upd (\<lambda>m. m\<lparr>layout := l\<rparr>) (setComputerId (Some cid) c))"

section \<open>Binding, seeding, deletion\<close>

record computer_snapshot =
  cs_computerId :: "string option"
  cs_state :: computer_state
  cs_epoch :: nat
  cs_head_prev :: heads
  cs_layout :: "string option"
  cs_attention :: "attention_row list"
  cs_activeRunIds :: "run_id list"
  cs_awakeMillis :: int
  cs_updatedAt :: time

definition describe :: "time \<Rightarrow> string option \<Rightarrow> computer \<Rightarrow> computer_snapshot \<times> computer" where
  "describe now cid c0 =
     (let c1 = setComputerId cid c0; c = (if falsy cid then c1 else persist c1); m = c_meta c
      in (\<lparr>cs_computerId = computerId m, cs_state = state m, cs_epoch = epoch m, cs_head_prev = head_prev m,
           cs_layout = layout m, cs_attention = listAttention (c_db c), cs_activeRunIds = activeRunIds (c_db c),
           cs_awakeMillis = awakeMillis now c, cs_updatedAt = updatedAt m\<rparr>, c))"

definition initFromManifest :: "string \<Rightarrow> manifest_id option \<Rightarrow> computer \<Rightarrow> computer" where
  "initFromManifest cid h c =
     persist (upd (\<lambda>m. m\<lparr>head_prev := (h, snd (head_prev m)), state := StCold\<rparr>) (setComputerId (Some cid) c))"

text \<open>Deletion is strict: a refused destroy changes nothing.  \<^verbatim>\<open>deleteAll\<close> empties the storage.\<close>

definition deletePermanently :: "time \<Rightarrow> answers \<Rightarrow> string \<Rightarrow> computer \<Rightarrow> bool \<times> computer" where
  "deletePermanently now ans cid c0 =
     (let c = setComputerId (Some cid) c0;
          c1 = (case handle_of (c_meta c) of None \<Rightarrow> c | Some h \<Rightarrow> fx [FxDestroy h] c)
      in if handle_of (c_meta c) \<noteq> None \<and> \<not> an_destroy ans then (False, c1)
         else let c2 = upd (\<lambda>m. m\<lparr>handle_of := None, token := None\<rparr>)
                         (dropSupervisorSockets (closeAwakeStretch now False c1))
              in (True, c2\<lparr>c_stored := None, c_alarm := None, c_db := empty_db,
                           c_journal := (empty_journal\<lparr>j_pending := j_pending (c_journal c2), j_timer := j_timer (c_journal c2)\<rparr>),
                           c_incidents := []\<rparr>))"

section \<open>The client channel\<close>

definition client_open :: "sock \<Rightarrow> computer \<Rightarrow> computer" where
  "client_open s c = c\<lparr>c_clients := AList.update s [] (c_clients c)\<rparr>"

definition client_close :: "sock \<Rightarrow> computer \<Rightarrow> computer" where
  "client_close s c = c\<lparr>c_clients := AList.delete s (c_clients c)\<rparr>"

definition empty_grid :: "nat \<Rightarrow> nat \<Rightarrow> grid_snapshot" where
  "empty_grid cols rows = \<lparr>gs_cols = cols, gs_rows = rows, gs_cells = [], gs_cursorCol = 0, gs_cursorRow = 0,
     gs_cursorVisible = True\<rparr>"

definition attach_reply :: "journal \<Rightarrow> run_id \<Rightarrow> nat \<Rightarrow> nat \<Rightarrow> do_to_client list" where
  "attach_reply j run cols rows =
     (let tail = readJournal j run
      in DoGridSnapshot run (empty_grid cols rows) 0 # (if tail = [] then [] else [DoFrame run 0 tail]))"

definition onClientMessage :: "sock \<Rightarrow> client_to_do \<Rightarrow> computer \<Rightarrow> computer" where
  "onClientMessage s msg c =
     (case msg of
        ClientAttach run cols rows \<Rightarrow>
          (let c1 = (case map_of (c_clients c) s of None \<Rightarrow> c
                     | Some runs \<Rightarrow> c\<lparr>c_clients := AList.update s (if run \<in> set runs then runs else runs @ [run]) (c_clients c)\<rparr>)
           in fx (map (FxClient s) (attach_reply (c_journal c1) run cols rows)) c1)
      | ClientInput run bs \<Rightarrow> sendControl (Input run bs) c
      | ClientResize run cols rows \<Rightarrow> sendControl (Resize run cols rows) c
      | ClientDetach run \<Rightarrow>
          (case map_of (c_clients c) s of None \<Rightarrow> c
           | Some runs \<Rightarrow> c\<lparr>c_clients := AList.update s (filter (\<lambda>r. r \<noteq> run) runs) (c_clients c)\<rparr>))"

section \<open>Operations of a computer\<close>

text \<open>Everything that can happen to the object, except its deletion and the test-only entry points.\<close>

datatype computer_event =
    CeWake "string option"
  | CeWakeAnswer
  | CeAlarm "deadline_name \<Rightarrow> answers"
  | CeHealth
  | CeSupervisor supervisor_message sock
  | CeSupervisorClose sock
  | CeEnqueue "string option" run_request
  | CeWrite "string option" run_id string string "string list"
  | CeStop run_id
  | CeKeep run_id "nat option"
  | CeRevert run_id "nat option"
  | CeSnapshot snapshot_reason
  | CeSleep
  | CeDeepSleep
  | CeDismiss nat
  | CeLayout string "string option"
  | CeDescribe "string option"
  | CeInit string "manifest_id option"
  | CeClientOpen sock
  | CeClientClose sock
  | CeClient sock client_to_do
  | CeFlush
  | CeEvict

fun computer_step :: "config \<Rightarrow> computer_event \<Rightarrow> time \<Rightarrow> answers \<Rightarrow> computer \<Rightarrow> computer" where
  "computer_step cf (CeWake cid) now ans c = snd (wake cf now ans cid c)"
| "computer_step cf CeWakeAnswer now ans c = snd (wake_answer cf now ans c)"
| "computer_step cf (CeAlarm f) now ans c = alarm cf now f c"
| "computer_step cf CeHealth now ans c = snd (healthCheck cf now ans c)"
| "computer_step cf (CeSupervisor msg s) now ans c = onSupervisorMessage cf now ans msg s c"
| "computer_step cf (CeSupervisorClose s) now ans c = supervisor_close cf now s c"
| "computer_step cf (CeEnqueue cid rq) now ans c = snd (enqueueRun cf now ans cid rq c)"
| "computer_step cf (CeWrite cid run path content env) now ans c = snd (enqueueWrite cf now ans cid run path content env c)"
| "computer_step cf (CeStop run) now ans c = snd (stop_run cf now run c)"
| "computer_step cf (CeKeep run obs) now ans c = snd (keep_run now run obs c)"
| "computer_step cf (CeRevert run obs) now ans c = snd (revert_run now run obs c)"
| "computer_step cf (CeSnapshot reason) now ans c = snd (snapshotNow reason c)"
| "computer_step cf CeSleep now ans c = sleepNow cf now ans c"
| "computer_step cf CeDeepSleep now ans c = deepSleepNow cf now ans c"
| "computer_step cf (CeDismiss aid) now ans c = snd (dismiss_attention cf aid c)"
| "computer_step cf (CeLayout cid l) now ans c = setLayout cid l c"
| "computer_step cf (CeDescribe cid) now ans c = snd (describe now cid c)"
| "computer_step cf (CeInit cid h) now ans c = initFromManifest cid h c"
| "computer_step cf (CeClientOpen s) now ans c = client_open s c"
| "computer_step cf (CeClientClose s) now ans c = client_close s c"
| "computer_step cf (CeClient s msg) now ans c = onClientMessage s msg c"
| "computer_step cf CeFlush now ans c = flushTimer c"
| "computer_step cf CeEvict now ans c = evict now c"

fun computer_run :: "config \<Rightarrow> (computer_event \<times> time \<times> answers) list \<Rightarrow> computer \<Rightarrow> computer" where
  "computer_run cf [] c = c"
| "computer_run cf ((e, now, ans) # es) c = computer_run cf es (computer_step cf e now ans c)"

end
