(* ===== verification/ComputerInv.thy ===== *)
theory ComputerInv
  imports Computer
begin

text \<open>
  The invariant of a computer's Durable Object and its preservation: what each primitive leaves alone
  (\<open>frame_simps\<close>), the two halves of the invariant (\<open>half_ok\<close>, kept by every operation and by every
  handler inside one; \<open>settled\<close>, restored at the end of each operation), the preorder \<open>adv\<close> through
  which the operations compose, and one preservation lemma per operation of the theories Lifecycle and
  Computer.  The last section gives the whole object as a \<open>guarded_machine\<close>.
\<close>

section \<open>What the primitives leave alone\<close>

fun mint_of :: "effect \<Rightarrow> nat option" where
  "mint_of (FxMaterialize e t h) = Some e"
| "mint_of _ = None"

definition mint_list :: "effect list \<Rightarrow> nat list" where
  "mint_list es = List.map_filter mint_of es"

abbreviation mints :: "computer \<Rightarrow> nat list" where "mints c \<equiv> mint_list (c_out c)"

lemma mint_simps [simp]:
  "mint_list [] = []" "mint_list (e # es) = (case mint_of e of None \<Rightarrow> mint_list es | Some n \<Rightarrow> n # mint_list es)"
  by (simp_all add: mint_list_def map_filter_simps split: option.split)

lemma mint_append [simp]: "mint_list (xs @ ys) = mint_list xs @ mint_list ys"
  by (induction xs) (simp_all split: option.split)

lemma mint_map [simp]: "(\<And>x. mint_of (f x) = None) \<Longrightarrow> mint_list (map f xs) = []"
  by (induction xs) simp_all

lemma fx_fields [frame_simps]:
  "c_meta (fx es c) = c_meta c" "c_stored (fx es c) = c_stored c" "c_alarm (fx es c) = c_alarm c"
  "c_db (fx es c) = c_db c" "c_journal (fx es c) = c_journal c" "c_supervisor (fx es c) = c_supervisor c"
  "c_auth (fx es c) = c_auth c" "c_clients (fx es c) = c_clients c" "c_flight (fx es c) = c_flight c"
  "c_out (fx es c) = c_out c @ es"
  by (simp_all add: fx_def)

lemma upd_fields [frame_simps]:
  "c_meta (upd f c) = f (c_meta c)" "c_stored (upd f c) = c_stored c" "c_alarm (upd f c) = c_alarm c"
  "c_db (upd f c) = c_db c" "c_journal (upd f c) = c_journal c" "c_supervisor (upd f c) = c_supervisor c"
  "c_auth (upd f c) = c_auth c" "c_clients (upd f c) = c_clients c" "c_flight (upd f c) = c_flight c"
  "c_out (upd f c) = c_out c"
  by (simp_all add: upd_def)

lemma persist_fields [frame_simps]:
  "c_meta (persist c) = c_meta c" "c_stored (persist c) = Some (c_meta c)" "c_alarm (persist c) = c_alarm c"
  "c_db (persist c) = c_db c" "c_journal (persist c) = c_journal c" "c_supervisor (persist c) = c_supervisor c"
  "c_auth (persist c) = c_auth c" "c_clients (persist c) = c_clients c" "c_flight (persist c) = c_flight c"
  "c_out (persist c) = c_out c"
  by (simp_all add: persist_def)

lemma armAlarm_fields [frame_simps]:
  "c_meta (armAlarm c) = c_meta c" "c_stored (armAlarm c) = c_stored c" "c_alarm (armAlarm c) = earliest (c_meta c)"
  "c_db (armAlarm c) = c_db c" "c_journal (armAlarm c) = c_journal c" "c_supervisor (armAlarm c) = c_supervisor c"
  "c_auth (armAlarm c) = c_auth c" "c_clients (armAlarm c) = c_clients c" "c_flight (armAlarm c) = c_flight c"
  "c_out (armAlarm c) = c_out c"
  by (simp_all add: armAlarm_def)

lemma emit_fields [frame_simps]:
  "c_meta (emit cf e c) = c_meta c" "c_stored (emit cf e c) = c_stored c" "c_alarm (emit cf e c) = c_alarm c"
  "c_db (emit cf e c) = c_db c" "c_journal (emit cf e c) = c_journal c" "c_supervisor (emit cf e c) = c_supervisor c"
  "c_auth (emit cf e c) = c_auth c" "c_clients (emit cf e c) = c_clients c" "c_flight (emit cf e c) = c_flight c"
  "mints (emit cf e c) = mints c"
  by (simp_all add: emit_def frame_simps)

lemma emits_fields [frame_simps]:
  "c_meta (emits cf es c) = c_meta c" "c_stored (emits cf es c) = c_stored c" "c_alarm (emits cf es c) = c_alarm c"
  "c_db (emits cf es c) = c_db c" "c_journal (emits cf es c) = c_journal c" "c_supervisor (emits cf es c) = c_supervisor c"
  "c_auth (emits cf es c) = c_auth c" "c_clients (emits cf es c) = c_clients c" "c_flight (emits cf es c) = c_flight c"
  "mints (emits cf es c) = mints c"
  unfolding emits_def by (induction es arbitrary: c) (simp_all add: frame_simps)

lemma with_db_fields [frame_simps]:
  "c_meta (with_db cf r c) = c_meta c" "c_stored (with_db cf r c) = c_stored c" "c_alarm (with_db cf r c) = c_alarm c"
  "c_db (with_db cf r c) = fst r" "c_journal (with_db cf r c) = c_journal c" "c_supervisor (with_db cf r c) = c_supervisor c"
  "c_auth (with_db cf r c) = c_auth c" "c_clients (with_db cf r c) = c_clients c" "c_flight (with_db cf r c) = c_flight c"
  "mints (with_db cf r c) = mints c"
  by (simp_all add: with_db_def frame_simps)

lemma degrade_fields [frame_simps]:
  "c_meta (degradeRuns cf now c) = c_meta c" "c_stored (degradeRuns cf now c) = c_stored c"
  "c_alarm (degradeRuns cf now c) = c_alarm c" "c_journal (degradeRuns cf now c) = c_journal c"
  "c_supervisor (degradeRuns cf now c) = c_supervisor c" "c_auth (degradeRuns cf now c) = c_auth c"
  "c_clients (degradeRuns cf now c) = c_clients c" "c_flight (degradeRuns cf now c) = c_flight c"
  "mints (degradeRuns cf now c) = mints c"
  by (simp_all add: degradeRuns_def frame_simps)

lemma incident_fields [frame_simps]:
  "c_meta (recordIncident now k c) = c_meta c" "c_stored (recordIncident now k c) = c_stored c"
  "c_alarm (recordIncident now k c) = c_alarm c" "c_db (recordIncident now k c) = c_db c"
  "c_journal (recordIncident now k c) = c_journal c" "c_supervisor (recordIncident now k c) = c_supervisor c"
  "c_auth (recordIncident now k c) = c_auth c" "c_clients (recordIncident now k c) = c_clients c"
  "c_flight (recordIncident now k c) = c_flight c" "c_out (recordIncident now k c) = c_out c"
  by (simp_all add: recordIncident_def Let_def)

lemma send_fields [frame_simps]:
  "c_meta (sendControl m c) = c_meta c" "c_stored (sendControl m c) = c_stored c" "c_alarm (sendControl m c) = c_alarm c"
  "c_db (sendControl m c) = c_db c" "c_journal (sendControl m c) = c_journal c"
  "c_supervisor (sendControl m c) = c_supervisor c" "c_auth (sendControl m c) = c_auth c"
  "c_clients (sendControl m c) = c_clients c" "c_flight (sendControl m c) = c_flight c"
  "mints (sendControl m c) = mints c"
  by (simp_all add: sendControl_def frame_simps split: option.split)

lemma drop_fields [frame_simps]:
  "c_meta (dropSupervisorSockets c) = c_meta c" "c_stored (dropSupervisorSockets c) = c_stored c"
  "c_alarm (dropSupervisorSockets c) = c_alarm c" "c_db (dropSupervisorSockets c) = c_db c"
  "c_journal (dropSupervisorSockets c) = c_journal c" "c_supervisor (dropSupervisorSockets c) = None"
  "c_auth (dropSupervisorSockets c) = []" "c_clients (dropSupervisorSockets c) = c_clients c"
  "c_flight (dropSupervisorSockets c) = c_flight c" "mints (dropSupervisorSockets c) = mints c"
  by (simp_all add: dropSupervisorSockets_def Let_def frame_simps split: option.split)

lemma sync_fields [frame_simps]:
  "c_meta (syncFleetState now c) = (c_meta c)\<lparr>updatedAt := now\<rparr>"
  "c_stored (syncFleetState now c) = Some ((c_meta c)\<lparr>updatedAt := now\<rparr>)"
  "c_alarm (syncFleetState now c) = c_alarm c" "c_db (syncFleetState now c) = c_db c"
  "c_journal (syncFleetState now c) = c_journal c" "c_supervisor (syncFleetState now c) = c_supervisor c"
  "c_auth (syncFleetState now c) = c_auth c" "c_clients (syncFleetState now c) = c_clients c"
  "c_flight (syncFleetState now c) = c_flight c" "mints (syncFleetState now c) = mints c"
  by (simp_all add: syncFleetState_def Let_def frame_simps)

lemma same_handle: "handle_of m = None \<Longrightarrow> m\<lparr>handle_of := None\<rparr> = m"
  by (cases m) simp

lemma tearDown_fields [frame_simps]:
  "c_meta (tearDownInstance now ans c) = (c_meta c)\<lparr>handle_of := None\<rparr>"
  "c_stored (tearDownInstance now ans c) = c_stored c" "c_alarm (tearDownInstance now ans c) = c_alarm c"
  "c_db (tearDownInstance now ans c) = c_db c" "c_journal (tearDownInstance now ans c) = c_journal c"
  "c_supervisor (tearDownInstance now ans c) = c_supervisor c" "c_auth (tearDownInstance now ans c) = c_auth c"
  "c_clients (tearDownInstance now ans c) = c_clients c" "c_flight (tearDownInstance now ans c) = c_flight c"
  "mints (tearDownInstance now ans c) = mints c"
  by (simp_all add: tearDownInstance_def Let_def frame_simps same_handle split: option.split)

lemma close_fields [frame_simps]:
  "c_stored (closeAwakeStretch now r c) = c_stored c" "c_alarm (closeAwakeStretch now r c) = c_alarm c"
  "c_db (closeAwakeStretch now r c) = c_db c" "c_journal (closeAwakeStretch now r c) = c_journal c"
  "c_supervisor (closeAwakeStretch now r c) = c_supervisor c" "c_auth (closeAwakeStretch now r c) = c_auth c"
  "c_clients (closeAwakeStretch now r c) = c_clients c" "c_flight (closeAwakeStretch now r c) = c_flight c"
  "mints (closeAwakeStretch now r c) = mints c"
  by (simp_all add: closeAwakeStretch_def Let_def frame_simps split: option.split)

lemma close_meta [frame_simps]:
  "computerId (c_meta (closeAwakeStretch now r c)) = computerId (c_meta c)"
  "state (c_meta (closeAwakeStretch now r c)) = state (c_meta c)"
  "epoch (c_meta (closeAwakeStretch now r c)) = epoch (c_meta c)"
  "token (c_meta (closeAwakeStretch now r c)) = token (c_meta c)"
  "head_prev (c_meta (closeAwakeStretch now r c)) = head_prev (c_meta c)"
  "handle_of (c_meta (closeAwakeStretch now r c)) = handle_of (c_meta c)"
  "deadlineAt d (c_meta (closeAwakeStretch now r c)) = deadlineAt d (c_meta c)"
  "wakeFailures (c_meta (closeAwakeStretch now r c)) = wakeFailures (c_meta c)"
  "recoveryStreak (c_meta (closeAwakeStretch now r c)) = recoveryStreak (c_meta c)"
  "idleSince (c_meta (closeAwakeStretch now r c)) = idleSince (c_meta c)"
  "armedIdleSince (c_meta (closeAwakeStretch now r c)) = armedIdleSince (c_meta c)"
  by (cases d; simp add: closeAwakeStretch_def Let_def frame_simps split: option.split)+

lemma setDeadline_fields [frame_simps]:
  "c_meta (setDeadline d t c) = set_deadline d t (c_meta c)"
  "c_stored (setDeadline d t c) = c_stored c" "c_alarm (setDeadline d t c) = c_alarm c"
  "c_db (setDeadline d t c) = c_db c" "c_journal (setDeadline d t c) = c_journal c"
  "c_supervisor (setDeadline d t c) = c_supervisor c" "c_auth (setDeadline d t c) = c_auth c"
  "c_clients (setDeadline d t c) = c_clients c" "c_flight (setDeadline d t c) = c_flight c"
  "c_out (setDeadline d t c) = c_out c"
  by (simp_all add: setDeadline_def frame_simps)

lemma setId_fields [frame_simps]:
  "c_stored (setComputerId i c) = c_stored c" "c_alarm (setComputerId i c) = c_alarm c"
  "c_db (setComputerId i c) = c_db c" "c_journal (setComputerId i c) = c_journal c"
  "c_supervisor (setComputerId i c) = c_supervisor c" "c_auth (setComputerId i c) = c_auth c"
  "c_clients (setComputerId i c) = c_clients c" "c_flight (setComputerId i c) = c_flight c"
  "c_out (setComputerId i c) = c_out c"
  "state (c_meta (setComputerId i c)) = state (c_meta c)" "epoch (c_meta (setComputerId i c)) = epoch (c_meta c)"
  "token (c_meta (setComputerId i c)) = token (c_meta c)" "head_prev (c_meta (setComputerId i c)) = head_prev (c_meta c)"
  "handle_of (c_meta (setComputerId i c)) = handle_of (c_meta c)"
  "recoveryStreak (c_meta (setComputerId i c)) = recoveryStreak (c_meta c)"
  "deadlineAt d (c_meta (setComputerId i c)) = deadlineAt d (c_meta c)"
  by (cases d; simp add: setComputerId_def frame_simps)+


section \<open>The invariant of a computer\<close>

text \<open>
  The record in storage may lag behind the one in memory in four fields that decide nothing (the
  binding to an id, the strikes of the liveness check, the meter of the open awake stretch).
\<close>

definition core :: "meta \<Rightarrow> meta" where
  "core m = m\<lparr>computerId := None, livenessStrikes := 0, awakeMs := 0, awakeSince := None\<rparr>"

definition stored_meta :: "computer \<Rightarrow> meta" where
  "stored_meta c = (case c_stored c of None \<Rightarrow> initialMeta | Some m \<Rightarrow> m)"

text \<open>Restored by every operation at every moment: the books of epochs, the watchdog of WAKING, and
  that a computer with a wake in flight is not AWAKE.\<close>

definition half_ok :: "computer \<Rightarrow> bool" where
  "half_ok c \<longleftrightarrow>
     (state (c_meta c) = StWaking \<longrightarrow> wakingAt (c_meta c) \<noteq> None)
   \<and> (c_flight c \<noteq> None \<longrightarrow> state (c_meta c) \<noteq> StAwake)
   \<and> sorted_wrt (<) (mints c) \<and> list_all (\<lambda>e. e \<le> epoch (c_meta c)) (mints c)
   \<and> list_all (\<lambda>(s, e). e \<le> epoch (c_meta c)) (c_auth c)"

text \<open>Restored at the end of every operation: storage and the alarm agree with the record in memory.\<close>

definition settled :: "computer \<Rightarrow> bool" where
  "settled c \<longleftrightarrow> core (stored_meta c) = core (c_meta c) \<and> c_alarm c = earliest (c_meta c)"

definition computer_ok :: "computer \<Rightarrow> bool" where
  "computer_ok c \<longleftrightarrow> half_ok c \<and> settled c"

text \<open>One step forward: what \<open>half_ok\<close> says is kept and the epoch does not go down.\<close>

definition adv :: "computer \<Rightarrow> computer \<Rightarrow> bool" where
  "adv c c' \<longleftrightarrow> (half_ok c \<longrightarrow> half_ok c') \<and> epoch (c_meta c) \<le> epoch (c_meta c')"

lemma adv_refl [simp]: "adv c c"
  by (simp add: adv_def)

lemma adv_trans [trans]: "adv a b \<Longrightarrow> adv b c \<Longrightarrow> adv a c"
  by (auto simp: adv_def)

text \<open>A step that keeps state, watchdog, epoch, books and authentication.\<close>

lemma adv_same:
  assumes "state (c_meta c') = state (c_meta c)" "wakingAt (c_meta c') = wakingAt (c_meta c)"
    "epoch (c_meta c') = epoch (c_meta c)" "mints c' = mints c" "c_auth c' = c_auth c"
    "c_flight c' = None \<or> c_flight c' = c_flight c"
  shows "adv c c'"
  using assms by (auto simp: adv_def half_ok_def)

text \<open>A step that lands outside WAKING.\<close>

lemma adv_land:
  assumes "state (c_meta c') \<noteq> StWaking" "epoch (c_meta c') = epoch (c_meta c)" "mints c' = mints c"
    "c_auth c' = [] \<or> c_auth c' = c_auth c" "c_flight c' = None \<or> state (c_meta c') \<noteq> StAwake"
  shows "adv c c'"
  using assms by (auto simp: adv_def half_ok_def)

lemma core_eq_fields:
  "core a = core b \<Longrightarrow> state a = state b \<and> epoch a = epoch b \<and> token a = token b \<and> head_prev a = head_prev b
     \<and> handle_of a = handle_of b \<and> wakingAt a = wakingAt b \<and> earliest a = earliest b"
  by (cases a; cases b) (simp add: core_def earliest_def DEADLINES_def)

lemma earliest_cong [simp]:
  "earliest (m\<lparr>computerId := i\<rparr>) = earliest m" "earliest (m\<lparr>livenessStrikes := n\<rparr>) = earliest m"
  "earliest (m\<lparr>awakeMs := x\<rparr>) = earliest m" "earliest (m\<lparr>awakeSince := s\<rparr>) = earliest m"
  "earliest (m\<lparr>updatedAt := x\<rparr>) = earliest m" "earliest (m\<lparr>head_prev := h\<rparr>) = earliest m"
  "earliest (m\<lparr>state := st\<rparr>) = earliest m" "earliest (m\<lparr>layout := l\<rparr>) = earliest m"
  "earliest (m\<lparr>idleSince := x\<rparr>) = earliest m" "earliest (m\<lparr>supervisorLostAt := s\<rparr>) = earliest m"
  by (simp_all add: earliest_def DEADLINES_def)

lemma core_cong [simp]:
  "core (m\<lparr>computerId := i\<rparr>) = core m" "core (m\<lparr>livenessStrikes := n\<rparr>) = core m"
  "core (m\<lparr>awakeMs := x\<rparr>) = core m" "core (m\<lparr>awakeSince := s\<rparr>) = core m"
  by (simp_all add: core_def)

lemma close_core [simp]:
  "core (c_meta (closeAwakeStretch now r c)) = core (c_meta c)"
  "earliest (c_meta (closeAwakeStretch now r c)) = earliest (c_meta c)"
  by (simp_all add: closeAwakeStretch_def Let_def frame_simps split: option.split)

lemma setId_core [simp]:
  "core (c_meta (setComputerId i c)) = core (c_meta c)" "earliest (c_meta (setComputerId i c)) = earliest (c_meta c)"
  by (simp_all add: setComputerId_def frame_simps)

section \<open>Every operation of the lifecycle advances\<close>

lemma waking_deadline [simp]: "wakingAt m = deadlineAt WakingD m"
  by simp

declare waking_deadline [simp del]

lemma close_waking [frame_simps]: "wakingAt (c_meta (closeAwakeStretch now r c)) = wakingAt (c_meta c)"
  by (simp add: closeAwakeStretch_def Let_def frame_simps split: option.split)

lemma setId_waking [frame_simps]: "wakingAt (c_meta (setComputerId i c)) = wakingAt (c_meta c)"
  by (simp add: setComputerId_def frame_simps)

lemma set_deadline_fields [frame_simps]:
  "state (set_deadline d t m) = state m" "epoch (set_deadline d t m) = epoch m" "token (set_deadline d t m) = token m"
  "head_prev (set_deadline d t m) = head_prev m" "handle_of (set_deadline d t m) = handle_of m"
  "recoveryStreak (set_deadline d t m) = recoveryStreak m"
  "d \<noteq> WakingD \<Longrightarrow> wakingAt (set_deadline d t m) = wakingAt m"
  by (cases d; simp)+

lemma armLiveness_fields [frame_simps]:
  "state (c_meta (armLiveness cf now c)) = state (c_meta c)" "epoch (c_meta (armLiveness cf now c)) = epoch (c_meta c)"
  "token (c_meta (armLiveness cf now c)) = token (c_meta c)" "head_prev (c_meta (armLiveness cf now c)) = head_prev (c_meta c)"
  "handle_of (c_meta (armLiveness cf now c)) = handle_of (c_meta c)"
  "recoveryStreak (c_meta (armLiveness cf now c)) = recoveryStreak (c_meta c)"
  "wakingAt (c_meta (armLiveness cf now c)) = wakingAt (c_meta c)"
  "c_stored (armLiveness cf now c) = c_stored c" "c_alarm (armLiveness cf now c) = c_alarm c"
  "c_db (armLiveness cf now c) = c_db c" "c_journal (armLiveness cf now c) = c_journal c"
  "c_supervisor (armLiveness cf now c) = c_supervisor c" "c_auth (armLiveness cf now c) = c_auth c"
  "c_clients (armLiveness cf now c) = c_clients c" "c_flight (armLiveness cf now c) = c_flight c"
  "c_out (armLiveness cf now c) = c_out c"
  by (simp_all add: armLiveness_def Let_def frame_simps split: option.split)

lemma touch_fields [frame_simps]:
  "state (c_meta (touch cf now c)) = state (c_meta c)" "epoch (c_meta (touch cf now c)) = epoch (c_meta c)"
  "token (c_meta (touch cf now c)) = token (c_meta c)" "head_prev (c_meta (touch cf now c)) = head_prev (c_meta c)"
  "handle_of (c_meta (touch cf now c)) = handle_of (c_meta c)"
  "recoveryStreak (c_meta (touch cf now c)) = recoveryStreak (c_meta c)"
  "wakingAt (c_meta (touch cf now c)) = wakingAt (c_meta c)"
  "c_stored (touch cf now c) = c_stored c" "c_db (touch cf now c) = c_db c" "c_journal (touch cf now c) = c_journal c"
  "c_supervisor (touch cf now c) = c_supervisor c" "c_auth (touch cf now c) = c_auth c"
  "c_clients (touch cf now c) = c_clients c" "c_flight (touch cf now c) = c_flight c" "c_out (touch cf now c) = c_out c"
  by (simp_all add: touch_def armTier_def Let_def frame_simps)

lemma touch_alarm: "c_alarm c = earliest (c_meta c) \<Longrightarrow> c_alarm (touch cf now c) = earliest (c_meta (touch cf now c))"
  by (simp add: touch_def armTier_def Let_def frame_simps)

lemma touch_awake_alarm: "state (c_meta c) = StAwake \<Longrightarrow> c_alarm (touch cf now c) = earliest (c_meta (touch cf now c))"
  by (simp add: touch_def armTier_def Let_def frame_simps)

lemma probe_fields [frame_simps]:
  "c_meta (snd (probeInstance ans c)) = c_meta c" "c_stored (snd (probeInstance ans c)) = c_stored c"
  "c_alarm (snd (probeInstance ans c)) = c_alarm c" "c_db (snd (probeInstance ans c)) = c_db c"
  "c_auth (snd (probeInstance ans c)) = c_auth c" "c_out (snd (probeInstance ans c)) = c_out c"
  "c_flight (snd (probeInstance ans c)) = c_flight c" "c_supervisor (snd (probeInstance ans c)) = c_supervisor c"
  by (simp_all add: probeInstance_def split: option.split)

lemma verify_fields [frame_simps]:
  "c_meta (snd (verifyAwake cf now ans c)) = c_meta c" "c_stored (snd (verifyAwake cf now ans c)) = c_stored c"
  "c_alarm (snd (verifyAwake cf now ans c)) = c_alarm c" "c_auth (snd (verifyAwake cf now ans c)) = c_auth c"
  "c_out (snd (verifyAwake cf now ans c)) = c_out c" "c_flight (snd (verifyAwake cf now ans c)) = c_flight c"
  by (simp_all add: verifyAwake_def frame_simps case_prod_unfold)

lemma verify_eq:
  assumes "verifyAwake cf now ans c = (v, c1)"
  shows "c_meta c1 = c_meta c" "c_stored c1 = c_stored c" "c_alarm c1 = c_alarm c" "c_auth c1 = c_auth c" "c_out c1 = c_out c"
    "c_flight c1 = c_flight c"
  using verify_fields [of cf now ans c] by (simp_all add: assms)

lemma probe_eq:
  assumes "probeInstance ans c = (v, c1)"
  shows "c_meta c1 = c_meta c" "c_stored c1 = c_stored c" "c_alarm c1 = c_alarm c" "c_auth c1 = c_auth c"
    "c_out c1 = c_out c" "c_db c1 = c_db c" "c_flight c1 = c_flight c"
  using probe_fields [of ans c] by (simp_all add: assms)

lemma recoverCold_fields [frame_simps]:
  "state (c_meta (recoverCold cf now ans k c)) = StCold" "epoch (c_meta (recoverCold cf now ans k c)) = epoch (c_meta c)"
  "token (c_meta (recoverCold cf now ans k c)) = None" "handle_of (c_meta (recoverCold cf now ans k c)) = None"
  "head_prev (c_meta (recoverCold cf now ans k c)) = head_prev (c_meta c)"
  "recoveryStreak (c_meta (recoverCold cf now ans k c)) = Suc (recoveryStreak (c_meta c))"
  "c_auth (recoverCold cf now ans k c) = []" "c_supervisor (recoverCold cf now ans k c) = None"
  "mints (recoverCold cf now ans k c) = mints c"
  "c_stored (recoverCold cf now ans k c) = Some (c_meta (recoverCold cf now ans k c))"
  "c_flight (recoverCold cf now ans k c) = c_flight c" "c_journal (recoverCold cf now ans k c) = c_journal c"
  by (simp_all add: recoverCold_def Let_def frame_simps)

lemma adv_recoverCold: "adv c (recoverCold cf now ans k c)"
  by (rule adv_land) (simp_all add: frame_simps)

lemma wake_mint_fields:
  "state (c_meta (wake_mint cf now ans c)) = StWaking"
  "wakingAt (c_meta (wake_mint cf now ans c)) = Some (now + wakeTimeoutMs cf * 2)"
  "epoch (c_meta (wake_mint cf now ans c)) = Suc (epoch (c_meta c))"
  "c_auth (wake_mint cf now ans c) = c_auth c"
  "c_stored (wake_mint cf now ans c) = Some (c_meta (wake_mint cf now ans c))"
  "head_prev (c_meta (wake_mint cf now ans c)) = head_prev (c_meta c)"
  "mints (wake_mint cf now ans c) = mints c @
     (if state (c_meta c) = StWarm \<and> handle_of (c_meta c) \<noteq> None then [] else [Suc (epoch (c_meta c))])"
  "recoveryStreak (c_meta (wake_mint cf now ans c)) = recoveryStreak (c_meta c)"
  by (simp_all add: wake_mint_def Let_def frame_simps)

lemma wake_mint_alarm: "c_alarm (wake_mint cf now ans c) = earliest (c_meta (wake_mint cf now ans c))"
  by (simp add: wake_mint_def Let_def frame_simps earliest_def DEADLINES_def)

lemma settled_wake_mint: "settled (wake_mint cf now ans c)"
  by (simp add: settled_def stored_meta_def wake_mint_fields wake_mint_alarm)

lemma list_all_le_Suc: "list_all (\<lambda>e. e \<le> n) xs \<Longrightarrow> list_all (\<lambda>e. e \<le> Suc n) xs"
  by (auto simp: list_all_iff)

lemma auth_le_Suc: "list_all (\<lambda>(s, e). e \<le> n) xs \<Longrightarrow> list_all (\<lambda>(s, e). e \<le> Suc n) xs"
  by (auto simp: list_all_iff)

lemma adv_wake_mint: "adv c (wake_mint cf now ans c)"
  by (auto simp: adv_def half_ok_def wake_mint_fields sorted_wrt_append list_all_le_Suc auth_le_Suc list_all_iff
      dest: le_imp_less_Suc)

lemma wakeInner_adv: "adv c (snd (wakeInner cf now ans c))"
proof -
  have v: "adv c (snd (verifyAwake cf now ans c))" by (rule adv_same) (simp_all add: frame_simps)
  have t: "adv c1 (persist (touch cf now c1))" for c1 by (rule adv_same) (simp_all add: frame_simps)
  show ?thesis
    using v adv_recoverCold adv_wake_mint t
    by (auto simp: wakeInner_def Let_def split: prod.split awake_verdict.split intro: adv_trans)
       (metis adv_trans snd_conv)+
qed

lemma wakeInner_settled: "settled c \<Longrightarrow> settled (snd (wakeInner cf now ans c))"
  by (auto simp: wakeInner_def Let_def settled_wake_mint split: prod.split awake_verdict.split)
     (auto simp: settled_def stored_meta_def frame_simps verify_eq intro!: touch_alarm)

lemma adv_setId [simp]: "adv c (setComputerId i c)"
  by (rule adv_same) (simp_all add: frame_simps)

lemma settled_setId [simp]: "settled (setComputerId i c) = settled c"
  by (simp add: settled_def stored_meta_def frame_simps)

lemma wake_adv: "adv c (snd (wake cf now ans cid c))"
  using adv_trans [OF adv_setId wakeInner_adv] by (simp add: wake_def Let_def)

lemma wake_settled: "settled c \<Longrightarrow> settled (snd (wake cf now ans cid c))"
  using wakeInner_settled by (auto simp: wake_def Let_def)

lemma wakeInBackground_adv: "adv c (wakeInBackground cf now ans c)"
  by (simp add: wakeInBackground_def Let_def wake_adv)

lemma wakeInBackground_settled: "settled c \<Longrightarrow> settled (wakeInBackground cf now ans c)"
  by (simp add: wakeInBackground_def Let_def wake_settled)

lemma failWake_fields:
  "state (c_meta (failWake cf now ans w c)) = (if w \<and> handle_of (c_meta c) \<noteq> None then StWarm else StCold)"
  "epoch (c_meta (failWake cf now ans w c)) = epoch (c_meta c)"
  "c_auth (failWake cf now ans w c) = c_auth c" "mints (failWake cf now ans w c) = mints c"
  "head_prev (c_meta (failWake cf now ans w c)) = head_prev (c_meta c)"
  "recoveryStreak (c_meta (failWake cf now ans w c)) = recoveryStreak (c_meta c)"
  by (simp_all add: failWake_def Let_def frame_simps)

lemma failWake_adv: "adv c (failWake cf now ans w c)"
  by (rule adv_land) (simp_all add: failWake_fields)

lemma failWake_settled: "settled (failWake cf now ans w c)"
  by (simp add: failWake_def Let_def settled_def stored_meta_def frame_simps)

lemma wake_complete_adv: "adv c (snd (wake_complete cf now f new c))"
  by (rule adv_land) (simp_all add: wake_complete_def Let_def frame_simps split: option.split)

lemma wake_complete_settled: "settled (snd (wake_complete cf now f new c))"
  by (simp add: wake_complete_def Let_def settled_def stored_meta_def frame_simps touch_awake_alarm split: option.split)

lemma adv_flight [simp]: "adv c (c\<lparr>c_flight := None\<rparr>)"
  by (rule adv_same) simp_all

lemma settled_flight [simp]: "settled (c\<lparr>c_flight := f\<rparr>) = settled c"
  by (simp add: settled_def stored_meta_def)

lemma adv_probe: "probeInstance ans c = (v, c1) \<Longrightarrow> adv c c1"
  by (rule adv_same) (simp_all add: probe_eq)

lemma settled_recoverCold_alarm: "settled (armAlarm (recoverCold cf now ans k c))"
  by (simp add: settled_def stored_meta_def frame_simps)

text \<open>After a recovery the object is COLD without a token, so a wake takes the minting branch.\<close>

lemma wakeInner_cold: "state (c_meta c) = StCold \<Longrightarrow> \<not> cf_unbacked cf \<Longrightarrow> wakeInner cf now ans c = (WakeInFlight, wake_mint cf now ans c)"
  by (simp add: wakeInner_def)

lemma wakeInner_unbacked: "cf_unbacked cf \<Longrightarrow> snd (wakeInner cf now ans c) = c"
  by (simp add: wakeInner_def Let_def)


lemma wake_refuse_adv: "adv c (snd (wake_refuse cf now ans w c))"
proof -
  obtain st c1 where p: "(if w \<and> handle_of (c_meta c) \<noteq> None then probeInstance ans c else (Alive, c)) = (st, c1)"
    by (rule prod.exhaust)
  then have 1: "adv c c1" by (auto split: if_splits intro: adv_probe)
  show ?thesis
  proof (cases "st = Gone")
    case True
    obtain r c2 where i: "wakeInner cf now ans (recoverCold cf now ans SubstrateLost c1) = (r, c2)" by (rule prod.exhaust)
    have "adv c1 c2"
      using adv_trans [OF adv_recoverCold wakeInner_adv [of "recoverCold cf now ans SubstrateLost c1" cf now ans]]
      by (simp add: i)
    with 1 have 2: "adv c c2" by (rule adv_trans)
    show ?thesis
      using True 2 adv_trans [OF 2 adv_flight] unfolding wake_refuse_def p by (cases r) (simp_all add: i)
  next
    case False
    then show ?thesis
      using adv_trans [OF adv_trans [OF 1 failWake_adv] adv_flight] unfolding wake_refuse_def p by (simp add: Let_def)
  qed
qed

lemma wake_refuse_settled: "\<not> cf_unbacked cf \<Longrightarrow> settled (snd (wake_refuse cf now ans w c))"
  by (simp add: wake_refuse_def Let_def wakeInner_cold frame_simps settled_wake_mint failWake_settled split: prod.split)

lemma wake_answer_adv: "adv c (snd (wake_answer cf now ans c))"
  using wake_complete_adv wake_refuse_adv
  by (auto simp: wake_answer_def split: option.split prod.split) (metis snd_conv)+

lemma wake_answer_settled: "\<not> cf_unbacked cf \<Longrightarrow> settled c \<Longrightarrow> settled (snd (wake_answer cf now ans c))"
  using wake_complete_settled wake_refuse_settled
  by (auto simp: wake_answer_def split: option.split prod.split) (metis snd_conv)+

lemma wakeInBackground_cold:
  "state (c_meta c) = StCold \<Longrightarrow> \<not> cf_unbacked cf \<Longrightarrow>
     wakeInBackground cf now ans c = (if c_flight c \<noteq> None then c else wake_mint cf now ans c)"
  by (simp add: wakeInBackground_def wake_def Let_def wakeInner_cold setComputerId_def falsy_def)

lemma recover_settled:
  assumes "\<not> cf_unbacked cf" "c_flight c = None"
  shows "settled (recover cf now ans k c)"
proof -
  have "settled (armAlarm (persist d))" for d by (simp add: settled_def stored_meta_def frame_simps)
  then show ?thesis
    using assms settled_recoverCold_alarm
    by (simp add: recover_def Let_def wakeInBackground_cold frame_simps settled_wake_mint)
qed

lemma finalizeCold_fields:
  "state (c_meta (finalizeCold cf now ans h c)) = StCold" "epoch (c_meta (finalizeCold cf now ans h c)) = epoch (c_meta c)"
  "c_auth (finalizeCold cf now ans h c) = []" "mints (finalizeCold cf now ans h c) = mints c"
  "token (c_meta (finalizeCold cf now ans h c)) = None" "handle_of (c_meta (finalizeCold cf now ans h c)) = None"
  "c_flight (finalizeCold cf now ans h c) = c_flight c" "c_journal (finalizeCold cf now ans h c) = c_journal c"
  "recoveryStreak (c_meta (finalizeCold cf now ans h c)) = recoveryStreak (c_meta c)"
  "head_prev (c_meta (finalizeCold cf now ans h c)) =
     (if falsy h then head_prev (c_meta c) else setHead h (head_prev (c_meta c)))"
  by (simp_all add: finalizeCold_def Let_def frame_simps)

lemma finalizeCold_adv: "adv c (finalizeCold cf now ans h c)"
  by (rule adv_land) (simp_all add: finalizeCold_fields)

lemma finalizeCold_settled: "settled (finalizeCold cf now ans h c)"
  by (simp add: finalizeCold_def Let_def settled_def stored_meta_def frame_simps)

lemma ask_final_fields:
  "state (c_meta (ask_final cf now c)) = state (c_meta c)" "epoch (c_meta (ask_final cf now c)) = epoch (c_meta c)"
  "wakingAt (c_meta (ask_final cf now c)) = wakingAt (c_meta c)" "head_prev (c_meta (ask_final cf now c)) = head_prev (c_meta c)"
  "recoveryStreak (c_meta (ask_final cf now c)) = recoveryStreak (c_meta c)"
  "c_auth (ask_final cf now c) = c_auth c" "mints (ask_final cf now c) = mints c" "c_flight (ask_final cf now c) = c_flight c"
  by (simp_all add: ask_final_def frame_simps)

lemma ask_final_adv: "adv c (ask_final cf now c)"
  by (rule adv_same) (simp_all add: ask_final_fields)

lemma ask_final_settled: "settled (ask_final cf now c)"
  by (simp add: ask_final_def settled_def stored_meta_def frame_simps)

lemma adv_fx: "list_all (\<lambda>e. mint_of e = None) es \<Longrightarrow> adv c (fx es c)"
proof -
  assume "list_all (\<lambda>e. mint_of e = None) es"
  then have "mint_list es = []" by (induction es) simp_all
  then show ?thesis by (intro adv_same) (simp_all add: frame_simps)
qed

lemma adv_incident: "adv c (recordIncident now k c)"
  by (rule adv_same) (simp_all add: frame_simps)

lemma beginCold_settled: "settled (beginCold cf now ans c)"
  by (simp add: beginCold_def Let_def ask_final_settled finalizeCold_settled split: option.split)

lemma sleepNow_settled:
  assumes "\<not> cf_unbacked cf" "settled c" "half_ok c"
  shows "settled (sleepNow cf now ans c)"
proof (cases "handle_of (c_meta c)")
  case (Some h)
  obtain st c1 where p: "probeInstance ans (fx [FxSleep h] c) = (st, c1)" by (rule prod.exhaust)
  note q = probe_eq [OF p]
  have "settled c1" using assms(2) by (simp add: settled_def stored_meta_def q frame_simps)
  moreover have "state (c_meta c) = StAwake \<Longrightarrow> c_flight c = None" using assms(3) by (auto simp: half_ok_def)
  ultimately show ?thesis
    using assms recover_settled [OF assms(1), of c1] q(7)
    by (auto simp: sleepNow_def Let_def Some p frame_simps) (simp add: settled_def stored_meta_def frame_simps)
qed (use assms in \<open>simp add: sleepNow_def\<close>)


section \<open>The deadline handlers and the alarm\<close>

text \<open>The handler of a deadline runs with its own slot cleared; \<open>watch_ok\<close> is what is left of the
  watchdog while the handler of the watchdog itself runs.\<close>

definition books_ok :: "computer \<Rightarrow> bool" where
  "books_ok c \<longleftrightarrow> (c_flight c \<noteq> None \<longrightarrow> state (c_meta c) \<noteq> StAwake)
   \<and> sorted_wrt (<) (mints c) \<and> list_all (\<lambda>e. e \<le> epoch (c_meta c)) (mints c)
   \<and> list_all (\<lambda>(s, e). e \<le> epoch (c_meta c)) (c_auth c)"

lemma half_books: "half_ok c \<longleftrightarrow> books_ok c \<and> (state (c_meta c) = StWaking \<longrightarrow> wakingAt (c_meta c) \<noteq> None)"
  by (auto simp: half_ok_def books_ok_def)

lemma adv_liveness: "adv c (armLiveness cf now c)"
  by (rule adv_same) (simp_all add: frame_simps)

lemma armTier_fields [frame_simps]:
  "state (c_meta (armTier cf now ms c)) = state (c_meta c)" "epoch (c_meta (armTier cf now ms c)) = epoch (c_meta c)"
  "head_prev (c_meta (armTier cf now ms c)) = head_prev (c_meta c)"
  "recoveryStreak (c_meta (armTier cf now ms c)) = recoveryStreak (c_meta c)"
  "wakingAt (c_meta (armTier cf now ms c)) = wakingAt (c_meta c)" "c_auth (armTier cf now ms c) = c_auth c"
  "c_flight (armTier cf now ms c) = c_flight c" "c_out (armTier cf now ms c) = c_out c"
  "c_stored (armTier cf now ms c) = c_stored c" "c_alarm (armTier cf now ms c) = earliest (c_meta (armTier cf now ms c))"
  by (simp_all add: armTier_def frame_simps)

lemma waking_handler:
  assumes "books_ok c"
  shows "half_ok (onWakingDeadline cf now ans c)" "epoch (c_meta (onWakingDeadline cf now ans c)) = epoch (c_meta c)"
  using assms
  by (auto simp: onWakingDeadline_def half_ok_def books_ok_def frame_simps failWake_fields)

lemma adv_close: "adv c (closeAwakeStretch now r c)"
  by (rule adv_same) (simp_all add: frame_simps)

lemma settled_armAlarm: "settled (armAlarm (persist c))"
  by (simp add: settled_def stored_meta_def frame_simps)

lemma fold_earlier_None: "(\<And>n. n \<in> set ns \<Longrightarrow> deadlineAt n m = None) \<Longrightarrow>
    fold (\<lambda>name best. earlier best (deadlineAt name m)) ns b = b"
  by (induction ns arbitrary: b) (simp_all add: earlier_def)

lemma fold_name_None:
  "fold (\<lambda>name best. case deadlineAt name m of None \<Rightarrow> best
      | Some t \<Rightarrow> (case best of None \<Rightarrow> Some name
                  | Some b \<Rightarrow> if t < the (deadlineAt b m) then Some name else best)) ns b = None
   \<longleftrightarrow> b = None \<and> (\<forall>n \<in> set ns. deadlineAt n m = None)"
proof (induction ns arbitrary: b)
  case (Cons n ns)
  then show ?case by (cases "deadlineAt n m"; cases b) auto
qed simp

lemma earliest_name_None: "earliest_name m = None \<Longrightarrow> earliest m = None"
  unfolding earliest_name_def fold_name_None earliest_def by (intro fold_earlier_None) auto

lemma alarm_settled:
  assumes "settled c"
  shows "settled (alarm cf now ans c)"
proof -
  let ?c1 = "if state (c_meta c) = StAwake then closeAwakeStretch now True (c\<lparr>c_alarm := None\<rparr>) else c\<lparr>c_alarm := None\<rparr>"
  have "settled ?c1" if "earliest_name (c_meta ?c1) = None"
    using assms earliest_name_None [OF that]
    by (auto simp: settled_def stored_meta_def frame_simps split: if_splits)
  then show ?thesis
    using settled_armAlarm by (auto simp: alarm_def Let_def split: option.split)
qed

lemma healthCheck_settled: "settled (snd (healthCheck cf now ans c))"
  by (simp add: healthCheck_def Let_def case_prod_unfold settled_armAlarm)


section \<open>Orders the lifecycle respects\<close>

text \<open>
  A preorder on computers that the primitives of the lifecycle respect is respected by every operation
  of the lifecycle.  A step that keeps state, watchdog, epoch, head, books, authentication, flight and streak is
  \<open>small\<close>; \<open>land\<close> is the step to WARM.
\<close>

definition small :: "computer \<Rightarrow> computer \<Rightarrow> bool" where
  "small c c' \<longleftrightarrow> state (c_meta c') = state (c_meta c) \<and> wakingAt (c_meta c') = wakingAt (c_meta c)
     \<and> epoch (c_meta c') = epoch (c_meta c) \<and> head_prev (c_meta c') = head_prev (c_meta c)
     \<and> mints c' = mints c \<and> c_auth c' = c_auth c \<and> c_flight c' = c_flight c
     \<and> recoveryStreak (c_meta c') = recoveryStreak (c_meta c)"

definition land :: "computer \<Rightarrow> computer \<Rightarrow> bool" where
  "land c c' \<longleftrightarrow> state (c_meta c') = StWarm \<and> epoch (c_meta c') = epoch (c_meta c)
     \<and> head_prev (c_meta c') = head_prev (c_meta c) \<and> mints c' = mints c \<and> c_auth c' = c_auth c
     \<and> c_flight c' = c_flight c \<and> recoveryStreak (c_meta c') = recoveryStreak (c_meta c)"

lemma small_fx: "list_all (\<lambda>e. mint_of e = None) es \<Longrightarrow> small c (fx es c)"
proof -
  assume "list_all (\<lambda>e. mint_of e = None) es"
  then have "mint_list es = []" by (induction es) simp_all
  then show ?thesis by (simp add: small_def frame_simps)
qed

lemma small_steps:
  "small c (recordIncident now k c)" "small c (armLiveness cf now c)" "small c (armAlarm (persist c))"
  "small c (armAlarm c)" "small c (armTier cf now ms c)" "small c (ask_final cf now c)"
  "small c (closeAwakeStretch now r c)" "small c (c\<lparr>c_alarm := t\<rparr>)"
  "small c (upd (\<lambda>m. m\<lparr>livenessStrikes := f m\<rparr>) c)" "small c (upd (\<lambda>m. m\<lparr>supervisorLostAt := x\<rparr>) c)"
  "small c (upd (\<lambda>m. m\<lparr>rotationPending := b\<rparr>) c)"
  "name \<noteq> WakingD \<Longrightarrow> small c (persist (setDeadline name None c))"
  by (simp_all add: small_def frame_simps ask_final_fields)

lemma small_probe: "probeInstance ans c = (st, c1) \<Longrightarrow> small c c1"
  by (simp add: small_def probe_eq)

locale lifecycle_order =
  fixes R :: "computer \<Rightarrow> computer \<Rightarrow> bool"
  assumes R_trans: "R a b \<Longrightarrow> R b c \<Longrightarrow> R a c"
    and R_small: "small c c' \<Longrightarrow> R c c'"
    and R_land: "land c c' \<Longrightarrow> R c c'"
    and R_recoverCold: "R c (recoverCold cf now ans k c)"
    and R_background: "R c (wakeInBackground cf now ans c)"
    and R_finalizeCold: "R c (finalizeCold cf now ans None c)"
    and R_watchdog: "R c (alarm_one cf now fans forced WakingD c)"
begin

lemma R_refl: "R c c"
  by (rule R_small) (simp add: small_def)

lemmas R_smalls = small_steps [THEN R_small]

lemma R_fx: "list_all (\<lambda>e. mint_of e = None) es \<Longrightarrow> R c (fx es c)"
  by (rule R_small) (rule small_fx)

lemma R_probe: "probeInstance ans c = (st, c1) \<Longrightarrow> R c c1"
  by (rule R_small) (rule small_probe)

lemma R_recover: "R c (recover cf now ans k c)"
proof -
  have 1: "R c (armAlarm (persist (recordIncident now j (recoverCold cf now ans k c))))" for j
    by (rule R_trans [OF R_recoverCold R_trans [OF R_smalls(1) R_smalls(3)]])
  show ?thesis
    using 1 R_trans [OF R_recoverCold R_background] R_trans [OF R_recoverCold R_smalls(4)]
    by (simp add: recover_def Let_def)
qed

lemma R_beginCold: "R c (beginCold cf now ans c)"
proof -
  have f: "R c (fx [FxResume h] c)" for h by (rule R_fx) simp
  show ?thesis
    using R_trans [OF f R_smalls(6)] R_smalls(6) R_finalizeCold R_trans [OF R_smalls(1) R_finalizeCold]
      R_trans [OF f R_trans [OF R_smalls(1) R_finalizeCold]]
    by (simp add: beginCold_def Let_def split: option.split)
qed

lemma R_sleepNow: "R c (sleepNow cf now ans c)"
proof (cases "handle_of (c_meta c)")
  case None
  then show ?thesis by (simp add: sleepNow_def R_refl)
next
  case (Some h)
  obtain st c1 where p: "probeInstance ans (fx [FxSleep h] c) = (st, c1)" by (rule prod.exhaust)
  have 1: "R c c1" by (rule R_trans [OF R_fx R_probe [OF p]]) simp
  show ?thesis
  proof (cases "state (c_meta c) = StAwake \<and> an_sleep ans")
    case True
    then show ?thesis
      using Some by (intro R_land) (simp add: land_def sleepNow_def Let_def frame_simps)
  next
    case False
    then show ?thesis
      using Some 1 R_trans [OF 1 R_recover] R_refl by (auto simp: sleepNow_def Let_def p)
  qed
qed

lemma R_deepSleepNow: "R c (deepSleepNow cf now ans c)"
  by (simp add: deepSleepNow_def R_beginCold R_refl)

lemma R_liveness: "R c (snd (onLivenessDeadline cf now ans c))"
proof (cases "state (c_meta c) = StAwake")
  case True
  obtain st c1 where p: "probeInstance ans c = (st, c1)" by (rule prod.exhaust)
  note 1 = R_probe [OF p] and 2 = R_trans [OF R_probe [OF p] R_smalls(9)]
  show ?thesis
    using True R_smalls(10) R_trans [OF R_smalls(9) R_smalls(2)] R_trans [OF 1 R_recover]
      R_trans [OF 2 R_recover] R_trans [OF 2 R_smalls(2)] R_trans [OF 1 R_smalls(10)]
    by (simp add: onLivenessDeadline_def Let_def p split: instance_status.split)
qed (simp add: onLivenessDeadline_def R_refl)

lemma R_cold: "R c (onColdDeadline cf now ans c)"
  by (simp add: onColdDeadline_def R_refl R_trans [OF R_smalls(1) R_finalizeCold])

lemma R_credential: "R c (onCredentialDeadline cf now ans c)"
  by (simp add: onCredentialDeadline_def R_refl R_trans [OF R_smalls(1) R_trans [OF R_smalls(11) R_beginCold]])

lemma R_tier: "R c (onTierDeadline cf now ans c)"
proof (cases "state (c_meta c) = StAwake \<and> armedIdleSince (c_meta c) = Some (idleSince (c_meta c)) \<and> cf_supportsWarm cf")
  case True
  let ?c1 = "case handle_of (c_meta c) of None \<Rightarrow> c | Some h \<Rightarrow> fx [FxSleep h] c"
  have f: "R c ?c1" by (auto split: option.split intro: R_fx R_refl)
  obtain st c2 where p: "probeInstance ans ?c1 = (st, c2)" by (rule prod.exhaust)
  note 2 = R_trans [OF f R_probe [OF p]]
  show ?thesis
  proof (cases "handle_of (c_meta c) \<noteq> None \<and> \<not> an_sleep ans")
    case fail: True
    then show ?thesis
      using True R_trans [OF 2 R_recover] R_trans [OF 2 R_beginCold]
      by (auto simp: onTierDeadline_def Let_def p)
  next
    case False
    then show ?thesis
      using True
      by (intro R_land) (auto simp: land_def onTierDeadline_def Let_def frame_simps split: option.split)
  qed
next
  case False
  then show ?thesis
    using R_beginCold R_smalls(5) R_refl by (auto simp: onTierDeadline_def Let_def)
qed

lemma R_alarm_one: "R c (alarm_one cf now ans forced name c)"
proof (cases "name = WakingD")
  case False
  have r: "R c (onWakeRetryDeadline cf now ans c)" for c ans
    by (simp add: onWakeRetryDeadline_def R_background R_refl)
  note 1 = R_smalls(12) [OF False]
  show ?thesis
    using False R_trans [OF 1 r] R_trans [OF 1 R_liveness] R_trans [OF 1 R_cold] R_trans [OF 1 R_credential]
      R_trans [OF 1 R_tier] R_refl
    by (cases name) (simp_all add: alarm_one_def split: option.split)
qed (simp add: R_watchdog)

lemma R_alarm_fold: "R c (fold (alarm_one cf now ans forced) names c)"
proof (induction names arbitrary: c)
  case (Cons n names)
  then show ?case using R_trans [OF R_alarm_one Cons.IH] by simp
qed (simp add: R_refl)

lemma R_alarm: "R c (alarm cf now ans c)"
proof -
  let ?c1 = "if state (c_meta c) = StAwake then closeAwakeStretch now True (c\<lparr>c_alarm := None\<rparr>) else c\<lparr>c_alarm := None\<rparr>"
  have 1: "R c ?c1" using R_smalls(8) R_trans [OF R_smalls(8) R_smalls(7)] by simp
  note 2 = R_trans [OF 1 R_trans [OF R_alarm_fold R_smalls(3)]] R_trans [OF 1 R_trans [OF R_alarm_one R_smalls(3)]]
  show ?thesis
    unfolding alarm_def Let_def using 1 2 by (auto split: option.split)
qed

lemma R_healthCheck: "R c (snd (healthCheck cf now ans c))"
  using R_trans [OF R_liveness R_smalls(3)] by (simp add: healthCheck_def Let_def case_prod_unfold)

end

lemma watchdog_adv: "adv c (alarm_one cf now ans forced WakingD c)"
proof -
  have b: "half_ok c \<Longrightarrow> books_ok (persist (setDeadline WakingD None c))"
    by (simp add: half_ok_def books_ok_def frame_simps)
  have e: "epoch (c_meta (persist (setDeadline WakingD None c))) = epoch (c_meta c)" by (simp add: frame_simps)
  have "epoch (c_meta (onWakingDeadline cf now a d)) = epoch (c_meta d)" for a d
    by (simp add: onWakingDeadline_def frame_simps failWake_fields)
  then show ?thesis
    using waking_handler(1) [OF b] e by (simp add: alarm_one_def adv_def split: option.split)
qed

interpretation ad: lifecycle_order adv
  by unfold_locales
    (auto simp: small_def land_def recoverCold_fields finalizeCold_adv wakeInBackground_adv watchdog_adv adv_recoverCold
      intro: adv_trans adv_same adv_land)


section \<open>The operations of the channels and of the interface\<close>

text \<open>An operation that touches neither the record, storage, alarm, authentication nor the wake in flight.\<close>

definition quiet :: "computer \<Rightarrow> computer \<Rightarrow> bool" where
  "quiet c c' \<longleftrightarrow> c_meta c' = c_meta c \<and> c_stored c' = c_stored c \<and> c_alarm c' = c_alarm c
     \<and> c_auth c' = c_auth c \<and> c_flight c' = c_flight c \<and> mints c' = mints c"

lemma quiet_refl [simp]: "quiet c c"
  by (simp add: quiet_def)

lemma quiet_trans: "quiet a b \<Longrightarrow> quiet b c \<Longrightarrow> quiet a c"
  by (simp add: quiet_def)

lemma quiet_adv: "quiet c c' \<Longrightarrow> adv c c'"
  by (rule adv_same) (simp_all add: quiet_def)

lemma quiet_settled: "quiet c c' \<Longrightarrow> settled c' = settled c"
  by (simp add: quiet_def settled_def stored_meta_def)

lemma quiet_fold: "(\<And>x c. quiet c (f x c)) \<Longrightarrow> quiet c (fold f xs c)"
proof (induction xs arbitrary: c)
  case (Cons x xs)
  then show ?case using quiet_trans [OF Cons.prems [of c x] Cons.IH] by simp
qed simp

lemma dispatch_fields [frame_simps]:
  "c_meta (snd (dispatchTo cf now ans s c)) = c_meta c" "c_stored (snd (dispatchTo cf now ans s c)) = c_stored c"
  "c_alarm (snd (dispatchTo cf now ans s c)) = c_alarm c" "c_auth (snd (dispatchTo cf now ans s c)) = c_auth c"
  "c_flight (snd (dispatchTo cf now ans s c)) = c_flight c" "c_supervisor (snd (dispatchTo cf now ans s c)) = c_supervisor c"
  "mints (snd (dispatchTo cf now ans s c)) = mints c" "c_journal (snd (dispatchTo cf now ans s c)) = c_journal c"
  by (simp_all add: dispatchTo_def frame_simps split: prod.split)

lemma quiet_send: "quiet c (sendControl m c)"
  by (simp add: quiet_def frame_simps)

lemma quiet_emits: "quiet c (emits cf es c)"
  by (simp add: quiet_def frame_simps)

lemma quiet_broadcast: "quiet c (broadcastFrame run off bs c)" "quiet c (broadcastRunStatus run alive code c)"
  by (simp_all add: quiet_def broadcastFrame_def broadcastRunStatus_def frame_simps)

lemma quiet_flush: "quiet c (flushTimer c)"
proof -
  have s: "quiet c (flush_send x c)" for x c
    unfolding flush_send_def by (rule quiet_trans [OF quiet_send quiet_broadcast(1)])
  obtain j outs where f: "flushAll (computerId (c_meta c)) (c_journal c) = (j, outs)" by (rule prod.exhaust)
  have "quiet c (c\<lparr>c_journal := j\<rparr>)" by (simp add: quiet_def)
  then have "quiet c (fold flush_send outs (c\<lparr>c_journal := j\<rparr>))"
    by (rule quiet_trans) (rule quiet_fold, rule s)
  then show ?thesis by (simp add: flushTimer_def f)
qed

lemma quiet_client: "quiet c (client_open s c)" "quiet c (client_close s c)" "quiet c (onClientMessage s msg c)"
  by (simp_all add: quiet_def client_open_def client_close_def onClientMessage_def Let_def frame_simps
      split: client_to_do.split option.split)

lemma quiet_stop: "quiet c (snd (stop_run cf now run c))"
proof -
  obtain res db msgs evs where s: "stopRun now (c_supervisor c \<noteq> None) run (c_db c) = (res, db, msgs, evs)"
    by (metis prod_cases4)
  have d: "quiet c (c\<lparr>c_db := db\<rparr>)" by (simp add: quiet_def)
  have "quiet (c\<lparr>c_db := db\<rparr>) (fold sendControl msgs (c\<lparr>c_db := db\<rparr>))" by (rule quiet_fold) (rule quiet_send)
  then show ?thesis
    using quiet_trans [OF d quiet_trans [OF _ quiet_emits]] unfolding stop_run_def s by simp
qed

lemma quiet_dismiss: "quiet c (snd (dismiss_attention cf aid c))"
  by (simp add: dismiss_attention_def quiet_def frame_simps case_prod_unfold)

lemma quiet_snapshot: "quiet c (snd (snapshotNow r c))"
  by (simp add: snapshotNow_def quiet_send)

lemma hello_ok:
  shows "adv c (onHello cf now ans i ep tok proto s c)" "settled c \<Longrightarrow> settled (onHello cf now ans i ep tok proto s c)"
proof -
  have u: "list_all (\<lambda>(s, e). e \<le> n) xs \<Longrightarrow> list_all (\<lambda>(s, e). e \<le> n) (AList.update s n xs)" for n :: nat and xs :: "(sock \<times> nat) list"
    by (induction xs) auto
  show "adv c (onHello cf now ans i ep tok proto s c)"
    by (auto simp: adv_def half_ok_def onHello_def Let_def frame_simps u)
  show "settled c \<Longrightarrow> settled (onHello cf now ans i ep tok proto s c)"
    by (auto simp: settled_def stored_meta_def onHello_def Let_def frame_simps)
qed

lemma headAdvance_ok:
  "adv c (onHeadAdvance now m ep s c)" "settled c \<Longrightarrow> settled (onHeadAdvance now m ep s c)"
  by (rule adv_same; simp add: onHeadAdvance_def Let_def frame_simps)
     (simp add: settled_def stored_meta_def onHeadAdvance_def Let_def frame_simps)

lemma current_message_adv: "adv c (current_message cf now ans msg c)"
proof (cases msg)
  case (SnapshotWritten manifest ep reason)
  then show ?thesis by (simp add: current_message_def onSnapshotWritten_def finalizeCold_adv)
qed (auto intro!: adv_same simp: current_message_def broadcastRunStatus_def Let_def frame_simps
      split: prod.split option.split)

lemma current_message_settled: "settled c \<Longrightarrow> settled (current_message cf now ans msg c)"
proof (cases msg)
  case (SnapshotWritten manifest ep reason)
  then show "settled c \<Longrightarrow> settled (current_message cf now ans msg c)"
    by (simp add: current_message_def onSnapshotWritten_def finalizeCold_settled)
next
  case (RunHeartbeat run)
  then show "settled c \<Longrightarrow> settled (current_message cf now ans msg c)"
    by (simp add: current_message_def settled_def stored_meta_def frame_simps touch_alarm)
qed (auto simp: current_message_def settled_def stored_meta_def broadcastRunStatus_def Let_def frame_simps
      split: prod.split option.split)

lemma supervisor_message_ok:
  "adv c (onSupervisorMessage cf now ans msg s c)"
  "settled c \<Longrightarrow> settled (onSupervisorMessage cf now ans msg s c)"
proof -
  let ?c1 = "upd (\<lambda>m. m\<lparr>livenessStrikes := 0\<rparr>) (c\<lparr>c_lastSupervisorAt := now\<rparr>)"
  have a: "adv c ?c1" by (rule adv_same) (simp_all add: frame_simps)
  have st: "settled c \<Longrightarrow> settled ?c1" by (simp add: settled_def stored_meta_def frame_simps)
  note adv_trans [OF a headAdvance_ok(1)] adv_trans [OF a current_message_adv]
  then show "adv c (onSupervisorMessage cf now ans msg s c)"
    using a hello_ok(1) by (cases msg) (simp_all add: onSupervisorMessage_def Let_def)
  show "settled c \<Longrightarrow> settled (onSupervisorMessage cf now ans msg s c)"
    using st headAdvance_ok(2) [of ?c1] current_message_settled [of ?c1] hello_ok(2)
    by (cases msg) (simp_all add: onSupervisorMessage_def Let_def)
qed

lemma lost_ok: "adv c (onSupervisorLost cf now c)" "settled c \<Longrightarrow> settled (onSupervisorLost cf now c)"
  by (rule adv_same; simp add: onSupervisorLost_def frame_simps)
     (simp add: onSupervisorLost_def settled_def stored_meta_def frame_simps)

lemma close_ok: "adv c (supervisor_close cf now s c)" "settled c \<Longrightarrow> settled (supervisor_close cf now s c)"
proof -
  let ?c1 = "c\<lparr>c_auth := AList.delete s (c_auth c), c_supervisor := (if c_supervisor c = Some s then None else c_supervisor c)\<rparr>"
  have d: "list_all P xs \<Longrightarrow> list_all P (AList.delete s xs)" for P and xs :: "(sock \<times> nat) list"
    by (simp add: AList.delete_eq list_all_iff)
  have a: "adv c ?c1" by (auto simp: adv_def half_ok_def d)
  have st: "settled c \<Longrightarrow> settled ?c1" by (simp add: settled_def stored_meta_def)
  show "adv c (supervisor_close cf now s c)"
    unfolding supervisor_close_def Let_def using a adv_trans [OF a lost_ok(1)] by simp
  show "settled c \<Longrightarrow> settled (supervisor_close cf now s c)"
    unfolding supervisor_close_def Let_def using st lost_ok(2) [of ?c1] by simp
qed

lemma quiet_dispatch: "quiet c (snd (dispatch_if_current cf now ans c))"
  by (simp add: dispatch_if_current_def quiet_def frame_simps split: option.split)

lemma enqueue_ok:
  "adv c (snd (enqueueRun cf now ans cid rq c))"
  "settled c \<Longrightarrow> settled (snd (enqueueRun cf now ans cid rq c))"
proof -
  let ?c0 = "setComputerId cid c"
  have "adv c (snd (enqueueRun cf now ans cid rq c)) \<and> (settled c \<longrightarrow> settled (snd (enqueueRun cf now ans cid rq c)))"
  proof (cases "enqueue_insert (computerRoot cf) now rq (c_db ?c0)")
    case (Some x)
    obtain db evs where x: "x = (db, evs)" by (cases x)
    let ?c1 = "emits cf evs (persist (?c0\<lparr>c_db := db\<rparr>))"
    have 1: "adv c ?c1" by (rule adv_same) (simp_all add: frame_simps)
    have s1: "settled c \<Longrightarrow> settled ?c1" by (simp add: settled_def stored_meta_def frame_simps)
    obtain n c2 where q: "dispatch_if_current cf now ans ?c1 = (n, c2)" by (rule prod.exhaust)
    then have qq: "quiet ?c1 c2" using quiet_dispatch [of ?c1 cf now ans] by simp
    have 2: "adv c c2" by (rule adv_trans [OF 1 quiet_adv [OF qq]])
    have s2: "settled c \<Longrightarrow> settled c2" using s1 quiet_settled [OF qq] by simp
    have 3: "adv c2 (persist (armAlarm (armLiveness cf now c2)))" by (rule adv_same) (simp_all add: frame_simps)
    have s3: "settled (persist (armAlarm (armLiveness cf now c2)))" by (simp add: settled_def stored_meta_def frame_simps)
    show ?thesis
      using adv_trans [OF 2 wakeInBackground_adv] adv_trans [OF 2 3] s2 s3 wakeInBackground_settled [of c2]
      by (simp add: enqueueRun_def Let_def Some x q)
  qed (simp add: enqueueRun_def Let_def)
  then show "adv c (snd (enqueueRun cf now ans cid rq c))"
    "settled c \<Longrightarrow> settled (snd (enqueueRun cf now ans cid rq c))" by blast+
qed

lemma keep_ok: "adv c (snd (keep_run now run obs c))" "settled c \<Longrightarrow> settled (snd (keep_run now run obs c))"
  by (rule adv_same; simp add: keep_run_def case_prod_unfold frame_simps)
     (simp add: keep_run_def case_prod_unfold settled_def stored_meta_def frame_simps)

lemma quiet_sends: "quiet c (fold sendControl msgs c)"
  by (rule quiet_fold) (rule quiet_send)

lemma revert_ok: "adv c (snd (revert_run now run obs c))" "settled c \<Longrightarrow> settled (snd (revert_run now run obs c))"
proof -
  let ?r = "revertRun now (epoch (c_meta c)) (c_supervisor c \<noteq> None) run obs (head_prev (c_meta c)) (c_db c)"
  let ?c1 = "syncFleetState now (persist (upd (\<lambda>m. m\<lparr>head_prev := fst (snd ?r)\<rparr>) c))"
  let ?c2 = "(fold sendControl (snd (snd (snd ?r))) ?c1)\<lparr>c_db := fst (snd (snd ?r))\<rparr>"
  have q: "quiet ?c1 ?c2" using quiet_sends [of ?c1 "snd (snd (snd ?r))"] by (simp add: quiet_def)
  have a: "adv c ?c1" by (rule adv_same) (simp_all add: frame_simps)
  have s: "settled c \<Longrightarrow> settled ?c1" by (simp add: settled_def stored_meta_def frame_simps)
  have e: "snd (revert_run now run obs c) = (if dr_applied (fst ?r) then ?c2 else c)"
    by (simp add: revert_run_def case_prod_unfold)
  show "adv c (snd (revert_run now run obs c))" unfolding e using adv_trans [OF a quiet_adv [OF q]] by simp
  show "settled c \<Longrightarrow> settled (snd (revert_run now run obs c))" unfolding e using s quiet_settled [OF q] by simp
qed

lemma bind_ok:
  "adv c (setLayout i l c)" "settled c \<Longrightarrow> settled (setLayout i l c)"
  "adv c (snd (describe now cid c))" "settled c \<Longrightarrow> settled (snd (describe now cid c))"
  "adv c (initFromManifest i h c)" "settled c \<Longrightarrow> settled (initFromManifest i h c)"
proof -
  show "adv c (setLayout i l c)" by (rule adv_same) (simp_all add: setLayout_def frame_simps)
  show "adv c (snd (describe now cid c))" by (rule adv_same) (simp_all add: describe_def Let_def frame_simps)
  show "adv c (initFromManifest i h c)" by (rule adv_land) (simp_all add: initFromManifest_def frame_simps)
qed (simp_all add: setLayout_def describe_def Let_def initFromManifest_def settled_def stored_meta_def frame_simps)

lemma evict_ok:
  assumes "computer_ok c"
  shows "computer_ok (evict now c)" "epoch (c_meta (evict now c)) = epoch (c_meta c)"
    "core (c_meta (evict now c)) =
       core (if state (c_meta c) = StWaking then (c_meta c)\<lparr>wakingAt := Some (now + WAKING_REVIVE_MS)\<rparr> else c_meta c)"
proof -
  have k: "core (stored_meta c) = core (c_meta c)" using assms by (simp add: computer_ok_def settled_def)
  note f = core_eq_fields [OF k]
  have c2: "core (m\<lparr>wakingAt := t\<rparr>) = core m' \<lparr>wakingAt := t\<rparr>" if "core m = core m'" for m m' t
    using that by (cases m; cases m') (simp add: core_def)
  have c3: "core (m\<lparr>wakingAt := t\<rparr>) = core m \<lparr>wakingAt := t\<rparr>" for m t by (simp add: core_def)
  have m: "c_meta (evict now c) = (if state (stored_meta c) = StWaking
      then (stored_meta c)\<lparr>wakingAt := Some (now + WAKING_REVIVE_MS)\<rparr> else stored_meta c)"
    by (simp add: evict_def Let_def frame_simps stored_meta_def)
  show "epoch (c_meta (evict now c)) = epoch (c_meta c)" using f by (simp add: m)
  show "core (c_meta (evict now c)) =
       core (if state (c_meta c) = StWaking then (c_meta c)\<lparr>wakingAt := Some (now + WAKING_REVIVE_MS)\<rparr> else c_meta c)"
    using f k by (simp add: m c3)
  show "computer_ok (evict now c)"
    using assms f k
    by (auto simp: computer_ok_def half_ok_def settled_def m)
       (auto simp: evict_def Let_def frame_simps stored_meta_def computer_ok_def settled_def)
qed


section \<open>Every step of a computer\<close>

lemma step_adv:
  assumes "computer_ok c"
  shows "adv c (computer_step cf e now ans c)"
proof (cases e)
  case CeEvict
  then show ?thesis
    using evict_ok(1,2) [OF assms] by (simp add: adv_def computer_ok_def)
next
  case (CeWrite cid run path content env)
  then show ?thesis by (simp add: enqueueWrite_def enqueue_ok)
qed (simp_all add: wake_adv wake_answer_adv ad.R_alarm ad.R_healthCheck supervisor_message_ok close_ok enqueue_ok
      quiet_adv quiet_stop keep_ok revert_ok quiet_snapshot ad.R_sleepNow ad.R_deepSleepNow quiet_dismiss bind_ok
      quiet_client quiet_flush)

lemma step_settled:
  assumes "\<not> cf_unbacked cf" "computer_ok c"
  shows "settled (computer_step cf e now ans c)"
proof -
  have s: "settled c" and h: "half_ok c" using assms(2) by (simp_all add: computer_ok_def)
  have q: "settled c'" if "quiet c c'" for c' using quiet_settled [OF that] s by simp
  show ?thesis
  proof (cases e)
    case CeEvict
    then show ?thesis using evict_ok(1) [OF assms(2)] by (simp add: computer_ok_def)
  next
    case (CeWrite cid run path content env)
    then show ?thesis using s by (simp add: enqueueWrite_def enqueue_ok)
  next
    case CeDeepSleep
    then show ?thesis using s by (simp add: deepSleepNow_def beginCold_settled)
  qed (use s h assms(1) in \<open>simp_all add: wake_settled wake_answer_settled alarm_settled healthCheck_settled
      supervisor_message_ok close_ok enqueue_ok keep_ok revert_ok sleepNow_settled bind_ok
      q quiet_stop quiet_snapshot quiet_dismiss quiet_client quiet_flush\<close>)
qed

lemma step_ok:
  assumes "\<not> cf_unbacked cf" "computer_ok c"
  shows "computer_ok (computer_step cf e now ans c)"
    "epoch (c_meta c) \<le> epoch (c_meta (computer_step cf e now ans c))"
  using step_adv [OF assms(2)] step_settled [OF assms] assms(2)
  by (simp_all add: adv_def computer_ok_def)

lemma fresh_ok: "computer_ok fresh_computer"
  by (simp add: computer_ok_def half_ok_def settled_def stored_meta_def fresh_computer_def initialMeta_def
      earliest_def DEADLINES_def earlier_def)

text \<open>A deployment with a substrate: the machine whose every step keeps the invariant.\<close>

definition backed :: "config \<Rightarrow> config" where
  "backed cf = cf\<lparr>cf_unbacked := False\<rparr>"

lemma backed_id: "\<not> cf_unbacked cf \<Longrightarrow> backed cf = cf"
  by (simp add: backed_def)

lemma not_unbacked [simp]: "\<not> cf_unbacked (backed cf)"
  by (simp add: backed_def)

lemma computer_run_fold: "computer_run cf es c = fold (\<lambda>(e, now, ans). computer_step cf e now ans) es c"
  by (induction cf es c rule: computer_run.induct) simp_all

interpretation live: guarded_machine
  "\<lambda>(e, now, ans). computer_step (backed cf) e now ans" computer_ok "\<lambda>c. epoch (c_meta c)" for cf
  by unfold_locales (auto simp: step_ok)

lemma run_ok:
  assumes "\<not> cf_unbacked cf" "computer_ok c"
  shows "computer_ok (computer_run cf es c)" "epoch (c_meta c) \<le> epoch (c_meta (computer_run cf es c))"
  using live.all_kept [where cf = cf and s = c and es = es] live.all_grows [where cf = cf and s = c and es = es] assms
  by (simp_all add: computer_run_fold backed_id)

lemma run_append: "computer_run cf (es @ fs) c = computer_run cf fs (computer_run cf es c)"
  by (simp add: computer_run_fold)

end
