(* ===== verification/ComputerProps.thy ===== *)
theory ComputerProps
  imports ComputerInv
begin

text \<open>
  The properties of a computer's Durable Object over every sequence of operations, with evictions of the
  object anywhere in it: generations, the alarm, the one wake in flight, the fence against a stale
  supervisor, what moves the head, bounded recovery, and two defects of the lifecycle.
\<close>

section \<open>What a lifecycle operation leaves alone\<close>

definition tame :: "computer \<Rightarrow> computer \<Rightarrow> bool" where
  "tame c c' \<longleftrightarrow> head_prev (c_meta c') = head_prev (c_meta c)
     \<and> (c_flight c \<noteq> None \<longrightarrow> c_flight c' \<noteq> None \<and> mints c' = mints c)"

lemma tame_refl [simp]: "tame c c"
  by (simp add: tame_def)

lemma tame_trans: "tame a b \<Longrightarrow> tame b c \<Longrightarrow> tame a c"
  by (auto simp: tame_def)

lemma tame_same:
  "head_prev (c_meta c') = head_prev (c_meta c) \<Longrightarrow> mints c' = mints c \<Longrightarrow> c_flight c' = c_flight c \<Longrightarrow> tame c c'"
  by (simp add: tame_def)

lemma wakeInner_head: "head_prev (c_meta (snd (wakeInner cf now ans c))) = head_prev (c_meta c)"
  by (auto simp: wakeInner_def Let_def wake_mint_fields frame_simps verify_eq split: prod.split awake_verdict.split)

lemma wake_head: "head_prev (c_meta (snd (wake cf now ans cid c))) = head_prev (c_meta c)"
  by (simp add: wake_def Let_def wakeInner_head frame_simps)

lemma tame_background: "tame c (wakeInBackground cf now ans c)"
  by (auto simp: wakeInBackground_def Let_def tame_def wake_head)

lemma tame_watchdog: "tame c (alarm_one cf now ans forced WakingD c)"
  by (auto simp: alarm_one_def onWakingDeadline_def tame_def frame_simps failWake_fields split: option.split)

interpretation tm: lifecycle_order tame
proof
  show "tame a b \<Longrightarrow> tame b c \<Longrightarrow> tame a c" for a b c by (rule tame_trans)
qed (simp_all add: tame_background tame_watchdog,
     simp_all add: tame_def small_def land_def falsy_def frame_simps finalizeCold_fields)

lemma tame_quiet: "quiet c c' \<Longrightarrow> tame c c'"
  by (simp add: quiet_def tame_def)

lemma tame_hello: "tame c (onHello cf now ans i ep tok proto s c)"
  by (auto simp: onHello_def Let_def tame_def frame_simps)

lemma tame_lost: "tame c (onSupervisorLost cf now c)"
  by (auto simp: onSupervisorLost_def tame_def frame_simps)

lemma tame_close: "tame c (supervisor_close cf now s c)"
  using tame_lost by (auto simp: supervisor_close_def Let_def tame_def)

lemma head_update: "head_prev (c_meta (touch cf now c)) = head_prev (c_meta c)"
  by (simp add: frame_simps)

lemma current_frames:
  "c_flight (current_message cf now ans msg c) = c_flight c" "mints (current_message cf now ans msg c) = mints c"
  "(\<And>m ep. msg = SnapshotWritten m ep SrFinal \<Longrightarrow> \<not> coldPending (c_meta c)) \<Longrightarrow>
     head_prev (c_meta (current_message cf now ans msg c)) = head_prev (c_meta c)"
  by (cases msg; auto simp: current_message_def onSnapshotWritten_def broadcastRunStatus_def Let_def
      frame_simps finalizeCold_fields split: prod.split option.split)+

lemma supervisor_calm:
  "c_flight (onSupervisorMessage cf now ans msg s c) = c_flight c"
  "mints (onSupervisorMessage cf now ans msg s c) = mints c"
  by (cases msg; simp add: onSupervisorMessage_def onHello_def onHeadAdvance_def Let_def frame_simps current_frames(1,2))+

section \<open>Operations and the wake in flight\<close>

lemma enqueue_tame: "tame c (snd (enqueueRun cf now ans cid rq c))"
proof -
  have d: "tame a (snd (dispatch_if_current cf now ans a))" for a
    by (rule tame_quiet) (rule quiet_dispatch)
  have a: "tame a (persist (armAlarm (armLiveness cf now a)))" for a
    by (rule tame_same) (simp_all add: frame_simps)
  have e: "tame c (emits cf evs (persist ((setComputerId cid c)\<lparr>c_db := db\<rparr>)))" for evs db
    by (rule tame_same) (simp_all add: frame_simps)
  have i: "tame c (setComputerId cid c)" by (rule tame_same) (simp_all add: frame_simps)
  show ?thesis
    using i tame_trans [OF e tame_trans [OF d tame_background]] tame_trans [OF e tame_trans [OF d a]]
    by (auto simp: enqueueRun_def Let_def case_prod_unfold split: option.split)
qed

lemma wake_tame: "c_flight c \<noteq> None \<Longrightarrow> tame c (snd (wake cf now ans cid c))"
  by (simp add: wake_def Let_def tame_def frame_simps)

lemma decision_frames:
  "c_flight (snd (keep_run now run obs c)) = c_flight c" "mints (snd (keep_run now run obs c)) = mints c"
  "c_flight (snd (revert_run now run obs c)) = c_flight c" "mints (snd (revert_run now run obs c)) = mints c"
proof -
  have q: "c_flight (fold sendControl ms d) = c_flight d" "mints (fold sendControl ms d) = mints d" for ms d
    using quiet_sends [of d ms] by (simp_all add: quiet_def)
  show "c_flight (snd (keep_run now run obs c)) = c_flight c" "mints (snd (keep_run now run obs c)) = mints c"
    by (simp_all add: keep_run_def case_prod_unfold frame_simps)
  show "c_flight (snd (revert_run now run obs c)) = c_flight c" "mints (snd (revert_run now run obs c)) = mints c"
    by (simp_all add: revert_run_def case_prod_unfold frame_simps q)
qed

lemma bind_frames:
  "c_flight (setLayout i l c) = c_flight c" "mints (setLayout i l c) = mints c"
  "head_prev (c_meta (setLayout i l c)) = head_prev (c_meta c)"
  "c_flight (snd (describe now cid c)) = c_flight c" "mints (snd (describe now cid c)) = mints c"
  "head_prev (c_meta (snd (describe now cid c))) = head_prev (c_meta c)"
  "c_flight (initFromManifest i h c) = c_flight c" "mints (initFromManifest i h c) = mints c"
  by (simp_all add: setLayout_def describe_def Let_def initFromManifest_def frame_simps)

lemmas tame_steps = tm.R_alarm tm.R_healthCheck tm.R_sleepNow tm.R_deepSleepNow tame_close
  tame_quiet [OF quiet_stop] tame_quiet [OF quiet_snapshot] tame_quiet [OF quiet_dismiss]
  tame_quiet [OF quiet_client(1)] tame_quiet [OF quiet_client(2)] tame_quiet [OF quiet_client(3)]
  tame_quiet [OF quiet_flush]

lemmas tame_facts = tame_steps [unfolded tame_def]

lemma step_calm:
  assumes "e \<noteq> CeWakeAnswer" "e \<noteq> CeEvict" "c_flight c \<noteq> None"
  shows "c_flight (computer_step cf e now ans c) \<noteq> None \<and> mints (computer_step cf e now ans c) = mints c"
proof (cases e)
  case (CeWrite cid run path content env)
  then show ?thesis
    using enqueue_tame [of c cf now ans cid "write_request (cf_root cf) run path content env"] assms(3)
    by (simp add: enqueueWrite_def tame_def)
next
  case (CeEnqueue cid rq)
  then show ?thesis using enqueue_tame assms(3) by (simp add: tame_def)
next
  case (CeWake cid)
  then show ?thesis using wake_tame [OF assms(3)] assms(3) by (simp add: tame_def)
qed (use assms in \<open>simp_all add: supervisor_calm decision_frames bind_frames tame_facts\<close>)

section \<open>What moves the head\<close>

lemma wake_answer_head: "head_prev (c_meta (snd (wake_answer cf now ans c))) = head_prev (c_meta c)"
proof -
  have r: "head_prev (c_meta (snd (wake_refuse cf now ans w c))) = head_prev (c_meta c)" for w
    using wakeInner_head [of cf now ans]
    by (simp add: wake_refuse_def Let_def case_prod_unfold frame_simps failWake_fields split: wake_outcome.split)
  show ?thesis
    by (simp add: wake_answer_def wake_complete_def Let_def case_prod_unfold frame_simps r split: option.split)
qed

text \<open>The operations that are meant to move the head.\<close>

fun moves_head :: "computer \<Rightarrow> computer_event \<Rightarrow> bool" where
  "moves_head c (CeSupervisor (HeadAdvanceRequest m ep) s) \<longleftrightarrow> map_of (c_auth c) s \<noteq> None \<and> ep = epoch (c_meta c)"
| "moves_head c (CeSupervisor (SnapshotWritten m ep r) s) \<longleftrightarrow> isCurrentSupervisor c s \<and> coldPending (c_meta c) \<and> r = SrFinal"
| "moves_head c (CeKeep run obs) \<longleftrightarrow> True"
| "moves_head c (CeRevert run obs) \<longleftrightarrow> True"
| "moves_head c (CeInit cid h) \<longleftrightarrow> True"
| "moves_head c _ \<longleftrightarrow> False"

lemma supervisor_head:
  assumes "\<not> moves_head c (CeSupervisor msg s)"
  shows "head_prev (c_meta (onSupervisorMessage cf now ans msg s c)) = head_prev (c_meta c)"
proof (cases msg)
  case (SnapshotWritten m ep r)
  then show ?thesis
    using assms by (auto simp: onSupervisorMessage_def Let_def current_message_def onSnapshotWritten_def
        isCurrentSupervisor_def frame_simps)
qed (use assms in \<open>auto simp: onSupervisorMessage_def onHello_def onHeadAdvance_def current_message_def
      broadcastRunStatus_def Let_def frame_simps split: prod.split option.split\<close>)

lemma step_head:
  assumes "computer_ok c" "\<not> moves_head c e"
  shows "head_prev (c_meta (computer_step cf e now ans c)) = head_prev (c_meta c)"
proof (cases e)
  case CeEvict
  have "core (c_meta (evict now c)) = core (if state (c_meta c) = StWaking
      then (c_meta c)\<lparr>wakingAt := Some (now + WAKING_REVIVE_MS)\<rparr> else c_meta c)"
    by (rule evict_ok(3) [OF assms(1)])
  from core_eq_fields [OF this] CeEvict show ?thesis by simp
next
  case (CeSupervisor msg s)
  then show ?thesis using supervisor_head assms(2) by simp
next
  case (CeWrite cid run path content env)
  then show ?thesis
    using enqueue_tame [of c cf now ans cid "write_request (cf_root cf) run path content env"]
    by (simp add: enqueueWrite_def tame_def)
next
  case (CeEnqueue cid rq)
  then show ?thesis using enqueue_tame by (simp add: tame_def)
qed (use assms(2) in \<open>simp_all add: wake_head wake_answer_head bind_frames tame_facts\<close>)

section \<open>The alarm\<close>

text \<open>The pending deadlines of a record, and what the code's loop computes from them.\<close>

definition pending_times :: "meta \<Rightarrow> time list" where
  "pending_times m = List.map_filter (\<lambda>d. deadlineAt d m) DEADLINES"

lemma fold_earlier:
  "fold (\<lambda>d best. earlier best (f d)) ds b =
     (let ts = (case b of None \<Rightarrow> [] | Some v \<Rightarrow> [v]) @ List.map_filter f ds
      in if ts = [] then None else Some (Min (set ts)))"
proof (induction ds arbitrary: b)
  case Nil
  then show ?case by (simp add: map_filter_simps split: option.split)
next
  case (Cons d ds)
  have m: "finite X \<Longrightarrow> a < b \<Longrightarrow> Min (insert a X) = min a (Min (insert b X))"
    "finite X \<Longrightarrow> \<not> a < b \<Longrightarrow> Min (insert b X) = min a (Min (insert b X))" for a b :: time and X
    by (cases "X = {}"; auto simp: min_def)+
  show ?case
    unfolding fold.simps o_apply Cons.IH
    by (simp add: map_filter_simps earlier_def Let_def m split: option.split)
qed

lemma earliest_Min:
  "earliest m = (if pending_times m = [] then None else Some (Min (set (pending_times m))))"
  unfolding earliest_def fold_earlier pending_times_def by simp

lemma pending_times_iff: "t \<in> set (pending_times m) \<longleftrightarrow> (\<exists>d. deadlineAt d m = Some t)"
proof -
  have "d \<in> set DEADLINES" for d by (cases d) (simp_all add: DEADLINES_def)
  then show ?thesis by (auto simp: pending_times_def map_filter_def image_iff)
qed

section \<open>Properties\<close>

abbreviation reached :: "config \<Rightarrow> (computer_event \<times> time \<times> answers) list \<Rightarrow> computer" where
  "reached cf es \<equiv> computer_run cf es fresh_computer"

lemma reached_ok: "\<not> cf_unbacked cf \<Longrightarrow> computer_ok (reached cf es)"
  by (rule run_ok(1) [OF _ fresh_ok])

lemma reached_mono: "\<not> cf_unbacked cf \<Longrightarrow> epoch (c_meta (reached cf es)) \<le> epoch (c_meta (reached cf (es @ fs)))"
  unfolding run_append by (rule run_ok(2) [OF _ reached_ok])

lemma reached_books:
  assumes "\<not> cf_unbacked cf"
  shows "sorted_wrt (<) (mints (reached cf es))" "list_all (\<lambda>e. e \<le> epoch (c_meta (reached cf es))) (mints (reached cf es))"
    "state (c_meta (reached cf es)) = StWaking \<Longrightarrow> wakingAt (c_meta (reached cf es)) \<noteq> None"
    "c_alarm (reached cf es) = earliest (c_meta (reached cf es))"
  using reached_ok [OF assms, of es] unfolding computer_ok_def half_ok_def settled_def by blast+

lemma reached_stored:
  assumes "\<not> cf_unbacked cf"
  shows "epoch (stored_meta (reached cf es)) = epoch (c_meta (reached cf es))"
proof -
  have "core (stored_meta (reached cf es)) = core (c_meta (reached cf es))"
    using reached_ok [OF assms, of es] unfolding computer_ok_def settled_def by blast
  from core_eq_fields [OF this] show ?thesis by blast
qed

definition demo_config :: config where
  "demo_config = \<lparr>cf_root = None, cf_warmIdle = None, cf_coldIdle = None, cf_grace = None, cf_liveness = None,
     cf_coldFinalize = None, cf_wakeTimeout = None, cf_s3_store = False, cf_credential_ttl = 3600,
     cf_supportsWarm = True, cf_resumeBeforeCold = (\<lambda>_. False), cf_unbacked = False, cf_events = True\<rparr>"

definition demo_answers :: answers where
  "demo_answers = \<lparr>an_token = ''t'', an_materialize = Some ''h'', an_resume = True, an_destroy = True,
     an_sleep = True, an_probe = Alive, an_send = (\<lambda>_. True)\<rparr>"

definition demo_boot :: "(computer_event \<times> time \<times> answers) list" where
  "demo_boot = [(CeWake (Some ''c''), 1000, demo_answers), (CeWakeAnswer, 2000, demo_answers),
     (CeSupervisor (Hello ''c'' 1 ''t'' 1) 7, 3000, demo_answers)]"

lemma demo_first_wake:
  "c_flight (reached demo_config [(CeWake (Some ''c''), 1000, demo_answers)]) = Some \<lparr>wf_wasWarm = False, wf_token = ''t''\<rparr>"
  "state (c_meta (reached demo_config [(CeWake (Some ''c''), 1000, demo_answers)])) = StWaking"
  "c_supervisor (reached demo_config [(CeWake (Some ''c''), 1000, demo_answers)]) = None"
  "\<not> cf_unbacked demo_config" "an_materialize demo_answers = Some ''h''"
  "\<not> wf_wasWarm \<lparr>wf_wasWarm = False, wf_token = ''t''\<rparr>"
  by (simp_all add: wake_def wakeInner_def wake_mint_def Let_def frame_simps setComputerId_def falsy_def
      fresh_computer_def initialMeta_def demo_config_def demo_answers_def)

text \<open>C6: Generations only grow.  Over every sequence of operations of a computer, with the object evicted
  and constructed again at any points of it, the epoch never goes down; the machines asked for get strictly
  increasing epochs, so no two machines of one computer share a generation; and no epoch was ever handed
  out that the storage does not already record, so an eviction cannot hand it out again.\<close>

theorem generations_only_grow:
  assumes "\<not> cf_unbacked cf"
  shows "epoch (c_meta (reached cf es)) \<le> epoch (c_meta (reached cf (es @ fs)))
    \<and> sorted_wrt (<) (mints (reached cf es))
    \<and> list_all (\<lambda>e. e \<le> epoch (stored_meta (reached cf es))) (mints (reached cf es))"
  using reached_mono [OF assms, of es fs] reached_books [OF assms, of es] reached_stored [OF assms, of es] by simp

theorem generations_only_grow_witness:
  "epoch (c_meta (reached demo_config demo_boot)) \<le> epoch (c_meta (reached demo_config (demo_boot @ demo_boot)))
    \<and> sorted_wrt (<) (mints (reached demo_config demo_boot))
    \<and> list_all (\<lambda>e. e \<le> epoch (stored_meta (reached demo_config demo_boot))) (mints (reached demo_config demo_boot))"
  by (rule generations_only_grow) (simp add: demo_config_def)

text \<open>The one alarm is the minimum of the deadlines.  At every point between two operations the platform
  alarm is set to the earliest pending deadline, and to nothing exactly when no deadline is pending; a
  computer that is WAKING always has one, at or before its watchdog.\<close>

theorem alarm_is_the_minimum:
  assumes "\<not> cf_unbacked cf"
  shows "c_alarm (reached cf es) =
      (if pending_times (c_meta (reached cf es)) = [] then None
       else Some (Min (set (pending_times (c_meta (reached cf es))))))
    \<and> (state (c_meta (reached cf es)) = StWaking \<longrightarrow>
      (\<exists>t w. c_alarm (reached cf es) = Some t \<and> wakingAt (c_meta (reached cf es)) = Some w \<and> t \<le> w))"
proof -
  let ?m = "c_meta (reached cf es)"
  note a = reached_books(4) [OF assms, of es, unfolded earliest_Min]
  have "\<exists>t w. c_alarm (reached cf es) = Some t \<and> wakingAt ?m = Some w \<and> t \<le> w" if "state ?m = StWaking"
  proof -
    from reached_books(3) [OF assms that] obtain w where w: "wakingAt ?m = Some w" by blast
    then have "w \<in> set (pending_times ?m)"
      unfolding pending_times_iff by (intro exI [of _ WakingD]) simp
    then show ?thesis using w a Min_le [of "set (pending_times ?m)" w] by (cases "pending_times ?m") auto
  qed
  then show ?thesis using a by blast
qed

theorem alarm_is_the_minimum_witness:
  "c_alarm (reached demo_config demo_boot) =
      (if pending_times (c_meta (reached demo_config demo_boot)) = [] then None
       else Some (Min (set (pending_times (c_meta (reached demo_config demo_boot))))))"
  using alarm_is_the_minimum [of demo_config demo_boot] by (simp add: demo_config_def)

text \<open>C10: An eviction loses nothing the lifecycle needs.  Whatever the object was doing, the record it is
  constructed again with is the one it had in memory, up to four fields (the binding to an id, the strike
  counter and the two meters of awake time), with the runs, the incidents, the journal in storage and the
  alarm; only a computer found WAKING is changed, by a fresh watchdog, which arms the alarm.\<close>

theorem eviction_loses_nothing:
  assumes "\<not> cf_unbacked cf"
  shows "let c = reached cf es; c' = evict now c in
    core (c_meta c') = core (if state (c_meta c) = StWaking
      then (c_meta c)\<lparr>wakingAt := Some (now + WAKING_REVIVE_MS)\<rparr> else c_meta c)
    \<and> c_db c' = c_db c \<and> c_journal c' = journal_evict (c_journal c) \<and> c_incidents c' = c_incidents c
    \<and> c_alarm c' = earliest (c_meta c')"
proof -
  note ok = reached_ok [OF assms, of es]
  have e: "c_alarm (evict now (reached cf es)) = earliest (c_meta (evict now (reached cf es)))"
    using evict_ok(1) [OF ok, of now] unfolding computer_ok_def settled_def by blast
  have f: "c_db (evict now c) = c_db c" "c_journal (evict now c) = journal_evict (c_journal c)"
    "c_incidents (evict now c) = c_incidents c" for c
    by (simp_all add: evict_def Let_def persist_def upd_def armAlarm_def)
  show ?thesis unfolding Let_def using evict_ok(3) [OF ok, of now] e f by blast
qed

theorem eviction_loses_nothing_witness:
  "c_alarm (evict 5000 (reached demo_config demo_boot)) = earliest (c_meta (evict 5000 (reached demo_config demo_boot)))"
  using eviction_loses_nothing [of demo_config demo_boot 5000] unfolding Let_def by (simp add: demo_config_def)

lemma evict_flight: "c_flight (evict now c) = None"
  by (simp add: evict_def Let_def frame_simps)

lemma evict_waking: "state (c_meta (evict now c)) = StWaking \<Longrightarrow> wakingAt (c_meta (evict now c)) = Some (now + WAKING_REVIVE_MS)"
  by (simp add: evict_def Let_def frame_simps split: if_splits)

text \<open>The alarm of a computer whose watchdog is due: WAKING is left, or a new wake is in flight.\<close>

definition unstuck :: "computer \<Rightarrow> bool" where
  "unstuck c \<longleftrightarrow> state (c_meta c) = StWaking \<longrightarrow> c_flight c \<noteq> None"

lemma wake_mint_flight:
  "c_flight (wake_mint cf now ans c) =
     Some \<lparr>wf_wasWarm = (state (c_meta c) = StWarm \<and> handle_of (c_meta c) \<noteq> None), wf_token = an_token ans\<rparr>"
  by (simp add: wake_mint_def Let_def frame_simps)

lemma background_unstuck:
  assumes "unstuck c"
  shows "unstuck (wakeInBackground cf now ans c)"
proof -
  have "unstuck (snd (wakeInner cf now ans c))"
    using assms
    by (auto simp: wake_mint_flight wakeInner_def unstuck_def Let_def frame_simps verify_eq split: prod.split awake_verdict.split)
  moreover have "setComputerId None c = c" by (simp add: setComputerId_def falsy_def)
  ultimately show ?thesis using assms by (simp add: wakeInBackground_def wake_def Let_def)
qed

lemma watchdog_unstuck: "unstuck c \<Longrightarrow> unstuck (alarm_one cf now fans forced WakingD c)"
  by (auto simp: alarm_one_def onWakingDeadline_def unstuck_def frame_simps failWake_fields split: option.split if_splits)

interpretation un: lifecycle_order "\<lambda>c c'. unstuck c \<longrightarrow> unstuck c'"
  by unfold_locales
    (auto simp: background_unstuck watchdog_unstuck, auto simp: unstuck_def small_def land_def frame_simps finalizeCold_fields)

lemma watchdog_due:
  assumes "state (c_meta c) = StWaking" "c_flight c = None" "wakingAt (c_meta c) = Some w" "w \<le> now"
  shows "unstuck (alarm_one cf now fans False WakingD c)"
  using assms by (simp add: alarm_one_def onWakingDeadline_def unstuck_def frame_simps failWake_fields)

lemma retry_before_watchdog:
  assumes "state (c_meta c) = StWaking" "c_flight c = None" "wakingAt (c_meta c) = Some w"
  shows "unstuck (alarm_one cf now fans False WakeRetry c)
     \<or> state (c_meta (alarm_one cf now fans False WakeRetry c)) = StWaking
       \<and> c_flight (alarm_one cf now fans False WakeRetry c) = None
       \<and> wakingAt (c_meta (alarm_one cf now fans False WakeRetry c)) = Some w"
proof -
  have "setComputerId None d = d" for d by (simp add: setComputerId_def falsy_def)
  then show ?thesis
    using assms
    by (auto simp: wake_mint_flight alarm_one_def onWakeRetryDeadline_def wakeInBackground_def wake_def wakeInner_def unstuck_def
        Let_def frame_simps split: option.split)
qed

lemma alarm_unstuck:
  assumes "unstuck c \<or> (\<exists>w. wakingAt (c_meta c) = Some w \<and> w \<le> now)"
  shows "unstuck (alarm cf now fans c)"
proof (cases "unstuck c")
  case True
  then show ?thesis using un.R_alarm by blast
next
  case False
  then obtain w where w: "wakingAt (c_meta c) = Some w" "w \<le> now" using assms by blast
  from False have s: "state (c_meta c) = StWaking" "c_flight c = None" by (auto simp: unstuck_def)
  let ?c = "c\<lparr>c_alarm := None\<rparr>" and ?one = "alarm_one cf now fans False"
  let ?P = "\<lambda>name. case deadlineAt name (c_meta ?c) of None \<Rightarrow> False | Some t \<Rightarrow> t \<le> now"
  have due: "due_names now (c_meta ?c) =
      filter ?P [WakeRetry] @ WakingD # filter ?P [Liveness, Credential, ColdD, Tier]"
    using w by (simp add: due_names_def DEADLINES_def)
  have 1: "unstuck (?one WakingD (fold ?one (filter ?P [WakeRetry]) ?c))"
    using retry_before_watchdog [of ?c w cf now fans] watchdog_due [of _ w now cf fans] watchdog_unstuck s w
    by (cases "?P WakeRetry") auto
  have 2: "unstuck (fold ?one (due_names now (c_meta ?c)) ?c)"
    unfolding due fold_append fold.simps o_apply using 1 un.R_alarm_fold by blast
  have 3: "alarm cf now fans c = armAlarm (persist (fold ?one (due_names now (c_meta ?c)) ?c))"
    using s due by (simp add: alarm_def Let_def)
  show ?thesis unfolding 3 using 2 by (simp add: unstuck_def frame_simps)
qed

text \<open>An answer to a wake that resumes nothing ends WAKING; after the Gone branch the next wake resumes nothing.\<close>

lemma answer_cold:
  assumes "c_flight c = Some f" "\<not> wf_wasWarm f"
  shows "state (c_meta (snd (wake_answer cf now ans c))) \<noteq> StWaking" "c_flight (snd (wake_answer cf now ans c)) = None"
proof -
  have "state (c_meta (snd (wake_answer cf now ans c))) \<noteq> StWaking \<and> c_flight (snd (wake_answer cf now ans c)) = None"
    using assms by (auto simp: wake_answer_def wake_complete_def wake_refuse_def Let_def frame_simps failWake_fields
      split: option.split)
  then show "state (c_meta (snd (wake_answer cf now ans c))) \<noteq> StWaking" "c_flight (snd (wake_answer cf now ans c)) = None"
    by simp_all
qed

lemma answer_warm:
  assumes "c_flight c = Some f" "\<not> cf_unbacked cf"
  shows "(state (c_meta (snd (wake_answer cf now ans c))) \<noteq> StWaking \<and> c_flight (snd (wake_answer cf now ans c)) = None)
     \<or> (\<exists>g. c_flight (snd (wake_answer cf now ans c)) = Some g \<and> \<not> wf_wasWarm g)"
proof -
  have r: "wakeInner cf now ans (recoverCold cf now ans k d) = (WakeInFlight, wake_mint cf now ans (recoverCold cf now ans k d))" for k d
    using assms(2) by (simp add: wakeInner_cold frame_simps)
  have m: "\<exists>g. c_flight (wake_mint cf now ans (recoverCold cf now ans k d)) = Some g \<and> \<not> wf_wasWarm g" for k d
    using wake_mint_flight [of cf now ans "recoverCold cf now ans k d"] by (simp add: frame_simps)
  show ?thesis
    using assms m by (auto simp: wake_answer_def wake_complete_def wake_refuse_def Let_def case_prod_unfold r
      frame_simps failWake_fields split: option.split)
qed

lemma answers_end_waking:
  assumes "unstuck c" "\<not> cf_unbacked cf"
  shows "state (c_meta (snd (wake_answer cf n2 a2 (snd (wake_answer cf n1 a1 c))))) \<noteq> StWaking"
proof (cases "c_flight c")
  case None
  then show ?thesis using assms(1) by (simp add: wake_answer_def unstuck_def)
next
  case (Some f)
  show ?thesis
    using answer_warm [OF Some assms(2), of n1 a1]
  proof (elim disjE exE conjE)
    assume "state (c_meta (snd (wake_answer cf n1 a1 c))) \<noteq> StWaking" "c_flight (snd (wake_answer cf n1 a1 c)) = None"
    then show ?thesis by (simp add: wake_answer_def [of _ _ _ "snd _"])
  qed (rule answer_cold(1))
qed

text \<open>C9: No computer stays WAKING.  From every reachable state, also one in which the wake was lost with the
  object's memory, the construction after an eviction, the alarm it armed and at most two answers of the
  substrate, whatever they are, leave WAKING for good: the computer is AWAKE, WARM or COLD.\<close>

theorem waking_ends:
  assumes "\<not> cf_unbacked cf" "t + WAKING_REVIVE_MS \<le> t'"
  shows "state (c_meta (reached cf (es @ [(CeEvict, t, a0), (CeAlarm fans, t', a1), (CeWakeAnswer, t1, a2),
           (CeWakeAnswer, t2, a3)]))) \<noteq> StWaking"
proof -
  have "unstuck (alarm cf t' fans (evict t (reached cf es)))"
    using evict_waking [of t "reached cf es"] assms(2) by (intro alarm_unstuck) (auto simp: unstuck_def)
  from answers_end_waking [OF this assms(1)] show ?thesis by (simp add: run_append)
qed

theorem waking_ends_witness:
  "state (c_meta (reached demo_config ([(CeWake (Some ''c''), 1000, demo_answers)] @
     [(CeEvict, 2000, demo_answers), (CeAlarm (\<lambda>_. demo_answers), 2500, demo_answers),
      (CeWakeAnswer, 3000, demo_answers), (CeWakeAnswer, 3001, demo_answers)]))) \<noteq> StWaking"
  by (rule waking_ends) (simp_all add: demo_config_def WAKING_REVIVE_MS_def)

text \<open>One wake at a time.  While a wake is in flight, whatever else happens to the object (wake requests,
  runs, alarms, supervisor messages, sleeps), no second machine is asked for and the wake stays in flight,
  until the substrate answers or the object is evicted.\<close>

theorem one_wake_in_flight:
  assumes "c_flight c \<noteq> None" "list_all (\<lambda>(e, now, ans). e \<noteq> CeWakeAnswer \<and> e \<noteq> CeEvict) es"
  shows "mints (computer_run cf es c) = mints c \<and> c_flight (computer_run cf es c) \<noteq> None"
  using assms
proof (induction es arbitrary: c)
  case (Cons x es)
  obtain e now ans where x: "x = (e, now, ans)" by (rule prod_cases3)
  then have "e \<noteq> CeWakeAnswer" "e \<noteq> CeEvict" using Cons.prems(2) by simp_all
  note k = step_calm [OF this Cons.prems(1), of cf now ans]
  show ?case using Cons.IH [of "computer_step cf e now ans c"] k Cons.prems(2) by (simp add: x)
qed simp

theorem one_wake_in_flight_witness:
  "mints (computer_run demo_config [(CeWake None, 1500, demo_answers), (CeDeepSleep, 1600, demo_answers)]
     (reached demo_config [(CeWake (Some ''c''), 1000, demo_answers)])) = mints (reached demo_config [(CeWake (Some ''c''), 1000, demo_answers)])
   \<and> c_flight (computer_run demo_config [(CeWake None, 1500, demo_answers), (CeDeepSleep, 1600, demo_answers)]
     (reached demo_config [(CeWake (Some ''c''), 1000, demo_answers)])) \<noteq> None"
proof (rule one_wake_in_flight)
  show "c_flight (reached demo_config [(CeWake (Some ''c''), 1000, demo_answers)]) \<noteq> None"
    by (simp add: wake_def Let_def wakeInner_def fresh_computer_def initialMeta_def setComputerId_def falsy_def
        upd_def demo_config_def wake_mint_def fx_def persist_def)
qed simp

text \<open>C7: Only its owner moves the head.  In a reachable state, the head and the previous head of a computer
  change only by a head_advance of an authenticated socket that names the current epoch, by the final
  snapshot of the current supervisor while a transition to COLD waits for it, by a keep or a revert of a
  run, or by seeding; no wake, sleep, recovery, alarm, eviction or other message moves them.\<close>

theorem only_the_owner_moves_the_head:
  assumes "\<not> cf_unbacked cf" "\<not> moves_head (reached cf es) e"
  shows "head_prev (c_meta (reached cf (es @ [(e, now, ans)]))) = head_prev (c_meta (reached cf es))"
  using step_head [OF reached_ok [OF assms(1), of es] assms(2)] by (simp add: run_append)

theorem only_the_owner_moves_the_head_witness:
  "head_prev (c_meta (reached demo_config (demo_boot @ [(CeSleep, 9000, demo_answers)]))) = head_prev (c_meta (reached demo_config demo_boot))"
  by (rule only_the_owner_moves_the_head) (simp_all add: demo_config_def)

text \<open>What a socket that is not of the current generation can still say.  \<open>joins\<close> is the one hello that makes
  it current; \<open>claims_head\<close> is the manifest of a head_advance the compare-and-set accepts; \<open>stale_reply\<close> is what
  goes back.\<close>

fun joins :: "computer \<Rightarrow> supervisor_message \<Rightarrow> bool" where
  "joins c (Hello i ep tok proto) \<longleftrightarrow> proto = PROTO_VERSION \<and> ep = epoch (c_meta c) \<and> Some tok = token (c_meta c)"
| "joins c _ \<longleftrightarrow> False"

fun claims_head :: "computer \<Rightarrow> sock \<Rightarrow> supervisor_message \<Rightarrow> manifest_id option" where
  "claims_head c s (HeadAdvanceRequest m ep) =
     (if map_of (c_auth c) s \<noteq> None \<and> ep = epoch (c_meta c) then Some m else None)"
| "claims_head c s _ = None"

fun stale_reply :: "computer \<Rightarrow> sock \<Rightarrow> supervisor_message \<Rightarrow> effect list" where
  "stale_reply c s (Hello i ep tok proto) = [FxClose s]"
| "stale_reply c s (HeadAdvanceRequest m ep) =
     (if map_of (c_auth c) s = None then []
      else [FxControl s (HeadAdvanceResult (ep = epoch (c_meta c)) (epoch (c_meta c)))])"
| "stale_reply c s _ = []"

fun is_fleet :: "effect \<Rightarrow> bool" where
  "is_fleet (FxFleet st h) \<longleftrightarrow> True"
| "is_fleet _ \<longleftrightarrow> False"

type_synonym heard = "supervisor_message \<times> sock \<times> time \<times> answers"

abbreviation hear :: "config \<Rightarrow> heard list \<Rightarrow> computer \<Rightarrow> computer" where
  "hear cf xs \<equiv> fold (\<lambda>(msg, s, now, ans). onSupervisorMessage cf now ans msg s) xs"

definition stale_head :: "computer \<Rightarrow> heard list \<Rightarrow> heads" where
  "stale_head c xs = fold (\<lambda>(msg, s, now, ans) h. case claims_head c s msg of None \<Rightarrow> h | Some m \<Rightarrow> setHead (Some m) h)
     xs (head_prev (c_meta c))"

text \<open>What no such message changes.\<close>

definition fenced :: "computer \<Rightarrow> computer \<Rightarrow> bool" where
  "fenced c c' \<longleftrightarrow> c_db c' = c_db c \<and> c_journal c' = c_journal c \<and> c_clients c' = c_clients c \<and> c_alarm c' = c_alarm c
     \<and> c_supervisor c' = c_supervisor c \<and> c_auth c' = c_auth c \<and> c_flight c' = c_flight c \<and> c_incidents c' = c_incidents c
     \<and> c_incident_id c' = c_incident_id c \<and> c_probeCount c' = c_probeCount c
     \<and> c_meta c' = (c_meta c)\<lparr>computerId := computerId (c_meta c'), livenessStrikes := livenessStrikes (c_meta c'),
          head_prev := head_prev (c_meta c'), updatedAt := updatedAt (c_meta c')\<rparr>"

lemma fenced_trans: "fenced a b \<Longrightarrow> fenced b c \<Longrightarrow> fenced a c"
  unfolding fenced_def by (cases "c_meta a"; cases "c_meta b"; cases "c_meta c") simp

lemma fenced_fields: "fenced c c' \<Longrightarrow> c_auth c' = c_auth c \<and> epoch (c_meta c') = epoch (c_meta c) \<and> token (c_meta c') = token (c_meta c)"
  unfolding fenced_def by (cases "c_meta c"; cases "c_meta c'") simp

lemma fenced_cong:
  assumes "fenced c c'"
  shows "isCurrentSupervisor c' s = isCurrentSupervisor c s" "joins c' msg = joins c msg"
    "claims_head c' s msg = claims_head c s msg" "stale_reply c' s msg = stale_reply c s msg"
  using fenced_fields [OF assms] by (cases msg; simp add: isCurrentSupervisor_def)+

lemma fleet_sync:
  "\<exists>es. c_out (syncFleetState now c) = c_out c @ es \<and> filter (\<lambda>e. \<not> is_fleet e) es = []"
  by (simp add: syncFleetState_def Let_def frame_simps)

lemma incidents_kept:
  "c_incidents (fx es c) = c_incidents c" "c_incidents (upd f c) = c_incidents c" "c_incidents (persist c) = c_incidents c"
  "c_incidents (syncFleetState now c) = c_incidents c" "c_incidents (setComputerId i c) = c_incidents c"
  "c_incident_id (fx es c) = c_incident_id c" "c_incident_id (upd f c) = c_incident_id c"
  "c_incident_id (persist c) = c_incident_id c" "c_incident_id (syncFleetState now c) = c_incident_id c"
  "c_incident_id (setComputerId i c) = c_incident_id c"
  "c_probeCount (fx es c) = c_probeCount c" "c_probeCount (upd f c) = c_probeCount c" "c_probeCount (persist c) = c_probeCount c"
  "c_probeCount (syncFleetState now c) = c_probeCount c" "c_probeCount (setComputerId i c) = c_probeCount c"
  by (simp_all add: fx_def upd_def persist_def syncFleetState_def setComputerId_def Let_def)

lemma hello_stale:
  assumes "\<not> joins c (Hello i ep tok proto)"
  shows "onSupervisorMessage cf now ans (Hello i ep tok proto) s c = fx [FxClose s] (setComputerId (Some i) c)"
  using assms by (simp add: onSupervisorMessage_def onHello_def Let_def frame_simps)

lemma head_stale:
  "onSupervisorMessage cf now ans (HeadAdvanceRequest m ep) s c =
    (if map_of (c_auth c) s = None then c
     else onHeadAdvance now m ep s (upd (\<lambda>m. m\<lparr>livenessStrikes := 0\<rparr>) (c\<lparr>c_lastSupervisorAt := now\<rparr>)))"
  by (simp add: onSupervisorMessage_def)

lemma other_stale:
  assumes "\<not> isCurrentSupervisor c s" "\<And>i ep tok proto. msg \<noteq> Hello i ep tok proto" "\<And>m ep. msg \<noteq> HeadAdvanceRequest m ep"
  shows "onSupervisorMessage cf now ans msg s c =
    (if map_of (c_auth c) s = None then c else upd (\<lambda>m. m\<lparr>livenessStrikes := 0\<rparr>) (c\<lparr>c_lastSupervisorAt := now\<rparr>))"
proof -
  have "\<not> isCurrentSupervisor (upd (\<lambda>m. m\<lparr>livenessStrikes := 0\<rparr>) (c\<lparr>c_lastSupervisorAt := now\<rparr>)) s"
    using assms(1) by (simp add: isCurrentSupervisor_def frame_simps)
  then show ?thesis using assms(2,3) by (cases msg) (auto simp: onSupervisorMessage_def Let_def)
qed

lemma stale_message:
  assumes "\<not> isCurrentSupervisor c s" "\<not> joins c msg"
  shows "fenced c (onSupervisorMessage cf now ans msg s c)"
    "head_prev (c_meta (onSupervisorMessage cf now ans msg s c)) = (case claims_head c s msg of None \<Rightarrow> head_prev (c_meta c)
      | Some m \<Rightarrow> setHead (Some m) (head_prev (c_meta c)))"
    "\<exists>es. c_out (onSupervisorMessage cf now ans msg s c) = c_out c @ es \<and> filter (\<lambda>e. \<not> is_fleet e) es = stale_reply c s msg"
proof -
  let ?c = "upd (\<lambda>m. m\<lparr>livenessStrikes := 0\<rparr>) (c\<lparr>c_lastSupervisorAt := now\<rparr>)"
  consider (hello) i ep tok proto where "msg = Hello i ep tok proto" | (head) m ep where "msg = HeadAdvanceRequest m ep"
    | (other) "\<And>i ep tok proto. msg \<noteq> Hello i ep tok proto" "\<And>m ep. msg \<noteq> HeadAdvanceRequest m ep" by (cases msg) auto
  then have "fenced c (onSupervisorMessage cf now ans msg s c)
    \<and> head_prev (c_meta (onSupervisorMessage cf now ans msg s c)) = (case claims_head c s msg of None \<Rightarrow> head_prev (c_meta c)
      | Some m \<Rightarrow> setHead (Some m) (head_prev (c_meta c)))
    \<and> (\<exists>es. c_out (onSupervisorMessage cf now ans msg s c) = c_out c @ es \<and> filter (\<lambda>e. \<not> is_fleet e) es = stale_reply c s msg)"
  proof cases
    case hello
    have "c_meta (setComputerId (Some i) c) = (c_meta c)\<lparr>computerId := computerId (c_meta (setComputerId (Some i) c)),
        livenessStrikes := livenessStrikes (c_meta c), head_prev := head_prev (c_meta c), updatedAt := updatedAt (c_meta c)\<rparr>"
      by (simp add: setComputerId_def frame_simps)
    moreover have "livenessStrikes (c_meta (setComputerId (Some i) c)) = livenessStrikes (c_meta c)"
      "updatedAt (c_meta (setComputerId (Some i) c)) = updatedAt (c_meta c)" by (simp_all add: setComputerId_def frame_simps)
    ultimately show ?thesis
      using assms(2) unfolding hello hello_stale [OF assms(2) [unfolded hello]]
      by (simp add: fenced_def frame_simps incidents_kept)
  next
    case head
    obtain es where es: "c_out (syncFleetState now d) = c_out d @ es" "filter (\<lambda>e. \<not> is_fleet e) es = []"
      if "d = persist (upd (\<lambda>x. x\<lparr>head_prev := setHead (Some m) (head_prev x)\<rparr>) ?c)" for d
      using fleet_sync by blast
    show ?thesis
      unfolding head head_stale onHeadAdvance_def Let_def using es [OF refl]
      by (auto simp: fenced_def frame_simps incidents_kept)
  next
    case other
    then have "claims_head c s msg = None" "stale_reply c s msg = []" by (cases msg; simp)+
    then show ?thesis unfolding other_stale [OF assms(1) other] by (simp add: fenced_def frame_simps incidents_kept)
  qed
  then show "fenced c (onSupervisorMessage cf now ans msg s c)"
    "head_prev (c_meta (onSupervisorMessage cf now ans msg s c)) = (case claims_head c s msg of None \<Rightarrow> head_prev (c_meta c)
      | Some m \<Rightarrow> setHead (Some m) (head_prev (c_meta c)))"
    "\<exists>es. c_out (onSupervisorMessage cf now ans msg s c) = c_out c @ es \<and> filter (\<lambda>e. \<not> is_fleet e) es = stale_reply c s msg"
    by blast+
qed

text \<open>Nothing is written to storage but a head that is claimed.\<close>

lemma stale_stored:
  assumes "\<not> isCurrentSupervisor c s" "\<not> joins c msg" "claims_head c s msg = None"
  shows "c_stored (onSupervisorMessage cf now ans msg s c) = c_stored c"
proof -
  consider (hello) i ep tok proto where "msg = Hello i ep tok proto" | (head) m ep where "msg = HeadAdvanceRequest m ep"
    | (other) "\<And>i ep tok proto. msg \<noteq> Hello i ep tok proto" "\<And>m ep. msg \<noteq> HeadAdvanceRequest m ep" by (cases msg) auto
  then show ?thesis
  proof cases
    case hello
    show ?thesis unfolding hello hello_stale [OF assms(2) [unfolded hello]] by (simp add: frame_simps)
  next
    case head
    then show ?thesis using assms(3) by (auto simp: head_stale onHeadAdvance_def Let_def frame_simps split: if_splits)
  next
    case other
    show ?thesis unfolding other_stale [OF assms(1) other] by (simp add: frame_simps)
  qed
qed

lemma stale_stored_all:
  assumes "list_all (\<lambda>(msg, s, now, ans). \<not> isCurrentSupervisor c s \<and> \<not> joins c msg) xs"
    "list_all (\<lambda>(msg, s, now, ans). claims_head c s msg = None) xs"
  shows "c_stored (hear cf xs c) = c_stored c"
  using assms
proof (induction xs arbitrary: c)
  case (Cons x xs)
  obtain msg s now ans where x: "x = (msg, s, now, ans)" by (metis prod_cases4)
  have h: "\<not> isCurrentSupervisor c s" "\<not> joins c msg" "claims_head c s msg = None" using Cons.prems by (simp_all add: x)
  note k = fenced_cong [OF stale_message(1) [OF h(1,2), of cf now ans]]
  from Cons.IH [of "onSupervisorMessage cf now ans msg s c"] Cons.prems stale_stored [OF h]
  show ?case by (simp add: x k)
qed simp

text \<open>A socket that never authenticated.\<close>

fun speaks :: "computer \<Rightarrow> heard \<Rightarrow> bool" where
  "speaks c (Hello i ep tok proto, s, now, ans) \<longleftrightarrow> True"
| "speaks c (msg, s, now, ans) \<longleftrightarrow> map_of (c_auth c) s \<noteq> None"

lemma unheard:
  assumes "\<not> speaks c (msg, s, now, ans)"
  shows "onSupervisorMessage cf now ans msg s c = c"
  using assms by (cases msg) (simp_all add: onSupervisorMessage_def)

lemma unheard_all: "list_all (\<lambda>x. \<not> speaks c x) xs \<Longrightarrow> hear cf xs c = c"
  by (induction xs) (auto simp: unheard)

lemma fenced_refl: "fenced c c"
  by (simp add: fenced_def)

lemma stale_messages:
  assumes "list_all (\<lambda>(msg, s, now, ans). \<not> isCurrentSupervisor c s \<and> \<not> joins c msg) xs"
  shows "fenced c (hear cf xs c) \<and> head_prev (c_meta (hear cf xs c)) = stale_head c xs
    \<and> (\<exists>es. c_out (hear cf xs c) = c_out c @ es
         \<and> filter (\<lambda>e. \<not> is_fleet e) es = concat (map (\<lambda>(msg, s, now, ans). stale_reply c s msg) xs))"
  using assms
proof (induction xs arbitrary: c)
  case Nil
  then show ?case by (simp add: stale_head_def fenced_refl)
next
  case (Cons x xs)
  obtain msg s now ans where x: "x = (msg, s, now, ans)" by (metis prod_cases4)
  let ?d = "onSupervisorMessage cf now ans msg s c"
  have h: "\<not> isCurrentSupervisor c s" "\<not> joins c msg" using Cons.prems by (simp_all add: x)
  note m = stale_message [OF h, of cf now ans]
  note k = fenced_cong [OF m(1)]
  have p: "list_all (\<lambda>(msg, s, now, ans). \<not> isCurrentSupervisor ?d s \<and> \<not> joins ?d msg) xs"
    using Cons.prems by (simp add: k)
  from m(3) obtain es where es: "c_out ?d = c_out c @ es" "filter (\<lambda>e. \<not> is_fleet e) es = stale_reply c s msg" by blast
  from Cons.IH [OF p] obtain fs where f: "fenced ?d (hear cf xs ?d)" "head_prev (c_meta (hear cf xs ?d)) = stale_head ?d xs"
    "c_out (hear cf xs ?d) = c_out ?d @ fs"
    "filter (\<lambda>e. \<not> is_fleet e) fs = concat (map (\<lambda>(msg, s, now, ans). stale_reply c s msg) xs)"
    unfolding k by blast
  have s: "stale_head ?d xs = stale_head c (x # xs)" unfolding stale_head_def x by (simp add: m(2) k)
  show ?case
    using fenced_trans [OF m(1) f(1)] f(2) s es f(3,4) by (auto simp: x case_prod_unfold)
qed

text \<open>C8: A stale generation is fenced.  Whatever sockets that are not of the current generation send, over every
  sequence of messages except the one hello that joins the current generation (protocol version, epoch and
  token right), they change neither runs, journal, clients, supervisor, authentication, alarm, incidents nor
  the wake in flight, and of the record only the strike counter, a missing binding to an id, and, by the
  compare-and-set alone, the head with the time of its update: the head moves exactly by the head_advance
  messages of authenticated sockets that name the current epoch, and without one nothing is written to storage.  A refused hello closes its socket; every
  head_advance of an authenticated socket is answered, with the current epoch, accepted or not, so a stale
  supervisor that repeats its request with the epoch it was told does move the head; nothing else is
  answered.  A socket that never authenticated and says no hello changes nothing at all and is told nothing.\<close>

theorem stale_generation_is_fenced:
  assumes "list_all (\<lambda>(msg, s, now, ans). \<not> isCurrentSupervisor c s \<and> \<not> joins c msg) xs"
  shows "let c' = hear cf xs c in fenced c c' \<and> head_prev (c_meta c') = stale_head c xs
    \<and> (\<exists>es. c_out c' = c_out c @ es
         \<and> filter (\<lambda>e. \<not> is_fleet e) es = concat (map (\<lambda>(msg, s, now, ans). stale_reply c s msg) xs))
    \<and> (list_all (\<lambda>(msg, s, now, ans). claims_head c s msg = None) xs \<longrightarrow> c_stored c' = c_stored c)
    \<and> (list_all (\<lambda>x. \<not> speaks c x) xs \<longrightarrow> c' = c)"
  using stale_messages [OF assms, of cf] stale_stored_all [OF assms, of cf] unheard_all [of c xs cf] by (simp add: Let_def)

text \<open>A socket of generation 1 after generation 2 was asked for: a heartbeat, a refused head_advance, and the
  same request with the epoch the refusal named.\<close>

definition demo_stale :: computer where
  "demo_stale = upd (\<lambda>m. m\<lparr>state := StWaking, epoch := 2, token := Some ''u''\<rparr>) (fresh_computer\<lparr>c_auth := [(7, 1)]\<rparr>)"

definition demo_words :: "heard list" where
  "demo_words = [(RunHeartbeat ''r'', 7, 10, demo_answers), (HeadAdvanceRequest ''m1'' 1, 7, 11, demo_answers),
     (HeadAdvanceRequest ''m1'' 2, 7, 12, demo_answers), (Hello ''c'' 1 ''t'' 1, 8, 13, demo_answers)]"

theorem stale_generation_is_fenced_witness:
  "fenced demo_stale (hear demo_config demo_words demo_stale)
   \<and> head_prev (c_meta (hear demo_config demo_words demo_stale)) = (Some ''m1'', None)"
proof -
  have h: "list_all (\<lambda>(msg, s, now, ans). \<not> isCurrentSupervisor demo_stale s \<and> \<not> joins demo_stale msg) demo_words"
    "stale_head demo_stale demo_words = (Some ''m1'', None)" by code_simp+
  from stale_generation_is_fenced [OF h(1), of demo_config] h(2) show ?thesis by (simp add: Let_def)
qed

text \<open>The handshake.  A hello authenticates its socket exactly when it speaks the protocol version and
  names the current epoch and the current token; the socket is then the supervisor of the current
  generation, the recovery budget and the retry counter are full again, and the first message back
  is the acknowledgement of everything the journal holds.  Any other hello closes the socket and changes
  nothing but the binding to an id.\<close>

theorem hello_handshake:
  "let ok = (proto = PROTO_VERSION \<and> ep = epoch (c_meta c) \<and> Some tok = token (c_meta c));
       c' = onHello cf now ans i ep tok proto s c
   in (if ok then
         c_supervisor c' = Some s \<and> isCurrentSupervisor c' s \<and> liveSupervisor c' \<and> recoveryStreak (c_meta c') = 0
         \<and> wakeFailures (c_meta c') = 0 \<and> (\<exists>es. c_out c' = c_out c @ FxControl s (HelloAck (allRunHeads (c_journal c))) # es)
       else c' = fx [FxClose s] (setComputerId (Some i) c))"
proof -
  have k: "recoveryStreak (c_meta (armLiveness cf now d)) = recoveryStreak (c_meta d)"
    "wakeFailures (c_meta (armLiveness cf now d)) = wakeFailures (c_meta d)" for d
    by (simp_all add: armLiveness_def Let_def frame_simps split: option.split)
  show ?thesis
    by (auto simp: Let_def onHello_def dispatchTo_def case_prod_unfold frame_simps k isCurrentSupervisor_def
        liveSupervisor_def map_of_AList_update)
qed

text \<open>A recovery that finds its budget spent, for whatever reason it is made, leaves the computer COLD, asks
  for no machine, records the incident and starts no wake.  Consecutive losses are in theory \<open>Recovery\<close>.\<close>

theorem exhausted_recovery:
  assumes "recoveryStreak (c_meta c) \<ge> RECOVERY_STREAK_MAX" "c_flight c = None"
  shows "let c' = recover cf now ans k c in
    state (c_meta c') = StCold \<and> mints c' = mints c \<and> c_flight c' = None \<and> handle_of (c_meta c') = None
    \<and> in_kind (last (c_incidents c')) = RecoveryExhausted
    \<and> recoveryStreak (c_meta c') = Suc (recoveryStreak (c_meta c))"
proof -
  have r: "recoveryStreak (c_meta (recoverCold cf now ans k c)) = Suc (recoveryStreak (c_meta c))"
    by (simp add: recoverCold_def Let_def frame_simps)
  have l: "in_kind (last (c_incidents (recordIncident now RecoveryExhausted d))) = RecoveryExhausted" for d
    by (simp add: recordIncident_def Let_def INCIDENT_KEEP_def last_drop)
  have i: "c_incidents (armAlarm (persist d)) = c_incidents d" for d
    by (simp add: armAlarm_def persist_def)
  show ?thesis
    using assms l by (simp add: Let_def recover_def r frame_simps i)
qed

theorem exhausted_recovery_witness:
  "state (c_meta (recover demo_config 5 demo_answers SubstrateLost
      (upd (\<lambda>m. m\<lparr>state := StAwake, recoveryStreak := 3\<rparr>) fresh_computer))) = StCold"
  using exhausted_recovery [of "upd (\<lambda>m. m\<lparr>state := StAwake, recoveryStreak := 3\<rparr>) fresh_computer" demo_config 5 demo_answers SubstrateLost]
  by (simp add: Let_def fresh_computer_def upd_def RECOVERY_STREAK_MAX_def)

section \<open>Two defects\<close>

text \<open>A WARM computer can lose its last deadline.  A heartbeat still in flight when a computer goes WARM
  refreshes its idle clock but arms nothing, and the tier deadline then finds the clock moved and returns
  without arming anything: the computer stays WARM with its machine, and no alarm will ever move it to COLD.\<close>

theorem warm_computer_loses_its_alarm:
  assumes "state (c_meta c) = StWarm" "isCurrentSupervisor c s" "armedIdleSince (c_meta c) = Some (idleSince (c_meta c))"
    "pending_times (c_meta c) = [t]" "tierAt (c_meta c) = Some t" "now \<noteq> idleSince (c_meta c)" "t \<le> later"
  shows "let c' = computer_run cf [(CeSupervisor (RunHeartbeat run) s, now, a), (CeAlarm fans, later, b)] c in
    state (c_meta c') = StWarm \<and> handle_of (c_meta c') = handle_of (c_meta c) \<and> pending_times (c_meta c') = []
    \<and> c_alarm c' = None"
proof -
  have d: "wakeRetryAt (c_meta c) = None" "wakingAt (c_meta c) = None" "livenessAt (c_meta c) = None"
    "credentialAt (c_meta c) = None" "coldAt (c_meta c) = None"
    using assms(4,5) by (simp_all add: pending_times_def DEADLINES_def map_filter_simps split: option.splits)
  let ?c1 = "onSupervisorMessage cf now a (RunHeartbeat run) s c"
  let ?m = "(c_meta c)\<lparr>livenessStrikes := 0, idleSince := now\<rparr>"
  have 1: "c_meta ?c1 = ?m"
    using assms(1,2) by (simp add: onSupervisorMessage_def current_message_def isCurrentSupervisor_def touch_def
        Let_def frame_simps)
  have due: "due_names later ?m = [Tier]"
    using d assms(5,7) by (simp add: due_names_def DEADLINES_def)
  let ?c2 = "persist (setDeadline Tier None (?c1\<lparr>c_alarm := None\<rparr>))"
  have 2: "alarm cf later fans ?c1 = armAlarm (persist ?c2)"
    using 1 due assms(1,3,5-7) by (simp add: alarm_def Let_def alarm_one_def onTierDeadline_def frame_simps)
  have "earliest (c_meta ?c2) = None" "pending_times (c_meta ?c2) = []"
    using d by (simp_all add: 1 frame_simps earliest_def earlier_def pending_times_def DEADLINES_def map_filter_simps)
  then show ?thesis
    using assms(1) by (simp add: Let_def 2 1 frame_simps)
qed

definition demo_warm :: computer where
  "demo_warm = fresh_computer\<lparr>c_meta := initialMeta\<lparr>state := StWarm, epoch := 1, handle_of := Some ''h'', idleSince := 10,
     armedIdleSince := Some 10, tierAt := Some 100\<rparr>, c_auth := [(7, 1)]\<rparr>"

theorem warm_computer_loses_its_alarm_witness:
  "c_alarm (computer_run demo_config [(CeSupervisor (RunHeartbeat ''r'') 7, 20, demo_answers),
     (CeAlarm (\<lambda>_. demo_answers), 100, demo_answers)] demo_warm) = None"
  using warm_computer_loses_its_alarm [of demo_warm 7 100 20 100 demo_config "''r''" demo_answers "\<lambda>_. demo_answers" demo_answers]
  by (simp add: Let_def demo_warm_def fresh_computer_def initialMeta_def isCurrentSupervisor_def pending_times_def
      DEADLINES_def map_filter_simps)

text \<open>A forced sleep during a wake orphans a machine.  A wake refused by nobody but interrupted by
  deepSleepNow completes on a computer already COLD without a token: the computer is AWAKE with a machine
  whose supervisor no hello can authenticate, and the next wake asks for a second machine without
  destroying the first.\<close>

theorem deep_sleep_during_wake_orphans:
  assumes "\<not> cf_unbacked cf" "c_flight c = Some f" "\<not> wf_wasWarm f" "state (c_meta c) = StWaking" "c_supervisor c = None"
    "an_materialize b = Some h"
  shows "let c1 = computer_run cf [(CeDeepSleep, n1, a), (CeWakeAnswer, n2, b)] c; c2 = computer_step cf (CeWake None) n3 d c1 in
    state (c_meta c1) = StAwake \<and> handle_of (c_meta c1) = Some h \<and> token (c_meta c1) = None
    \<and> c_auth (onHello cf n3 d i ep tok proto s c1) = c_auth c1
    \<and> mints c2 = mints c1 @ [Suc (epoch (c_meta c1))]
    \<and> FxDestroy h \<notin> set (drop (length (c_out c1)) (c_out c2))"
proof -
  let ?e = "finalizeCold cf n1 a None c"
  let ?c1 = "snd (wake_complete cf n2 f (Some h) ?e)" and ?c2 = "snd (wake cf n3 d None (snd (wake_complete cf n2 f (Some h) (finalizeCold cf n1 a None c))))"
  have 1: "computer_run cf [(CeDeepSleep, n1, a), (CeWakeAnswer, n2, b)] c = ?c1"
    using assms by (simp add: deepSleepNow_def beginCold_def liveSupervisor_def wake_answer_def finalizeCold_fields
        case_prod_unfold)
  have m: "state (c_meta ?c1) = StAwake" "handle_of (c_meta ?c1) = Some h" "token (c_meta ?c1) = None" "c_flight ?c1 = None"
    by (simp_all add: wake_complete_def Let_def frame_simps finalizeCold_fields)
  have w: "?c2 = wake_mint cf n3 d ?c1"
    using m assms(1) by (simp add: wake_def wakeInner_def setComputerId_def falsy_def Let_def)
  have o: "\<exists>es. c_out (wake_mint cf n3 d x) = c_out x @ es \<and> FxDestroy h \<notin> set es" for x
    by (simp add: wake_mint_def Let_def frame_simps emit_def)
  from o [of ?c1] obtain es where "c_out ?c2 = c_out ?c1 @ es" "FxDestroy h \<notin> set es" unfolding w by blast
  moreover have "mints ?c2 = mints ?c1 @ [Suc (epoch (c_meta ?c1))]" unfolding w wake_mint_fields(7) using m(1) by simp
  moreover have "c_auth (onHello cf n3 d i ep tok proto s ?c1) = c_auth ?c1"
    using m(3) by (simp add: onHello_def Let_def frame_simps)
  ultimately show ?thesis unfolding Let_def 1 using m(1-3) by simp
qed

theorem deep_sleep_during_wake_orphans_witness:
  "token (c_meta (computer_run demo_config [(CeDeepSleep, 1500, demo_answers), (CeWakeAnswer, 2000, demo_answers)]
     (reached demo_config [(CeWake (Some ''c''), 1000, demo_answers)]))) = None"
  using deep_sleep_during_wake_orphans [OF demo_first_wake(4,1,6,2,3,5), of 1500 demo_answers 2000]
  unfolding Let_def by blast

end
