(* ===== verification/Validate.thy ===== *)
theory Validate
  imports Messages Complex_Main
begin

text \<open>
  Runtime validation of values decoded from CBOR (\<^verbatim>\<open>packages/shared/src/validate.ts\<close>).

  A decoded value is a \<open>js\<close>; the CBOR codec (a library) is a parameter of the decoders.  A validator
  returns the value with its numbers normalised in place, or the error the source throws: the path of
  the field, the reason and the rejected value (the text rendering of the value is not modelled).  A field
  check is \<open>field\<close> with the validator of the value; the source's setters write the holder back only
  when the value changed, and so does \<open>put\<close>.
\<close>

section \<open>JavaScript values\<close>

text \<open>\<open>JInt\<close> is a number with an integral value, \<open>JFrac\<close> another finite number, \<open>JNonFin\<close> NaN or an infinity,
  \<open>JBytes\<close> a \<^verbatim>\<open>Uint8Array\<close>, \<open>JView\<close> another array buffer view.\<close>

datatype js =
    JUndef | JNull | JBool bool | JInt int | JFrac rat | JNonFin | JBig int | JStr string | JBytes bytes | JView
  | JArr "js list" | JObj "(string \<times> js) list"

type_synonym holder = "(string \<times> js) list"

definition get :: "holder \<Rightarrow> string \<Rightarrow> js" where
  "get h k = (case map_of h k of None \<Rightarrow> JUndef | Some v \<Rightarrow> v)"

definition put :: "string \<Rightarrow> js \<Rightarrow> holder \<Rightarrow> holder" where
  "put k v h = (if v = get h k then h else AList.update k v h)"

lemma get_put: "get (put k v h) j = (if j = k then v else get h j)"
  by (simp add: get_def put_def map_of_AList_update)

lemma put_get [simp]: "put k (get h k) h = h"
  by (simp add: put_def)

text \<open>A finite number as the value it is, and the finite number a value is.\<close>

definition num_js :: "rat \<Rightarrow> js" where
  "num_js q = (if of_int \<lfloor>q\<rfloor> = q then JInt \<lfloor>q\<rfloor> else JFrac q)"

definition js_num :: "js \<Rightarrow> rat option" where
  "js_num v = (case v of JInt n \<Rightarrow> Some (of_int n) | JFrac q \<Rightarrow> Some q | _ \<Rightarrow> None)"

lemma js_num_num [simp]: "js_num (num_js q) = Some q"
  by (simp add: num_js_def js_num_def)

section \<open>Errors\<close>

datatype vreason =
    ExpObject | ExpArray | ExpString | ExpStringOrNull | ExpBoolean | ExpNonNegative | OutsideSafe
  | TooLarge int | ExpInteger | OutOfRange int int | ExpBytes | UnknownValue "string list"
  | UnknownVariant | ExpPayload

datatype verror = VError (ve_at: string) (ve_reason: vreason) (ve_value: js)

type_synonym 'a checked = "verror + 'a"

definition bindE :: "'e + 'a \<Rightarrow> ('a \<Rightarrow> 'e + 'b) \<Rightarrow> 'e + 'b" where
  "bindE x f = (case x of Inl e \<Rightarrow> Inl e | Inr v \<Rightarrow> f v)"

lemma bindE_Inr [simp]: "bindE x f = Inr w \<longleftrightarrow> (\<exists>v. x = Inr v \<and> f v = Inr w)"
  by (auto simp: bindE_def split: sum.split)

lemma bindE_ok [simp]: "bindE (Inr v) f = f v"
  by (simp add: bindE_def)

fun seqE :: "('a \<Rightarrow> 'a checked) list \<Rightarrow> 'a \<Rightarrow> 'a checked" where
  "seqE [] h = Inr h"
| "seqE (f # fs) h = bindE (f h) (seqE fs)"

fun dec_nat :: "nat \<Rightarrow> string" where
  "dec_nat n = (if n < 10 then [char_of (48 + n)] else dec_nat (n div 10) @ [char_of (48 + n mod 10)])"

declare dec_nat.simps [simp del]

text \<open>The loop over an array, with the path of the element.\<close>

definition elem_at :: "string \<Rightarrow> nat \<Rightarrow> string" where
  "elem_at pos i = pos @ ''['' @ dec_nat i @ '']''"

fun each :: "(string \<Rightarrow> js \<Rightarrow> 'a checked) \<Rightarrow> string \<Rightarrow> nat \<Rightarrow> js list \<Rightarrow> 'a list checked" where
  "each f pos i [] = Inr []"
| "each f pos i (x # xs) = bindE (f (elem_at pos i) x) (\<lambda>v. bindE (each f pos (Suc i) xs) (\<lambda>vs. Inr (v # vs)))"

section \<open>Primitive guards\<close>

definition MAX_SAFE :: int where "MAX_SAFE = 2 ^ 53 - 1"
definition U32_MAX :: int where "U32_MAX = 4294967295"
definition U16_MAX :: int where "U16_MAX = 65535"
definition I32_MIN :: int where "I32_MIN = -2147483648"
definition I32_MAX :: int where "I32_MAX = 2147483647"
definition RGB_MAX :: int where "RGB_MAX = 16777215"

definition recordV :: "string \<Rightarrow> js \<Rightarrow> holder checked" where
  "recordV pos v = (case v of JObj h \<Rightarrow> Inr h | _ \<Rightarrow> Inl (VError pos ExpObject v))"

definition arrV :: "string \<Rightarrow> js \<Rightarrow> js list checked" where
  "arrV pos v = (case v of JArr xs \<Rightarrow> Inr xs | _ \<Rightarrow> Inl (VError pos ExpArray v))"

definition strV :: "string \<Rightarrow> js \<Rightarrow> string checked" where
  "strV pos v = (case v of JStr s \<Rightarrow> Inr s | _ \<Rightarrow> Inl (VError pos ExpString v))"

definition strOrNullV :: "string \<Rightarrow> js \<Rightarrow> string option checked" where
  "strOrNullV pos v = (case v of JNull \<Rightarrow> Inr None | JStr s \<Rightarrow> Inr (Some s) | _ \<Rightarrow> Inl (VError pos ExpStringOrNull v))"

definition boolV :: "string \<Rightarrow> js \<Rightarrow> bool checked" where
  "boolV pos v = (case v of JBool b \<Rightarrow> Inr b | _ \<Rightarrow> Inl (VError pos ExpBoolean v))"

definition strArrayV :: "string \<Rightarrow> js \<Rightarrow> string list checked" where
  "strArrayV pos v = bindE (arrV pos v) (each strV pos 0)"

definition u53 :: "string \<Rightarrow> js \<Rightarrow> int checked" where
  "u53 pos v =
     (case v of
        JInt n \<Rightarrow> if n < 0 then Inl (VError pos ExpNonNegative v)
                  else if n > MAX_SAFE then Inl (VError pos OutsideSafe v) else Inr n
      | JFrac _ \<Rightarrow> Inl (VError pos ExpNonNegative v)
      | JBig n \<Rightarrow> if n < 0 \<or> n > MAX_SAFE then Inl (VError pos OutsideSafe v) else Inr n
      | _ \<Rightarrow> Inl (VError pos ExpNonNegative v))"

definition boundedUint :: "int \<Rightarrow> string \<Rightarrow> js \<Rightarrow> int checked" where
  "boundedUint mx pos v = bindE (u53 pos v) (\<lambda>n. if n > mx then Inl (VError pos (TooLarge mx) v) else Inr n)"

definition boundedInt :: "int \<Rightarrow> int \<Rightarrow> string \<Rightarrow> js \<Rightarrow> int checked" where
  "boundedInt mn mx pos v =
     bindE (case v of
              JBig n \<Rightarrow> if n < - MAX_SAFE \<or> n > MAX_SAFE then Inl (VError pos OutsideSafe v) else Inr n
            | JInt n \<Rightarrow> Inr n
            | _ \<Rightarrow> Inl (VError pos ExpInteger v))
       (\<lambda>n. if n < mn \<or> n > mx then Inl (VError pos (OutOfRange mn mx) v) else Inr n)"

definition byteString :: "string \<Rightarrow> js \<Rightarrow> bytes checked" where
  "byteString pos v = (case v of JBytes b \<Rightarrow> Inr b | _ \<Rightarrow> Inl (VError pos ExpBytes v))"

definition enumField :: "string list \<Rightarrow> string \<Rightarrow> js \<Rightarrow> string checked" where
  "enumField allowed pos v =
     bindE (strV pos v) (\<lambda>s. if s \<in> set allowed then Inr s else Inl (VError pos (UnknownValue allowed) v))"

text \<open>A check that leaves the field as it is, and the normalising setters.\<close>

definition check :: "(string \<Rightarrow> js \<Rightarrow> 'a checked) \<Rightarrow> string \<Rightarrow> string \<Rightarrow> holder \<Rightarrow> holder checked" where
  "check f k pos h = bindE (f pos (get h k)) (\<lambda>_. Inr h)"

definition setU53 :: "string \<Rightarrow> string \<Rightarrow> holder \<Rightarrow> holder checked" where
  "setU53 k pos h = bindE (u53 pos (get h k)) (\<lambda>n. Inr (put k (JInt n) h))"

definition setUint :: "int \<Rightarrow> string \<Rightarrow> string \<Rightarrow> holder \<Rightarrow> holder checked" where
  "setUint mx k pos h = bindE (boundedUint mx pos (get h k)) (\<lambda>n. Inr (put k (JInt n) h))"

definition setInt :: "int \<Rightarrow> int \<Rightarrow> string \<Rightarrow> string \<Rightarrow> holder \<Rightarrow> holder checked" where
  "setInt mn mx k pos h = bindE (boundedInt mn mx pos (get h k)) (\<lambda>n. Inr (put k (JInt n) h))"

text \<open>A nested object or array, normalised in place: the holder sees the change.\<close>

definition nested :: "(string \<Rightarrow> js \<Rightarrow> js checked) \<Rightarrow> string \<Rightarrow> string \<Rightarrow> holder \<Rightarrow> holder checked" where
  "nested f k pos h = bindE (f pos (get h k)) (\<lambda>v. Inr (put k v h))"

definition payload :: "holder \<Rightarrow> string \<Rightarrow> holder checked" where
  "payload env t = (case get env ''c'' of JObj c \<Rightarrow> Inr c | v \<Rightarrow> Inl (VError (t @ ''.c'') ExpPayload v))"

definition in_payload :: "holder \<Rightarrow> string \<Rightarrow> (holder \<Rightarrow> holder checked) list \<Rightarrow> holder checked" where
  "in_payload env t fs = bindE (payload env t) (\<lambda>c. bindE (seqE fs c) (\<lambda>c'. Inr (put ''c'' (JObj c') env)))"

definition in_record :: "(string \<Rightarrow> (holder \<Rightarrow> holder checked) list) \<Rightarrow> string \<Rightarrow> js \<Rightarrow> js checked" where
  "in_record fs pos v = bindE (recordV pos v) (\<lambda>h. bindE (seqE (fs pos) h) (\<lambda>h'. Inr (JObj h')))"

definition in_array :: "(string \<Rightarrow> js \<Rightarrow> js checked) \<Rightarrow> string \<Rightarrow> js \<Rightarrow> js checked" where
  "in_array f pos v = bindE (arrV pos v) (\<lambda>xs. bindE (each f pos 0 xs) (\<lambda>ys. Inr (JArr ys)))"

section \<open>Enum values\<close>

definition ENTRY_KINDS :: "string list" where "ENTRY_KINDS = [''file'', ''dir'', ''symlink'']"
definition SNAPSHOT_REASONS :: "string list" where
  "SNAPSHOT_REASONS = [''pre_run'', ''scheduled'', ''command'', ''final'']"
definition ATTENTION_KINDS :: "string list" where
  "ATTENTION_KINDS = [''bell'', ''osc'', ''blocked_read'', ''interrupted'']"

section \<open>Payload fragments\<close>

definition validateDiffSummary :: "string \<Rightarrow> js \<Rightarrow> js checked" where
  "validateDiffSummary = in_record (\<lambda>pos.
     [setUint U32_MAX ''added'' (pos @ ''.added''),
      setUint U32_MAX ''modified'' (pos @ ''.modified''),
      setUint U32_MAX ''removed'' (pos @ ''.removed'')])"

definition validateExitStatus :: "string \<Rightarrow> js \<Rightarrow> js checked" where
  "validateExitStatus pos v =
     bindE (recordV pos v) (\<lambda>e. bindE (strV (pos @ ''.t'') (get e ''t'')) (\<lambda>t. bindE
       (if t = ''exited'' then in_payload e pos [setInt I32_MIN I32_MAX ''code'' (pos @ ''.c.code'')]
        else if t = ''signaled'' then in_payload e pos [setInt I32_MIN I32_MAX ''signal'' (pos @ ''.c.signal'')]
        else Inl (VError (pos @ ''.t'') UnknownVariant (JStr t)))
       (\<lambda>e'. Inr (JObj e'))))"

definition validateRunOffsets :: "string \<Rightarrow> js \<Rightarrow> js checked" where
  "validateRunOffsets = in_array (in_record (\<lambda>item. [check strV ''run'' (item @ ''.run''), setU53 ''offset'' (item @ ''.offset'')]))"

definition validateRollbackRuns :: "string \<Rightarrow> js \<Rightarrow> js checked" where
  "validateRollbackRuns = in_array (in_record (\<lambda>pos.
     [check strV ''run'' (pos @ ''.run''), setU53 ''control_offset'' (pos @ ''.control_offset''),
      setU53 ''disk_offset'' (pos @ ''.disk_offset''), check boolV ''replayed'' (pos @ ''.replayed'')]))"

section \<open>Supervisor to control plane\<close>

definition supervisor_payload :: "holder \<Rightarrow> string \<Rightarrow> holder checked" where
  "supervisor_payload env t =
     (if t = ''journal_frame'' then in_payload env t
        [check strV ''run'' ''journal_frame.run'', setU53 ''offset'' ''journal_frame.offset'',
         check byteString ''bytes'' ''journal_frame.bytes'']
      else if t = ''run_heartbeat'' then in_payload env t [check strV ''run'' ''run_heartbeat.run'']
      else if t = ''hello'' then in_payload env t
        [check strV ''computer'' ''hello.computer'', setU53 ''epoch'' ''hello.epoch'',
         check strV ''token'' ''hello.token'', setUint U32_MAX ''proto_version'' ''hello.proto_version'']
      else if t = ''run_started'' then in_payload env t
        [check strV ''run'' ''run_started.run'', check strV ''pre_run_manifest'' ''run_started.pre_run_manifest'']
      else if t = ''run_completed'' then in_payload env t
        [check strV ''run'' ''run_completed.run'', nested validateExitStatus ''exit'' ''run_completed.exit'',
         check strV ''post_run_manifest'' ''run_completed.post_run_manifest'',
         nested validateDiffSummary ''diff'' ''run_completed.diff'']
      else if t = ''snapshot_written'' then in_payload env t
        [check strV ''manifest'' ''snapshot_written.manifest'', setU53 ''epoch'' ''snapshot_written.epoch'',
         check (enumField SNAPSHOT_REASONS) ''reason'' ''snapshot_written.reason'']
      else if t = ''head_advance_request'' then in_payload env t
        [check strV ''manifest'' ''head_advance_request.manifest'', setU53 ''epoch'' ''head_advance_request.epoch'']
      else if t = ''attention'' then in_payload env t
        [check strV ''run'' ''attention.run'', check (enumField ATTENTION_KINDS) ''kind'' ''attention.kind'']
      else if t = ''rollback_detected'' then in_payload env t
        [check strV ''disk_manifest'' ''rollback_detected.disk_manifest'',
         check strOrNullV ''recorded_manifest'' ''rollback_detected.recorded_manifest'',
         nested validateDiffSummary ''diff'' ''rollback_detected.diff'',
         nested validateRollbackRuns ''runs'' ''rollback_detected.runs'']
      else Inl (VError ''SupervisorMessage.t'' UnknownVariant (JStr t)))"

text \<open>The envelope: an object whose \<open>t\<close> is a string, then the variant.\<close>

definition envelope :: "string \<Rightarrow> (holder \<Rightarrow> string \<Rightarrow> holder checked) \<Rightarrow> js \<Rightarrow> js checked" where
  "envelope name variant v =
     bindE (recordV name v) (\<lambda>env. bindE (strV (name @ ''.t'') (get env ''t'')) (\<lambda>t.
       bindE (variant env t) (\<lambda>env'. Inr (JObj env'))))"

definition asSupervisorMessage :: "js \<Rightarrow> js checked" where
  "asSupervisorMessage = envelope ''SupervisorMessage'' supervisor_payload"

section \<open>Control plane to supervisor\<close>

definition control_payload :: "holder \<Rightarrow> string \<Rightarrow> holder checked" where
  "control_payload env t =
     (if t = ''journal_ack'' then in_payload env t
        [check strV ''run'' ''journal_ack.run'', setU53 ''offset'' ''journal_ack.offset'']
      else if t = ''input'' then in_payload env t
        [check strV ''run'' ''input.run'', check byteString ''bytes'' ''input.bytes'']
      else if t = ''resize'' then in_payload env t
        [check strV ''run'' ''resize.run'', setUint U16_MAX ''cols'' ''resize.cols'', setUint U16_MAX ''rows'' ''resize.rows'']
      else if t = ''hello_ack'' then in_payload env t [nested validateRunOffsets ''acked'' ''hello_ack.acked'']
      else if t = ''start_run'' then in_payload env t
        [check strV ''run'' ''start_run.run'', check strArrayV ''argv'' ''start_run.argv'',
         check strArrayV ''env_names'' ''start_run.env_names'', check strV ''cwd'' ''start_run.cwd'']
      else if t = ''stop_run'' then in_payload env t [check strV ''run'' ''stop_run.run'']
      else if t = ''snapshot_now'' then in_payload env t [check (enumField SNAPSHOT_REASONS) ''reason'' ''snapshot_now.reason'']
      else if t = ''prepare_for_cold'' then Inr env
      else if t = ''head_advance_result'' then in_payload env t
        [check boolV ''accepted'' ''head_advance_result.accepted'', setU53 ''current_epoch'' ''head_advance_result.current_epoch'']
      else if t = ''restore_to_manifest'' then in_payload env t [check strV ''manifest'' ''restore_to_manifest.manifest'']
      else Inl (VError ''ControlMessage.t'' UnknownVariant (JStr t)))"

definition asControlMessage :: "js \<Rightarrow> js checked" where
  "asControlMessage = envelope ''ControlMessage'' control_payload"

section \<open>Client and Durable Object\<close>

definition client_at :: "string \<Rightarrow> string \<Rightarrow> string \<Rightarrow> string" where
  "client_at name t field = name @ ''('' @ t @ '').'' @ field"

definition client_fields :: "holder \<Rightarrow> string \<Rightarrow> holder checked" where
  "client_fields m t =
     (let pos = client_at ''ClientToDo'' t in
      if t = ''input'' then seqE [check strV ''run'' (pos ''run''), check byteString ''bytes'' (pos ''bytes'')] m
      else if t = ''attach'' \<or> t = ''resize'' then seqE
        [check strV ''run'' (pos ''run''), setUint U16_MAX ''cols'' (pos ''cols''), setUint U16_MAX ''rows'' (pos ''rows'')] m
      else if t = ''detach'' then seqE [check strV ''run'' (pos ''run'')] m
      else Inl (VError ''ClientToDo.t'' UnknownVariant (JStr t)))"

definition asClientToDo :: "js \<Rightarrow> js checked" where
  "asClientToDo = envelope ''ClientToDo'' client_fields"

definition validateCell :: "string \<Rightarrow> js \<Rightarrow> js checked" where
  "validateCell = in_record (\<lambda>cellAt.
     [check strV ''ch'' (cellAt @ ''.ch''), setUint U32_MAX ''attrs'' (cellAt @ ''.attrs''),
      setInt (- 1) RGB_MAX ''fg'' (cellAt @ ''.fg''), setInt (- 1) RGB_MAX ''bg'' (cellAt @ ''.bg'')])"

definition validateGridSnapshot :: "string \<Rightarrow> js \<Rightarrow> js checked" where
  "validateGridSnapshot = in_record (\<lambda>pos.
     [setUint U16_MAX ''cols'' (pos @ ''.cols''), setUint U16_MAX ''rows'' (pos @ ''.rows''),
      setUint U16_MAX ''cursorCol'' (pos @ ''.cursorCol''), setUint U16_MAX ''cursorRow'' (pos @ ''.cursorRow''),
      check boolV ''cursorVisible'' (pos @ ''.cursorVisible''),
      nested (in_array (in_array validateCell)) ''cells'' (pos @ ''.cells'')])"

definition do_fields :: "holder \<Rightarrow> string \<Rightarrow> holder checked" where
  "do_fields m t =
     (let pos = client_at ''DoToClient'' t in
      if t = ''frame'' then seqE
        [check strV ''run'' (pos ''run''), setU53 ''offset'' (pos ''offset''), check byteString ''bytes'' (pos ''bytes'')] m
      else if t = ''grid'' then seqE
        [check strV ''run'' (pos ''run''), setU53 ''baseOffset'' (pos ''baseOffset''),
         nested validateGridSnapshot ''grid'' (pos ''grid'')] m
      else if t = ''run_status'' then seqE
        [check strV ''run'' (pos ''run''), check boolV ''alive'' (pos ''alive''),
         (\<lambda>h. if get h ''exitCode'' = JNull then Inr h else setInt I32_MIN I32_MAX ''exitCode'' (pos ''exitCode'') h)] m
      else Inl (VError ''DoToClient.t'' UnknownVariant (JStr t)))"

definition asDoToClient :: "js \<Rightarrow> js checked" where
  "asDoToClient = envelope ''DoToClient'' do_fields"

section \<open>Manifest\<close>

definition asChunkRef :: "string \<Rightarrow> js \<Rightarrow> chunk_ref checked" where
  "asChunkRef pos v =
     bindE (recordV pos v) (\<lambda>r. bindE (strV (pos @ ''.chunk'') (get r ''chunk'')) (\<lambda>chunk.
       bindE (u53 (pos @ ''.len'') (get r ''len'')) (\<lambda>len. Inr \<lparr>cr_chunk = chunk, cr_len = nat len\<rparr>)))"

definition entry_kind_of :: "string \<Rightarrow> entry_kind" where
  "entry_kind_of s = (if s = ''file'' then EFile else if s = ''dir'' then EDir else ESymlink)"

definition asEntry :: "string \<Rightarrow> js \<Rightarrow> manifest_entry checked" where
  "asEntry pos v =
     bindE (recordV pos v) (\<lambda>r. bindE (enumField ENTRY_KINDS (pos @ ''.kind'') (get r ''kind'')) (\<lambda>kind.
       bindE (strV (pos @ ''.path'') (get r ''path'')) (\<lambda>path.
       bindE (boundedUint U32_MAX (pos @ ''.mode'') (get r ''mode'')) (\<lambda>mode.
       bindE (u53 (pos @ ''.size'') (get r ''size'')) (\<lambda>size.
       bindE (strOrNullV (pos @ ''.symlink_target'') (get r ''symlink_target'')) (\<lambda>target.
       bindE (arrV (pos @ ''.chunks'') (get r ''chunks'')) (\<lambda>cs.
       bindE (each asChunkRef (pos @ ''.chunks'') 0 cs) (\<lambda>chunks.
       Inr \<lparr>me_path = path, me_kind = entry_kind_of kind, me_mode = nat mode, me_size = nat size,
            me_symlink_target = target, me_chunks = chunks\<rparr>))))))))"

definition asManifest :: "js \<Rightarrow> manifest checked" where
  "asManifest v =
     bindE (recordV ''Manifest'' v) (\<lambda>r.
       bindE (boundedUint U32_MAX ''Manifest.version'' (get r ''version'')) (\<lambda>ver.
       bindE (strOrNullV ''Manifest.parent'' (get r ''parent'')) (\<lambda>parent.
       bindE (u53 ''Manifest.created_at'' (get r ''created_at'')) (\<lambda>pos.
       bindE (arrV ''Manifest.entries'' (get r ''entries'')) (\<lambda>es.
       bindE (each asEntry ''Manifest.entries'' 0 es) (\<lambda>entries.
       Inr \<lparr>mf_version = nat ver, mf_parent = parent, mf_created_at = nat pos, mf_entries = entries\<rparr>))))))"

section \<open>Decode and validate\<close>

text \<open>The CBOR decoder is a parameter: the value of a byte string, or its error.\<close>

definition decode_with :: "(bytes \<Rightarrow> js checked) \<Rightarrow> (js \<Rightarrow> 'a checked) \<Rightarrow> bytes \<Rightarrow> 'a checked" where
  "decode_with decodeCbor as bs = bindE (decodeCbor bs) as"

section \<open>Reading a value pos its type\<close>

text \<open>
  What the code that uses a message reads from it: the reference specification of the validators.  The
  readers are parameterised by how a number is read: \<open>strict_int\<close> as the code reads one, \<open>loose_int\<close> also
  from a \<^verbatim>\<open>bigint\<close>.
\<close>

fun strict_int :: "js \<Rightarrow> int option" where
  "strict_int (JInt n) = Some n"
| "strict_int _ = None"

fun loose_int :: "js \<Rightarrow> int option" where
  "loose_int (JInt n) = Some n"
| "loose_int (JBig n) = Some n"
| "loose_int _ = None"

type_synonym int_reader = "js \<Rightarrow> int option"

definition rd_nat :: "int_reader \<Rightarrow> js \<Rightarrow> nat option" where
  "rd_nat ri v = Option.bind (ri v) (\<lambda>n. if n < 0 then None else Some (nat n))"

fun rd_str :: "js \<Rightarrow> string option" where
  "rd_str (JStr s) = Some s" | "rd_str _ = None"
fun rd_opt_str :: "js \<Rightarrow> string option option" where
  "rd_opt_str (JStr s) = Some (Some s)" | "rd_opt_str JNull = Some None" | "rd_opt_str _ = None"
fun rd_bool :: "js \<Rightarrow> bool option" where
  "rd_bool (JBool b) = Some b" | "rd_bool _ = None"
fun rd_bytes :: "js \<Rightarrow> bytes option" where
  "rd_bytes (JBytes b) = Some b" | "rd_bytes _ = None"
fun rd_obj :: "(holder \<Rightarrow> 'a option) \<Rightarrow> js \<Rightarrow> 'a option" where
  "rd_obj f (JObj h) = f h" | "rd_obj f _ = None"
fun rd_list :: "(js \<Rightarrow> 'a option) \<Rightarrow> js \<Rightarrow> 'a list option" where
  "rd_list f (JArr xs) = those (map f xs)" | "rd_list f _ = None"

definition reason_of :: "string \<Rightarrow> snapshot_reason option" where
  "reason_of s = (if s = ''pre_run'' then Some SrPreRun else if s = ''scheduled'' then Some SrScheduled
     else if s = ''command'' then Some SrCommand else if s = ''final'' then Some SrFinal else None)"

definition attention_of :: "string \<Rightarrow> attention_kind option" where
  "attention_of s = (if s = ''bell'' then Some AkBell else if s = ''osc'' then Some AkOsc
     else if s = ''blocked_read'' then Some AkBlockedRead else if s = ''interrupted'' then Some AkInterrupted else None)"

definition read_diff :: "int_reader \<Rightarrow> js \<Rightarrow> diff_summary option" where
  "read_diff ri = rd_obj (\<lambda>h. Option.bind (rd_nat ri (get h ''added'')) (\<lambda>a. Option.bind (rd_nat ri (get h ''modified'')) (\<lambda>m.
     Option.bind (rd_nat ri (get h ''removed'')) (\<lambda>r. Some \<lparr>ds_added = a, ds_modified = m, ds_removed = r\<rparr>))))"

definition read_exit :: "int_reader \<Rightarrow> js \<Rightarrow> exit_status option" where
  "read_exit ri = rd_obj (\<lambda>e. Option.bind (rd_str (get e ''t'')) (\<lambda>t.
     if t = ''exited'' then rd_obj (\<lambda>c. map_option EsExited (ri (get c ''code''))) (get e ''c'')
     else if t = ''signaled'' then rd_obj (\<lambda>c. map_option EsSignaled (ri (get c ''signal''))) (get e ''c'')
     else None))"

definition read_rollback :: "int_reader \<Rightarrow> js \<Rightarrow> run_rollback option" where
  "read_rollback ri = rd_obj (\<lambda>h. Option.bind (rd_str (get h ''run'')) (\<lambda>r. Option.bind (rd_nat ri (get h ''control_offset'')) (\<lambda>co.
     Option.bind (rd_nat ri (get h ''disk_offset'')) (\<lambda>d. Option.bind (rd_bool (get h ''replayed'')) (\<lambda>b.
     Some \<lparr>rb_run = r, rb_control_offset = co, rb_disk_offset = d, rb_replayed = b\<rparr>)))))"

definition read_run_offset :: "int_reader \<Rightarrow> js \<Rightarrow> (run_id \<times> nat) option" where
  "read_run_offset ri = rd_obj (\<lambda>h. Option.bind (rd_str (get h ''run'')) (\<lambda>r.
     Option.bind (rd_nat ri (get h ''offset'')) (\<lambda>n. Some (r, n))))"

section \<open>Validators refine readers\<close>

text \<open>
  The contract of a validator against the reader of its type: it accepts exactly the values the loose
  reader reads as something in range, and what it returns is read, strictly, as the same thing.
\<close>

locale validator =
  fixes val :: "string \<Rightarrow> js \<Rightarrow> js checked"
    and reader :: "int_reader \<Rightarrow> js \<Rightarrow> 'a option"
    and ok :: "'a \<Rightarrow> bool"
  assumes sound: "val pos v = Inr w \<Longrightarrow>
      \<exists>x. reader loose_int v = Some x \<and> ok x \<and> reader strict_int w = Some x \<and> reader loose_int w = Some x"
    and complete: "reader loose_int v = Some x \<Longrightarrow> ok x \<Longrightarrow> \<exists>w. val pos v = Inr w"
begin

lemma accepts: "(\<exists>w. val pos v = Inr w) \<longleftrightarrow> (\<exists>x. reader loose_int v = Some x \<and> ok x)"
  using sound complete by blast

lemma typed: "val pos v = Inr w \<Longrightarrow> \<exists>x. reader strict_int w = Some x \<and> ok x"
  using sound by blast

lemma again: "val pos v = Inr w \<Longrightarrow> \<exists>u. val at' w = Inr u"
  using sound complete by blast

lemma each_sound:
  "each val pos i vs = Inr ws \<Longrightarrow> \<exists>xs. those (map (reader loose_int) vs) = Some xs \<and> list_all ok xs
     \<and> those (map (reader strict_int) ws) = Some xs \<and> those (map (reader loose_int) ws) = Some xs"
proof (induction vs arbitrary: i ws)
  case (Cons v vs)
  then obtain w us where w: "val (elem_at pos i) v = Inr w" "each val pos (Suc i) vs = Inr us" "ws = w # us" by auto
  show ?case using sound [OF w(1)] Cons.IH [OF w(2)] by (auto simp: w(3))
qed simp

lemma each_complete:
  "those (map (reader loose_int) vs) = Some xs \<Longrightarrow> list_all ok xs \<Longrightarrow> \<exists>ws. each val pos i vs = Inr ws"
proof (induction vs arbitrary: i xs)
  case (Cons v vs)
  from Cons.prems(1) obtain x ys where "reader loose_int v = Some x" "those (map (reader loose_int) vs) = Some ys" "xs = x # ys"
    by (auto split: option.splits)
  then show ?case using complete [of v x "elem_at pos i"] Cons.IH [of ys "Suc i"] Cons.prems(2) by auto
qed simp

lemma array_sound:
  "in_array val pos v = Inr w \<Longrightarrow> \<exists>x. rd_list (reader loose_int) v = Some x \<and> list_all ok x
     \<and> rd_list (reader strict_int) w = Some x \<and> rd_list (reader loose_int) w = Some x"
  by (cases v) (auto simp: in_array_def arrV_def dest!: each_sound)

lemma array_complete: "rd_list (reader loose_int) v = Some x \<Longrightarrow> list_all ok x \<Longrightarrow> \<exists>w. in_array val pos v = Inr w"
  using each_complete by (cases v) (auto simp: in_array_def arrV_def)

end

lemma validator_array: "validator val reader ok \<Longrightarrow> validator (in_array val) (\<lambda>ri. rd_list (reader ri)) (list_all ok)"
  by (rule validator.intro) (erule validator.array_sound, assumption, erule validator.array_complete, assumption+)

section \<open>Field checks\<close>

named_theorems field_iffs "when a field check succeeds"


lemma prim_iffs [field_iffs]:
  "recordV pos v = Inr h \<longleftrightarrow> v = JObj h" "arrV pos v = Inr xs \<longleftrightarrow> v = JArr xs" "strV pos v = Inr s \<longleftrightarrow> v = JStr s"
  "boolV pos v = Inr b \<longleftrightarrow> v = JBool b" "byteString pos v = Inr bs \<longleftrightarrow> v = JBytes bs"
  "strOrNullV pos v = Inr os \<longleftrightarrow> rd_opt_str v = Some os"
  "enumField allowed pos v = Inr s \<longleftrightarrow> v = JStr s \<and> s \<in> set allowed"
  by (cases v; auto simp: recordV_def arrV_def strV_def boolV_def byteString_def strOrNullV_def enumField_def
      split: option.split)+

lemma u53_iff [field_iffs]: "u53 pos v = Inr n \<longleftrightarrow> loose_int v = Some n \<and> 0 \<le> n \<and> n \<le> MAX_SAFE"
  by (cases v) (auto simp: u53_def)

lemma boundedUint_iff [field_iffs]:
  "mx \<le> MAX_SAFE \<Longrightarrow> boundedUint mx pos v = Inr n \<longleftrightarrow> loose_int v = Some n \<and> 0 \<le> n \<and> n \<le> mx"
  by (simp add: boundedUint_def u53_iff) (metis Inl_not_Inr Inr_inject not_less order_trans)

lemma boundedInt_iff [field_iffs]:
  "- MAX_SAFE \<le> mn \<Longrightarrow> mx \<le> MAX_SAFE \<Longrightarrow> boundedInt mn mx pos v = Inr n \<longleftrightarrow> loose_int v = Some n \<and> mn \<le> n \<and> n \<le> mx"
  by (cases v) (auto simp: boundedInt_def)

lemma ex_nat: "(\<exists>n. P n \<and> 0 \<le> n \<and> Q n) \<longleftrightarrow> (\<exists>k. P (int k) \<and> Q (int k))"
  by (metis nonneg_int_cases of_nat_0_le_iff)

lemma setter_iffs [field_iffs]:
  "check f k pos h = Inr h' \<longleftrightarrow> h' = h \<and> (\<exists>x. f pos (get h k) = Inr x)"
  "setU53 k pos h = Inr h' \<longleftrightarrow> (\<exists>n. loose_int (get h k) = Some (int n) \<and> int n \<le> MAX_SAFE \<and> h' = put k (JInt (int n)) h)"
  "mx \<le> MAX_SAFE \<Longrightarrow> setUint mx k pos h = Inr h' \<longleftrightarrow>
     (\<exists>n. loose_int (get h k) = Some (int n) \<and> int n \<le> mx \<and> h' = put k (JInt (int n)) h)"
  "- MAX_SAFE \<le> mn \<Longrightarrow> mx \<le> MAX_SAFE \<Longrightarrow> setInt mn mx k pos h = Inr h' \<longleftrightarrow>
     (\<exists>n. loose_int (get h k) = Some n \<and> mn \<le> n \<and> n \<le> mx \<and> h' = put k (JInt n) h)"
  "nested g k pos h = Inr h' \<longleftrightarrow> (\<exists>w. g pos (get h k) = Inr w \<and> h' = put k w h)"
  by (auto simp: check_def setU53_def setUint_def setInt_def nested_def u53_iff boundedUint_iff boundedInt_iff
      ex_nat conj_assoc)

lemma object_iffs [field_iffs]:
  "in_record fs pos v = Inr w \<longleftrightarrow> (\<exists>h h'. v = JObj h \<and> seqE (fs pos) h = Inr h' \<and> w = JObj h')"
  "in_payload env t gs = Inr env' \<longleftrightarrow>
     (\<exists>c c'. get env ''c'' = JObj c \<and> seqE gs c = Inr c' \<and> env' = put ''c'' (JObj c') env)"
  by (auto simp: in_record_def in_payload_def payload_def prim_iffs split: js.splits)

lemma limits [simp]:
  "- MAX_SAFE \<le> I32_MIN" "I32_MAX \<le> MAX_SAFE" "- MAX_SAFE \<le> - 1" "RGB_MAX \<le> MAX_SAFE" "U32_MAX \<le> MAX_SAFE" "U16_MAX \<le> MAX_SAFE"
  "1 \<le> MAX_SAFE" by (simp_all add: MAX_SAFE_def I32_MIN_def I32_MAX_def RGB_MAX_def U32_MAX_def U16_MAX_def)

lemma rd_nat_iff [field_iffs]: "rd_nat ri v = Some k \<longleftrightarrow> ri v = Some (int k)"
  by (auto simp: rd_nat_def bind_eq_Some_conv intro!: exI [of _ "int k"])

lemma rd_nat_some [simp]: "ri v = Some n \<Longrightarrow> 0 \<le> n \<Longrightarrow> rd_nat ri v = Some (nat n)"
  by (simp add: rd_nat_def)

lemma rd_iffs [field_iffs]:
  "rd_str v = Some s \<longleftrightarrow> v = JStr s" "rd_bool v = Some b \<longleftrightarrow> v = JBool b" "rd_bytes v = Some bs \<longleftrightarrow> v = JBytes bs"
  "rd_obj f v = Some x \<longleftrightarrow> (\<exists>h. v = JObj h \<and> f h = Some x)"
  by (cases v; auto split: option.split)+

definition diff_ok :: "diff_summary \<Rightarrow> bool" where
  "diff_ok d \<longleftrightarrow> int (ds_added d) \<le> U32_MAX \<and> int (ds_modified d) \<le> U32_MAX \<and> int (ds_removed d) \<le> U32_MAX"

interpretation diff: validator validateDiffSummary read_diff diff_ok
  by unfold_locales
    (auto simp: validateDiffSummary_def read_diff_def diff_ok_def field_iffs bind_eq_Some_conv get_put)

definition exit_ok :: "exit_status \<Rightarrow> bool" where
  "exit_ok e = (case e of EsExited n \<Rightarrow> I32_MIN \<le> n \<and> n \<le> I32_MAX | EsSignaled n \<Rightarrow> I32_MIN \<le> n \<and> n \<le> I32_MAX)"

lemma exit_variant:
  assumes "t = ''exited'' \<and> con = EsExited \<and> k = ''code'' \<or> t = ''signaled'' \<and> con = EsSignaled \<and> k = ''signal''"
    "get e ''t'' = JStr t"
  shows "validateExitStatus pos (JObj e) = Inr w \<longleftrightarrow> (\<exists>e'. in_payload e pos [setInt I32_MIN I32_MAX k (pos @ ''.c.'' @ k)] = Inr e' \<and> w = JObj e')"
    "read_exit ri (JObj e) = rd_obj (\<lambda>c. map_option con (ri (get c k))) (get e ''c'')"
  using assms by (auto simp: validateExitStatus_def read_exit_def prim_iffs)

lemma exit_shape:
  "validateExitStatus pos v = Inr w \<Longrightarrow> \<exists>e t. v = JObj e \<and> get e ''t'' = JStr t \<and> t \<in> {''exited'', ''signaled''}"
  "read_exit ri v = Some x \<Longrightarrow> \<exists>e t. v = JObj e \<and> get e ''t'' = JStr t \<and> t \<in> {''exited'', ''signaled''}"
  by (auto simp: validateExitStatus_def read_exit_def field_iffs bind_eq_Some_conv split: if_splits)

interpretation exit: validator validateExitStatus read_exit exit_ok
proof
  fix pos v w
  assume a: "validateExitStatus pos v = Inr w"
  then obtain e t where v: "v = JObj e" "get e ''t'' = JStr t" "t \<in> {''exited'', ''signaled''}"
    using exit_shape(1) by blast
  from v(3) obtain con k where k: "t = ''exited'' \<and> con = EsExited \<and> k = ''code'' \<or> t = ''signaled'' \<and> con = EsSignaled \<and> k = ''signal''"
    by blast
  from a obtain c n where w: "get e ''c'' = JObj c" "loose_int (get c k) = Some n" "I32_MIN \<le> n" "n \<le> I32_MAX"
    "w = JObj (put ''c'' (JObj (put k (JInt n) c)) e)"
    by (auto simp: v exit_variant(1) [OF k v(2)] field_iffs)
  have t: "get (put ''c'' (JObj (put k (JInt n) c)) e) ''t'' = JStr t" by (simp add: get_put v(2))
  show "\<exists>x. read_exit loose_int v = Some x \<and> exit_ok x \<and> read_exit strict_int w = Some x \<and> read_exit loose_int w = Some x"
    using k w by (auto simp: v(1) exit_variant(2) [OF k v(2)] exit_variant(2) [OF k t] get_put exit_ok_def)
next
  fix v x pos
  assume a: "read_exit loose_int v = Some x" "exit_ok x"
  then obtain e t where v: "v = JObj e" "get e ''t'' = JStr t" "t \<in> {''exited'', ''signaled''}"
    using exit_shape(2) by blast
  from v(3) obtain con k where k: "t = ''exited'' \<and> con = EsExited \<and> k = ''code'' \<or> t = ''signaled'' \<and> con = EsSignaled \<and> k = ''signal''"
    by blast
  show "\<exists>w. validateExitStatus pos v = Inr w"
    using a k by (auto simp: v(1) exit_variant [OF k v(2)] field_iffs exit_ok_def)
qed

definition safe :: "nat \<Rightarrow> bool" where "safe n \<longleftrightarrow> int n \<le> MAX_SAFE"

interpretation rollbacks: validator validateRollbackRuns "\<lambda>ri. rd_list (read_rollback ri)"
  "list_all (\<lambda>r. safe (rb_control_offset r) \<and> safe (rb_disk_offset r))"
  unfolding validateRollbackRuns_def
  by (rule validator_array, unfold_locales)
    (auto simp: read_rollback_def safe_def field_iffs bind_eq_Some_conv get_put)

interpretation offsets: validator validateRunOffsets "\<lambda>ri. rd_list (read_run_offset ri)" "list_all (\<lambda>p. safe (snd p))"
  unfolding validateRunOffsets_def
  by (rule validator_array, unfold_locales)
    (auto simp: read_run_offset_def safe_def field_iffs bind_eq_Some_conv get_put)

definition read_cell :: "int_reader \<Rightarrow> js \<Rightarrow> grid_cell option" where
  "read_cell ri = rd_obj (\<lambda>h. Option.bind (rd_str (get h ''ch'')) (\<lambda>ch. Option.bind (rd_nat ri (get h ''attrs'')) (\<lambda>a.
     Option.bind (ri (get h ''fg'')) (\<lambda>fg. Option.bind (ri (get h ''bg'')) (\<lambda>bg.
     Some \<lparr>gc_ch = ch, gc_attrs = a, gc_fg = fg, gc_bg = bg\<rparr>)))))"

definition cell_ok :: "grid_cell \<Rightarrow> bool" where
  "cell_ok c \<longleftrightarrow> int (gc_attrs c) \<le> U32_MAX \<and> - 1 \<le> gc_fg c \<and> gc_fg c \<le> RGB_MAX \<and> - 1 \<le> gc_bg c \<and> gc_bg c \<le> RGB_MAX"

interpretation cell: validator validateCell read_cell cell_ok
  by unfold_locales
    (auto simp: validateCell_def read_cell_def cell_ok_def field_iffs bind_eq_Some_conv get_put)

interpretation cells: validator "in_array (in_array validateCell)" "\<lambda>ri. rd_list (rd_list (read_cell ri))"
  "list_all (list_all cell_ok)"
  by (intro validator_array) unfold_locales

definition read_grid :: "int_reader \<Rightarrow> js \<Rightarrow> grid_snapshot option" where
  "read_grid ri = rd_obj (\<lambda>h. Option.bind (rd_nat ri (get h ''cols'')) (\<lambda>c. Option.bind (rd_nat ri (get h ''rows'')) (\<lambda>r.
     Option.bind (rd_nat ri (get h ''cursorCol'')) (\<lambda>cc. Option.bind (rd_nat ri (get h ''cursorRow'')) (\<lambda>cr.
     Option.bind (rd_bool (get h ''cursorVisible'')) (\<lambda>v. Option.bind (rd_list (rd_list (read_cell ri)) (get h ''cells'')) (\<lambda>cs.
     Some \<lparr>gs_cols = c, gs_rows = r, gs_cells = cs, gs_cursorCol = cc, gs_cursorRow = cr, gs_cursorVisible = v\<rparr>)))))))"

definition u16 :: "nat \<Rightarrow> bool" where "u16 n \<longleftrightarrow> int n \<le> U16_MAX"

definition grid_ok :: "grid_snapshot \<Rightarrow> bool" where
  "grid_ok g \<longleftrightarrow> u16 (gs_cols g) \<and> u16 (gs_rows g) \<and> u16 (gs_cursorCol g) \<and> u16 (gs_cursorRow g)
     \<and> list_all (list_all cell_ok) (gs_cells g)"

interpretation grid: validator validateGridSnapshot read_grid grid_ok
proof
  fix pos v w
  assume "validateGridSnapshot pos v = Inr w"
  then show "\<exists>x. read_grid loose_int v = Some x \<and> grid_ok x \<and> read_grid strict_int w = Some x \<and> read_grid loose_int w = Some x"
    by (auto simp: validateGridSnapshot_def read_grid_def grid_ok_def u16_def field_iffs bind_eq_Some_conv get_put
        dest!: cells.sound)
next
  fix v x pos
  assume "read_grid loose_int v = Some x" "grid_ok x"
  then show "\<exists>w. validateGridSnapshot pos v = Inr w"
    using cells.complete
    by (auto simp: validateGridSnapshot_def read_grid_def grid_ok_def u16_def field_iffs bind_eq_Some_conv get_put)
qed

section \<open>Variants\<close>

text \<open>One variant of an envelope against its reader; the tag \<open>t\<close> of the envelope is kept.\<close>

definition refines :: "(holder \<Rightarrow> holder checked) \<Rightarrow> (int_reader \<Rightarrow> holder \<Rightarrow> 'a option) \<Rightarrow> ('a \<Rightarrow> bool) \<Rightarrow> bool" where
  "refines f R ok \<longleftrightarrow>
     (\<forall>h h'. f h = Inr h' \<longrightarrow> get h' ''t'' = get h ''t'' \<and>
        (\<exists>x. R loose_int h = Some x \<and> ok x \<and> R strict_int h' = Some x \<and> R loose_int h' = Some x))
   \<and> (\<forall>h x. R loose_int h = Some x \<longrightarrow> ok x \<longrightarrow> (\<exists>h'. f h = Inr h'))"

definition in_c :: "(holder \<Rightarrow> 'a option) \<Rightarrow> holder \<Rightarrow> 'a option" where
  "in_c f env = rd_obj f (get env ''c'')"

definition read_envelope :: "(holder \<Rightarrow> string \<Rightarrow> 'a option) \<Rightarrow> js \<Rightarrow> 'a option" where
  "read_envelope f = rd_obj (\<lambda>env. Option.bind (rd_str (get env ''t'')) (f env))"

lemma refines_if:
  "refines f R ok \<Longrightarrow> refines g S ok \<Longrightarrow>
     refines (\<lambda>h. if b then f h else g h) (\<lambda>ri h. if b then R ri h else S ri h) ok"
  by (cases b) simp_all

lemma refines_none: "refines (\<lambda>h. Inl e) (\<lambda>ri h. None) ok"
  by (simp add: refines_def)

lemma refines_payload:
  assumes "\<And>c c'. seqE fs c = Inr c' \<Longrightarrow> \<exists>x. R loose_int c = Some x \<and> ok x \<and> R strict_int c' = Some x \<and> R loose_int c' = Some x"
    "\<And>c x. R loose_int c = Some x \<Longrightarrow> ok x \<Longrightarrow> \<exists>c'. seqE fs c = Inr c'"
  shows "refines (\<lambda>h. in_payload h t fs) (\<lambda>ri. in_c (R ri)) ok"
  unfolding refines_def
proof (intro conjI allI impI)
  fix h h'
  assume "in_payload h t fs = Inr h'"
  then obtain c c' where c: "get h ''c'' = JObj c" "seqE fs c = Inr c'" "h' = put ''c'' (JObj c') h"
    by (auto simp: object_iffs)
  show "get h' ''t'' = get h ''t''" by (simp add: c get_put)
  show "\<exists>x. in_c (R loose_int) h = Some x \<and> ok x \<and> in_c (R strict_int) h' = Some x \<and> in_c (R loose_int) h' = Some x"
    using assms(1) [OF c(2)] by (simp add: in_c_def c get_put)
next
  fix h x
  assume "in_c (R loose_int) h = Some x" "ok x"
  then obtain c where "get h ''c'' = JObj c" "R loose_int c = Some x" by (auto simp: in_c_def rd_iffs)
  then show "\<exists>h'. in_payload h t fs = Inr h'" using assms(2) \<open>ok x\<close> by (auto simp: object_iffs)
qed

lemma validator_envelope:
  assumes "\<And>t. refines (\<lambda>h. variant h t) (\<lambda>ri h. R ri h t) ok"
  shows "validator (\<lambda>_. envelope name variant) (\<lambda>ri. read_envelope (R ri)) ok"
proof
  fix v w
  assume "envelope name variant v = Inr w"
  then obtain h t h' where h: "v = JObj h" "get h ''t'' = JStr t" "variant h t = Inr h'" "w = JObj h'"
    by (auto simp: envelope_def prim_iffs)
  have "get h' ''t'' = JStr t" "\<exists>x. R loose_int h t = Some x \<and> ok x \<and> R strict_int h' t = Some x \<and> R loose_int h' t = Some x"
    using assms [of t] h(2,3) by (auto simp: refines_def)
  then show "\<exists>x. read_envelope (R loose_int) v = Some x \<and> ok x \<and> read_envelope (R strict_int) w = Some x
      \<and> read_envelope (R loose_int) w = Some x"
    by (simp add: read_envelope_def h)
next
  fix v x
  assume "read_envelope (R loose_int) v = Some x" "ok x"
  then obtain h t where h: "v = JObj h" "get h ''t'' = JStr t" "R loose_int h t = Some x"
    by (auto simp: read_envelope_def rd_iffs bind_eq_Some_conv)
  then show "\<exists>w. envelope name variant v = Inr w"
    using assms [of t] \<open>ok x\<close> by (fastforce simp: refines_def envelope_def prim_iffs)
qed

section \<open>The envelopes pos their types\<close>

definition read_supervisor_variant :: "int_reader \<Rightarrow> holder \<Rightarrow> string \<Rightarrow> supervisor_message option" where
  "read_supervisor_variant ri env t =
     (if t = ''journal_frame'' then in_c (\<lambda>c. Option.bind (rd_str (get c ''run'')) (\<lambda>r. Option.bind (rd_nat ri (get c ''offset'')) (\<lambda>n.
        Option.bind (rd_bytes (get c ''bytes'')) (\<lambda>b. Some (JournalFrame r n b))))) env
      else if t = ''run_heartbeat'' then in_c (\<lambda>c. map_option RunHeartbeat (rd_str (get c ''run''))) env
      else if t = ''hello'' then in_c (\<lambda>c. Option.bind (rd_str (get c ''computer'')) (\<lambda>i. Option.bind (rd_nat ri (get c ''epoch'')) (\<lambda>e.
        Option.bind (rd_str (get c ''token'')) (\<lambda>k. Option.bind (rd_nat ri (get c ''proto_version'')) (\<lambda>p. Some (Hello i e k p)))))) env
      else if t = ''run_started'' then in_c (\<lambda>c. Option.bind (rd_str (get c ''run'')) (\<lambda>r.
        map_option (RunStarted r) (rd_str (get c ''pre_run_manifest'')))) env
      else if t = ''run_completed'' then in_c (\<lambda>c. Option.bind (rd_str (get c ''run'')) (\<lambda>r. Option.bind (read_exit ri (get c ''exit'')) (\<lambda>e.
        Option.bind (rd_str (get c ''post_run_manifest'')) (\<lambda>p. map_option (RunCompleted r e p) (read_diff ri (get c ''diff'')))))) env
      else if t = ''snapshot_written'' then in_c (\<lambda>c. Option.bind (rd_str (get c ''manifest'')) (\<lambda>m. Option.bind (rd_nat ri (get c ''epoch'')) (\<lambda>e.
        Option.bind (rd_str (get c ''reason'')) (\<lambda>s. map_option (SnapshotWritten m e) (reason_of s))))) env
      else if t = ''head_advance_request'' then in_c (\<lambda>c. Option.bind (rd_str (get c ''manifest'')) (\<lambda>m.
        map_option (HeadAdvanceRequest m) (rd_nat ri (get c ''epoch'')))) env
      else if t = ''attention'' then in_c (\<lambda>c. Option.bind (rd_str (get c ''run'')) (\<lambda>r.
        Option.bind (rd_str (get c ''kind'')) (\<lambda>s. map_option (Attention r) (attention_of s)))) env
      else if t = ''rollback_detected'' then in_c (\<lambda>c. Option.bind (rd_str (get c ''disk_manifest'')) (\<lambda>d.
        Option.bind (rd_opt_str (get c ''recorded_manifest'')) (\<lambda>m. Option.bind (read_diff ri (get c ''diff'')) (\<lambda>f.
        map_option (RollbackDetected d m f) (rd_list (read_rollback ri) (get c ''runs'')))))) env
      else None)"

definition read_supervisor :: "int_reader \<Rightarrow> js \<Rightarrow> supervisor_message option" where
  "read_supervisor ri = read_envelope (read_supervisor_variant ri)"

text \<open>The ranges of the protocol: safe offsets and epochs, 32-bit counters and exit codes.\<close>

definition supervisor_ok :: "supervisor_message \<Rightarrow> bool" where
  "supervisor_ok m =
     (case m of
        JournalFrame r n b \<Rightarrow> safe n
      | Hello i e k p \<Rightarrow> safe e \<and> int p \<le> U32_MAX
      | RunCompleted r e p d \<Rightarrow> exit_ok e \<and> diff_ok d
      | SnapshotWritten m e s \<Rightarrow> safe e
      | HeadAdvanceRequest m e \<Rightarrow> safe e
      | RollbackDetected d m f rs \<Rightarrow> diff_ok f \<and> list_all (\<lambda>r. safe (rb_control_offset r) \<and> safe (rb_disk_offset r)) rs
      | _ \<Rightarrow> True)"

lemma enum_iffs:
  "s \<in> set SNAPSHOT_REASONS \<longleftrightarrow> (\<exists>r. reason_of s = Some r)" "s \<in> set ATTENTION_KINDS \<longleftrightarrow> (\<exists>k. attention_of s = Some k)"
  by (auto simp: reason_of_def SNAPSHOT_REASONS_def attention_of_def ATTENTION_KINDS_def)

lemmas variant_simps = field_iffs bind_eq_Some_conv get_put safe_def u16_def

interpretation supervisor: validator "\<lambda>_. asSupervisorMessage" read_supervisor supervisor_ok
  unfolding asSupervisorMessage_def read_supervisor_def
proof (rule validator_envelope)
  fix t
  show "refines (\<lambda>h. supervisor_payload h t) (\<lambda>ri h. read_supervisor_variant ri h t) supervisor_ok"
    unfolding supervisor_payload_def read_supervisor_variant_def
    apply (intro refines_if refines_none refines_payload)
    apply (auto simp: variant_simps supervisor_ok_def)[2]
    apply (auto simp: variant_simps supervisor_ok_def)[2]
    apply (auto simp: variant_simps supervisor_ok_def)[2]
    apply (auto simp: variant_simps supervisor_ok_def)[2]
    apply (auto simp: variant_simps supervisor_ok_def dest!: exit.sound diff.sound)[1]
    apply (auto simp: variant_simps supervisor_ok_def dest!: exit.complete [where pos = "''run_completed.exit''"]
        diff.complete [where pos = "''run_completed.diff''"])[1]
    apply (auto simp: variant_simps supervisor_ok_def enum_iffs)[2]
    apply (auto simp: variant_simps supervisor_ok_def)[2]
    apply (auto simp: variant_simps supervisor_ok_def enum_iffs)[2]
    apply (auto simp: variant_simps supervisor_ok_def dest!: rollbacks.sound diff.sound split: option.splits)[1]
    apply (auto simp: variant_simps supervisor_ok_def split: option.splits
        dest!: rollbacks.complete [where pos = "''rollback_detected.runs''"] diff.complete [where pos = "''rollback_detected.diff''"])[1]
    done
qed

lemma each_iff:
  assumes "\<And>pos v y. f pos v = Inr y \<longleftrightarrow> g v = Some y \<and> ok y"
  shows "each f pos i vs = Inr ys \<longleftrightarrow> those (map g vs) = Some ys \<and> list_all ok ys"
proof (induction vs arbitrary: i ys)
  case (Cons v vs)
  have "each f pos i (v # vs) = Inr ys \<longleftrightarrow>
      (\<exists>z zs. f (elem_at pos i) v = Inr z \<and> each f pos (Suc i) vs = Inr zs \<and> ys = z # zs)" by auto
  then show ?case unfolding Cons.IH assms by (auto split: option.splits)
qed auto

lemma strArray_iff: "strArrayV pos v = Inr ss \<longleftrightarrow> rd_list rd_str v = Some ss"
proof -
  have "each strV pos i vs = Inr ss \<longleftrightarrow> those (map rd_str vs) = Some ss" for i vs
    using each_iff [of strV rd_str "\<lambda>_. True"] by (simp add: prim_iffs rd_iffs list_all_iff)
  then show ?thesis by (cases v) (simp_all add: strArrayV_def arrV_def bindE_def)
qed

definition read_control_variant :: "int_reader \<Rightarrow> holder \<Rightarrow> string \<Rightarrow> control_message option" where
  "read_control_variant ri env t =
     (if t = ''journal_ack'' then in_c (\<lambda>c. Option.bind (rd_str (get c ''run'')) (\<lambda>r. map_option (JournalAck r) (rd_nat ri (get c ''offset'')))) env
      else if t = ''input'' then in_c (\<lambda>c. Option.bind (rd_str (get c ''run'')) (\<lambda>r. map_option (Input r) (rd_bytes (get c ''bytes'')))) env
      else if t = ''resize'' then in_c (\<lambda>c. Option.bind (rd_str (get c ''run'')) (\<lambda>r. Option.bind (rd_nat ri (get c ''cols'')) (\<lambda>w.
        map_option (Resize r w) (rd_nat ri (get c ''rows''))))) env
      else if t = ''hello_ack'' then in_c (\<lambda>c. map_option HelloAck (rd_list (read_run_offset ri) (get c ''acked''))) env
      else if t = ''start_run'' then in_c (\<lambda>c. Option.bind (rd_str (get c ''run'')) (\<lambda>r. Option.bind (rd_list rd_str (get c ''argv'')) (\<lambda>a.
        Option.bind (rd_list rd_str (get c ''env_names'')) (\<lambda>e. map_option (StartRun r a e) (rd_str (get c ''cwd'')))))) env
      else if t = ''stop_run'' then in_c (\<lambda>c. map_option StopRun (rd_str (get c ''run''))) env
      else if t = ''snapshot_now'' then in_c (\<lambda>c. Option.bind (rd_str (get c ''reason'')) (\<lambda>s. map_option SnapshotNow (reason_of s))) env
      else if t = ''prepare_for_cold'' then Some PrepareForCold
      else if t = ''head_advance_result'' then in_c (\<lambda>c. Option.bind (rd_bool (get c ''accepted'')) (\<lambda>b.
        map_option (HeadAdvanceResult b) (rd_nat ri (get c ''current_epoch'')))) env
      else if t = ''restore_to_manifest'' then in_c (\<lambda>c. map_option RestoreToManifest (rd_str (get c ''manifest''))) env
      else None)"

definition read_control :: "int_reader \<Rightarrow> js \<Rightarrow> control_message option" where
  "read_control ri = read_envelope (read_control_variant ri)"

definition control_ok :: "control_message \<Rightarrow> bool" where
  "control_ok m = (case m of
      HelloAck acked \<Rightarrow> list_all (\<lambda>p. safe (snd p)) acked
    | JournalAck r n \<Rightarrow> safe n
    | Resize r w h \<Rightarrow> u16 w \<and> u16 h
    | HeadAdvanceResult b e \<Rightarrow> safe e
    | _ \<Rightarrow> True)"

lemma refines_id: "ok x \<Longrightarrow> refines (\<lambda>h. Inr h) (\<lambda>ri h. Some x) ok"
  by (auto simp: refines_def)

interpretation control: validator "\<lambda>_. asControlMessage" read_control control_ok
  unfolding asControlMessage_def read_control_def
proof (rule validator_envelope)
  fix t
  show "refines (\<lambda>h. control_payload h t) (\<lambda>ri h. read_control_variant ri h t) control_ok"
    unfolding control_payload_def read_control_variant_def
    apply (intro refines_if refines_none refines_payload)
    apply (auto simp: variant_simps control_ok_def)[2]
    apply (auto simp: variant_simps control_ok_def)[2]
    apply (auto simp: variant_simps control_ok_def)[2]
    apply (auto simp: variant_simps control_ok_def dest!: offsets.sound)[1]
    apply (auto simp: variant_simps control_ok_def dest!: offsets.complete [where pos = "''hello_ack.acked''"])[1]
    apply (auto simp: variant_simps control_ok_def strArray_iff)[2]
    apply (auto simp: variant_simps control_ok_def)[2]
    apply (auto simp: variant_simps control_ok_def enum_iffs)[2]
    apply (rule refines_id, simp add: control_ok_def)
    apply (auto simp: variant_simps control_ok_def)[2]
    apply (auto simp: variant_simps control_ok_def)[2]
    done
qed

definition read_client_variant :: "int_reader \<Rightarrow> holder \<Rightarrow> string \<Rightarrow> client_to_do option" where
  "read_client_variant ri m t =
     (if t = ''input'' then Option.bind (rd_str (get m ''run'')) (\<lambda>r. map_option (ClientInput r) (rd_bytes (get m ''bytes'')))
      else if t = ''attach'' \<or> t = ''resize'' then Option.bind (rd_str (get m ''run'')) (\<lambda>r. Option.bind (rd_nat ri (get m ''cols'')) (\<lambda>w.
        map_option ((if t = ''attach'' then ClientAttach else ClientResize) r w) (rd_nat ri (get m ''rows''))))
      else if t = ''detach'' then map_option ClientDetach (rd_str (get m ''run''))
      else None)"

definition read_client :: "int_reader \<Rightarrow> js \<Rightarrow> client_to_do option" where
  "read_client ri = read_envelope (read_client_variant ri)"

definition client_ok :: "client_to_do \<Rightarrow> bool" where
  "client_ok m = (case m of ClientAttach r w h \<Rightarrow> u16 w \<and> u16 h | ClientResize r w h \<Rightarrow> u16 w \<and> u16 h | _ \<Rightarrow> True)"

interpretation client: validator "\<lambda>_. asClientToDo" read_client client_ok
  unfolding asClientToDo_def read_client_def
proof (rule validator_envelope)
  fix t
  show "refines (\<lambda>h. client_fields h t) (\<lambda>ri h. read_client_variant ri h t) client_ok"
    unfolding client_fields_def read_client_variant_def Let_def
    by (intro refines_if refines_none; unfold refines_def; auto simp: variant_simps client_ok_def)
qed

definition read_do_variant :: "int_reader \<Rightarrow> holder \<Rightarrow> string \<Rightarrow> do_to_client option" where
  "read_do_variant ri m t =
     (if t = ''frame'' then Option.bind (rd_str (get m ''run'')) (\<lambda>r. Option.bind (rd_nat ri (get m ''offset'')) (\<lambda>n.
        map_option (DoFrame r n) (rd_bytes (get m ''bytes''))))
      else if t = ''grid'' then Option.bind (rd_str (get m ''run'')) (\<lambda>r. Option.bind (rd_nat ri (get m ''baseOffset'')) (\<lambda>n.
        map_option (\<lambda>g. DoGridSnapshot r g n) (read_grid ri (get m ''grid''))))
      else if t = ''run_status'' then Option.bind (rd_str (get m ''run'')) (\<lambda>r. Option.bind (rd_bool (get m ''alive'')) (\<lambda>a.
        if get m ''exitCode'' = JNull then Some (DoRunStatus r a None)
        else map_option (\<lambda>n. DoRunStatus r a (Some n)) (ri (get m ''exitCode''))))
      else None)"

definition read_do :: "int_reader \<Rightarrow> js \<Rightarrow> do_to_client option" where
  "read_do ri = read_envelope (read_do_variant ri)"

definition do_ok :: "do_to_client \<Rightarrow> bool" where
  "do_ok m = (case m of
      DoFrame r n b \<Rightarrow> safe n
    | DoGridSnapshot r g n \<Rightarrow> safe n \<and> grid_ok g
    | DoRunStatus r a ec \<Rightarrow> (case ec of None \<Rightarrow> True | Some n \<Rightarrow> I32_MIN \<le> n \<and> n \<le> I32_MAX))"

interpretation doc: validator "\<lambda>_. asDoToClient" read_do do_ok
  unfolding asDoToClient_def read_do_def
proof (rule validator_envelope)
  fix t
  show "refines (\<lambda>h. do_fields h t) (\<lambda>ri h. read_do_variant ri h t) do_ok"
    unfolding do_fields_def read_do_variant_def Let_def
    apply (intro refines_if refines_none)
    apply (unfold refines_def)
    apply (auto simp: variant_simps do_ok_def)[1]
    apply (intro conjI allI impI)
    apply (auto simp: variant_simps do_ok_def)[1]
    apply (auto simp: variant_simps do_ok_def dest!: grid.sound)[1]
    apply (auto simp: variant_simps do_ok_def dest!: grid.complete [where pos = "client_at ''DoToClient'' t ''grid''"])[1]
    apply (intro conjI allI impI)
    apply (auto simp: variant_simps do_ok_def split: if_splits)[1]
    subgoal for h h' by (cases "get h ''exitCode'' = JNull") (auto simp: variant_simps do_ok_def)
    subgoal for h x by (cases "get h ''exitCode'' = JNull") (auto simp: variant_simps do_ok_def)
    done
qed

section \<open>The manifest pos its type\<close>

definition kind_of :: "string \<Rightarrow> entry_kind option" where
  "kind_of s = (if s = ''file'' then Some EFile else if s = ''dir'' then Some EDir
     else if s = ''symlink'' then Some ESymlink else None)"

definition read_chunk_ref :: "js \<Rightarrow> chunk_ref option" where
  "read_chunk_ref = rd_obj (\<lambda>r. Option.bind (rd_str (get r ''chunk'')) (\<lambda>c. Option.bind (rd_nat loose_int (get r ''len'')) (\<lambda>n.
     Some \<lparr>cr_chunk = c, cr_len = n\<rparr>)))"

definition chunk_ref_ok :: "chunk_ref \<Rightarrow> bool" where "chunk_ref_ok c \<longleftrightarrow> safe (cr_len c)"

definition read_entry :: "js \<Rightarrow> manifest_entry option" where
  "read_entry = rd_obj (\<lambda>r. Option.bind (rd_str (get r ''path'')) (\<lambda>p. Option.bind (rd_str (get r ''kind'')) (\<lambda>ks. Option.bind (kind_of ks) (\<lambda>k.
     Option.bind (rd_nat loose_int (get r ''mode'')) (\<lambda>m. Option.bind (rd_nat loose_int (get r ''size'')) (\<lambda>z.
     Option.bind (rd_opt_str (get r ''symlink_target'')) (\<lambda>t. Option.bind (rd_list read_chunk_ref (get r ''chunks'')) (\<lambda>cs.
     Some \<lparr>me_path = p, me_kind = k, me_mode = m, me_size = z, me_symlink_target = t, me_chunks = cs\<rparr>))))))))"

definition entry_ok :: "manifest_entry \<Rightarrow> bool" where
  "entry_ok e \<longleftrightarrow> int (me_mode e) \<le> U32_MAX \<and> safe (me_size e) \<and> list_all chunk_ref_ok (me_chunks e)"

definition read_manifest :: "js \<Rightarrow> manifest option" where
  "read_manifest = rd_obj (\<lambda>r. Option.bind (rd_nat loose_int (get r ''version'')) (\<lambda>v. Option.bind (rd_opt_str (get r ''parent'')) (\<lambda>p.
     Option.bind (rd_nat loose_int (get r ''created_at'')) (\<lambda>t. Option.bind (rd_list read_entry (get r ''entries'')) (\<lambda>es.
     Some \<lparr>mf_version = v, mf_parent = p, mf_created_at = t, mf_entries = es\<rparr>)))))"

definition manifest_ok :: "manifest \<Rightarrow> bool" where
  "manifest_ok m \<longleftrightarrow> int (mf_version m) \<le> U32_MAX \<and> safe (mf_created_at m) \<and> list_all entry_ok (mf_entries m)"

lemma entry_kind_iff:
  "s \<in> set ENTRY_KINDS \<longleftrightarrow> (\<exists>k. kind_of s = Some k)"
  "entry_kind_of s = (case kind_of s of None \<Rightarrow> ESymlink | Some k \<Rightarrow> k)"
  by (auto simp: ENTRY_KINDS_def kind_of_def entry_kind_of_def)

lemma chunk_ref_iff: "asChunkRef pos v = Inr c \<longleftrightarrow> read_chunk_ref v = Some c \<and> chunk_ref_ok c"
  by (auto simp: asChunkRef_def read_chunk_ref_def chunk_ref_ok_def variant_simps
      intro!: exI [of _ "int (cr_len c)"])

lemma u53_nat: "u53 pos v = Inr n \<longleftrightarrow> (\<exists>k. n = int k \<and> loose_int v = Some (int k) \<and> safe k)"
  by (auto simp: u53_iff safe_def) (metis nonneg_int_cases)

lemma boundedUint_nat: "mx \<le> MAX_SAFE \<Longrightarrow> boundedUint mx pos v = Inr n \<longleftrightarrow> (\<exists>k. n = int k \<and> loose_int v = Some (int k) \<and> int k \<le> mx)"
  by (auto simp: boundedUint_iff) (metis nonneg_int_cases)

lemma rd_list_iff: "rd_list g v = Some ys \<longleftrightarrow> (\<exists>xs. v = JArr xs \<and> those (map g xs) = Some ys)"
  by (cases v) simp_all

lemmas manifest_simps = prim_iffs u53_nat boundedUint_nat rd_iffs rd_nat_iff rd_list_iff bind_eq_Some_conv

lemma entry_iff: "asEntry pos v = Inr e \<longleftrightarrow> read_entry v = Some e \<and> entry_ok e"
proof -
  have c: "each asChunkRef pos 0 xs = Inr ys \<longleftrightarrow> those (map read_chunk_ref xs) = Some ys \<and> list_all chunk_ref_ok ys" for pos xs ys
    by (rule each_iff) (rule chunk_ref_iff)
  show ?thesis
    by (auto simp: asEntry_def read_entry_def entry_ok_def manifest_simps entry_kind_iff c)
qed

text \<open>C13: A decoded manifest is exactly the value at its type.  The validator of manifests accepts a value exactly
  when it reads as a manifest whose sizes and times are safe integers and whose versions and modes fit 32
  bits, and what it returns is that manifest: extra keys are ignored and a bigint is read as the number
  it denotes.\<close>

theorem manifest_validation_is_reading:
  "asManifest v = Inr m \<longleftrightarrow> read_manifest v = Some m \<and> manifest_ok m"
proof -
  have e: "each asEntry pos 0 xs = Inr ys \<longleftrightarrow> those (map read_entry xs) = Some ys \<and> list_all entry_ok ys" for pos xs ys
    by (rule each_iff) (rule entry_iff)
  show ?thesis
    by (auto simp: asManifest_def read_manifest_def manifest_ok_def manifest_simps e)
qed

text \<open>C12: A supervisor message past validation is well typed.  Validation accepts a decoded value exactly when,
  reading a bigint as the number it denotes and ignoring extra keys, it is a supervisor message with every
  field in the range of the protocol; the value it returns is read as that same message without any
  bigint left where the code reads a number, and validating it again accepts it.\<close>

theorem supervisor_messages_are_typed:
  "((\<exists>w. asSupervisorMessage v = Inr w) \<longleftrightarrow> (\<exists>m. read_supervisor loose_int v = Some m \<and> supervisor_ok m))
   \<and> (\<forall>w. asSupervisorMessage v = Inr w \<longrightarrow>
        (\<exists>m. read_supervisor strict_int w = Some m \<and> supervisor_ok m \<and> read_supervisor loose_int v = Some m)
        \<and> (\<exists>u. asSupervisorMessage w = Inr u))"
proof (intro conjI allI impI)
  show "(\<exists>w. asSupervisorMessage v = Inr w) \<longleftrightarrow> (\<exists>m. read_supervisor loose_int v = Some m \<and> supervisor_ok m)"
    by (rule supervisor.accepts)
next
  fix w
  assume a: "asSupervisorMessage v = Inr w"
  show "\<exists>m. read_supervisor strict_int w = Some m \<and> supervisor_ok m \<and> read_supervisor loose_int v = Some m"
    using supervisor.sound [OF a] by blast
  show "\<exists>u. asSupervisorMessage w = Inr u" by (rule supervisor.again [OF a])
qed

definition demo_hello :: "js \<Rightarrow> js" where
  "demo_hello e = JObj [(''t'', JStr ''hello''), (''c'', JObj [(''computer'', JStr ''c1''), (''extra'', JNonFin), (''epoch'', e),
     (''token'', JStr ''k''), (''proto_version'', JInt 1)])]"

lemma demo_hello_ok: "asSupervisorMessage (demo_hello (JBig 7)) = Inr (demo_hello (JInt 7))"
  by (simp add: asSupervisorMessage_def envelope_def supervisor_payload_def demo_hello_def in_payload_def payload_def
      recordV_def strV_def check_def setU53_def setUint_def boundedUint_def u53_def get_def put_def MAX_SAFE_def U32_MAX_def)

theorem supervisor_messages_are_typed_witness:
  "(\<exists>m. read_supervisor strict_int (demo_hello (JInt 7)) = Some m \<and> supervisor_ok m
      \<and> read_supervisor loose_int (demo_hello (JBig 7)) = Some m)
   \<and> (\<exists>u. asSupervisorMessage (demo_hello (JInt 7)) = Inr u)"
  using supervisor_messages_are_typed [of "demo_hello (JBig 7)"] demo_hello_ok by blast

text \<open>The other envelopes are typed the same way.  For control messages, client messages and messages to a
  client: accepted exactly when they read as the type in range (terminal sizes of 16 bits, safe offsets,
  32-bit exit codes and attributes, 24-bit colours), and returned as the same message without a bigint.\<close>

theorem envelopes_are_typed:
  "((\<exists>w. asControlMessage v = Inr w) \<longleftrightarrow> (\<exists>m. read_control loose_int v = Some m \<and> control_ok m))
   \<and> ((\<exists>w. asClientToDo v = Inr w) \<longleftrightarrow> (\<exists>m. read_client loose_int v = Some m \<and> client_ok m))
   \<and> ((\<exists>w. asDoToClient v = Inr w) \<longleftrightarrow> (\<exists>m. read_do loose_int v = Some m \<and> do_ok m))
   \<and> (\<forall>w. asControlMessage v = Inr w \<longrightarrow> (\<exists>m. read_control strict_int w = Some m \<and> read_control loose_int v = Some m))
   \<and> (\<forall>w. asClientToDo v = Inr w \<longrightarrow> (\<exists>m. read_client strict_int w = Some m \<and> read_client loose_int v = Some m))
   \<and> (\<forall>w. asDoToClient v = Inr w \<longrightarrow> (\<exists>m. read_do strict_int w = Some m \<and> read_do loose_int v = Some m))"
  using control.accepts client.accepts doc.accepts control.sound client.sound doc.sound by blast

definition demo_resize :: "js \<Rightarrow> js" where
  "demo_resize c = JObj [(''t'', JStr ''resize''), (''run'', JStr ''r''), (''cols'', c), (''rows'', JInt 24)]"

lemma demo_resize_ok: "asClientToDo (demo_resize (JBig 80)) = Inr (demo_resize (JInt 80))"
  by (simp add: asClientToDo_def envelope_def client_fields_def Let_def demo_resize_def
      recordV_def strV_def check_def setUint_def boundedUint_def u53_def get_def put_def MAX_SAFE_def U16_MAX_def)

theorem envelopes_are_typed_witness:
  "\<exists>m. read_client strict_int (demo_resize (JInt 80)) = Some m \<and> read_client loose_int (demo_resize (JBig 80)) = Some m"
  using envelopes_are_typed [of "demo_resize (JBig 80)"] demo_resize_ok by blast

end
