(* ===== verification/Attach.thy ===== *)
theory Attach
  imports Computer Validate
begin

text \<open>
  The attach client of a terminal pane (\<^verbatim>\<open>packages/web/src/ws/attach.ts\<close>): the socket and its reconnect
  timer, the bounded queue of input typed while no socket is open, and the offset rule by which a
  re-delivered grid or frame is dropped.  What the socket accepts is a parameter \<open>send\<close>; messages sent and
  handlers called are appended to the state.  The last section composes the client with the Durable
  Object's reply to an attach (theory Computer).
\<close>

section \<open>State\<close>

datatype sock_state = SkConnecting | SkOpen | SkClosing

datatype handled = HGrid run_id grid_snapshot nat | HFrame run_id nat bytes | HStatus run_id bool "int option" | HOpen | HClose | HError

record attach_opts =
  ao_backoff :: nat
  ao_maxBackoff :: nat
  ao_cap :: int

record attach_client =
  ac_ws :: "sock_state option"
  ac_run :: run_id
  ac_cols :: nat
  ac_rows :: nat
  ac_closed :: bool
  ac_backoff :: nat
  ac_timer :: "nat option"
  ac_applied :: nat
  ac_sawGrid :: bool
  ac_queue :: "bytes list"
  ac_queueBytes :: int
  ac_sent :: "client_to_do list"
  ac_handled :: "handled list"

definition default_opts :: attach_opts where
  "default_opts = \<lparr>ao_backoff = 250, ao_maxBackoff = 5000, ao_cap = 64 * 1024\<rparr>"

definition new_client :: "attach_opts \<Rightarrow> run_id \<Rightarrow> nat \<Rightarrow> nat \<Rightarrow> attach_client" where
  "new_client ops run cols rows = \<lparr>ac_ws = None, ac_run = run, ac_cols = cols, ac_rows = rows, ac_closed = False,
     ac_backoff = ao_backoff ops, ac_timer = None, ac_applied = 0, ac_sawGrid = False, ac_queue = [], ac_queueBytes = 0,
     ac_sent = [], ac_handled = []\<rparr>"

section \<open>Operations\<close>

definition handle :: "handled \<Rightarrow> attach_client \<Rightarrow> attach_client" where
  "handle h c = c\<lparr>ac_handled := ac_handled c @ [h]\<rparr>"

definition sendRaw :: "(client_to_do \<Rightarrow> bool) \<Rightarrow> client_to_do \<Rightarrow> attach_client \<Rightarrow> bool \<times> attach_client" where
  "sendRaw send msg c =
     (if ac_ws c \<noteq> Some SkOpen then (False, c)
      else if send msg then (True, c\<lparr>ac_sent := ac_sent c @ [msg]\<rparr>)
      else (False, handle HError c))"

text \<open>The trimming loop of \<^verbatim>\<open>#queueInput\<close>: each round drops a whole chunk or ends.\<close>

fun trim_queue :: "int \<Rightarrow> bytes list \<Rightarrow> int \<Rightarrow> bytes list \<times> int" where
  "trim_queue cap [] n = ([], n)"
| "trim_queue cap (first # q) n =
     (if n \<le> cap then (first # q, n)
      else if int (length first) \<le> n - cap then trim_queue cap q (n - int (length first))
      else (drop (nat (n - cap)) first # q, cap))"

definition queueInput :: "attach_opts \<Rightarrow> bytes \<Rightarrow> attach_client \<Rightarrow> attach_client" where
  "queueInput ops bs c =
     (let cap = max 0 (ao_cap ops) in
      if cap = 0 then c
      else let copy = (if int (length bs) > cap then drop (nat (int (length bs) - cap)) bs else bs);
               (q, n) = trim_queue cap (ac_queue c @ [copy]) (ac_queueBytes c + int (length copy))
           in c\<lparr>ac_queue := q, ac_queueBytes := n\<rparr>)"

fun flush_loop :: "(client_to_do \<Rightarrow> bool) \<Rightarrow> bytes list \<Rightarrow> attach_client \<Rightarrow> attach_client" where
  "flush_loop send [] c = c\<lparr>ac_queue := []\<rparr>"
| "flush_loop send (bs # q) c =
     (case sendRaw send (ClientInput (ac_run c) bs) c of
        (False, c1) \<Rightarrow> c1\<lparr>ac_queue := bs # q\<rparr>
      | (True, c1) \<Rightarrow> flush_loop send q (c1\<lparr>ac_queueBytes := ac_queueBytes c1 - int (length bs)\<rparr>))"

definition flushQueuedInput :: "(client_to_do \<Rightarrow> bool) \<Rightarrow> attach_client \<Rightarrow> attach_client" where
  "flushQueuedInput send c = flush_loop send (ac_queue c) c"

definition connect :: "attach_client \<Rightarrow> attach_client" where
  "connect c = (if ac_closed c \<or> ac_ws c \<noteq> None then c else c\<lparr>ac_ws := Some SkConnecting\<rparr>)"

definition on_open :: "attach_opts \<Rightarrow> (client_to_do \<Rightarrow> bool) \<Rightarrow> attach_client \<Rightarrow> attach_client" where
  "on_open ops send c =
     (let c1 = c\<lparr>ac_ws := Some SkOpen, ac_backoff := ao_backoff ops\<rparr>;
          c2 = snd (sendRaw send (ClientAttach (ac_run c1) (ac_cols c1) (ac_rows c1)) c1)
      in handle HOpen (flushQueuedInput send c2))"

definition scheduleReconnect :: "attach_opts \<Rightarrow> attach_client \<Rightarrow> attach_client" where
  "scheduleReconnect ops c =
     (if ac_timer c \<noteq> None then c
      else c\<lparr>ac_timer := Some (ac_backoff c), ac_backoff := min (ac_backoff c * 2) (ao_maxBackoff ops)\<rparr>)"

definition on_close :: "attach_opts \<Rightarrow> attach_client \<Rightarrow> attach_client" where
  "on_close ops c =
     (let c1 = handle HClose (c\<lparr>ac_ws := None\<rparr>) in if ac_closed c1 then c1 else scheduleReconnect ops c1)"

definition on_timer :: "attach_client \<Rightarrow> attach_client" where
  "on_timer c = (if ac_timer c = None then c else connect (c\<lparr>ac_timer := None\<rparr>))"

definition input_bytes :: "attach_opts \<Rightarrow> (client_to_do \<Rightarrow> bool) \<Rightarrow> bytes \<Rightarrow> attach_client \<Rightarrow> attach_client" where
  "input_bytes ops send bs c =
     (if bs = [] then c
      else case sendRaw send (ClientInput (ac_run c) bs) c of
        (True, c1) \<Rightarrow> c1
      | (False, c1) \<Rightarrow> queueInput ops bs c1)"

definition resize :: "(client_to_do \<Rightarrow> bool) \<Rightarrow> nat \<Rightarrow> nat \<Rightarrow> attach_client \<Rightarrow> attach_client" where
  "resize send cols rows c =
     (let c1 = c\<lparr>ac_cols := cols, ac_rows := rows\<rparr> in snd (sendRaw send (ClientResize (ac_run c1) cols rows) c1))"

definition detach :: "(client_to_do \<Rightarrow> bool) \<Rightarrow> attach_client \<Rightarrow> attach_client" where
  "detach send c = snd (sendRaw send (ClientDetach (ac_run c)) c)"

definition close_client :: "(client_to_do \<Rightarrow> bool) \<Rightarrow> attach_client \<Rightarrow> attach_client" where
  "close_client send c =
     (let c1 = c\<lparr>ac_closed := True, ac_timer := None\<rparr>;
          c2 = (if ac_ws c1 \<noteq> None then (detach send c1)\<lparr>ac_ws := None\<rparr> else c1)
      in c2\<lparr>ac_queue := [], ac_queueBytes := 0\<rparr>)"

definition onMessage :: "do_to_client \<Rightarrow> attach_client \<Rightarrow> attach_client" where
  "onMessage msg c =
     (case msg of
        DoGridSnapshot run g base \<Rightarrow>
          if ac_sawGrid c \<and> base \<le> ac_applied c then c
          else handle (HGrid run g base) (c\<lparr>ac_sawGrid := True, ac_applied := base\<rparr>)
      | DoFrame run off bs \<Rightarrow>
          if off < ac_applied c then c
          else handle (HFrame run off bs) (c\<lparr>ac_applied := off + length bs\<rparr>)
      | DoRunStatus run alive code \<Rightarrow> handle (HStatus run alive code) c)"

text \<open>The narrowing of a decoded value: by its tag only.\<close>

definition DO_TAGS :: "string list" where "DO_TAGS = [''grid'', ''frame'', ''run_status'']"

definition narrow :: "js \<Rightarrow> js option" where
  "narrow v = (case v of
      JObj h \<Rightarrow> (case get h ''t'' of JStr t \<Rightarrow> if t \<in> set DO_TAGS then Some v else None | _ \<Rightarrow> None)
    | _ \<Rightarrow> None)"

definition attachUrl :: "(string \<Rightarrow> string) \<Rightarrow> string \<Rightarrow> string \<Rightarrow> string \<Rightarrow> string" where
  "attachUrl encodeURIComponent computer protocol host =
     (if protocol = ''https:'' then ''wss:'' else ''ws:'') @ ''//'' @ host @ ''/attach/'' @ encodeURIComponent computer"

section \<open>The client as a machine\<close>

datatype attach_event =
    AeConnect | AeOpen | AeMessage do_to_client | AeClosing | AeSocketClose | AeTimer
  | AeInput bytes | AeResize nat nat | AeDetach | AeClose

fun attach_step :: "attach_opts \<Rightarrow> (client_to_do \<Rightarrow> bool) \<Rightarrow> attach_event \<Rightarrow> attach_client \<Rightarrow> attach_client" where
  "attach_step ops send AeConnect c = connect c"
| "attach_step ops send AeOpen c = (if ac_ws c = Some SkConnecting then on_open ops send c else c)"
| "attach_step ops send (AeMessage msg) c = (if ac_ws c = Some SkOpen then onMessage msg c else c)"
| "attach_step ops send AeClosing c = (if ac_ws c = Some SkOpen then c\<lparr>ac_ws := Some SkClosing\<rparr> else c)"
| "attach_step ops send AeSocketClose c = (if ac_ws c \<noteq> None then on_close ops c else c)"
| "attach_step ops send AeTimer c = on_timer c"
| "attach_step ops send (AeInput bs) c = input_bytes ops send bs c"
| "attach_step ops send (AeResize cols rows) c = resize send cols rows c"
| "attach_step ops send AeDetach c = detach send c"
| "attach_step ops send AeClose c = close_client send c"

definition attach_run :: "attach_opts \<Rightarrow> (attach_event \<times> (client_to_do \<Rightarrow> bool)) list \<Rightarrow> attach_client \<Rightarrow> attach_client" where
  "attach_run ops es c = fold (\<lambda>(e, send). attach_step ops send e) es c"

section \<open>The queue\<close>

text \<open>The last \<open>n\<close> elements.\<close>

definition take_last :: "nat \<Rightarrow> 'a list \<Rightarrow> 'a list" where
  "take_last n xs = drop (length xs - n) xs"

lemma length_take_last [simp]: "length (take_last n xs) = min n (length xs)"
  by (simp add: take_last_def min_def)

lemma take_last_all: "length xs \<le> n \<Longrightarrow> take_last n xs = xs"
  by (simp add: take_last_def)

lemma take_last_append: "take_last n (take_last n xs @ ys) = take_last n (xs @ ys)"
  by (cases "n \<le> length xs") (auto simp: take_last_def add.commute)

lemma drop_nat: "0 \<le> cap \<Longrightarrow> drop (nat (int (length xs) - cap)) xs = take_last (nat cap) xs"
  by (simp add: take_last_def nat_diff_distrib')

lemma trim_queue_spec:
  assumes "n = int (length (concat q))" "0 \<le> cap"
  shows "concat (fst (trim_queue cap q n)) = take_last (nat cap) (concat q)
    \<and> snd (trim_queue cap q n) = int (length (concat (fst (trim_queue cap q n))))"
  using assms
proof (induction cap q n rule: trim_queue.induct)
  case (2 cap first q n)
  consider "n \<le> cap" | "n > cap" "int (length first) \<le> n - cap" | "n > cap" "int (length first) > n - cap" by linarith
  then show ?case
  proof cases
    case 1
    then show ?thesis using "2.prems" by (simp add: take_last_all)
  next
    case 2
    then have "length (concat (first # q)) - nat cap = length first + (length (concat q) - nat cap)"
      using "2.prems" by auto
    then show ?thesis using 2 "2.IH" "2.prems" by (simp add: take_last_def)
  next
    case 3
    have "nat (n - cap) = length (concat (first # q)) - nat cap" using 3 "2.prems" by simp
    then show ?thesis using 3 "2.prems" by (simp add: take_last_def)
  qed
qed (simp add: take_last_def)

definition cap_of :: "attach_opts \<Rightarrow> nat" where "cap_of ops = nat (ao_cap ops)"

definition queue_ok :: "attach_opts \<Rightarrow> attach_client \<Rightarrow> bool" where
  "queue_ok ops c \<longleftrightarrow> ac_queueBytes c = int (length (concat (ac_queue c))) \<and> length (concat (ac_queue c)) \<le> cap_of ops"

lemma queueInput_spec:
  assumes "queue_ok ops c"
  shows "concat (ac_queue (queueInput ops bs c)) = take_last (cap_of ops) (concat (ac_queue c) @ bs)"
    "queue_ok ops (queueInput ops bs c)"
proof -
  let ?cap = "max 0 (ao_cap ops)"
  let ?copy = "if int (length bs) > ?cap then drop (nat (int (length bs) - ?cap)) bs else bs"
  have k: "nat ?cap = cap_of ops" by (simp add: cap_of_def)
  have copy: "?copy = take_last (cap_of ops) bs"
    using drop_nat [of ?cap bs] by (auto simp: k take_last_all)
  have z: "take_last m (xs @ take_last m bs) = take_last m (xs @ bs)" for m and xs :: bytes
    by (cases "m \<le> length bs") (auto simp: take_last_def)
  let ?t = "trim_queue ?cap (ac_queue c @ [take_last (cap_of ops) bs]) (ac_queueBytes c + int (length (take_last (cap_of ops) bs)))"
  have e: "queueInput ops bs c = (if ?cap = 0 then c else c\<lparr>ac_queue := fst ?t, ac_queueBytes := snd ?t\<rparr>)"
    unfolding queueInput_def Let_def copy case_prod_unfold by (rule refl)
  have t: "concat (fst ?t) = take_last (cap_of ops) (concat (ac_queue c) @ bs) \<and> snd ?t = int (length (concat (fst ?t)))"
    using trim_queue_spec [of "ac_queueBytes c + int (length (take_last (cap_of ops) bs))"
        "ac_queue c @ [take_last (cap_of ops) bs]" ?cap] assms
    by (simp add: queue_ok_def k z del: length_take_last)
  have 0: "?cap = 0 \<Longrightarrow> concat (ac_queue c) = [] \<and> take_last (cap_of ops) (concat (ac_queue c) @ bs) = []"
    using assms by (auto simp: queue_ok_def take_last_def cap_of_def)
  have "concat (ac_queue (queueInput ops bs c)) = take_last (cap_of ops) (concat (ac_queue c) @ bs) \<and> queue_ok ops (queueInput ops bs c)"
  proof (cases "?cap = 0")
    case True
    then show ?thesis unfolding e if_P [OF True] using 0 assms by simp
  next
    case False
    then show ?thesis unfolding e if_not_P [OF False] using t by (simp add: queue_ok_def)
  qed
  then show "concat (ac_queue (queueInput ops bs c)) = take_last (cap_of ops) (concat (ac_queue c) @ bs)"
    "queue_ok ops (queueInput ops bs c)" by blast+
qed

lemma queueInput_frame:
  "ac_ws (queueInput ops bs c) = ac_ws c" "ac_sent (queueInput ops bs c) = ac_sent c" "ac_run (queueInput ops bs c) = ac_run c"
  "ac_cols (queueInput ops bs c) = ac_cols c" "ac_rows (queueInput ops bs c) = ac_rows c" "ac_closed (queueInput ops bs c) = ac_closed c"
  "ac_timer (queueInput ops bs c) = ac_timer c" "ac_applied (queueInput ops bs c) = ac_applied c"
  "ac_handled (queueInput ops bs c) = ac_handled c" "ac_sawGrid (queueInput ops bs c) = ac_sawGrid c"
  "ac_backoff (queueInput ops bs c) = ac_backoff c"
  by (simp_all add: queueInput_def Let_def case_prod_unfold)

lemma input_away:
  assumes "queue_ok ops c" "ac_ws c \<noteq> Some SkOpen"
  shows "concat (ac_queue (input_bytes ops send bs c)) = take_last (cap_of ops) (concat (ac_queue c) @ bs)"
    "queue_ok ops (input_bytes ops send bs c)" "ac_ws (input_bytes ops send bs c) = ac_ws c"
    "ac_sent (input_bytes ops send bs c) = ac_sent c" "ac_run (input_bytes ops send bs c) = ac_run c"
  using assms queueInput_spec [OF assms(1), of bs]
  by (auto simp: input_bytes_def sendRaw_def queueInput_frame take_last_all queue_ok_def)

lemma inputs_away:
  assumes "queue_ok ops c" "ac_ws c \<noteq> Some SkOpen"
  shows "let c' = fold (input_bytes ops send) inputs c in
    concat (ac_queue c') = take_last (cap_of ops) (concat (ac_queue c) @ concat inputs) \<and> queue_ok ops c'
    \<and> ac_ws c' = ac_ws c \<and> ac_sent c' = ac_sent c \<and> ac_run c' = ac_run c"
  using assms
proof (induction inputs arbitrary: c)
  case Nil
  then show ?case by (simp add: take_last_all queue_ok_def)
next
  case (Cons bs inputs)
  note 1 = input_away [OF Cons.prems, of send bs]
  then show ?case using Cons.IH [of "input_bytes ops send bs c"] Cons.prems(2) by (simp add: Let_def take_last_append)
qed

lemma flush_loop_all:
  "ac_ws c = Some SkOpen \<Longrightarrow> (\<And>m. send m) \<Longrightarrow>
    ac_sent (flush_loop send q c) = ac_sent c @ map (ClientInput (ac_run c)) q \<and> ac_queue (flush_loop send q c) = []"
  by (induction q arbitrary: c) (simp_all add: sendRaw_def)

text \<open>C15: Input typed while the computer wakes is not lost.  Whatever is typed while no socket is open, the
  queue holds exactly the last bytes of it, at most the cap, in order; when the socket opens, the attach is
  sent first and then exactly those bytes, and nothing stays queued.\<close>

theorem typed_input_survives_reconnect:
  assumes "queue_ok ops c" "ac_ws c = Some SkConnecting"
  shows "let c' = on_open ops (\<lambda>_. True) (fold (input_bytes ops send) inputs c) in
    (\<exists>chunks. ac_sent c' = ac_sent c @ ClientAttach (ac_run c) (ac_cols c') (ac_rows c') # map (ClientInput (ac_run c)) chunks
       \<and> concat chunks = take_last (cap_of ops) (concat (ac_queue c) @ concat inputs))
    \<and> ac_queue c' = []"
proof -
  let ?c1 = "fold (input_bytes ops send) inputs c"
  have w: "ac_ws c \<noteq> Some SkOpen" using assms(2) by simp
  note 1 = inputs_away [OF assms(1) w, of send inputs, unfolded Let_def]
  let ?c2 = "?c1\<lparr>ac_ws := Some SkOpen, ac_backoff := ao_backoff ops, ac_sent := ac_sent c @ [ClientAttach (ac_run c) (ac_cols ?c1) (ac_rows ?c1)]\<rparr>"
  have 2: "on_open ops (\<lambda>_. True) ?c1 = handle HOpen (flush_loop (\<lambda>_. True) (ac_queue ?c1) ?c2)"
    using 1 by (simp add: on_open_def Let_def sendRaw_def flushQueuedInput_def)
  have f: "ac_cols (flush_loop s q d) = ac_cols d" "ac_rows (flush_loop s q d) = ac_rows d" for s q d
    by (induction q arbitrary: d) (simp_all add: sendRaw_def handle_def)
  show ?thesis
    using 1 flush_loop_all [of ?c2 "\<lambda>_. True" "ac_queue ?c1"] by (auto simp: Let_def 2 handle_def f)
qed

definition demo_client :: attach_client where
  "demo_client = (new_client default_opts ''r'' 80 24)\<lparr>ac_ws := Some SkConnecting\<rparr>"

theorem typed_input_survives_reconnect_witness:
  "ac_queue (on_open default_opts (\<lambda>_. True) (fold (input_bytes default_opts (\<lambda>_. False)) [[1], [2, 3]] demo_client)) = []"
  using typed_input_survives_reconnect [of default_opts demo_client "\<lambda>_. False" "[[1], [2, 3]]"]
  unfolding Let_def by (simp add: demo_client_def new_client_def queue_ok_def)

section \<open>Frames\<close>

text \<open>The journal spans of the frames handed to the terminal.\<close>

fun span_of :: "handled \<Rightarrow> (nat \<times> nat) option" where
  "span_of (HFrame run off bs) = Some (off, off + length bs)"
| "span_of _ = None"

definition spans :: "handled list \<Rightarrow> (nat \<times> nat) list" where
  "spans hs = List.map_filter span_of hs"

lemma spans_simps [simp]:
  "spans [] = []" "spans (hs @ [h]) = spans hs @ (case span_of h of None \<Rightarrow> [] | Some s \<Rightarrow> [s])"
  by (auto simp: spans_def map_filter_def split: option.split)

definition frames_ok :: "attach_client \<Rightarrow> bool" where
  "frames_ok c \<longleftrightarrow> ac_sawGrid c \<and> sorted_wrt (\<lambda>s t. snd s \<le> fst t) (spans (ac_handled c))
     \<and> list_all (\<lambda>s. snd s \<le> ac_applied c) (spans (ac_handled c))"

lemma sendRaw_frames:
  "spans (ac_handled (snd (sendRaw send m c))) = spans (ac_handled c)" "ac_applied (snd (sendRaw send m c)) = ac_applied c"
  "ac_sawGrid (snd (sendRaw send m c)) = ac_sawGrid c" "ac_closed (snd (sendRaw send m c)) = ac_closed c"
  "ac_ws (snd (sendRaw send m c)) = ac_ws c" "ac_timer (snd (sendRaw send m c)) = ac_timer c"
  "ac_backoff (snd (sendRaw send m c)) = ac_backoff c"
  by (simp_all add: sendRaw_def handle_def)

lemma flush_frames:
  "spans (ac_handled (flush_loop send q c)) = spans (ac_handled c)" "ac_applied (flush_loop send q c) = ac_applied c"
  "ac_sawGrid (flush_loop send q c) = ac_sawGrid c" "ac_closed (flush_loop send q c) = ac_closed c"
  "ac_ws (flush_loop send q c) = ac_ws c" "ac_timer (flush_loop send q c) = ac_timer c"
  "ac_backoff (flush_loop send q c) = ac_backoff c"
  by (induction q arbitrary: c) (simp_all add: sendRaw_def handle_def)

text \<open>An operation other than a message leaves the frames alone.\<close>

lemma step_frames:
  assumes "\<And>m. e \<noteq> AeMessage m"
  shows "spans (ac_handled (attach_step ops send e c)) = spans (ac_handled c)"
    "ac_applied (attach_step ops send e c) = ac_applied c" "ac_sawGrid (attach_step ops send e c) = ac_sawGrid c"
  using assms
  by (cases e; auto simp: connect_def on_open_def on_close_def on_timer_def input_bytes_def resize_def detach_def
      close_client_def scheduleReconnect_def flushQueuedInput_def handle_def Let_def queueInput_frame
      sendRaw_frames flush_frames sendRaw_def)+

lemma message_frames: "frames_ok c \<Longrightarrow> frames_ok (onMessage msg c)"
  by (cases msg) (auto simp: onMessage_def frames_ok_def handle_def sorted_wrt_append list_all_iff)

lemma step_frames_ok: "frames_ok c \<Longrightarrow> frames_ok (attach_step ops send e c)"
proof (cases "\<exists>m. e = AeMessage m")
  case True
  then show "frames_ok c \<Longrightarrow> frames_ok (attach_step ops send e c)" using message_frames by auto
next
  case False
  then show "frames_ok c \<Longrightarrow> frames_ok (attach_step ops send e c)"
    using step_frames [of e ops send c] unfolding frames_ok_def by metis
qed

lemma step_applied: "frames_ok c \<Longrightarrow> ac_applied c \<le> ac_applied (attach_step ops send e c)"
proof (cases "\<exists>m. e = AeMessage m")
  case True
  then show "frames_ok c \<Longrightarrow> ac_applied c \<le> ac_applied (attach_step ops send e c)"
    by (auto simp: onMessage_def frames_ok_def handle_def split: do_to_client.split)
qed (simp add: step_frames(2))

interpretation pane: guarded_machine "\<lambda>(e, send). attach_step ops send e" frames_ok ac_applied for ops
  by unfold_locales (auto simp: step_frames_ok step_applied)

text \<open>C14: No byte reaches the terminal twice.  After a first grid, over every sequence of messages, closes and
  reconnects, the frames handed to the terminal cover disjoint spans of the run's journal in increasing
  order, and the applied offset never goes back.\<close>

theorem frames_are_applied_once:
  assumes "frames_ok c"
  shows "sorted_wrt (\<lambda>s t. snd s \<le> fst t) (spans (ac_handled (attach_run ops es c)))
    \<and> ac_applied c \<le> ac_applied (attach_run ops es c)"
  using pane.all_kept [OF assms, where ops = ops and es = es] pane.all_grows [OF assms, where ops = ops and es = es]
  unfolding attach_run_def frames_ok_def by blast

definition demo_pane :: attach_client where
  "demo_pane = (new_client default_opts ''r'' 80 24)\<lparr>ac_ws := Some SkOpen, ac_sawGrid := True\<rparr>"

theorem frames_are_applied_once_witness:
  "sorted_wrt (\<lambda>s t. snd s \<le> fst t) (spans (ac_handled (attach_run default_opts
      [(AeMessage (DoFrame ''r'' 0 [1]), \<lambda>_. True), (AeMessage (DoFrame ''r'' 0 [1]), \<lambda>_. True)] demo_pane)))"
  using frames_are_applied_once [of demo_pane default_opts]
  by (simp add: frames_ok_def demo_pane_def new_client_def)

section \<open>Reconnecting\<close>

definition retry_ok :: "attach_opts \<Rightarrow> attach_client \<Rightarrow> bool" where
  "retry_ok ops c \<longleftrightarrow> (ac_closed c \<or> ac_ws c \<noteq> None \<or> ac_timer c \<noteq> None)
     \<and> (ac_closed c \<longrightarrow> ac_ws c = None \<and> ac_timer c = None)
     \<and> ac_backoff c \<le> ao_maxBackoff ops \<and> (case ac_timer c of None \<Rightarrow> True | Some d \<Rightarrow> d \<le> ao_maxBackoff ops)"

lemma step_retry:
  assumes "retry_ok ops c" "ao_backoff ops \<le> ao_maxBackoff ops"
  shows "retry_ok ops (attach_step ops send e c)"
  using assms
  by (cases e) (auto simp: retry_ok_def connect_def on_open_def on_close_def on_timer_def input_bytes_def resize_def detach_def
      close_client_def scheduleReconnect_def flushQueuedInput_def onMessage_def handle_def Let_def queueInput_frame
      sendRaw_frames flush_frames sendRaw_def split: option.splits do_to_client.splits if_splits)

text \<open>A terminal never gives up on its socket.  From the first connect on, over every sequence of operations
  and socket events, a client that was not closed has a socket or a reconnect scheduled within the maximal
  delay, and a closed one has neither.\<close>

theorem terminal_keeps_retrying:
  assumes "ao_backoff ops \<le> ao_maxBackoff ops"
  shows "let c = attach_run ops es (connect (new_client ops run cols rows)) in
    (if ac_closed c then ac_ws c = None \<and> ac_timer c = None
     else ac_ws c \<noteq> None \<or> (\<exists>d. ac_timer c = Some d \<and> d \<le> ao_maxBackoff ops))"
proof -
  have "retry_ok ops (fold (\<lambda>(e, send). attach_step ops send e) es c)" if "retry_ok ops c" for c
    using that by (induction es arbitrary: c) (auto simp: step_retry assms)
  moreover have "retry_ok ops (connect (new_client ops run cols rows))"
    using assms by (simp add: retry_ok_def connect_def new_client_def)
  ultimately have "retry_ok ops (attach_run ops es (connect (new_client ops run cols rows)))"
    unfolding attach_run_def by blast
  then show ?thesis by (auto simp: Let_def retry_ok_def)
qed

theorem terminal_keeps_retrying_witness:
  "let c = attach_run default_opts [(AeOpen, \<lambda>_. True), (AeSocketClose, \<lambda>_. True)] (connect (new_client default_opts ''r'' 80 24)) in
    (if ac_closed c then ac_ws c = None \<and> ac_timer c = None
     else ac_ws c \<noteq> None \<or> (\<exists>d. ac_timer c = Some d \<and> d \<le> ao_maxBackoff default_opts))"
  by (rule terminal_keeps_retrying) (simp add: default_opts_def)

section \<open>Re-attaching to the Durable Object\<close>

text \<open>Output produced while a terminal was away is lost.  The Durable Object answers an attach with a grid at
  offset 0 and one frame with the whole journal at offset 0; a client that has already applied something
  drops both, and takes the next live frame from the end of the journal: the bytes between the offset it
  had applied and the end of the journal are never shown.\<close>

theorem reconnect_loses_output:
  assumes "ac_sawGrid c" "0 < ac_applied c" "ac_applied c < length (readJournal j run)"
  shows "fold onMessage (attach_reply j run cols rows) c = c
    \<and> (let c' = fold onMessage (attach_reply j run cols rows @ [DoFrame run (length (readJournal j run)) bs]) c in
         spans (ac_handled c') = spans (ac_handled c) @ [(length (readJournal j run), length (readJournal j run) + length bs)]
         \<and> ac_applied c' = length (readJournal j run) + length bs)"
proof -
  have "readJournal j run \<noteq> []" using assms(3) by auto
  then show ?thesis using assms by (simp add: attach_reply_def onMessage_def Let_def handle_def)
qed

definition demo_journal :: journal where
  "demo_journal = empty_journal\<lparr>j_rows := [\<lparr>sg_run = ''r'', sg_seq = 0, sg_start = 0, sg_bytes = [1, 2, 3]\<rparr>]\<rparr>"

theorem reconnect_loses_output_witness:
  "fold onMessage (attach_reply demo_journal ''r'' 80 24) (demo_pane\<lparr>ac_applied := 1\<rparr>) = demo_pane\<lparr>ac_applied := 1\<rparr>"
  using reconnect_loses_output [of "demo_pane\<lparr>ac_applied := 1\<rparr>" demo_journal "''r''" 80 24]
  by (simp add: demo_pane_def demo_journal_def readJournal_def run_rows_def empty_journal_def)

end
