(* ===== verification/Events.thy ===== *)
theory Events
  imports RunTable Validate "HOL-Library.List_Lexorder" "HOL-Library.Char_ord" "HOL-Library.Product_Lexorder"
begin

text \<open>
  Live events from a computer to the browser: what a Durable Object publishes
  (\<^verbatim>\<open>control-plane/src/computer-do.ts\<close> \<open>#emit\<close>), the hub that rebuilds and fans it out
  (\<^verbatim>\<open>control-plane/src/events-do.ts\<close>), the parser of the browser (\<^verbatim>\<open>web/src/events/protocol.ts\<close>),
  the reducer (\<^verbatim>\<open>web/src/events/reducer.ts\<close>), the client's run states and the merge of the live model
  with the polled list (\<^verbatim>\<open>web/src/runs/state.ts\<close>, \<^verbatim>\<open>web/src/runs/merge.ts\<close>).

  Numbers that cross JSON are rationals.  \<^verbatim>\<open>JSON.parse\<close> of \<^verbatim>\<open>JSON.stringify\<close> of an event is the
  object \<open>event_js\<close>; objects keyed by strings are association lists in insertion order.
\<close>

section \<open>The client's run states\<close>

text \<open>\<^verbatim>\<open>RunState\<close> of the client is \<open>client_state\<close>.\<close>

datatype run_transition =
    TrAccepted | TrStarted | TrStopRequested | TrCompleted "rat option option" | TrFailed

definition isTerminal :: "client_state \<Rightarrow> bool" where
  "isTerminal s \<longleftrightarrow> s \<in> {CExited, CFailed}"

definition isActive :: "client_state \<Rightarrow> bool" where
  "isActive s \<longleftrightarrow> s \<in> {CPending, CRunning, CStopping}"

definition nextRunState :: "client_state \<Rightarrow> run_transition \<Rightarrow> client_state" where
  "nextRunState s tr =
     (if isTerminal s then s
      else case tr of
             TrCompleted _ \<Rightarrow> CExited
           | TrFailed \<Rightarrow> CFailed
           | TrStopRequested \<Rightarrow> CStopping
           | TrStarted \<Rightarrow> if s = CStopping then CStopping else CRunning
           | TrAccepted \<Rightarrow> if s = CPending then CPending else s)"

fun RANK :: "client_state \<Rightarrow> nat" where
  "RANK CPending = 0"
| "RANK CRunning = 1"
| "RANK CStopping = 2"
| "RANK CExited = 3"
| "RANK CFailed = 3"

definition mergeRunState :: "client_state \<Rightarrow> client_state \<Rightarrow> client_state" where
  "mergeRunState a b = (if RANK a \<ge> RANK b then a else b)"

definition hasReviewableResult :: "client_state \<Rightarrow> diff_summary option \<Rightarrow> bool" where
  "hasReviewableResult s d =
     (if s \<noteq> CExited then False
      else case d of None \<Rightarrow> False | Some x \<Rightarrow> ds_added x + ds_modified x + ds_removed x > 0)"

lemma not_active: "\<not> isActive s \<longleftrightarrow> isTerminal s"
  by (cases s) (simp_all add: isActive_def isTerminal_def)

lemma terminal_absorbs: "isTerminal a \<Longrightarrow> mergeRunState a b = a"
  by (cases a; cases b) (simp_all add: isTerminal_def mergeRunState_def)

lemma merge_terminal: "isTerminal (mergeRunState a b) \<longleftrightarrow> isTerminal a \<or> isTerminal b"
  by (cases a; cases b) (simp_all add: isTerminal_def mergeRunState_def)

lemma merge_assoc: "mergeRunState (mergeRunState a b) c = mergeRunState a (mergeRunState b c)"
  by (cases a; cases b; cases c) (simp_all add: mergeRunState_def)

lemma merge_idem: "mergeRunState a a = a"
  by (simp add: mergeRunState_def)

section \<open>What a computer publishes\<close>

text \<open>\<^verbatim>\<open>FleetEvent\<close>: optional fields are options; a missing exit code and a null one differ.\<close>

datatype fleet_event =
    FAttention (fe_computer: string) (fe_run: run_id) (fe_waiting: bool) (fe_kind: "string option")
      (fe_at: "rat option") (fe_seq: "rat option")
  | FRun (fe_computer: string) (fe_run: run_id) (fe_state: client_state) (fe_exit: "rat option option")
      (fe_at: "rat option") (fe_seq: "rat option")
  | FState (fe_computer: string) (fe_word: string) (fe_at: "rat option") (fe_seq: "rat option")

fun kind_word :: "attention_kind \<Rightarrow> string" where
  "kind_word AkBell = ''bell''"
| "kind_word AkOsc = ''osc''"
| "kind_word AkBlockedRead = ''blocked_read''"
| "kind_word AkInterrupted = ''interrupted''"

fun run_word :: "client_state \<Rightarrow> string" where
  "run_word CPending = ''pending''"
| "run_word CRunning = ''running''"
| "run_word CStopping = ''stopping''"
| "run_word CExited = ''exited''"
| "run_word CFailed = ''failed''"

fun computer_word :: "computer_state \<Rightarrow> string" where
  "computer_word StAwake = ''awake''"
| "computer_word StWarm = ''warm''"
| "computer_word StCold = ''cold''"
| "computer_word StWaking = ''waking''"

text \<open>\<open>#emit\<close>: the computer is stamped on the event, and the clock where the event has no time.\<close>

definition emit_payload :: "string \<Rightarrow> time \<Rightarrow> do_event \<Rightarrow> fleet_event" where
  "emit_payload computer now ev =
     (case ev of
        EvAttention run kind t \<Rightarrow> FAttention computer run True (Some (kind_word kind)) (Some (of_int t)) None
      | EvCleared run \<Rightarrow> FAttention computer run False None (Some (of_int now)) None
      | EvRun run s ec \<Rightarrow> FRun computer run s (map_option (map_option of_int) ec) (Some (of_int now)) None
      | EvState s \<Rightarrow> FState computer (computer_word s) (Some (of_int now)) None)"

section \<open>JSON\<close>

definition js_str :: "js \<Rightarrow> string option" where
  "js_str v = (case v of JStr s \<Rightarrow> if s \<noteq> '''' then Some s else None | _ \<Rightarrow> None)"

text \<open>\<^verbatim>\<open>v.k\<close>, where reading a field of a value that is no object gives \<^verbatim>\<open>undefined\<close>.\<close>

definition field_of :: "js \<Rightarrow> string \<Rightarrow> js" where
  "field_of v k = (case v of JObj h \<Rightarrow> get h k | _ \<Rightarrow> JUndef)"

definition opt_field :: "string \<Rightarrow> js option \<Rightarrow> holder" where
  "opt_field k v = (case v of None \<Rightarrow> [] | Some x \<Rightarrow> [(k, x)])"

definition null_or_num :: "rat option \<Rightarrow> js" where
  "null_or_num v = (case v of None \<Rightarrow> JNull | Some q \<Rightarrow> num_js q)"

fun event_js :: "fleet_event \<Rightarrow> js" where
  "event_js (FAttention c r w k a q) =
     JObj ([(''type'', JStr ''attention'')] @ opt_field ''seq'' (map_option num_js q) @ opt_field ''at'' (map_option num_js a)
           @ [(''computer'', JStr c), (''runId'', JStr r), (''state'', JStr (if w then ''waiting'' else ''cleared''))]
           @ opt_field ''kind'' (map_option JStr k))"
| "event_js (FRun c r s ec a q) =
     JObj ([(''type'', JStr ''run'')] @ opt_field ''seq'' (map_option num_js q) @ opt_field ''at'' (map_option num_js a)
           @ [(''computer'', JStr c), (''runId'', JStr r), (''state'', JStr (run_word s))]
           @ opt_field ''exitCode'' (map_option null_or_num ec))"
| "event_js (FState c w a q) =
     JObj ([(''type'', JStr ''state'')] @ opt_field ''seq'' (map_option num_js q) @ opt_field ''at'' (map_option num_js a)
           @ [(''computer'', JStr c), (''state'', JStr w)])"

lemma js_str_num [simp]: "js_str (num_js q) = None"
  by (simp add: num_js_def js_str_def)

lemma num_js_neq [simp]: "num_js q \<noteq> JNull" "JNull \<noteq> num_js q"
  by (simp_all add: num_js_def)

lemma js_str_JStr [simp]: "js_str (JStr s) = (if s \<noteq> '''' then Some s else None)"
  by (simp add: js_str_def)

lemma js_none [simp]: "js_str JUndef = None" "js_num JUndef = None" "js_str JNull = None" "js_num JNull = None"
  "js_num (JStr s) = None"
  by (simp_all add: js_str_def js_num_def)

section \<open>The hub\<close>

text \<open>The run states a published event may name, by their words; the reading is shared by the hub and the browser.\<close>

definition RUN_STATES :: "(string \<times> client_state) list" where
  "RUN_STATES = [(''pending'', CPending), (''running'', CRunning), (''stopping'', CStopping),
                 (''exited'', CExited), (''failed'', CFailed)]"

definition exit_field :: "js \<Rightarrow> rat option option" where
  "exit_field v = (if v = JNull then Some None else map_option Some (js_num v))"

definition sanitizeEvent :: "js \<Rightarrow> rat \<Rightarrow> rat \<Rightarrow> fleet_event option" where
  "sanitizeEvent e seq now =
     (case js_str (field_of e ''computer'') of
        None \<Rightarrow> None
      | Some c \<Rightarrow>
          let t = (case js_num (field_of e ''at'') of Some q \<Rightarrow> q | None \<Rightarrow> now);
              ty = field_of e ''type''
          in if ty = JStr ''attention'' then
               (case js_str (field_of e ''runId'') of
                  None \<Rightarrow> None
                | Some r \<Rightarrow>
                    let s = field_of e ''state''
                    in if s \<noteq> JStr ''waiting'' \<and> s \<noteq> JStr ''cleared'' then None
                       else Some (FAttention c r (s = JStr ''waiting'') (js_str (field_of e ''kind'')) (Some t) (Some seq)))
             else if ty = JStr ''run'' then
               (case js_str (field_of e ''runId'') of
                  None \<Rightarrow> None
                | Some r \<Rightarrow>
                    (case field_of e ''state'' of
                       JStr w \<Rightarrow>
                         (case map_of RUN_STATES w of
                            None \<Rightarrow> None
                          | Some s \<Rightarrow> Some (FRun c r s (exit_field (field_of e ''exitCode'')) (Some t) (Some seq)))
                     | _ \<Rightarrow> None))
             else if ty = JStr ''state'' then
               (case js_str (field_of e ''state'') of
                  None \<Rightarrow> None
                | Some w \<Rightarrow> Some (FState c w (Some t) (Some seq)))
             else None)"

text \<open>A record on the stream: the comment sent on connect, or the type and the decoded data of an event.\<close>

datatype sse_record = SseReady | SseEvent string js

fun event_type :: "fleet_event \<Rightarrow> string" where
  "event_type (FAttention _ _ _ _ _ _) = ''attention''"
| "event_type (FRun _ _ _ _ _ _) = ''run''"
| "event_type (FState _ _ _ _) = ''state''"

definition sseRecord :: "fleet_event \<Rightarrow> sse_record" where
  "sseRecord e = SseEvent (event_type e) (event_js e)"

definition MAX_INFLIGHT :: nat where "MAX_INFLIGHT = 128"

record subscriber =
  sb_id :: nat
  sb_inflight :: nat
  sb_log :: "sse_record list"

record hub =
  hb_subs :: "subscriber list"
  hb_seq :: int
  hb_next :: nat

definition new_hub :: "time \<Rightarrow> hub" where
  "new_hub now = \<lparr>hb_subs = [], hb_seq = now, hb_next = 0\<rparr>"

definition drop_sub :: "nat \<Rightarrow> hub \<Rightarrow> hub" where
  "drop_sub i h = h\<lparr>hb_subs := filter (\<lambda>b. sb_id b \<noteq> i) (hb_subs h)\<rparr>"

text \<open>A write that is handed to the stream of a subscriber.\<close>

definition queued :: "sse_record \<Rightarrow> subscriber \<Rightarrow> subscriber" where
  "queued r b = b\<lparr>sb_inflight := Suc (sb_inflight b), sb_log := sb_log b @ [r]\<rparr>"

definition write_raw :: "nat \<Rightarrow> sse_record \<Rightarrow> hub \<Rightarrow> bool \<times> hub" where
  "write_raw i r h =
     (case find (\<lambda>b. sb_id b = i) (hb_subs h) of
        None \<Rightarrow> (False, h)
      | Some b \<Rightarrow>
          if sb_inflight b > MAX_INFLIGHT then (False, drop_sub i h)
          else (True, h\<lparr>hb_subs := map (\<lambda>b. if sb_id b = i then queued r b else b) (hb_subs h)\<rparr>))"

definition subscribe :: "hub \<Rightarrow> hub" where
  "subscribe h =
     (let h1 = h\<lparr>hb_subs := hb_subs h @ [\<lparr>sb_id = hb_next h, sb_inflight = 0, sb_log = []\<rparr>],
                 hb_next := Suc (hb_next h)\<rparr>
      in snd (write_raw (hb_next h) SseReady h1))"

text \<open>The body of the loop over the subscribers of one event, counting the streams it reached.\<close>

definition fan_step :: "sse_record \<Rightarrow> subscriber \<Rightarrow> nat \<times> hub \<Rightarrow> nat \<times> hub" where
  "fan_step r b = (\<lambda>(n, g). let (ok, g1) = write_raw (sb_id b) r g in (if ok then Suc n else n, g1))"

definition publish :: "time \<Rightarrow> js \<Rightarrow> hub \<Rightarrow> nat \<times> hub" where
  "publish now e h =
     (let h1 = h\<lparr>hb_seq := hb_seq h + 1\<rparr>
      in case sanitizeEvent e (of_int (hb_seq h1)) (of_int now) of
           None \<Rightarrow> (0, h1)
         | Some clean \<Rightarrow>
             fold (fan_step (sseRecord clean)) (hb_subs h1) (0, h1))"

text \<open>The promise of a write: fulfilled, or rejected, which drops the subscriber.\<close>

definition write_settled :: "nat \<Rightarrow> bool \<Rightarrow> hub \<Rightarrow> hub" where
  "write_settled i ok h =
     (if ok then h\<lparr>hb_subs := map (\<lambda>b. if sb_id b = i then b\<lparr>sb_inflight := sb_inflight b - 1\<rparr> else b) (hb_subs h)\<rparr>
      else drop_sub i h)"

section \<open>The browser's parser\<close>

datatype mari_event =
    MAttention (ev_seq: rat) (ev_at: rat) (ev_computer: string) (ev_run: run_id) (ev_waiting: bool)
      (ev_kind: "attention_kind option")
  | MRun (ev_seq: rat) (ev_at: rat) (ev_computer: string) (ev_run: run_id) (ev_state: client_state)
      (ev_exit: "rat option option")
  | MState (ev_seq: rat) (ev_at: rat) (ev_computer: string) (ev_computer_state: computer_state)

definition COMPUTER_STATES :: "(string \<times> computer_state) list" where
  "COMPUTER_STATES = [(''awake'', StAwake), (''warm'', StWarm), (''cold'', StCold), (''waking'', StWaking)]"

definition ATTENTION_KINDS :: "(string \<times> attention_kind) list" where
  "ATTENTION_KINDS = [(''bell'', AkBell), (''osc'', AkOsc), (''blocked_read'', AkBlockedRead)]"

definition opt_or :: "'a option \<Rightarrow> 'a option \<Rightarrow> 'a option" where
  "opt_or a b = (case a of None \<Rightarrow> b | Some x \<Rightarrow> Some x)"

definition opt_bind :: "'a option \<Rightarrow> ('a \<Rightarrow> 'b option) \<Rightarrow> 'b option" where
  "opt_bind a f = (case a of None \<Rightarrow> None | Some x \<Rightarrow> f x)"

definition parseMariEvent :: "js \<Rightarrow> mari_event option" where
  "parseMariEvent v =
     (if \<not> (case v of JObj _ \<Rightarrow> True | _ \<Rightarrow> False) then None
      else case (js_str (field_of v ''type''), js_num (field_of v ''seq''), js_num (field_of v ''at''),
                 js_str (field_of v ''computer'')) of
        (Some ty, Some q, Some t, Some c) \<Rightarrow>
          let run = opt_or (js_str (field_of v ''runId'')) (js_str (field_of v ''run''))
          in if ty = ''attention'' then
               opt_bind run (\<lambda>r.
                 let s = field_of v ''state''
                 in if s \<noteq> JStr ''waiting'' \<and> s \<noteq> JStr ''cleared'' then None
                    else Some (MAttention q t c r (s = JStr ''waiting'')
                                (opt_bind (js_str (field_of v ''kind'')) (map_of ATTENTION_KINDS))))
             else if ty = ''run'' then
               opt_bind run (\<lambda>r. opt_bind (js_str (field_of v ''state'')) (\<lambda>w. opt_bind (map_of RUN_STATES w) (\<lambda>s.
                 Some (MRun q t c r s (exit_field (field_of v ''exitCode''))))))
             else if ty = ''state'' then
               opt_bind (js_str (field_of v ''state'')) (\<lambda>w. opt_bind (map_of COMPUTER_STATES w) (\<lambda>s.
                 Some (MState q t c s)))
             else None
      | _ \<Rightarrow> None)"

section \<open>The reducer\<close>

record live_run =
  lr_runId :: run_id
  lr_computer :: string
  lr_state :: client_state
  lr_exitCode :: "rat option"
  lr_at :: rat

record live_attention =
  la_computer :: string
  la_runId :: run_id
  la_kind :: "attention_kind option"
  la_at :: rat

record events_model =
  em_states :: "(string \<times> computer_state) list"
  em_runs :: "(string \<times> live_run) list"
  em_attention :: "(string \<times> live_attention) list"
  em_applied :: "(string \<times> rat) list"
  em_applies :: nat

definition initialEventsModel :: events_model where
  "initialEventsModel = \<lparr>em_states = [], em_runs = [], em_attention = [], em_applied = [], em_applies = 0\<rparr>"

definition runKey :: "string \<Rightarrow> run_id \<Rightarrow> string" where
  "runKey computer run = computer @ ''/'' @ run"

fun eventKey :: "mari_event \<Rightarrow> string" where
  "eventKey (MState _ _ c _) = ''state:'' @ c"
| "eventKey (MRun _ _ c r _ _) = ''run:'' @ c @ ''/'' @ r"
| "eventKey (MAttention _ _ c r _ _) = ''attn:'' @ c @ ''/'' @ r"

text \<open>\<open>advance\<close> is \<^verbatim>\<open>{ ...model, applied, applies }\<close>, common to the three cases.\<close>

definition advance :: "mari_event \<Rightarrow> events_model \<Rightarrow> events_model" where
  "advance e m = m\<lparr>em_applied := AList.update (eventKey e) (ev_seq e) (em_applied m), em_applies := em_applies m + 1\<rparr>"

definition stale :: "events_model \<Rightarrow> mari_event \<Rightarrow> bool" where
  "stale m e \<longleftrightarrow> (case map_of (em_applied m) (eventKey e) of None \<Rightarrow> False | Some seen \<Rightarrow> ev_seq e \<le> seen)"

fun apply_fresh :: "events_model \<Rightarrow> mari_event \<Rightarrow> events_model" where
  "apply_fresh m (MState q t c s) = (advance (MState q t c s) m)\<lparr>em_states := AList.update c s (em_states m)\<rparr>"
| "apply_fresh m (MRun q t c r s ec) =
     (let k = runKey c r;
          prev = map_of (em_runs m) k;
          state = (case prev of None \<Rightarrow> s | Some p \<Rightarrow> mergeRunState (lr_state p) s);
          exitCode = (case ec of Some x \<Rightarrow> x | None \<Rightarrow> (case prev of None \<Rightarrow> None | Some p \<Rightarrow> lr_exitCode p));
          run = \<lparr>lr_runId = r, lr_computer = c, lr_state = state, lr_exitCode = exitCode, lr_at = t\<rparr>;
          next = (advance (MRun q t c r s ec) m)\<lparr>em_runs := AList.update k run (em_runs m)\<rparr>
      in if \<not> isActive state \<and> map_of (em_attention next) k \<noteq> None
         then next\<lparr>em_attention := AList.delete k (em_attention next)\<rparr> else next)"
| "apply_fresh m (MAttention q t c r w kind) =
     (let k = runKey c r; m1 = advance (MAttention q t c r w kind) m
      in if \<not> w then
           (if map_of (em_attention m) k = None then m1
            else m1\<lparr>em_attention := AList.delete k (em_attention m)\<rparr>)
         else m1\<lparr>em_attention := AList.update k \<lparr>la_computer = c, la_runId = r, la_kind = kind, la_at = t\<rparr> (em_attention m)\<rparr>)"

definition applyEvent :: "events_model \<Rightarrow> mari_event \<Rightarrow> events_model" where
  "applyEvent m e = (if stale m e then m else apply_fresh m e)"

definition applyEvents :: "events_model \<Rightarrow> mari_event list \<Rightarrow> events_model" where
  "applyEvents m es = foldl applyEvent m es"

section \<open>Selectors\<close>

definition liveState :: "events_model \<Rightarrow> string \<Rightarrow> computer_state option" where
  "liveState m c = map_of (em_states m) c"

text \<open>Oldest first, ties by the run id; the runs of one computer are distinct.\<close>

definition attentionFor :: "events_model \<Rightarrow> string \<Rightarrow> live_attention list" where
  "attentionFor m c = sort_key (\<lambda>a. (la_at a, la_runId a)) (filter (\<lambda>a. la_computer a = c) (map snd (em_attention m)))"

definition liveActiveRuns :: "events_model \<Rightarrow> string \<Rightarrow> nat" where
  "liveActiveRuns m c = length (filter (\<lambda>r. lr_computer r = c \<and> isActive (lr_state r)) (map snd (em_runs m)))"

definition liveRun :: "events_model \<Rightarrow> string \<Rightarrow> run_id \<Rightarrow> live_run option" where
  "liveRun m c r = map_of (em_runs m) (runKey c r)"

definition badgeCount :: "nat \<Rightarrow> nat \<Rightarrow> nat" where
  "badgeCount server live = max server live"

section \<open>The merged list of runs\<close>

record run_summary =
  rs_id :: run_id
  rs_state :: client_state
  rs_argv :: "string list"
  rs_cwd :: "string option"
  rs_exitCode :: "rat option"
  rs_attention :: bool
  rs_startedAt :: rat
  rs_endedAt :: "rat option"
  rs_diff :: "diff_summary option"
  rs_review :: run_disposition

record run_list_row = run_summary +
  rs_liveOnly :: bool

definition rowFromSummary :: "run_summary \<Rightarrow> run_list_row" where
  "rowFromSummary s = run_summary.extend s \<lparr>rs_liveOnly = False\<rparr>"

definition merge_live :: "string \<Rightarrow> live_run \<Rightarrow> (run_id \<times> run_list_row) list \<Rightarrow> (run_id \<times> run_list_row) list" where
  "merge_live computer run rows =
     (if lr_computer run \<noteq> computer then rows
      else case map_of rows (lr_runId run) of
        None \<Rightarrow> AList.update (lr_runId run)
          \<lparr>rs_id = lr_runId run, rs_state = lr_state run, rs_argv = [], rs_cwd = None, rs_exitCode = lr_exitCode run,
           rs_attention = False, rs_startedAt = lr_at run,
           rs_endedAt = (if isActive (lr_state run) then None else Some (lr_at run)), rs_diff = None,
           rs_review = DPending, rs_liveOnly = True\<rparr> rows
      | Some existing \<Rightarrow>
          let e1 = existing\<lparr>rs_state := mergeRunState (rs_state existing) (lr_state run)\<rparr>;
              e2 = (if lr_exitCode run \<noteq> None then e1\<lparr>rs_exitCode := lr_exitCode run\<rparr> else e1);
              e3 = (if \<not> isActive (rs_state e2) \<and> rs_endedAt e2 = None then e2\<lparr>rs_endedAt := Some (lr_at run)\<rparr> else e2)
          in AList.update (lr_runId run) e3 rows)"

definition merge_attention :: "string \<Rightarrow> live_attention \<Rightarrow> (run_id \<times> run_list_row) list \<Rightarrow> (run_id \<times> run_list_row) list" where
  "merge_attention computer a rows =
     (if la_computer a \<noteq> computer then rows
      else case map_of rows (la_runId a) of
        None \<Rightarrow> rows
      | Some row \<Rightarrow> AList.update (la_runId a) (row\<lparr>rs_attention := True\<rparr>) rows)"

definition mergeRuns :: "string \<Rightarrow> run_summary list \<Rightarrow> events_model \<Rightarrow> run_list_row list" where
  "mergeRuns computer rest live =
     (let rows0 = fold (\<lambda>s. AList.update (rs_id s) (rowFromSummary s)) rest [];
          rows1 = fold (merge_live computer) (map snd (em_runs live)) rows0;
          rows2 = fold (merge_attention computer) (map snd (em_attention live)) rows1
      in rev (sort_key (\<lambda>r. (rs_startedAt r, rs_id r)) (map snd rows2)))"

definition activeRows :: "run_list_row list \<Rightarrow> run_list_row list" where
  "activeRows rows = filter (\<lambda>r. isActive (rs_state r)) rows"

definition newestRow :: "run_list_row list \<Rightarrow> (run_list_row \<Rightarrow> bool) \<Rightarrow> run_list_row option" where
  "newestRow rows p = find p rows"

section \<open>From the computer to the browser\<close>

text \<open>What the browser makes of an event of a computer: the attention kind survives unless it is \<open>interrupted\<close>.\<close>

definition shown_kind :: "attention_kind \<Rightarrow> attention_kind option" where
  "shown_kind k = (if k = AkInterrupted then None else Some k)"

definition arrives_as :: "string \<Rightarrow> time \<Rightarrow> rat \<Rightarrow> do_event \<Rightarrow> mari_event" where
  "arrives_as c now q ev =
     (case ev of
        EvAttention run kind t \<Rightarrow> MAttention q (of_int t) c run True (shown_kind kind)
      | EvCleared run \<Rightarrow> MAttention q (of_int now) c run False None
      | EvRun run s ec \<Rightarrow> MRun q (of_int now) c run s (map_option (map_option of_int) ec)
      | EvState s \<Rightarrow> MState q (of_int now) c s)"

fun event_run :: "do_event \<Rightarrow> run_id option" where
  "event_run (EvAttention run _ _) = Some run"
| "event_run (EvCleared run) = Some run"
| "event_run (EvRun run _ _) = Some run"
| "event_run (EvState _) = None"

text \<open>What one stream delivers to the browser, from the value handed to the hub on.\<close>

definition through_hub :: "rat \<Rightarrow> time \<Rightarrow> js \<Rightarrow> mari_event option" where
  "through_hub q now v = opt_bind (sanitizeEvent v q (of_int now)) (\<lambda>f. parseMariEvent (event_js f))"

lemma exit_field_null [simp]: "exit_field (null_or_num v) = Some v"
  by (cases v) (simp_all add: exit_field_def null_or_num_def)

lemma exit_field_undef [simp]: "exit_field JUndef = None"
  by (simp add: exit_field_def)

lemma field_of_obj [simp]: "field_of (JObj h) k = get h k"
  by (simp add: field_of_def)

lemma get_steps [simp]:
  "get [] k = JUndef"
  "get ((j, v) # h) k = (if j = k then v else get h k)"
  "get (opt_field j None @ h) k = get h k" "get (opt_field j (Some x) @ h) k = (if j = k then x else get h k)"
  "get (opt_field j None) k = JUndef" "get (opt_field j (Some x)) k = (if j = k then x else JUndef)"
  by (auto simp: get_def opt_field_def)

lemma run_word_known [simp]: "map_of RUN_STATES (run_word s) = Some s" "run_word s \<noteq> []"
  by (cases s; simp add: RUN_STATES_def)+

lemma computer_word_known [simp]: "map_of COMPUTER_STATES (computer_word s) = Some s" "computer_word s \<noteq> []"
  by (cases s; simp add: COMPUTER_STATES_def)+

lemma kind_word_shown [simp]: "map_of ATTENTION_KINDS (kind_word k) = shown_kind k" "kind_word k \<noteq> []"
  by (cases k; simp add: ATTENTION_KINDS_def shown_kind_def)+

lemma opt_simps [simp]:
  "opt_bind (Some x) f = f x" "opt_bind None f = None" "opt_or (Some x) y = Some x" "opt_or None y = y"
  by (simp_all add: opt_bind_def opt_or_def)

lemma get_opt [simp]:
  "get (opt_field j v @ h) k = (case v of None \<Rightarrow> get h k | Some x \<Rightarrow> if j = k then x else get h k)"
  "get (opt_field j v) k = (case v of None \<Rightarrow> JUndef | Some x \<Rightarrow> if j = k then x else JUndef)"
  by (simp_all split: option.split)

lemma sanitize_attention:
  assumes "c \<noteq> ''''" "r \<noteq> ''''" "k \<noteq> Some ''''"
  shows "sanitizeEvent (event_js (FAttention c r w k (Some a) q0)) q now = Some (FAttention c r w k (Some a) (Some q))"
  using assms by (cases q0; cases k; simp add: sanitizeEvent_def)

lemma sanitize_run:
  assumes "c \<noteq> ''''" "r \<noteq> ''''"
  shows "sanitizeEvent (event_js (FRun c r s ec (Some a) q0)) q now = Some (FRun c r s ec (Some a) (Some q))"
  using assms by (cases q0; cases ec; simp add: sanitizeEvent_def)

lemma sanitize_state:
  assumes "c \<noteq> ''''" "w \<noteq> ''''"
  shows "sanitizeEvent (event_js (FState c w (Some a) q0)) q now = Some (FState c w (Some a) (Some q))"
  using assms by (cases q0; simp add: sanitizeEvent_def)

lemma parse_attention:
  assumes "c \<noteq> ''''" "r \<noteq> ''''" "k \<noteq> Some ''''"
  shows "parseMariEvent (event_js (FAttention c r w k (Some a) (Some q)))
    = Some (MAttention q a c r w (opt_bind k (map_of ATTENTION_KINDS)))"
  using assms by (cases k; simp add: parseMariEvent_def)

lemma parse_run:
  assumes "c \<noteq> ''''" "r \<noteq> ''''"
  shows "parseMariEvent (event_js (FRun c r s ec (Some a) (Some q))) = Some (MRun q a c r s ec)"
  using assms by (cases ec; simp add: parseMariEvent_def)

lemma parse_state:
  assumes "c \<noteq> ''''"
  shows "parseMariEvent (event_js (FState c (computer_word s) (Some a) (Some q))) = Some (MState q a c s)"
  using assms by (simp add: parseMariEvent_def)

lemmas arrival_simps = sanitize_attention sanitize_run sanitize_state parse_attention parse_run parse_state

text \<open>An event of a computer arrives.  Whatever a Durable Object emits for a named computer and run is
  accepted by the hub, and the browser parses what the hub streams back into the same event: type, computer,
  run, state, exit code and time, under the hub's sequence number.  Only the attention kind \<open>interrupted\<close>
  is lost, since the parser's list of kinds does not have it.\<close>

theorem emitted_event_arrives:
  assumes "c \<noteq> ''''" "\<And>r. event_run ev = Some r \<Longrightarrow> r \<noteq> ''''"
  shows "through_hub q later (event_js (emit_payload c now ev)) = Some (arrives_as c now q ev)"
  using assms
  by (cases ev; simp add: emit_payload_def through_hub_def arrives_as_def arrival_simps del: event_js.simps)

theorem emitted_event_arrives_witness:
  "through_hub 8 9 (event_js (emit_payload ''c1'' 5 (EvAttention ''r1'' AkInterrupted 4)))
     = Some (MAttention 8 4 ''c1'' ''r1'' True None)"
  using emitted_event_arrives [of "''c1''" "EvAttention ''r1'' AkInterrupted 4" 8 9 5]
  by (simp add: arrives_as_def shown_kind_def)

section \<open>The hub fans out\<close>

definition hub_ok :: "hub \<Rightarrow> bool" where
  "hub_ok h \<longleftrightarrow> distinct (map sb_id (hb_subs h)) \<and> (\<forall>b\<in>set (hb_subs h). sb_id b < hb_next h)"

definition keeps_up :: "subscriber \<Rightarrow> bool" where
  "keeps_up b \<longleftrightarrow> sb_inflight b \<le> MAX_INFLIGHT"

lemma queued_id [simp]: "sb_id (queued r b) = sb_id b"
  by (simp add: queued_def)

lemma find_unique:
  assumes "distinct (map f (xs @ b # ys))"
  shows "find (\<lambda>x. f x = f b) (xs @ b # ys) = Some b"
  using assms by (induction xs) auto

lemma map_unique:
  assumes "distinct (map f (xs @ b # ys))"
  shows "map (\<lambda>x. if f x = f b then g x else x) (xs @ b # ys) = xs @ g b # ys"
proof -
  have "\<forall>x\<in>set xs \<union> set ys. f x \<noteq> f b" using assms by (auto simp: rev_image_eqI)
  then show ?thesis by (simp add: map_idI)
qed

lemma filter_unique:
  assumes "distinct (map f (xs @ b # ys))"
  shows "filter (\<lambda>x. f x \<noteq> f b) (xs @ b # ys) = xs @ ys"
proof -
  have "\<forall>x\<in>set xs \<union> set ys. f x \<noteq> f b" using assms by (auto simp: rev_image_eqI)
  then show ?thesis by simp
qed

lemma fan_one:
  assumes "distinct (map sb_id (xs @ b # ys))"
  shows "fan_step r b (n, h\<lparr>hb_subs := xs @ b # ys\<rparr>)
    = (if keeps_up b then (Suc n, h\<lparr>hb_subs := xs @ queued r b # ys\<rparr>) else (n, h\<lparr>hb_subs := xs @ ys\<rparr>))"
  using find_unique [OF assms] filter_unique [OF assms] map_unique [OF assms, of "queued r"]
  by (simp add: fan_step_def write_raw_def keeps_up_def drop_sub_def)

lemma fan_all:
  assumes "distinct (map sb_id (xs @ bs))"
  shows "fold (fan_step r) bs (n, h\<lparr>hb_subs := xs @ bs\<rparr>)
    = (n + length (filter keeps_up bs), h\<lparr>hb_subs := xs @ map (queued r) (filter keeps_up bs)\<rparr>)"
  using assms
proof (induction bs arbitrary: xs n)
  case (Cons b bs)
  have one: "fan_step r b (n, h\<lparr>hb_subs := xs @ b # bs\<rparr>)
      = (if keeps_up b then (Suc n, h\<lparr>hb_subs := (xs @ [queued r b]) @ bs\<rparr>) else (n, h\<lparr>hb_subs := xs @ bs\<rparr>))"
    using fan_one [OF Cons.prems] by simp
  have d: "distinct (map sb_id ((xs @ [queued r b]) @ bs))" "distinct (map sb_id (xs @ bs))"
    using Cons.prems by auto
  show ?case
    using Cons.IH [OF d(1), of "Suc n"] Cons.IH [OF d(2), of n] one by (cases "keeps_up b") simp_all
qed simp

lemma publish_spec:
  assumes "hub_ok h" "sanitizeEvent e (of_int (hb_seq h + 1)) (of_int now) = Some f"
  shows "publish now e h = (length (filter keeps_up (hb_subs h)),
     h\<lparr>hb_seq := hb_seq h + 1, hb_subs := map (queued (sseRecord f)) (filter keeps_up (hb_subs h))\<rparr>)"
proof -
  have d: "distinct (map sb_id ([] @ hb_subs h))" using assms(1) by (simp add: hub_ok_def)
  show ?thesis
    using fan_all [OF d, of "sseRecord f" 0 "h\<lparr>hb_seq := hb_seq h + 1\<rparr>"] assms(2) by (simp add: publish_def)
qed

lemma publish_none:
  assumes "sanitizeEvent e (of_int (hb_seq h + 1)) (of_int now) = None"
  shows "publish now e h = (0, h\<lparr>hb_seq := hb_seq h + 1\<rparr>)"
  using assms by (simp add: publish_def)

text \<open>The hub as a machine: \<open>stream_ok\<close> is what every open stream satisfies.\<close>

datatype hub_op = HubSubscribe | HubPublish time js | HubSettled nat bool | HubAbort nat

fun hub_step :: "hub_op \<Rightarrow> hub \<Rightarrow> hub" where
  "hub_step HubSubscribe h = subscribe h"
| "hub_step (HubPublish now e) h = snd (publish now e h)"
| "hub_step (HubSettled i ok) h = write_settled i ok h"
| "hub_step (HubAbort i) h = drop_sub i h"

definition record_seq :: "sse_record \<Rightarrow> rat option" where
  "record_seq r = (case r of SseReady \<Rightarrow> None | SseEvent _ v \<Rightarrow> js_num (field_of v ''seq''))"

definition log_seqs :: "sse_record list \<Rightarrow> rat list" where
  "log_seqs rs = List.map_filter record_seq rs"

definition stream_ok :: "int \<Rightarrow> subscriber \<Rightarrow> bool" where
  "stream_ok q b \<longleftrightarrow> sb_inflight b \<le> MAX_INFLIGHT + 1 \<and> sorted_wrt (<) (log_seqs (sb_log b))
     \<and> list_all (\<lambda>x. x \<le> of_int q) (log_seqs (sb_log b))"

definition hub_inv :: "hub \<Rightarrow> bool" where
  "hub_inv h \<longleftrightarrow> hub_ok h \<and> list_all (stream_ok (hb_seq h)) (hb_subs h)"

lemma log_seqs_snoc [simp]:
  "log_seqs (rs @ [r]) = log_seqs rs @ (case record_seq r of None \<Rightarrow> [] | Some q \<Rightarrow> [q])"
  by (simp add: log_seqs_def map_filter_def split: option.split)

lemma log_seqs_Nil [simp]: "log_seqs [] = []"
  by (simp add: log_seqs_def map_filter_def)

lemma stream_ok_mono: "stream_ok q b \<Longrightarrow> q \<le> q' \<Longrightarrow> stream_ok q' b"
  by (auto simp: stream_ok_def list_all_iff intro: order_trans)

lemma sanitized_seq: "sanitizeEvent e q now = Some f \<Longrightarrow> record_seq (sseRecord f) = Some q"
  by (auto simp: sanitizeEvent_def Let_def record_seq_def sseRecord_def split: option.splits if_splits js.splits)

lemma queued_stream_ok:
  assumes "stream_ok q b" "keeps_up b" "record_seq r = Some (of_int (q + 1))"
  shows "stream_ok (q + 1) (queued r b)"
proof -
  have le: "x \<le> of_int q" if "x \<in> set (log_seqs (sb_log b))" for x
    using assms(1) that by (simp add: stream_ok_def list_all_iff)
  have s: "sorted_wrt (<) (log_seqs (sb_log b))" using assms(1) by (simp add: stream_ok_def)
  show ?thesis
    using assms(2) s by (auto simp: stream_ok_def queued_def keeps_up_def assms(3) sorted_wrt_append list_all_iff dest: le)
qed

lemma hub_ok_filter: "hub_ok h \<Longrightarrow> hub_ok (h\<lparr>hb_subs := filter P (hb_subs h)\<rparr>)"
  by (simp add: hub_ok_def distinct_map_filter)

lemma subscribe_spec:
  assumes "hub_ok h"
  shows "subscribe h = h\<lparr>hb_subs := hb_subs h @ [\<lparr>sb_id = hb_next h, sb_inflight = 1, sb_log = [SseReady]\<rparr>],
    hb_next := Suc (hb_next h)\<rparr>"
proof -
  let ?b = "\<lparr>sb_id = hb_next h, sb_inflight = 0, sb_log = []\<rparr>"
  have d: "distinct (map sb_id (hb_subs h @ ?b # []))" using assms by (auto simp: hub_ok_def)
  show ?thesis
    using find_unique [OF d] map_unique [OF d, of "queued SseReady"]
    by (simp add: subscribe_def write_raw_def MAX_INFLIGHT_def queued_def)
qed

lemma publish_keeps: assumes "hub_inv h" shows "hub_inv (snd (publish now e h))"
proof (cases "sanitizeEvent e (of_int (hb_seq h + 1)) (of_int now)")
  case None
  then show ?thesis
    using assms by (auto simp: publish_none hub_inv_def hub_ok_def list_all_iff intro: stream_ok_mono)
next
  case (Some f)
  note r = sanitized_seq [OF Some]
  have "stream_ok (hb_seq h + 1) (queued (sseRecord f) b)" if "b \<in> set (hb_subs h)" "keeps_up b" for b
    using queued_stream_ok [OF _ that(2) r] assms that(1) by (simp add: hub_inv_def list_all_iff)
  then show ?thesis
    using publish_spec [OF _ Some] assms
    by (auto simp: hub_inv_def hub_ok_def list_all_iff comp_def distinct_map_filter)
qed

lemma hub_keeps: "hub_inv h \<Longrightarrow> hub_inv (hub_step op h)"
proof (cases op)
  case HubSubscribe
  assume "hub_inv h"
  then show ?thesis
    using HubSubscribe
    by (auto simp: subscribe_spec hub_inv_def hub_ok_def list_all_iff stream_ok_def MAX_INFLIGHT_def record_seq_def
        log_seqs_snoc [of "[]", simplified])
next
  case (HubSettled i ok)
  assume "hub_inv h"
  then show ?thesis
    using HubSettled
    by (auto simp: write_settled_def drop_sub_def hub_inv_def hub_ok_def list_all_iff stream_ok_def
        distinct_map_filter comp_def if_distrib cong: if_cong)
next
  case (HubPublish now e)
  assume "hub_inv h"
  then show ?thesis using HubPublish by (simp add: publish_keeps)
qed (auto simp: drop_sub_def hub_inv_def hub_ok_def list_all_iff distinct_map_filter)

lemma hub_grows: "hub_inv h \<Longrightarrow> nat (hb_seq h) \<le> nat (hb_seq (hub_step op h))"
proof (cases op)
  case (HubPublish now e)
  assume "hub_inv h"
  then show ?thesis
    using HubPublish
    by (cases "sanitizeEvent e (of_int (hb_seq h + 1)) (of_int now)")
      (auto simp: hub_inv_def publish_spec publish_none)
qed (auto simp: subscribe_spec hub_inv_def write_settled_def drop_sub_def)

interpretation fan: guarded_machine hub_step hub_inv "\<lambda>h. nat (hb_seq h)"
  by unfold_locales (fact hub_keeps, fact hub_grows)

lemma new_hub_inv: "hub_inv (new_hub now)"
  by (simp add: hub_inv_def hub_ok_def new_hub_def)

definition hub_run :: "time \<Rightarrow> hub_op list \<Rightarrow> hub" where
  "hub_run t0 ops = fold hub_step ops (new_hub t0)"

lemma hub_run_facts:
  assumes "sanitizeEvent e (of_int (hb_seq (hub_run t0 ops) + 1)) (of_int now) = Some f"
  shows "list_all (\<lambda>b. sb_inflight b \<le> 129 \<and> sorted_wrt (<) (log_seqs (sb_log b))) (hb_subs (hub_run t0 ops))"
    and "publish now e (hub_run t0 ops) =
      (let h = hub_run t0 ops; up = filter (\<lambda>b. sb_inflight b \<le> 128) (hb_subs h)
       in (length up, h\<lparr>hb_seq := hb_seq h + 1, hb_subs := map (queued (sseRecord f)) up\<rparr>))"
proof -
  have inv: "hub_inv (hub_run t0 ops)"
    unfolding hub_run_def by (rule fan.all_kept [OF new_hub_inv])
  then show "list_all (\<lambda>b. sb_inflight b \<le> 129 \<and> sorted_wrt (<) (log_seqs (sb_log b))) (hb_subs (hub_run t0 ops))"
    by (auto simp: hub_inv_def list_all_iff stream_ok_def MAX_INFLIGHT_def)
  have k: "keeps_up = (\<lambda>b. sb_inflight b \<le> 128)"
    by (simp add: keeps_up_def fun_eq_iff MAX_INFLIGHT_def)
  show "publish now e (hub_run t0 ops) =
      (let h = hub_run t0 ops; up = filter (\<lambda>b. sb_inflight b \<le> 128) (hb_subs h)
       in (length up, h\<lparr>hb_seq := hb_seq h + 1, hb_subs := map (queued (sseRecord f)) up\<rparr>))"
    using publish_spec [OF _ assms] inv by (simp add: hub_inv_def Let_def k)
qed

text \<open>The hub fans out.  Over any subscriptions, publications, settled writes and aborts, each stream
  carries strictly increasing sequence numbers and has at most 129 writes in flight; a well-formed event
  reaches exactly the streams with at most 128 writes in flight, under the next number, and drops the others.\<close>

theorem hub_fans_out:
  assumes "sanitizeEvent e (of_int (hb_seq (hub_run t0 ops) + 1)) (of_int now) = Some f"
  shows "list_all (\<lambda>b. sb_inflight b \<le> 129 \<and> sorted_wrt (<) (log_seqs (sb_log b))) (hb_subs (hub_run t0 ops))
    \<and> publish now e (hub_run t0 ops) =
      (let h = hub_run t0 ops; up = filter (\<lambda>b. sb_inflight b \<le> 128) (hb_subs h)
       in (length up, h\<lparr>hb_seq := hb_seq h + 1, hb_subs := map (queued (sseRecord f)) up\<rparr>))"
  using hub_run_facts [OF assms] by blast

theorem hub_fans_out_witness:
  "let h = hub_run 100 [HubSubscribe, HubSubscribe]
   in fst (publish 5 (event_js (FState ''c1'' ''warm'' None None)) h) = 2
      \<and> map (\<lambda>b. log_seqs (sb_log b)) (hb_subs (snd (publish 5 (event_js (FState ''c1'' ''warm'' None None)) h))) = [[101], [101]]"
proof -
  have seq: "hb_seq (hub_run 100 [HubSubscribe, HubSubscribe]) = 100"
    and subs: "hb_subs (hub_run 100 [HubSubscribe, HubSubscribe]) =
      [\<lparr>sb_id = 0, sb_inflight = 1, sb_log = [SseReady]\<rparr>, \<lparr>sb_id = 1, sb_inflight = 1, sb_log = [SseReady]\<rparr>]"
    by (simp_all add: hub_run_def new_hub_def subscribe_def write_raw_def queued_def MAX_INFLIGHT_def)
  have s: "sanitizeEvent (event_js (FState ''c1'' ''warm'' None None)) (of_int (hb_seq (hub_run 100 [HubSubscribe, HubSubscribe]) + 1)) (of_int 5)
      = Some (FState ''c1'' ''warm'' (Some 5) (Some 101))"
    by (simp add: seq sanitizeEvent_def)
  show ?thesis
    using hub_fans_out [OF s]
    by (simp add: Let_def seq subs queued_def sseRecord_def record_seq_def log_seqs_def map_filter_def)
qed

section \<open>The reducer under replay\<close>

lemma applied_fresh [simp]: "em_applied (apply_fresh m e) = AList.update (eventKey e) (ev_seq e) (em_applied m)"
  by (cases e) (simp_all add: advance_def Let_def)

lemma stale_after: "stale (applyEvent m e) e"
  by (simp add: applyEvent_def stale_def map_of_AList_update)

lemma stale_kept: "stale m e \<Longrightarrow> stale (applyEvent m f) e"
  by (auto simp: applyEvent_def stale_def map_of_AList_update split: option.splits)

lemma applyEvents_simps [simp]:
  "applyEvents m [] = m" "applyEvents m (e # es) = applyEvents (applyEvent m e) es"
  "applyEvents m (es @ fs) = applyEvents (applyEvents m es) fs"
  by (simp_all add: applyEvents_def)

lemma stale_stays: "stale m e \<Longrightarrow> stale (applyEvents m es) e"
  by (induction es arbitrary: m) (simp_all add: stale_kept)

lemma stale_applied: "e \<in> set es \<Longrightarrow> stale (applyEvents m es) e"
  by (induction es arbitrary: m) (auto simp: stale_stays stale_after)

lemma stale_late: "stale m e \<Longrightarrow> eventKey f = eventKey e \<Longrightarrow> ev_seq f \<le> ev_seq e \<Longrightarrow> stale m f"
  by (auto simp: stale_def split: option.splits)

lemma stale_noop: "list_all (stale m) rs \<Longrightarrow> applyEvents m rs = m"
  by (induction rs) (simp_all add: applyEvent_def)

text \<open>C16: Replay is harmless.  A stream that reconnects may deliver again, in any order and any number of
  times, events it has delivered, or older events about the same entity: the model of the fleet is the one
  before the replay.\<close>

theorem replay_is_harmless:
  assumes "\<And>r. r \<in> set rs \<Longrightarrow> \<exists>e\<in>set es. eventKey r = eventKey e \<and> ev_seq r \<le> ev_seq e"
  shows "applyEvents m (es @ rs) = applyEvents m es"
proof -
  have "list_all (stale (applyEvents m es)) rs"
    using assms by (auto simp: list_all_iff intro: stale_late [OF stale_applied])
  then show ?thesis by (simp add: stale_noop)
qed

theorem replay_is_harmless_witness:
  "applyEvents initialEventsModel
     [MRun 5 1 ''c'' ''r'' CFailed None, MRun 3 1 ''c'' ''r'' CRunning None, MRun 5 1 ''c'' ''r'' CFailed None]
   = applyEvents initialEventsModel [MRun 5 1 ''c'' ''r'' CFailed None]"
  by (rule replay_is_harmless [of "[MRun 3 1 ''c'' ''r'' CRunning None, MRun 5 1 ''c'' ''r'' CFailed None]"
      "[MRun 5 1 ''c'' ''r'' CFailed None]", unfolded append.simps]) auto

section \<open>The state of one run\<close>

text \<open>What one event does to a run and its high-water mark, and what they depend on.\<close>

definition run_view :: "string \<Rightarrow> events_model \<Rightarrow> live_run option \<times> rat option" where
  "run_view k m = (map_of (em_runs m) k, map_of (em_applied m) (''run:'' @ k))"

lemma run_view_other:
  assumes "eventKey e \<noteq> ''run:'' @ k"
  shows "run_view k (applyEvent m e) = run_view k m"
  using assms by (cases e) (auto simp: applyEvent_def run_view_def advance_def Let_def map_of_AList_update runKey_def)

lemma run_view_local:
  assumes "eventKey e = ''run:'' @ k" "run_view k m = run_view k m'"
  shows "run_view k (applyEvent m e) = run_view k (applyEvent m' e)"
proof (cases e)
  case (MRun q t c r s ec)
  then show ?thesis
    using assms by (cases ec)
      (auto simp: applyEvent_def run_view_def advance_def Let_def stale_def map_of_AList_update runKey_def)
qed (use assms in simp_all)

lemma run_view_filter:
  "run_view k m = run_view k m' \<Longrightarrow>
     run_view k (applyEvents m es) = run_view k (applyEvents m' (filter (\<lambda>e. eventKey e = ''run:'' @ k) es))"
proof (induction es arbitrary: m m')
  case (Cons e es)
  show ?case
  proof (cases "eventKey e = ''run:'' @ k")
    case True
    then show ?thesis using Cons.IH [OF run_view_local [OF True Cons.prems]] by simp
  next
    case False
    then show ?thesis using Cons.IH [of "applyEvent m e" m'] run_view_other [OF False] Cons.prems by simp
  qed
qed simp

lemma terminal_step:
  assumes "map_of (em_runs m) k = Some p" "isTerminal (lr_state p)"
  shows "\<exists>p'. map_of (em_runs (applyEvent m e)) k = Some p' \<and> lr_state p' = lr_state p"
  using assms by (cases e) (auto simp: applyEvent_def advance_def Let_def map_of_AList_update terminal_absorbs)

lemma terminal_stays:
  "map_of (em_runs m) k = Some p \<Longrightarrow> isTerminal (lr_state p) \<Longrightarrow>
     \<exists>p'. map_of (em_runs (applyEvents m es)) k = Some p' \<and> lr_state p' = lr_state p"
proof (induction es arbitrary: m p)
  case (Cons e es)
  obtain p1 where p1: "map_of (em_runs (applyEvent m e)) k = Some p1" "lr_state p1 = lr_state p"
    using terminal_step [OF Cons.prems] by blast
  then show ?case using Cons.IH [OF p1(1)] Cons.prems(2) by simp
qed simp

text \<open>A run is told by its own events.  The live state of a run depends only on the events about that run,
  whatever else the stream carries and however it is interleaved, and a finished run stays finished.\<close>

theorem run_is_told_by_its_own_events:
  "liveRun (applyEvents m es) c r = liveRun (applyEvents m (filter (\<lambda>e. eventKey e = ''run:'' @ runKey c r) es)) c r
   \<and> (\<forall>p. liveRun m c r = Some p \<and> isTerminal (lr_state p)
        \<longrightarrow> map_option lr_state (liveRun (applyEvents m es) c r) = Some (lr_state p))"
  using arg_cong [OF run_view_filter [of "runKey c r" m m es], of fst] terminal_stays [of m "runKey c r" _ es]
  by (auto simp: run_view_def liveRun_def)

theorem run_is_told_by_its_own_events_witness:
  "map_option lr_state (liveRun (applyEvents (applyEvents initialEventsModel [MRun 5 1 ''c'' ''r'' CExited (Some (Some 0))])
     [MState 6 1 ''c'' StWarm, MRun 7 1 ''c'' ''r'' CRunning None]) ''c'' ''r'') = Some CExited"
proof -
  have "liveRun (applyEvents initialEventsModel [MRun 5 1 ''c'' ''r'' CExited (Some (Some 0))]) ''c'' ''r''
      = Some \<lparr>lr_runId = ''r'', lr_computer = ''c'', lr_state = CExited, lr_exitCode = Some 0, lr_at = 1\<rparr>"
    by (simp add: liveRun_def applyEvent_def initialEventsModel_def stale_def advance_def runKey_def isActive_def)
  moreover note conjunct2 [OF run_is_told_by_its_own_events [of
      "applyEvents initialEventsModel [MRun 5 1 ''c'' ''r'' CExited (Some (Some 0))]"
      "[MState 6 1 ''c'' StWarm, MRun 7 1 ''c'' ''r'' CRunning None]" "''c''" "''r''"], rule_format]
  ultimately show ?thesis by (auto simp: isTerminal_def simp del: applyEvents_simps)
qed

section \<open>The merged list\<close>

lemma merge_live_finished:
  assumes "map_of rows i = Some r" "isTerminal (rs_state r)"
  shows "\<exists>r'. map_of (merge_live c run rows) i = Some r' \<and> isTerminal (rs_state r')"
  using assms by (auto simp: merge_live_def map_of_AList_update Let_def terminal_absorbs split: option.splits)

lemma merge_live_finishes:
  assumes "lr_computer run = c" "isTerminal (lr_state run)"
  shows "\<exists>r. map_of (merge_live c run rows) (lr_runId run) = Some r \<and> isTerminal (rs_state r)"
  using assms by (auto simp: merge_live_def map_of_AList_update Let_def merge_terminal split: option.splits)

lemma merge_attention_finished:
  assumes "map_of rows i = Some r" "isTerminal (rs_state r)"
  shows "\<exists>r'. map_of (merge_attention c a rows) i = Some r' \<and> isTerminal (rs_state r')"
  using assms by (auto simp: merge_attention_def map_of_AList_update split: option.splits)

definition lists_finished :: "run_id \<Rightarrow> (run_id \<times> run_list_row) list \<Rightarrow> bool" where
  "lists_finished i rows \<longleftrightarrow> (case map_of rows i of None \<Rightarrow> False | Some r \<Rightarrow> isTerminal (rs_state r))"

lemma lists_finished_iff: "lists_finished i rows \<longleftrightarrow> (\<exists>r. map_of rows i = Some r \<and> isTerminal (rs_state r))"
  by (simp add: lists_finished_def split: option.split)

lemma live_keeps: "lists_finished i rows \<Longrightarrow> lists_finished i (merge_live c run rows)"
  by (auto simp: lists_finished_iff dest: merge_live_finished)

lemma attention_keeps: "lists_finished i rows \<Longrightarrow> lists_finished i (merge_attention c a rows)"
  by (auto simp: lists_finished_iff dest: merge_attention_finished)

definition rest_fold :: "run_summary list \<Rightarrow> (run_id \<times> run_list_row) list \<Rightarrow> (run_id \<times> run_list_row) list" where
  "rest_fold rest rows = fold (\<lambda>s. AList.update (rs_id s) (rowFromSummary s)) rest rows"

lemma rest_fold_simps [simp]:
  "rest_fold [] rows = rows"
  "rest_fold (s # rest) rows = rest_fold rest (AList.update (rs_id s) (rowFromSummary s) rows)"
  by (simp_all add: rest_fold_def)

lemma rest_other: "i \<notin> rs_id ` set rest \<Longrightarrow> map_of (rest_fold rest rows) i = map_of rows i"
  by (induction rest arbitrary: rows) (auto simp: map_of_AList_update)

lemma rest_rows:
  "distinct (map rs_id rest) \<Longrightarrow> s \<in> set rest \<Longrightarrow> map_of (rest_fold rest rows) (rs_id s) = Some (rowFromSummary s)"
proof (induction rest arbitrary: rows)
  case (Cons x rest)
  show ?case
  proof (cases "s = x")
    case True
    then show ?thesis using Cons.prems(1) by (simp add: rest_other map_of_AList_update)
  next
    case False
    then show ?thesis using Cons.IH Cons.prems by simp
  qed
qed simp

lemma rowFromSummary_fields [simp]: "rs_state (rowFromSummary s) = rs_state s" "rs_id (rowFromSummary s) = rs_id s"
  by (simp_all add: rowFromSummary_def run_summary.defs)

text \<open>Every row stands under its own id.\<close>

definition rows_named :: "(run_id \<times> run_list_row) list \<Rightarrow> bool" where
  "rows_named rows \<longleftrightarrow> (\<forall>i r. map_of rows i = Some r \<longrightarrow> rs_id r = i)"

lemma rows_named_update [simp]: "rows_named rows \<Longrightarrow> rs_id r = i \<Longrightarrow> rows_named (AList.update i r rows)"
  by (simp add: rows_named_def map_of_AList_update)

lemma live_named: "rows_named rows \<Longrightarrow> rows_named (merge_live c run rows)"
  by (auto simp: merge_live_def Let_def split: option.splits intro!: rows_named_update) (auto simp: rows_named_def)

lemma attention_named: "rows_named rows \<Longrightarrow> rows_named (merge_attention c a rows)"
  by (auto simp: merge_attention_def split: option.splits intro!: rows_named_update) (auto simp: rows_named_def)

lemma folds_named:
  "rows_named rows \<Longrightarrow> rows_named (fold (merge_live c) runs rows)"
  "rows_named rows \<Longrightarrow> rows_named (fold (merge_attention c) items rows)"
  "rows_named rows \<Longrightarrow> rows_named (rest_fold rest rows)"
  by (induction runs arbitrary: rows, simp_all add: live_named)
    (induction items arbitrary: rows, simp_all add: attention_named,
     induction rest arbitrary: rows, simp_all)

lemma folds_keep:
  "lists_finished i rows \<Longrightarrow> lists_finished i (fold (merge_live c) runs rows)"
  "lists_finished i rows \<Longrightarrow> lists_finished i (fold (merge_attention c) items rows)"
  by (induction runs arbitrary: rows, simp_all add: live_keeps)
    (induction items arbitrary: rows, simp_all add: attention_keeps)

lemma fold_finishes:
  assumes "lr_computer r = c" "isTerminal (lr_state r)"
  shows "r \<in> set runs \<Longrightarrow> lists_finished (lr_runId r) (fold (merge_live c) runs rows)"
proof (induction runs arbitrary: rows)
  case (Cons x runs)
  show ?case
  proof (cases "r = x")
    case True
    have "lists_finished (lr_runId r) (merge_live c r rows)"
      using merge_live_finishes [OF assms] by (simp add: lists_finished_iff)
    then show ?thesis using True by (simp add: folds_keep)
  next
    case False
    then show ?thesis using Cons by simp
  qed
qed simp

text \<open>A finished run is listed as finished.  If the polled list or the live stream says that a run of the
  computer has ended, the merged list has a row for it in a terminal state, whatever the other source says.\<close>

theorem finished_run_is_listed_finished:
  assumes "distinct (map rs_id rest)"
    and "(\<exists>s\<in>set rest. rs_id s = i \<and> isTerminal (rs_state s))
      \<or> (\<exists>r\<in>set (map snd (em_runs live)). lr_computer r = c \<and> lr_runId r = i \<and> isTerminal (lr_state r))"
  shows "\<exists>row\<in>set (mergeRuns c rest live). rs_id row = i \<and> isTerminal (rs_state row)"
proof -
  let ?r0 = "rest_fold rest []"
  let ?r1 = "fold (merge_live c) (map snd (em_runs live)) ?r0"
  let ?r2 = "fold (merge_attention c) (map snd (em_attention live)) ?r1"
  have named: "rows_named ?r2" by (intro folds_named) (simp add: rows_named_def)
  have "lists_finished i ?r1"
    using assms(2)
  proof
    assume "\<exists>s\<in>set rest. rs_id s = i \<and> isTerminal (rs_state s)"
    then have "lists_finished i ?r0" using rest_rows [OF assms(1)] by (auto simp: lists_finished_iff)
    then show ?thesis by (rule folds_keep)
  next
    assume "\<exists>r\<in>set (map snd (em_runs live)). lr_computer r = c \<and> lr_runId r = i \<and> isTerminal (lr_state r)"
    then show ?thesis using fold_finishes by blast
  qed
  then have "lists_finished i ?r2" by (rule folds_keep)
  then obtain row where row: "map_of ?r2 i = Some row" "isTerminal (rs_state row)" by (auto simp: lists_finished_iff)
  then have "row \<in> snd ` set ?r2" "rs_id row = i"
    using named map_of_SomeD [OF row(1)] by (force, simp add: rows_named_def)
  then show ?thesis using row(2) by (auto simp: mergeRuns_def Let_def rest_fold_def)
qed

theorem finished_run_is_listed_finished_witness:
  "let live = applyEvents initialEventsModel [MRun 5 1 ''c'' ''r'' CExited (Some (Some 0))];
       rest = [\<lparr>rs_id = ''r'', rs_state = CRunning, rs_argv = [], rs_cwd = None, rs_exitCode = None, rs_attention = False,
                rs_startedAt = 0, rs_endedAt = None, rs_diff = None, rs_review = DPending\<rparr>]
   in list_ex (\<lambda>row. rs_id row = ''r'' \<and> isTerminal (rs_state row)) (mergeRuns ''c'' rest live)"
  unfolding Let_def list_ex_iff
  by (rule finished_run_is_listed_finished)
    (simp_all add: applyEvent_def initialEventsModel_def stale_def advance_def runKey_def isActive_def isTerminal_def)

section \<open>An interruption on the live stream\<close>

text \<open>The events of one operation, published one after the other, as the browser receives them.\<close>

fun stream_to :: "string \<Rightarrow> time \<Rightarrow> rat \<Rightarrow> do_event list \<Rightarrow> mari_event list" where
  "stream_to c now q [] = []"
| "stream_to c now q (ev # evs) = arrives_as c now q ev # stream_to c now (q + 1) evs"

definition marks_below :: "rat \<Rightarrow> events_model \<Rightarrow> bool" where
  "marks_below q m \<longleftrightarrow> (\<forall>k x. map_of (em_applied m) k = Some x \<longrightarrow> x < q)"

text \<open>The events one row contributes to a degradation.\<close>

definition row_events :: "time \<Rightarrow> run_row \<Rightarrow> do_event list \<Rightarrow> bool" where
  "row_events now row p \<longleftrightarrow> p \<in> {[EvRun (rr_id row) CPending None],
     [EvAttention (rr_id row) AkInterrupted now, EvRun (rr_id row) CFailed None], [EvRun (rr_id row) CFailed None]}"

lemma arrives_seq [simp]: "ev_seq (arrives_as c now q ev) = q"
  by (cases ev) (simp_all add: arrives_as_def)

lemma stream_to_append:
  "stream_to c now q (xs @ ys) = stream_to c now q xs @ stream_to c now (q + of_nat (length xs)) ys"
  by (induction xs arbitrary: q) (simp_all add: algebra_simps)

lemma marks_step: "marks_below q m \<Longrightarrow> marks_below (q + 1) (applyEvent m (arrives_as c now q ev))"
  by (auto simp: marks_below_def applyEvent_def map_of_AList_update add_strict_increasing2 less_imp_le
      split: if_splits) (meson less_add_one order.strict_trans)+

lemma marks_stream:
  "marks_below q m \<Longrightarrow> marks_below (q + of_nat (length evs)) (applyEvents m (stream_to c now q evs))"
proof (induction evs arbitrary: q m)
  case (Cons ev evs)
  then show ?case using Cons.IH [OF marks_step [OF Cons.prems, of c now ev]] by (simp add: algebra_simps)
qed simp

lemma marks_fresh: "marks_below q m \<Longrightarrow> ev_seq e = q \<Longrightarrow> \<not> stale m e"
  by (auto simp: marks_below_def stale_def split: option.splits) fastforce

lemma degrade_one_events:
  "\<exists>p. snd (degrade_one now j row (db, evs)) = evs @ p \<and> row_events now row p"
  by (auto simp: degrade_one_def Let_def raiseInterrupted_def onAttention_def row_events_def)

lemma degrade_one_interrupts:
  assumes "\<not> retriable j row"
  shows "\<exists>p. snd (degrade_one now j row (db, evs)) = evs @ p @ [EvRun (rr_id row) CFailed None]"
  using assms by (auto simp: degrade_one_def Let_def raiseInterrupted_def onAttention_def retriable_def)

lemma degrade_fold_events:
  "\<exists>ps. snd (fold (degrade_one now j) rows (db, evs)) = evs @ concat ps \<and> list_all2 (row_events now) rows ps"
proof (induction rows arbitrary: db evs)
  case (Cons row rows)
  obtain db1 evs1 where d: "degrade_one now j row (db, evs) = (db1, evs1)" by (rule prod.exhaust)
  obtain p where p: "evs1 = evs @ p" "row_events now row p" using degrade_one_events [of now j row db evs] d by auto
  obtain ps where "snd (fold (degrade_one now j) rows (db1, evs1)) = evs1 @ concat ps" "list_all2 (row_events now) rows ps"
    using Cons.IH [of db1 evs1] by blast
  then have "snd (fold (degrade_one now j) (row # rows) (db, evs)) = evs @ concat (p # ps)"
    "list_all2 (row_events now) (row # rows) (p # ps)"
    using d p by simp_all
  then show ?case by blast
qed simp

lemma runKey_inj [simp]: "runKey c r = runKey c r' \<longleftrightarrow> r = r'"
  by (simp add: runKey_def)

lemma no_badge_kept:
  assumes "map_of (em_attention m) (runKey c r) = None" "\<And>k t. ev \<noteq> EvAttention r k t"
  shows "map_of (em_attention (applyEvent m (arrives_as c now q ev))) (runKey c r) = None"
  using assms by (cases ev) (auto simp: applyEvent_def arrives_as_def advance_def Let_def map_of_AList_update map_of_AList_delete)

lemma failed_erases:
  assumes "\<not> stale m (arrives_as c now q (EvRun r CFailed None))"
  shows "map_of (em_attention (applyEvent m (arrives_as c now q (EvRun r CFailed None)))) (runKey c r) = None"
proof -
  have "\<not> isActive (case map_of (em_runs m) (runKey c r) of None \<Rightarrow> CFailed | Some p \<Rightarrow> mergeRunState (lr_state p) CFailed)"
    by (cases "map_of (em_runs m) (runKey c r)") (simp_all add: not_active merge_terminal, simp_all add: isTerminal_def)
  then show ?thesis
    using assms by (auto simp: applyEvent_def arrives_as_def advance_def Let_def map_of_AList_delete)
qed

lemma no_badge_stream:
  assumes "map_of (em_attention m) (runKey c r) = None" "\<And>k t. EvAttention r k t \<notin> set evs"
  shows "map_of (em_attention (applyEvents m (stream_to c now q evs))) (runKey c r) = None"
  using assms
proof (induction evs arbitrary: q m)
  case (Cons ev evs)
  have "ev \<noteq> EvAttention r k t" for k t using Cons.prems(2) [of k t] by auto
  from no_badge_kept [OF Cons.prems(1) this] show ?case using Cons.IH Cons.prems(2) by simp
qed simp

lemma other_rows_silent:
  assumes "list_all2 (row_events now) rows ps" "r \<notin> rr_id ` set rows"
  shows "EvAttention r k t \<notin> set (concat ps)"
  using assms by (induction rule: list_all2_induct) (auto simp: row_events_def)

lemma degrade_events_split:
  assumes "ids_ok db" "degradeInFlightRuns now j db = (db', evs)" "row \<in> set (db_runs db)"
    "in_flight (rr_status row)" "\<not> retriable j row"
  shows "\<exists>pre post. evs = pre @ EvRun (rr_id row) CFailed None # post \<and> (\<forall>k t. EvAttention (rr_id row) k t \<notin> set post)"
proof -
  let ?rows = "filter (\<lambda>r. in_flight (rr_status r)) (db_runs db)"
  obtain xs ys where rows: "?rows = xs @ row # ys"
    using assms(3,4) split_list [of row ?rows] by auto
  have "distinct (map rr_id ?rows)" using assms(1) by (simp only: ids_ok_def distinct_map_filter)
  then have other: "rr_id row \<notin> rr_id ` set ys" unfolding rows by simp
  obtain db1 evs1 where f1: "fold (degrade_one now j) xs (db, []) = (db1, evs1)" by (rule prod.exhaust)
  obtain db2 evs2 where f2: "degrade_one now j row (db1, evs1) = (db2, evs2)" by (rule prod.exhaust)
  obtain p where p: "evs2 = evs1 @ p @ [EvRun (rr_id row) CFailed None]"
    using degrade_one_interrupts [OF assms(5), of now db1 evs1] f2 by auto
  obtain ps where ps: "snd (fold (degrade_one now j) ys (db2, evs2)) = evs2 @ concat ps" "list_all2 (row_events now) ys ps"
    using degrade_fold_events by blast
  have "evs = evs2 @ concat ps"
    using assms(2) ps(1) f1 f2 unfolding degradeInFlightRuns_def rows by simp
  then have "evs = (evs1 @ p) @ EvRun (rr_id row) CFailed None # concat ps" using p by simp
  then show ?thesis using other_rows_silent [OF ps(2) other] by blast
qed

text \<open>An interruption erases its own badge.  When a machine is lost, each run that ran is marked interrupted
  and raises an attention that the computer keeps, undismissed.  The run's \<open>failed\<close> event is published
  after that attention, and the browser drops the attention of a run that is no longer active: after the
  events of the degradation no live badge of the run is left.\<close>

theorem interruption_badge_is_erased:
  assumes "ids_ok db" "degradeInFlightRuns now j db = (db', evs)" "runRow r db = Some row"
    "in_flight (rr_status row)" "\<not> retriable j row" "marks_below q m"
  shows "hasUndismissedInterrupted r db' \<and> map_of (em_attention (applyEvents m (stream_to c t q evs))) (runKey c r) = None"
proof -
  have row: "row \<in> set (db_runs db)" "rr_id row = r" using runRow_Some [OF assms(3)] by simp_all
  have badge: "hasUndismissedInterrupted r db'"
    using degrade_spec(3) [OF assms(1,2)] assms(3-5) by blast
  obtain pre post where e: "evs = pre @ EvRun r CFailed None # post"
    and silent: "\<And>k t. EvAttention r k t \<notin> set post"
    using degrade_events_split [OF assms(1,2) row(1) assms(4,5)] unfolding row(2) by blast
  let ?m = "applyEvents m (stream_to c t q pre)"
  have "\<not> stale ?m (arrives_as c t (q + of_nat (length pre)) (EvRun r CFailed None))"
    by (rule marks_fresh [OF marks_stream [OF assms(6)]]) simp
  from no_badge_stream [OF failed_erases [OF this] silent]
  have "map_of (em_attention (applyEvents m (stream_to c t q evs))) (runKey c r) = None"
    by (simp add: e stream_to_append)
  then show ?thesis using badge by simp
qed

definition lost_db :: run_db where
  "lost_db = snd (fst (run_trace ''/work'' [ReEnqueue 1 sample_request, ReDispatch 2 1 (\<lambda>_. True), ReStarted 3 1 ''r1'' ''m0'']
    ((None, None), empty_db)))"

theorem interruption_badge_is_erased_witness:
  "let (db', evs) = degradeInFlightRuns 4 empty_journal lost_db
   in hasUndismissedInterrupted ''r1'' db'
      \<and> map_of (em_attention (applyEvents initialEventsModel (stream_to ''c1'' 4 9 evs))) (runKey ''c1'' ''r1'') = None"
proof -
  obtain db' evs where d: "degradeInFlightRuns 4 empty_journal lost_db = (db', evs)" by (rule prod.exhaust)
  have i: "ids_ok lost_db" by code_simp
  have "map_option (\<lambda>r. in_flight (rr_status r) \<and> \<not> retriable empty_journal r) (runRow ''r1'' lost_db) = Some True" by code_simp
  then obtain row where row: "runRow ''r1'' lost_db = Some row" "in_flight (rr_status row)" "\<not> retriable empty_journal row"
    by auto
  have m: "marks_below 9 initialEventsModel" by (simp add: marks_below_def initialEventsModel_def)
  show ?thesis
    using interruption_badge_is_erased [OF i d row m, of "''c1''" 4] by (simp add: d)
qed

end
