(* ===== verification/JsNumber.thy ===== *)
theory JsNumber
  imports Prelude Complex_Main
begin

text \<open>
  JavaScript numbers and the conversion of a string to one (\<^verbatim>\<open>Number(s)\<close>), which the deployment
  variables go through.  A finite number is a rational: rounding to a double, the overflow of a literal
  to infinity and the sign of zero are not modelled.
\<close>

datatype js_number = Fin rat | NaN | PosInf | NegInf

definition digit_value :: "char \<Rightarrow> nat option" where
  "digit_value c =
     (let n = of_char c :: nat
      in if 48 \<le> n \<and> n \<le> 57 then Some (n - 48)
         else if 97 \<le> n \<and> n \<le> 102 then Some (n - 87)
         else if 65 \<le> n \<and> n \<le> 70 then Some (n - 55) else None)"

definition digit_below :: "nat \<Rightarrow> char \<Rightarrow> bool" where
  "digit_below b c = (case digit_value c of None \<Rightarrow> False | Some d \<Rightarrow> d < b)"

definition digits_value :: "nat \<Rightarrow> string \<Rightarrow> nat" where
  "digits_value b s = foldl (\<lambda>v c. v * b + (case digit_value c of None \<Rightarrow> 0 | Some d \<Rightarrow> d)) 0 s"

definition is_decimal :: "char \<Rightarrow> bool" where
  "is_decimal c = digit_below 10 c"

text \<open>The exponent of a decimal literal, and the whole of it; \<open>None\<close> is no literal.\<close>

definition parse_exponent :: "string \<Rightarrow> (bool \<times> nat) option" where
  "parse_exponent s =
     (case s of
        [] \<Rightarrow> Some (False, 0)
      | c # t \<Rightarrow>
          if c \<notin> {CHR ''e'', CHR ''E''} then None
          else let neg = (t \<noteq> [] \<and> hd t = CHR ''-'');
                   ds = (if t \<noteq> [] \<and> hd t \<in> {CHR ''-'', CHR ''+''} then tl t else t)
               in if ds \<noteq> [] \<and> list_all is_decimal ds then Some (neg, digits_value 10 ds) else None)"

definition parse_decimal :: "string \<Rightarrow> rat option" where
  "parse_decimal s =
     (let i = takeWhile is_decimal s; r = dropWhile is_decimal s;
          (f, r2) = (case r of
             [] \<Rightarrow> ([], [])
           | c # t \<Rightarrow> if c = CHR ''.'' then (takeWhile is_decimal t, dropWhile is_decimal t) else ([], r))
      in if i = [] \<and> f = [] then None
         else case parse_exponent r2 of
           None \<Rightarrow> None
         | Some (neg, e) \<Rightarrow>
             let m = of_nat (digits_value 10 (i @ f)) / 10 ^ length f
             in Some (if neg then m / 10 ^ e else m * 10 ^ e))"

definition parse_radix :: "nat \<Rightarrow> string \<Rightarrow> js_number" where
  "parse_radix b s = (if s \<noteq> [] \<and> list_all (digit_below b) s then Fin (of_nat (digits_value b s)) else NaN)"

definition parse_signed :: "bool \<Rightarrow> string \<Rightarrow> js_number" where
  "parse_signed neg s =
     (if s = ''Infinity'' then (if neg then NegInf else PosInf)
      else case parse_decimal s of None \<Rightarrow> NaN | Some q \<Rightarrow> Fin (if neg then - q else q))"

definition js_Number :: "string \<Rightarrow> js_number" where
  "js_Number s =
     (case js_trim s of
        [] \<Rightarrow> Fin 0
      | c # t \<Rightarrow>
          if c = CHR ''0'' \<and> t \<noteq> [] \<and> hd t \<in> {CHR ''x'', CHR ''X''} then parse_radix 16 (tl t)
          else if c = CHR ''0'' \<and> t \<noteq> [] \<and> hd t \<in> {CHR ''o'', CHR ''O''} then parse_radix 8 (tl t)
          else if c = CHR ''0'' \<and> t \<noteq> [] \<and> hd t \<in> {CHR ''b'', CHR ''B''} then parse_radix 2 (tl t)
          else if c = CHR ''-'' then parse_signed True t
          else if c = CHR ''+'' then parse_signed False t
          else parse_signed False (c # t))"

lemma js_Number_examples:
  "js_Number '' 12 '' = Fin 12" "js_Number ''1.5e2'' = Fin 150" "js_Number ''0x1F'' = Fin 31"
  "js_Number ''-Infinity'' = NegInf" "js_Number ''12px'' = NaN" "js_Number '''' = Fin 0"
  by code_simp+


text \<open>\<^verbatim>\<open>Number.isSafeInteger\<close>: the integer, when it is one of absolute value below 2^53.\<close>

definition safe_integer :: "js_number \<Rightarrow> int option" where
  "safe_integer v =
     (case v of
        Fin q \<Rightarrow> if of_int \<lfloor>q\<rfloor> = q \<and> \<bar>\<lfloor>q\<rfloor>\<bar> < 2 ^ 53 then Some \<lfloor>q\<rfloor> else None
      | _ \<Rightarrow> None)"

end
