(* ===== verification/WmTree.thy ===== *)
theory WmTree
  imports Validate JsNumber
begin

text \<open>
  The tiling window manager of the web client (\<^verbatim>\<open>web/src/wm/tree.ts\<close>), its panes
  (\<^verbatim>\<open>web/src/wm/pane.ts\<close>), the persisted form of a layout (\<^verbatim>\<open>web/src/wm/serialize.ts\<close>) and the
  store that owns the layouts of all computers (\<^verbatim>\<open>web/src/store/ui.ts\<close>).

  A node is polymorphic in what its panes hold: a pane specification in a live layout, the decoded JSON
  in a restored one, since the reader of a layout checks of a pane nothing but its kind.  Ratios and
  rectangles are rationals, so the geometry is exact where the program rounds to doubles.
\<close>

section \<open>Panes\<close>

datatype pane_spec =
    PTerminal (ps_run: string) (ps_title: "string option")
  | PFiles (ps_path: string) (ps_title: "string option")
  | PEditor (ps_path: string) (ps_title: "string option")
  | PPreview (ps_port: int) (ps_title: "string option")
  | PBrowser (ps_port: int) (ps_title: "string option")
  | PRuns (ps_title: "string option")
  | PDiff (ps_of: "string option") (ps_base: "string option") (ps_head: "string option") (ps_title: "string option")
  | PVault (ps_title: "string option")

definition isTerminalFor :: "pane_spec \<Rightarrow> string \<Rightarrow> bool" where
  "isTerminalFor p run = (case p of PTerminal r _ \<Rightarrow> r = run | _ \<Rightarrow> False)"

definition isDiffFor :: "pane_spec \<Rightarrow> string \<Rightarrow> bool" where
  "isDiffFor p run = (case p of PDiff r _ _ _ \<Rightarrow> r = Some run | _ \<Rightarrow> False)"

fun samePane :: "pane_spec \<Rightarrow> pane_spec \<Rightarrow> bool" where
  "samePane (PTerminal r _) (PTerminal s _) \<longleftrightarrow> r = s"
| "samePane (PFiles p _) (PFiles q _) \<longleftrightarrow> p = q"
| "samePane (PEditor p _) (PEditor q _) \<longleftrightarrow> p = q"
| "samePane (PPreview p _) (PPreview q _) \<longleftrightarrow> p = q"
| "samePane (PBrowser p _) (PBrowser q _) \<longleftrightarrow> p = q"
| "samePane (PRuns _) (PRuns _) \<longleftrightarrow> True"
| "samePane (PDiff r b h _) (PDiff r' b' h' _) \<longleftrightarrow> r = r' \<and> b = b' \<and> h = h'"
| "samePane (PVault _) (PVault _) \<longleftrightarrow> True"
| "samePane _ _ \<longleftrightarrow> False"

section \<open>The tree\<close>

datatype split_axis = AxRow | AxColumn

datatype move_dir = MvLeft | MvRight | MvUp | MvDown

datatype 'p wm_node =
    Pane (wn_id: string) (wn_pane: 'p)
  | Split (wn_id: string) (wn_axis: split_axis) (wn_ratio: rat) (wn_a: "'p wm_node") (wn_b: "'p wm_node")

record 'p layout =
  ly_root :: "'p wm_node option"
  ly_focused :: "string option"

record rect =
  rx :: rat
  ry :: rat
  rw :: rat
  rh :: rat

definition MIN_RATIO :: rat where "MIN_RATIO = 5 / 100"
definition MAX_RATIO :: rat where "MAX_RATIO = 95 / 100"
definition EPS :: rat where "EPS = 1 / 1000000"

definition nextNodeId :: "string \<Rightarrow> nat \<Rightarrow> string \<times> nat" where
  "nextNodeId pre n = (pre @ dec_nat (Suc n), Suc n)"

definition emptyLayout :: "'p layout" where
  "emptyLayout = \<lparr>ly_root = None, ly_focused = None\<rparr>"

definition singlePane :: "'p \<Rightarrow> string \<Rightarrow> 'p layout" where
  "singlePane p i = \<lparr>ly_root = Some (Pane i p), ly_focused = Some i\<rparr>"

fun paneIds :: "'p wm_node \<Rightarrow> string list" where
  "paneIds (Pane i p) = [i]"
| "paneIds (Split i ax q a b) = paneIds a @ paneIds b"

fun findPane :: "'p wm_node \<Rightarrow> string \<Rightarrow> (string \<times> 'p) option" where
  "findPane (Pane i p) j = (if i = j then Some (i, p) else None)"
| "findPane (Split i ax q a b) j = (case findPane a j of Some r \<Rightarrow> Some r | None \<Rightarrow> findPane b j)"

fun findPaneBy :: "'p wm_node \<Rightarrow> ('p \<Rightarrow> bool) \<Rightarrow> (string \<times> 'p) option" where
  "findPaneBy (Pane i p) f = (if f p then Some (i, p) else None)"
| "findPaneBy (Split i ax q a b) f = (case findPaneBy a f of Some r \<Rightarrow> Some r | None \<Rightarrow> findPaneBy b f)"

text \<open>\<^verbatim>\<open>null\<close> as a root finds nothing.\<close>

definition find_in :: "'p layout \<Rightarrow> string \<Rightarrow> (string \<times> 'p) option" where
  "find_in l i = (case ly_root l of None \<Rightarrow> None | Some n \<Rightarrow> findPane n i)"

fun containsPane :: "'p wm_node \<Rightarrow> string \<Rightarrow> bool" where
  "containsPane (Pane i p) j \<longleftrightarrow> i = j"
| "containsPane (Split i ax q a b) j \<longleftrightarrow> containsPane a j \<or> containsPane b j"

fun firstPaneId :: "'p wm_node \<Rightarrow> string" where
  "firstPaneId (Pane i p) = i"
| "firstPaneId (Split i ax q a b) = firstPaneId a"

section \<open>Splitting and closing\<close>

text \<open>\<open>replace_pane\<close> returns the tree and whether the target was found.\<close>

fun replace_pane :: "string \<Rightarrow> split_axis \<Rightarrow> 'p \<Rightarrow> string \<Rightarrow> string \<Rightarrow> 'p wm_node \<Rightarrow> 'p wm_node \<times> bool" where
  "replace_pane target axis new newId splitId (Pane i p) =
     (if i \<noteq> target then (Pane i p, False)
      else (Split splitId axis (1/2) (Pane i p) (Pane newId new), True))"
| "replace_pane target axis new newId splitId (Split i ax q a b) =
     (let (a', fa) = replace_pane target axis new newId splitId a;
          (b', fb) = replace_pane target axis new newId splitId b
      in (Split i ax q a' b', fa \<or> fb))"

definition splitPane :: "'p layout \<Rightarrow> string \<Rightarrow> split_axis \<Rightarrow> 'p \<Rightarrow> string \<Rightarrow> string \<Rightarrow> 'p layout" where
  "splitPane l target axis new newId splitId =
     (case ly_root l of
        None \<Rightarrow> singlePane new newId
      | Some n \<Rightarrow>
          let (t, found) = replace_pane target axis new newId splitId n
          in if \<not> found then l else \<lparr>ly_root = Some t, ly_focused = Some newId\<rparr>)"

text \<open>\<open>remove_pane\<close> threads \<^verbatim>\<open>refocus\<close>, which keeps its first value.\<close>

fun remove_pane :: "string \<Rightarrow> 'p wm_node \<Rightarrow> string option \<Rightarrow> 'p wm_node option \<times> string option" where
  "remove_pane target (Pane i p) rf = ((if i = target then None else Some (Pane i p)), rf)"
| "remove_pane target (Split i ax q a b) rf =
     (if containsPane a target then
        (case remove_pane target a rf of
           (None, rf') \<Rightarrow> (Some b, if rf' = None then Some (firstPaneId b) else rf')
         | (Some a', rf') \<Rightarrow> (Some (Split i ax q a' b), rf'))
      else if containsPane b target then
        (case remove_pane target b rf of
           (None, rf') \<Rightarrow> (Some a, if rf' = None then Some (firstPaneId a) else rf')
         | (Some b', rf') \<Rightarrow> (Some (Split i ax q a b'), rf'))
      else (Some (Split i ax q a b), rf))"

definition closePane :: "'p layout \<Rightarrow> string \<Rightarrow> 'p layout" where
  "closePane l target =
     (case ly_root l of
        None \<Rightarrow> l
      | Some n \<Rightarrow>
          if \<not> containsPane n target then l
          else case n of
            Pane i p \<Rightarrow> if i \<noteq> target then l else emptyLayout
          | Split _ _ _ _ _ \<Rightarrow>
              case remove_pane target n None of
                (None, _) \<Rightarrow> emptyLayout
              | (Some t, refocus) \<Rightarrow>
                  let f = ly_focused l;
                      lost = (case f of None \<Rightarrow> True | Some i \<Rightarrow> i = target \<or> findPane t i = None)
                  in \<lparr>ly_root = Some t,
                      ly_focused = (if lost then (case refocus of Some i \<Rightarrow> Some i | None \<Rightarrow> Some (firstPaneId t)) else f)\<rparr>)"

section \<open>Ratios and focus\<close>

definition clampRatio :: "js_number \<Rightarrow> rat" where
  "clampRatio r = (case r of NaN \<Rightarrow> 1/2 | PosInf \<Rightarrow> MAX_RATIO | NegInf \<Rightarrow> MIN_RATIO
     | Fin q \<Rightarrow> min MAX_RATIO (max MIN_RATIO q))"

fun resize_walk :: "string \<Rightarrow> rat \<Rightarrow> 'p wm_node \<Rightarrow> 'p wm_node \<times> bool" where
  "resize_walk splitId r (Pane i p) = (Pane i p, False)"
| "resize_walk splitId r (Split i ax q a b) =
     (if i = splitId then (Split i ax r a b, True)
      else let (a', ca) = resize_walk splitId r a; (b', cb) = resize_walk splitId r b
           in (Split i ax q a' b', ca \<or> cb))"

definition resizeSplit :: "'p layout \<Rightarrow> string \<Rightarrow> js_number \<Rightarrow> 'p layout" where
  "resizeSplit l splitId ratio =
     (case ly_root l of
        None \<Rightarrow> l
      | Some n \<Rightarrow>
          let (t, changed) = resize_walk splitId (clampRatio ratio) n
          in if changed then l\<lparr>ly_root := Some t\<rparr> else l)"

definition focusPane :: "'p layout \<Rightarrow> string \<Rightarrow> 'p layout" where
  "focusPane l i = (if find_in l i = None then l else l\<lparr>ly_focused := Some i\<rparr>)"

section \<open>Geometry\<close>

text \<open>The walk fills a \<^verbatim>\<open>Map\<close> in depth-first order.\<close>

fun rect_walk :: "'p wm_node \<Rightarrow> rect \<Rightarrow> (string \<times> rect) list \<Rightarrow> (string \<times> rect) list" where
  "rect_walk (Pane i p) r out = AList.update i r out"
| "rect_walk (Split i ax q a b) r out =
     (case ax of
        AxRow \<Rightarrow>
          let aw = rw r * q
          in rect_walk b \<lparr>rx = rx r + aw, ry = ry r, rw = rw r - aw, rh = rh r\<rparr>
               (rect_walk a \<lparr>rx = rx r, ry = ry r, rw = aw, rh = rh r\<rparr> out)
      | AxColumn \<Rightarrow>
          let ah = rh r * q
          in rect_walk b \<lparr>rx = rx r, ry = ry r + ah, rw = rw r, rh = rh r - ah\<rparr>
               (rect_walk a \<lparr>rx = rx r, ry = ry r, rw = rw r, rh = ah\<rparr> out))"

definition unit_rect :: rect where
  "unit_rect = \<lparr>rx = 0, ry = 0, rw = 1, rh = 1\<rparr>"

definition computeRects :: "'p wm_node option \<Rightarrow> (string \<times> rect) list" where
  "computeRects n = (case n of None \<Rightarrow> [] | Some t \<Rightarrow> rect_walk t unit_rect [])"

definition spansOverlap :: "rat \<Rightarrow> rat \<Rightarrow> rat \<Rightarrow> rat \<Rightarrow> bool" where
  "spansOverlap a0 al b0 bl \<longleftrightarrow> a0 < b0 + bl - EPS \<and> b0 < a0 + al - EPS"

definition perpDistance :: "rat \<Rightarrow> rat \<Rightarrow> rat \<Rightarrow> rat \<Rightarrow> rat" where
  "perpDistance a0 al b0 bl = \<bar>a0 + al / 2 - (b0 + bl / 2)\<bar>"

definition move_measure :: "move_dir \<Rightarrow> rect \<Rightarrow> rect \<Rightarrow> rat \<times> bool \<times> rat" where
  "move_measure dir from r =
     (case dir of
        MvRight \<Rightarrow> (rx r - (rx from + rw from), spansOverlap (ry from) (rh from) (ry r) (rh r), perpDistance (ry from) (rh from) (ry r) (rh r))
      | MvLeft \<Rightarrow> (rx from - (rx r + rw r), spansOverlap (ry from) (rh from) (ry r) (rh r), perpDistance (ry from) (rh from) (ry r) (rh r))
      | MvDown \<Rightarrow> (ry r - (ry from + rh from), spansOverlap (rx from) (rw from) (rx r) (rw r), perpDistance (rx from) (rw from) (rx r) (rw r))
      | MvUp \<Rightarrow> (ry from - (ry r + rh r), spansOverlap (rx from) (rw from) (rx r) (rw r), perpDistance (rx from) (rw from) (rx r) (rw r)))"

text \<open>The candidate so far with its distances; \<open>None\<close> is no candidate, at infinite distance.\<close>

definition move_step :: "move_dir \<Rightarrow> string \<Rightarrow> rect \<Rightarrow> string \<times> rect \<Rightarrow> (string \<times> rat \<times> rat) option \<Rightarrow> (string \<times> rat \<times> rat) option" where
  "move_step dir focus from = (\<lambda>(i, r) best.
     if i = focus then best
     else let (primary, overlap, perp) = move_measure dir from r
          in if primary < - EPS then best
             else if \<not> overlap then best
             else case best of
               None \<Rightarrow> Some (i, primary, perp)
             | Some (_, bestPrimary, bestPerp) \<Rightarrow>
                 if primary < bestPrimary - EPS \<or> (\<bar>primary - bestPrimary\<bar> \<le> EPS \<and> perp < bestPerp - EPS)
                 then Some (i, primary, perp) else best)"

definition focusMove :: "'p layout \<Rightarrow> move_dir \<Rightarrow> 'p layout" where
  "focusMove l dir =
     (case (ly_root l, ly_focused l) of
        (Some n, Some f) \<Rightarrow>
          let rects = computeRects (Some n)
          in (case map_of rects f of
                None \<Rightarrow> l
              | Some from \<Rightarrow>
                  (case fold (move_step dir f from) rects None of
                     None \<Rightarrow> l
                   | Some (i, _, _) \<Rightarrow> l\<lparr>ly_focused := Some i\<rparr>))
      | _ \<Rightarrow> l)"

definition area_step :: "string \<times> rect \<Rightarrow> (string \<times> rat) option \<Rightarrow> (string \<times> rat) option" where
  "area_step = (\<lambda>(i, r) best.
     let area = rw r * rh r
     in case best of None \<Rightarrow> Some (i, area) | Some (_, b) \<Rightarrow> if area > b + EPS then Some (i, area) else best)"

definition autoPlace :: "'p layout \<Rightarrow> 'p \<Rightarrow> rat \<Rightarrow> string \<Rightarrow> string \<Rightarrow> 'p layout" where
  "autoPlace l new aspect newId splitId =
     (case ly_root l of
        None \<Rightarrow> singlePane new newId
      | Some n \<Rightarrow>
          let rects = computeRects (Some n)
          in (case fold area_step rects None of
                None \<Rightarrow> l
              | Some (target, _) \<Rightarrow>
                  let r = the (map_of rects target);
                      axis = (if rw r * aspect \<ge> rh r then AxRow else AxColumn)
                  in splitPane l target axis new newId splitId))"

section \<open>The persisted form\<close>

definition LAYOUT_SCHEMA_VERSION :: int where "LAYOUT_SCHEMA_VERSION = 1"

fun axis_word :: "split_axis \<Rightarrow> string" where
  "axis_word AxRow = ''row''"
| "axis_word AxColumn = ''column''"

text \<open>A node as the JSON object it is; \<open>pj\<close> is what its panes are.\<close>

fun node_js :: "('p \<Rightarrow> js) \<Rightarrow> 'p wm_node \<Rightarrow> js" where
  "node_js pj (Pane i p) = JObj [(''type'', JStr ''pane''), (''id'', JStr i), (''pane'', pj p)]"
| "node_js pj (Split i ax q a b) =
     JObj [(''type'', JStr ''split''), (''id'', JStr i), (''axis'', JStr (axis_word ax)), (''ratio'', num_js q),
           (''a'', node_js pj a), (''b'', node_js pj b)]"

definition null_or :: "('a \<Rightarrow> js) \<Rightarrow> 'a option \<Rightarrow> js" where
  "null_or f v = (case v of None \<Rightarrow> JNull | Some x \<Rightarrow> f x)"

definition serializeLayout :: "('p \<Rightarrow> js) \<Rightarrow> 'p layout \<Rightarrow> js" where
  "serializeLayout pj l =
     JObj [(''v'', JInt LAYOUT_SCHEMA_VERSION), (''root'', null_or (node_js pj) (ly_root l)),
           (''focused'', null_or JStr (ly_focused l))]"

definition PANE_KINDS :: "string list" where
  "PANE_KINDS = [''terminal'', ''files'', ''editor'', ''preview'', ''browser'', ''runs'', ''diff'', ''vault'']"

definition pane_ok :: "js \<Rightarrow> bool" where
  "pane_ok v = (case v of JObj h \<Rightarrow> (case get h ''kind'' of JStr k \<Rightarrow> k \<in> set PANE_KINDS | _ \<Rightarrow> False) | _ \<Rightarrow> False)"

definition axis_of :: "js \<Rightarrow> split_axis option" where
  "axis_of v = (if v = JStr ''row'' then Some AxRow else if v = JStr ''column'' then Some AxColumn else None)"

text \<open>\<open>typeof v === 'number'\<close>; decoded JSON has no number that is not finite.\<close>

definition ratio_of :: "js \<Rightarrow> rat option" where
  "ratio_of v = js_num v"

lemma size_get: "size (get h k) < size (JObj h)"
proof (cases "map_of h k")
  case (Some v)
  then have "(k, v) \<in> set h" by (rule map_of_SomeD)
  then have "size v < size (JObj h)"
    by (induction h) auto
  then show ?thesis by (simp add: get_def Some)
qed (simp add: get_def)

text \<open>\<open>isValidNode\<close> together with the cast that follows it: a valid node is read as a tree.\<close>

function read_node :: "js \<Rightarrow> js wm_node option" where
  "read_node v =
     (case v of
        JObj h \<Rightarrow>
          if get h ''type'' = JStr ''pane'' then
            (case get h ''id'' of
               JStr i \<Rightarrow> if pane_ok (get h ''pane'') then Some (Pane i (get h ''pane'')) else None
             | _ \<Rightarrow> None)
          else if get h ''type'' = JStr ''split'' then
            (case (get h ''id'', axis_of (get h ''axis''), ratio_of (get h ''ratio'')) of
               (JStr i, Some ax, Some q) \<Rightarrow>
                 (case (read_node (get h ''a''), read_node (get h ''b'')) of
                    (Some a, Some b) \<Rightarrow> Some (Split i ax q a b)
                  | _ \<Rightarrow> None)
             | _ \<Rightarrow> None)
          else None
      | _ \<Rightarrow> None)"
  by pat_completeness auto
termination
  by (relation "measure size") (simp_all add: size_get del: js.size)

declare read_node.simps [simp del]

definition deserializeLayout :: "js \<Rightarrow> js layout option" where
  "deserializeLayout d =
     (case d of
        JObj h \<Rightarrow>
          if get h ''v'' \<noteq> JInt LAYOUT_SCHEMA_VERSION then None
          else
            (let r = get h ''root''; f = get h ''focused'';
                 rn = (if r = JNull then Some None else map_option Some (read_node r));
                 fn = (if f = JNull then Some None else (case f of JStr s \<Rightarrow> Some (Some s) | _ \<Rightarrow> None))
             in (case (rn, fn) of (Some t, Some i) \<Rightarrow> Some \<lparr>ly_root = t, ly_focused = i\<rparr> | _ \<Rightarrow> None))
      | _ \<Rightarrow> None)"

section \<open>The store\<close>

text \<open>
  \<open>us_ids\<close> is the module-level counter of node ids.  A default argument draws from it when the call
  omits it, in the order of the parameters.  The aspect of the window is an argument.
\<close>

datatype view = ViewFleet | ViewWorkspace

record ui_state =
  us_view :: view
  us_workspaces :: "string list"
  us_active :: "string option"
  us_layouts :: "(string \<times> pane_spec layout) list"
  us_palette :: bool
  us_notice :: string
  us_ids :: nat

definition initial_ui :: ui_state where
  "initial_ui = \<lparr>us_view = ViewFleet, us_workspaces = [], us_active = None, us_layouts = [], us_palette = False,
     us_notice = '''', us_ids = 0\<rparr>"

definition defaultLayout :: "nat \<Rightarrow> pane_spec layout \<times> nat" where
  "defaultLayout n = (let (i, n1) = nextNodeId ''p'' n in (singlePane (PFiles ''/'' None) i, n1))"

definition setWorkspaces :: "string list \<Rightarrow> ui_state \<Rightarrow> ui_state" where
  "setWorkspaces xs s = s\<lparr>us_workspaces := xs\<rparr>"

definition openComputer :: "string \<Rightarrow> ui_state \<Rightarrow> ui_state" where
  "openComputer c s =
     (let ws = (if c \<in> set (us_workspaces s) then us_workspaces s else us_workspaces s @ [c]);
          (ls, n) = (case map_of (us_layouts s) c of
                       Some _ \<Rightarrow> (us_layouts s, us_ids s)
                     | None \<Rightarrow> (let (l, n1) = defaultLayout (us_ids s) in (AList.update c l (us_layouts s), n1)))
      in s\<lparr>us_workspaces := ws, us_active := Some c, us_view := ViewWorkspace, us_layouts := ls, us_ids := n\<rparr>)"

definition switchToSlot :: "nat \<Rightarrow> ui_state \<Rightarrow> ui_state" where
  "switchToSlot i s = (if i < length (us_workspaces s) then openComputer (us_workspaces s ! i) s else s)"

definition goFleet :: "ui_state \<Rightarrow> ui_state" where
  "goFleet s = s\<lparr>us_view := ViewFleet\<rparr>"

definition resetForSession :: "ui_state \<Rightarrow> ui_state" where
  "resetForSession s = s\<lparr>us_view := ViewFleet, us_workspaces := [], us_active := None, us_layouts := [], us_palette := False,
     us_notice := ''''\<rparr>"

definition layoutFor :: "string \<Rightarrow> ui_state \<Rightarrow> pane_spec layout \<times> ui_state" where
  "layoutFor c s =
     (case map_of (us_layouts s) c of
        Some l \<Rightarrow> (l, s)
      | None \<Rightarrow> (let (l, n) = defaultLayout (us_ids s) in (l, s\<lparr>us_ids := n\<rparr>)))"

definition hydrateLayout :: "string \<Rightarrow> pane_spec layout \<Rightarrow> ui_state \<Rightarrow> ui_state" where
  "hydrateLayout c l s =
     (if map_of (us_layouts s) c \<noteq> None then s else s\<lparr>us_layouts := AList.update c l (us_layouts s)\<rparr>)"

definition setLayout :: "string \<Rightarrow> pane_spec layout \<Rightarrow> ui_state \<Rightarrow> ui_state" where
  "setLayout c l s = s\<lparr>us_layouts := AList.update c l (us_layouts s)\<rparr>"

text \<open>Two default arguments: the id of the pane, then that of the split.\<close>

definition two_ids :: "ui_state \<Rightarrow> string \<times> string \<times> ui_state" where
  "two_ids s =
     (let (p, n1) = nextNodeId ''p'' (us_ids s); (q, n2) = nextNodeId ''s'' n1 in (p, q, s\<lparr>us_ids := n2\<rparr>))"

definition place_or_focus :: "rat \<Rightarrow> string \<Rightarrow> (pane_spec \<Rightarrow> bool) \<Rightarrow> pane_spec \<Rightarrow> ui_state \<Rightarrow> ui_state" where
  "place_or_focus aspect c f pane s =
     (let (l, s1) = layoutFor c s
      in case (case ly_root l of None \<Rightarrow> None | Some n \<Rightarrow> findPaneBy n f) of
           Some (i, _) \<Rightarrow> setLayout c (focusPane l i) s1
         | None \<Rightarrow> (let (p, q, s2) = two_ids s1 in setLayout c (autoPlace l pane aspect p q) s2))"

definition addPane :: "rat \<Rightarrow> pane_spec \<Rightarrow> ui_state \<Rightarrow> ui_state" where
  "addPane aspect pane s =
     (case us_active s of None \<Rightarrow> s | Some c \<Rightarrow> place_or_focus aspect c (\<lambda>p. samePane p pane) pane s)"

definition splitFocused :: "split_axis \<Rightarrow> pane_spec \<Rightarrow> ui_state \<Rightarrow> ui_state" where
  "splitFocused axis pane s =
     (case us_active s of
        None \<Rightarrow> s
      | Some c \<Rightarrow>
          (let (l, s1) = layoutFor c s
           in case (ly_root l, ly_focused l) of
                (Some _, Some f) \<Rightarrow> (let (p, q, s2) = two_ids s1 in setLayout c (splitPane l f axis pane p q) s2)
              | _ \<Rightarrow> (let (p, n) = nextNodeId ''p'' (us_ids s1) in setLayout c (singlePane pane p) (s1\<lparr>us_ids := n\<rparr>))))"

definition closeFocused :: "ui_state \<Rightarrow> ui_state" where
  "closeFocused s =
     (case us_active s of
        None \<Rightarrow> s
      | Some c \<Rightarrow>
          (let (l, s1) = layoutFor c s
           in case ly_focused l of None \<Rightarrow> s1 | Some f \<Rightarrow> setLayout c (closePane l f) s1))"

definition on_active :: "(pane_spec layout \<Rightarrow> pane_spec layout) \<Rightarrow> ui_state \<Rightarrow> ui_state" where
  "on_active g s = (case us_active s of None \<Rightarrow> s | Some c \<Rightarrow> (let (l, s1) = layoutFor c s in setLayout c (g l) s1))"

definition moveFocus :: "move_dir \<Rightarrow> ui_state \<Rightarrow> ui_state" where
  "moveFocus dir = on_active (\<lambda>l. focusMove l dir)"

definition ui_focusPane :: "string \<Rightarrow> ui_state \<Rightarrow> ui_state" where
  "ui_focusPane i = on_active (\<lambda>l. focusPane l i)"

definition resizeFocusedSplit :: "string \<Rightarrow> js_number \<Rightarrow> ui_state \<Rightarrow> ui_state" where
  "resizeFocusedSplit i q = on_active (\<lambda>l. resizeSplit l i q)"

definition focusedPane :: "ui_state \<Rightarrow> (string \<times> pane_spec) option \<times> ui_state" where
  "focusedPane s =
     (case us_active s of
        None \<Rightarrow> (None, s)
      | Some c \<Rightarrow>
          (let (l, s1) = layoutFor c s
           in (case ly_focused l of None \<Rightarrow> (None, s1) | Some f \<Rightarrow> (find_in l f, s1))))"

definition openRunTerminal :: "rat \<Rightarrow> string \<Rightarrow> string \<Rightarrow> ui_state \<Rightarrow> ui_state" where
  "openRunTerminal aspect c run s =
     place_or_focus aspect c (\<lambda>p. isTerminalFor p run) (PTerminal run None) (openComputer c s)"

definition openRunDiff :: "rat \<Rightarrow> string \<Rightarrow> string \<Rightarrow> ui_state \<Rightarrow> ui_state" where
  "openRunDiff aspect c run s =
     place_or_focus aspect c (\<lambda>p. isDiffFor p run) (PDiff (Some run) None None None) (openComputer c s)"

definition setPaletteOpen :: "bool \<Rightarrow> ui_state \<Rightarrow> ui_state" where
  "setPaletteOpen b s = s\<lparr>us_palette := b\<rparr>"

definition togglePalette :: "ui_state \<Rightarrow> ui_state" where
  "togglePalette s = s\<lparr>us_palette := (\<not> us_palette s)\<rparr>"

definition setNotice :: "string \<Rightarrow> ui_state \<Rightarrow> ui_state" where
  "setNotice t s = s\<lparr>us_notice := t\<rparr>"

section \<open>Panes of a tree\<close>

lemma containsPane_iff [simp]: "containsPane n i \<longleftrightarrow> i \<in> set (paneIds n)"
  by (induction n) auto

lemma findPane_None [simp]: "findPane n i = None \<longleftrightarrow> i \<notin> set (paneIds n)"
  by (induction n) (auto split: option.splits)

lemma findPane_Some: "findPane n i = Some (j, p) \<Longrightarrow> j = i \<and> i \<in> set (paneIds n)"
  by (induction n) (auto split: option.splits if_splits)

lemma findPaneBy_Some: "findPaneBy n f = Some (i, p) \<Longrightarrow> i \<in> set (paneIds n) \<and> f p"
  by (induction n) (auto split: option.splits if_splits)

lemma firstPaneId_in [simp]: "firstPaneId n \<in> set (paneIds n)"
  by (induction n) auto

lemma paneIds_nonempty [simp]: "paneIds n \<noteq> []"
  by (induction n) auto

text \<open>\<open>ratios_ok\<close>: every split is within the bounds that \<open>clampRatio\<close> keeps.\<close>

fun ratios_ok :: "'p wm_node \<Rightarrow> bool" where
  "ratios_ok (Pane i p) \<longleftrightarrow> True"
| "ratios_ok (Split i ax q a b) \<longleftrightarrow> MIN_RATIO \<le> q \<and> q \<le> MAX_RATIO \<and> ratios_ok a \<and> ratios_ok b"

lemma clampRatio_bounds: "MIN_RATIO \<le> clampRatio r \<and> clampRatio r \<le> MAX_RATIO"
  by (auto simp: clampRatio_def MIN_RATIO_def MAX_RATIO_def split: js_number.split)

lemma half_ok [simp]: "MIN_RATIO * 2 \<le> 1" "1 \<le> MAX_RATIO * 2"
  by (simp_all add: MIN_RATIO_def MAX_RATIO_def)

text \<open>The results of the two walks by their components.\<close>

lemma replace_Split [simp]:
  "replace_pane target ax p i s (Split j ax' q a b) =
     (Split j ax' q (fst (replace_pane target ax p i s a)) (fst (replace_pane target ax p i s b)),
      snd (replace_pane target ax p i s a) \<or> snd (replace_pane target ax p i s b))"
  by (simp add: case_prod_unfold Let_def)

lemma resize_Split [simp]:
  "resize_walk s r (Split j ax q a b) =
     (if j = s then (Split j ax r a b, True)
      else (Split j ax q (fst (resize_walk s r a)) (fst (resize_walk s r b)), snd (resize_walk s r a) \<or> snd (resize_walk s r b)))"
  by (simp add: case_prod_unfold Let_def)

declare replace_pane.simps(2) [simp del] resize_walk.simps(2) [simp del]

lemma replace_absent [simp]: "target \<notin> set (paneIds n) \<Longrightarrow> replace_pane target ax p i s n = (n, False)"
  by (induction n) auto

lemma replace_found: "snd (replace_pane target ax p i s n) \<longleftrightarrow> target \<in> set (paneIds n)"
  by (induction n) auto

lemma replace_set:
  "target \<in> set (paneIds n) \<Longrightarrow> set (paneIds (fst (replace_pane target ax p i s n))) = insert i (set (paneIds n))"
proof (induction n)
  case (Split j ax' q a b)
  then show ?case
    by (cases "target \<in> set (paneIds a)"; cases "target \<in> set (paneIds b)") auto
qed auto

lemma replace_distinct:
  "distinct (paneIds n) \<Longrightarrow> i \<notin> set (paneIds n) \<Longrightarrow> distinct (paneIds (fst (replace_pane target ax p i s n)))"
proof (induction n)
  case (Split j ax' q a b)
  then show ?case
    by (cases "target \<in> set (paneIds a)"; cases "target \<in> set (paneIds b)")
      (auto simp: replace_set)
qed auto

lemma replace_ratios: "ratios_ok n \<Longrightarrow> ratios_ok (fst (replace_pane target ax p i s n))"
  by (induction n) auto

lemma remove_spec:
  assumes "target \<in> set (paneIds n)"
  shows "case remove_pane target n rf of
      (None, rf') \<Rightarrow> (\<exists>p. n = Pane target p) \<and> rf' = rf
    | (Some t, rf') \<Rightarrow> paneIds t = remove1 target (paneIds n) \<and> (ratios_ok n \<longrightarrow> ratios_ok t)
        \<and> (rf = None \<longrightarrow> (\<exists>i\<in>set (paneIds t). rf' = Some i))"
  using assms
proof (induction n)
  case (Split i ax q a b)
  show ?case
  proof (cases "target \<in> set (paneIds a)")
    case True
    with Split.IH(1) show ?thesis by (auto simp: remove1_append split: prod.splits option.splits)
  next
    case False
    with Split show ?thesis by (auto simp: remove1_append split: prod.splits option.splits)
  qed
qed auto

lemma resize_walk_ids [simp]: "paneIds (fst (resize_walk s r n)) = paneIds n"
  by (induction n) auto

lemma resize_walk_ratios: "ratios_ok n \<Longrightarrow> MIN_RATIO \<le> r \<Longrightarrow> r \<le> MAX_RATIO \<Longrightarrow> ratios_ok (fst (resize_walk s r n))"
  by (induction n) auto

section \<open>Splitting, then closing\<close>

lemma remove_replace:
  assumes "distinct (paneIds n)" "target \<in> set (paneIds n)" "i \<notin> set (paneIds n)"
  shows "remove_pane i (fst (replace_pane target ax p i s n)) None = (Some n, Some target)"
  using assms
proof (induction n)
  case (Split j ax' q a b)
  show ?case
  proof (cases "target \<in> set (paneIds a)")
    case True
    then have "target \<notin> set (paneIds b)" using Split.prems(1) by auto
    then show ?thesis using True Split by (simp add: replace_set)
  next
    case False
    then show ?thesis using Split by (simp add: replace_set)
  qed
qed auto

text \<open>Closing undoes splitting.  In a layout with distinct panes, splitting a pane and closing the new
  one gives back the tree as it was, with the focus on the pane that was split.\<close>

theorem closePane_undoes_splitPane:
  assumes "ly_root l = Some n" "distinct (paneIds n)" "target \<in> set (paneIds n)" "i \<notin> set (paneIds n)"
  shows "closePane (splitPane l target ax p i s) i = l\<lparr>ly_focused := Some target\<rparr>"
proof -
  obtain t where t: "replace_pane target ax p i s n = (t, True)"
    using replace_found [of target ax p i s n] assms(3) by (cases "replace_pane target ax p i s n") auto
  have rem: "remove_pane i t None = (Some n, Some target)"
    using remove_replace [OF assms(2-4), of ax p s] t by simp
  have "i \<in> set (paneIds t)" using replace_set [OF assms(3), of ax p i s] t by simp
  moreover have "\<exists>j ax' q a b. t = Split j ax' q a b"
    using rem by (cases t) (auto split: if_splits)
  ultimately show ?thesis
    using rem assms(1) by (auto simp: splitPane_def closePane_def t)
qed

theorem closePane_undoes_splitPane_witness:
  "closePane (splitPane (singlePane (PFiles ''/'' None) ''p1'') ''p1'' AxRow (PRuns None) ''p2'' ''s3'') ''p2''
     = singlePane (PFiles ''/'' None) ''p1''"
  using closePane_undoes_splitPane [of "singlePane (PFiles ''/'' None) ''p1''" "Pane ''p1'' (PFiles ''/'' None)" "''p1''" "''p2''"
      AxRow "PRuns None" "''s3''"]
  by (simp add: singlePane_def)

section \<open>Tiling\<close>

text \<open>The rectangles of a tree as a list, and the half-open region of a rectangle.\<close>

fun leaf_rects :: "'p wm_node \<Rightarrow> rect \<Rightarrow> (string \<times> rect) list" where
  "leaf_rects (Pane i p) r = [(i, r)]"
| "leaf_rects (Split i AxRow q a b) r =
     leaf_rects a \<lparr>rx = rx r, ry = ry r, rw = rw r * q, rh = rh r\<rparr>
     @ leaf_rects b \<lparr>rx = rx r + rw r * q, ry = ry r, rw = rw r - rw r * q, rh = rh r\<rparr>"
| "leaf_rects (Split i AxColumn q a b) r =
     leaf_rects a \<lparr>rx = rx r, ry = ry r, rw = rw r, rh = rh r * q\<rparr>
     @ leaf_rects b \<lparr>rx = rx r, ry = ry r + rh r * q, rw = rw r, rh = rh r - rh r * q\<rparr>"

definition inside :: "rat \<Rightarrow> rat \<Rightarrow> rect \<Rightarrow> bool" where
  "inside x y r \<longleftrightarrow> rx r \<le> x \<and> x < rx r + rw r \<and> ry r \<le> y \<and> y < ry r + rh r"

lemma leaf_ids [simp]: "map fst (leaf_rects n r) = paneIds n"
  by (induction n r rule: leaf_rects.induct) auto

lemma leaf_ids_set [simp]: "fst ` set (leaf_rects n r) = set (paneIds n)"
  using leaf_ids [of n r] by (metis set_map)

lemma update_new: "i \<notin> fst ` set out \<Longrightarrow> AList.update i r out = out @ [(i, r)]"
  by (induction out) auto

lemma rect_walk_leaves:
  "distinct (paneIds n) \<Longrightarrow> set (paneIds n) \<inter> fst ` set out = {} \<Longrightarrow> rect_walk n r out = out @ leaf_rects n r"
proof (induction n r arbitrary: out rule: leaf_rects.induct)
  case (2 i q a b r)
  have "set (paneIds b) \<inter> fst ` set (out @ leaf_rects a \<lparr>rx = rx r, ry = ry r, rw = rw r * q, rh = rh r\<rparr>) = {}"
    using "2.prems" by (simp add: image_Un Int_Un_distrib) (auto dest: IntI)
  with "2.IH"(1) [of out] "2.IH"(2) "2.prems" show ?case by (simp add: Let_def image_Un Int_Un_distrib2)
next
  case (3 i q a b r)
  have "set (paneIds b) \<inter> fst ` set (out @ leaf_rects a \<lparr>rx = rx r, ry = ry r, rw = rw r, rh = rh r * q\<rparr>) = {}"
    using "3.prems" by (simp add: image_Un Int_Un_distrib) (auto dest: IntI)
  with "3.IH"(1) [of out] "3.IH"(2) "3.prems" show ?case by (simp add: Let_def image_Un Int_Un_distrib2)
qed (simp add: update_new)

lemma computeRects_leaves: "distinct (paneIds n) \<Longrightarrow> computeRects (Some n) = leaf_rects n unit_rect"
  by (simp add: computeRects_def rect_walk_leaves)

lemma ratio_part: "ratios_ok (Split i ax q a b) \<Longrightarrow> 0 < q \<and> q < 1"
  by (simp add: MIN_RATIO_def MAX_RATIO_def)

lemma part_of_width:
  fixes w q :: rat
  assumes "0 \<le> w" "0 < q" "q < 1"
  shows "0 \<le> w * q" "w * q \<le> w"
  using assms by (simp_all add: mult_left_le)

text \<open>A point of a rectangle is in exactly one of the rectangles it is split into.\<close>

lemma leaf_count:
  "ratios_ok n \<Longrightarrow> 0 \<le> rw r \<Longrightarrow> 0 \<le> rh r \<Longrightarrow>
     length (filter (\<lambda>l. inside x y (snd l)) (leaf_rects n r)) = (if inside x y r then 1 else 0)"
proof (induction n r rule: leaf_rects.induct)
  case (2 i q a b r)
  note q = ratio_part [OF "2.prems"(1)]
  note w = part_of_width [OF "2.prems"(2) conjunct1 [OF q] conjunct2 [OF q]]
  have "ratios_ok a" "ratios_ok b" using "2.prems"(1) by simp_all
  then show ?case using "2.IH" "2.prems"(3) w by (auto simp: inside_def)
next
  case (3 i q a b r)
  note q = ratio_part [OF "3.prems"(1)]
  note w = part_of_width [OF "3.prems"(3) conjunct1 [OF q] conjunct2 [OF q]]
  have "ratios_ok a" "ratios_ok b" using "3.prems"(1) by simp_all
  then show ?case using "3.IH" "3.prems"(2) w by (auto simp: inside_def)
qed simp

lemma leaf_positive:
  "ratios_ok n \<Longrightarrow> 0 < rw r \<Longrightarrow> 0 < rh r \<Longrightarrow> (i, l) \<in> set (leaf_rects n r) \<Longrightarrow> 0 < rw l \<and> 0 < rh l"
proof (induction n r rule: leaf_rects.induct)
  case (2 j q a b r)
  note q = ratio_part [OF "2.prems"(1)]
  have "ratios_ok a" "ratios_ok b" using "2.prems"(1) by simp_all
  then show ?case using "2.IH" "2.prems"(2-4) q by auto
next
  case (3 j q a b r)
  note q = ratio_part [OF "3.prems"(1)]
  have "ratios_ok a" "ratios_ok b" using "3.prems"(1) by simp_all
  then show ?case using "3.IH" "3.prems"(2-4) q by auto
qed simp

lemma one_of_filter: "length (filter P xs) = 1 \<Longrightarrow> \<exists>!x. x \<in> set xs \<and> P x"
proof -
  assume "length (filter P xs) = 1"
  then obtain z where "filter P xs = [z]" by (auto simp: length_Suc_conv)
  moreover have "x \<in> set xs \<and> P x \<longleftrightarrow> x \<in> set (filter P xs)" for x by auto
  ultimately show ?thesis by simp
qed

text \<open>C17: The panes tile the workspace.  With distinct panes and ratios within the bounds of \<open>clampRatio\<close>,
  every pane has a rectangle of positive size, and each point of the unit square lies in the rectangle of
  exactly one pane.\<close>

theorem panes_tile_the_workspace:
  assumes "distinct (paneIds n)" "ratios_ok n" "inside x y unit_rect"
  shows "(\<exists>!i. \<exists>r. map_of (computeRects (Some n)) i = Some r \<and> inside x y r)
    \<and> list_all (\<lambda>l. 0 < rw (snd l) \<and> 0 < rh (snd l)) (computeRects (Some n))
    \<and> map fst (computeRects (Some n)) = paneIds n"
proof -
  let ?rs = "leaf_rects n unit_rect"
  have u: "0 < rw unit_rect" "0 < rh unit_rect" by (simp_all add: unit_rect_def)
  have "length (filter (\<lambda>l. inside x y (snd l)) ?rs) = 1"
    using leaf_count [OF assms(2), of unit_rect x y] u assms(3) by simp
  then have "\<exists>!l. l \<in> set ?rs \<and> inside x y (snd l)" by (rule one_of_filter)
  moreover have "map_of ?rs i = Some r \<longleftrightarrow> (i, r) \<in> set ?rs" for i r
    using assms(1) by (simp add: map_of_eq_Some_iff)
  ultimately have "\<exists>!i. \<exists>r. map_of ?rs i = Some r \<and> inside x y r" by (metis prod.collapse snd_conv fst_conv)
  then show ?thesis
    using leaf_positive [OF assms(2) u] by (auto simp: computeRects_leaves [OF assms(1)] list_all_iff)
qed

theorem panes_tile_the_workspace_witness:
  "map fst (computeRects (Some (Split ''s'' AxRow (1/2) (Pane ''a'' ()) (Pane ''b'' ())))) = [''a'', ''b'']"
proof -
  let ?n = "Split ''s'' AxRow (1/2) (Pane ''a'' ()) (Pane ''b'' ())"
  have "distinct (paneIds ?n)" "ratios_ok ?n" "inside (3/4) (1/4) unit_rect"
    by (simp_all add: inside_def unit_rect_def)
  from panes_tile_the_workspace [OF this] show ?thesis by simp
qed

section \<open>Every layout of the store is sound\<close>

lemma dec_nat_nonempty [simp]: "dec_nat n \<noteq> []" "[] \<noteq> dec_nat n"
  by (subst dec_nat.simps, simp)+

lemma dec_nat_inj: "dec_nat m = dec_nat n \<Longrightarrow> m = n"
proof (induction m arbitrary: n rule: less_induct)
  case (less m)
  have digit: "char_of (48 + a) = (char_of (48 + b) :: char) \<longleftrightarrow> a = b" if "a < 10" "b < 10" for a b :: nat
    using that arg_cong [of "char_of (48 + a)" "char_of (48 + b)" "of_char :: char \<Rightarrow> nat"] by auto
  have dm: "dec_nat m = (if m < 10 then [char_of (48 + m)] else dec_nat (m div 10) @ [char_of (48 + m mod 10)])"
    and dn: "dec_nat n = (if n < 10 then [char_of (48 + n)] else dec_nat (n div 10) @ [char_of (48 + n mod 10)])"
    by (rule dec_nat.simps)+
  show ?case
  proof (cases "m < 10 \<or> n < 10")
    case True
    then show ?thesis using less.prems digit [of m n] dm dn by (auto split: if_splits)
  next
    case False
    then have parts: "dec_nat (m div 10) = dec_nat (n div 10)" "m mod 10 = n mod 10"
      using less.prems digit [of "m mod 10" "n mod 10"] dm dn by simp_all
    have "m div 10 = n div 10" using less.IH [OF _ parts(1)] False by simp
    then show ?thesis using parts(2) by (metis div_mult_mod_eq)
  qed
qed

text \<open>The ids a counter has given out to panes.\<close>

definition issued :: "nat \<Rightarrow> string \<Rightarrow> bool" where
  "issued n i \<longleftrightarrow> (\<exists>k\<le>n. i = ''p'' @ dec_nat k)"

lemma issued_mono: "issued n i \<Longrightarrow> n \<le> m \<Longrightarrow> issued m i"
  by (auto simp: issued_def intro: le_trans)

lemma fresh_not_issued: "\<not> issued n (''p'' @ dec_nat (Suc n))"
  by (auto simp: issued_def dest!: dec_nat_inj)

text \<open>A sound layout: distinct panes from ids given out, ratios in bounds, and a focus on a pane it has.\<close>

definition layout_ok :: "nat \<Rightarrow> 'p layout \<Rightarrow> bool" where
  "layout_ok n l \<longleftrightarrow>
     (case ly_root l of
        None \<Rightarrow> ly_focused l = None
      | Some t \<Rightarrow> distinct (paneIds t) \<and> list_all (issued n) (paneIds t) \<and> ratios_ok t
                  \<and> (case ly_focused l of None \<Rightarrow> False | Some i \<Rightarrow> i \<in> set (paneIds t)))"

lemma layout_ok_mono: "layout_ok n l \<Longrightarrow> n \<le> m \<Longrightarrow> layout_ok m l"
  by (auto simp: layout_ok_def list_all_iff intro: issued_mono split: option.splits)

lemma single_ok: "issued n i \<Longrightarrow> layout_ok n (singlePane p i)"
  by (simp add: layout_ok_def singlePane_def)

lemma split_ok:
  assumes "layout_ok n l" "issued m i" "\<not> issued n i" "n \<le> m"
  shows "layout_ok m (splitPane l target ax p i s)"
proof (cases "ly_root l")
  case None
  then show ?thesis using assms(2) by (simp add: splitPane_def single_ok)
next
  case (Some t)
  have t: "distinct (paneIds t)" "list_all (issued n) (paneIds t)" "ratios_ok t"
    using assms(1) Some by (auto simp: layout_ok_def)
  show ?thesis
  proof (cases "target \<in> set (paneIds t)")
    case True
    have "i \<notin> set (paneIds t)" using t(2) assms(3) by (auto simp: list_all_iff)
    then have "layout_ok m \<lparr>ly_root = Some (fst (replace_pane target ax p i s t)), ly_focused = Some i\<rparr>"
      using t assms(2,4) True
      by (auto simp: layout_ok_def replace_set replace_distinct replace_ratios list_all_iff intro: issued_mono)
    then show ?thesis using Some True replace_found [of target ax p i s t]
      by (simp add: splitPane_def case_prod_unfold Let_def)
  next
    case False
    then show ?thesis using Some layout_ok_mono [OF assms(1,4)] by (simp add: splitPane_def)
  qed
qed

text \<open>An operation on the layout of the active computer keeps it sound.\<close>

locale layout_operation =
  fixes op :: "pane_spec layout \<Rightarrow> pane_spec layout"
  assumes sound: "layout_ok n l \<Longrightarrow> layout_ok n (op l)"
begin

lemma stored_sound:
  "list_all (\<lambda>e. layout_ok n (snd e)) ls \<Longrightarrow> layout_ok n l \<Longrightarrow> list_all (\<lambda>e. layout_ok n (snd e)) (AList.update c (op l) ls)"
  by (induction ls) (auto simp: sound)

end

lemma closePane_ok:
  assumes "layout_ok n l"
  shows "layout_ok n (closePane l target)"
proof (cases "ly_root l")
  case None
  then show ?thesis using assms by (simp add: closePane_def)
next
  case (Some t)
  show ?thesis
  proof (cases "target \<in> set (paneIds t)")
    case True
    have t: "distinct (paneIds t)" "list_all (issued n) (paneIds t)" "ratios_ok t"
      using assms Some by (auto simp: layout_ok_def)
    show ?thesis
    proof (cases t)
      case (Pane i p)
      then show ?thesis using True Some by (simp add: closePane_def layout_ok_def emptyLayout_def)
    next
      case (Split j ax q a b)
      obtain u rf where rem: "remove_pane target t None = (Some u, Some rf)" "rf \<in> set (paneIds u)"
        and ids: "paneIds u = remove1 target (paneIds t)" and ratios: "ratios_ok u"
        using remove_spec [OF True, of None] Split t(3) by (auto split: prod.splits option.splits)
      have "layout_ok n \<lparr>ly_root = Some u, ly_focused = Some i\<rparr>" if "i \<in> set (paneIds u)" for i
        using that t ratios by (auto simp: layout_ok_def ids list_all_iff dest: set_remove1_subset [THEN subsetD])
      then show ?thesis
        using rem True Some Split by (auto simp: closePane_def Let_def split: option.split)
    qed
  next
    case False
    then show ?thesis using assms Some by (simp add: closePane_def)
  qed
qed

lemma resize_ok: "layout_ok n l \<Longrightarrow> layout_ok n (resizeSplit l s r)"
  using clampRatio_bounds [of r]
  by (auto simp: layout_ok_def resizeSplit_def case_prod_unfold Let_def resize_walk_ratios split: option.splits)

lemma focus_ok: "layout_ok n l \<Longrightarrow> layout_ok n (focusPane l i)"
  by (auto simp: layout_ok_def focusPane_def find_in_def dest: findPane_Some split: option.splits)

lemma move_step_in:
  "best = None \<or> fst (the best) \<in> A \<Longrightarrow> fst e \<in> A \<Longrightarrow>
     move_step dir f from e best = None \<or> fst (the (move_step dir f from e best)) \<in> A"
  by (auto simp: move_step_def Let_def split: prod.splits option.splits)

lemma move_fold_in:
  "best = None \<or> fst (the best) \<in> A \<Longrightarrow> fst ` set rs \<subseteq> A \<Longrightarrow>
     fold (move_step dir f from) rs best = None \<or> fst (the (fold (move_step dir f from) rs best)) \<in> A"
proof (induction rs arbitrary: best)
  case (Cons e rs)
  have "fst e \<in> A" using Cons.prems(2) by simp
  from Cons.IH [OF move_step_in [OF Cons.prems(1) this]] show ?case using Cons.prems(2) by simp
qed simp

lemma move_ok:
  assumes "layout_ok n l"
  shows "layout_ok n (focusMove l dir)"
proof -
  have "i \<in> set (paneIds t)"
    if "ly_root l = Some t" "fold (move_step dir f from) (computeRects (Some t)) None = Some (i, x)" for t f "from" i x
    using move_fold_in [of None "set (paneIds t)" "computeRects (Some t)" dir f "from"] that assms
    by (simp add: layout_ok_def computeRects_leaves split: option.splits)
  then show ?thesis
    using assms by (auto simp: focusMove_def layout_ok_def Let_def split: option.splits)
qed

interpretation moving: layout_operation "\<lambda>l. focusMove l dir" for dir
  by unfold_locales (rule move_ok)

interpretation focusing: layout_operation "\<lambda>l. focusPane l i" for i
  by unfold_locales (rule focus_ok)

interpretation resizing: layout_operation "\<lambda>l. resizeSplit l s q" for s q
  by unfold_locales (rule resize_ok)

interpretation closing: layout_operation "\<lambda>l. closePane l i" for i
  by unfold_locales (rule closePane_ok)

definition ui_inv :: "ui_state \<Rightarrow> bool" where
  "ui_inv s \<longleftrightarrow> list_all (\<lambda>e. layout_ok (us_ids s) (snd e)) (us_layouts s)"

lemma ids_mono: "list_all (\<lambda>e. layout_ok n (snd e)) ls \<Longrightarrow> n \<le> m \<Longrightarrow> list_all (\<lambda>e. layout_ok m (snd e)) ls"
  by (auto simp: list_all_iff intro: layout_ok_mono)

lemma update_all: "list_all P ls \<Longrightarrow> P (c, l) \<Longrightarrow> list_all P (AList.update c l ls)"
  by (induction ls) auto

lemma default_ok: "layout_ok (Suc n) (fst (defaultLayout n))" "snd (defaultLayout n) = Suc n"
  by (simp_all add: defaultLayout_def nextNodeId_def single_ok issued_def exI [of _ "Suc n"])

lemma setLayout_inv: "ui_inv s \<Longrightarrow> layout_ok (us_ids s) l \<Longrightarrow> ui_inv (setLayout c l s)"
  by (auto simp: ui_inv_def setLayout_def intro: update_all)

lemma setLayout_ids [simp]: "us_ids (setLayout c l s) = us_ids s"
  by (simp add: setLayout_def)

lemma layoutFor_inv:
  assumes "ui_inv s"
  shows "ui_inv (snd (layoutFor c s))" "layout_ok (us_ids (snd (layoutFor c s))) (fst (layoutFor c s))"
    "us_ids s \<le> us_ids (snd (layoutFor c s))"
proof -
  have "ui_inv (snd (layoutFor c s)) \<and> layout_ok (us_ids (snd (layoutFor c s))) (fst (layoutFor c s))
      \<and> us_ids s \<le> us_ids (snd (layoutFor c s))"
  proof (cases "map_of (us_layouts s) c")
    case None
    have "ui_inv (s\<lparr>us_ids := Suc (us_ids s)\<rparr>)"
      using ids_mono [of "us_ids s" "us_layouts s" "Suc (us_ids s)"] assms by (simp add: ui_inv_def)
    then show ?thesis using None default_ok [of "us_ids s"] by (simp add: layoutFor_def case_prod_unfold Let_def)
  next
    case (Some l)
    have "layout_ok (us_ids s) l" using map_of_SomeD [OF Some] assms by (force simp: ui_inv_def list_all_iff)
    then show ?thesis using Some assms by (simp add: layoutFor_def)
  qed
  then show "ui_inv (snd (layoutFor c s))" "layout_ok (us_ids (snd (layoutFor c s))) (fst (layoutFor c s))"
    "us_ids s \<le> us_ids (snd (layoutFor c s))" by blast+
qed

lemma open_inv:
  assumes "ui_inv s"
  shows "ui_inv (openComputer c s) \<and> us_ids s \<le> us_ids (openComputer c s)"
proof (cases "map_of (us_layouts s) c")
  case None
  have "list_all (\<lambda>e. layout_ok (Suc (us_ids s)) (snd e)) (us_layouts s)"
    using ids_mono [of "us_ids s" "us_layouts s" "Suc (us_ids s)"] assms by (simp add: ui_inv_def)
  then have "list_all (\<lambda>e. layout_ok (Suc (us_ids s)) (snd e))
      (AList.update c (fst (defaultLayout (us_ids s))) (us_layouts s))"
    using default_ok(1) [of "us_ids s"] by (intro update_all) simp_all
  then show ?thesis using None default_ok(2) by (simp add: openComputer_def case_prod_unfold Let_def ui_inv_def)
next
  case (Some l)
  then show ?thesis using assms by (simp add: openComputer_def ui_inv_def)
qed

lemma two_ids_inv:
  assumes "ui_inv s"
  shows "ui_inv (snd (snd (two_ids s)))" "us_ids (snd (snd (two_ids s))) = Suc (Suc (us_ids s))"
    "issued (us_ids (snd (snd (two_ids s)))) (fst (two_ids s))" "\<not> issued (us_ids s) (fst (two_ids s))"
  using assms fresh_not_issued [of "us_ids s"] ids_mono [of "us_ids s" "us_layouts s" "Suc (Suc (us_ids s))"]
  by (simp_all add: two_ids_def nextNodeId_def ui_inv_def) (simp add: issued_def exI [of _ "Suc (us_ids s)"])

lemma auto_ok:
  assumes "layout_ok n l" "issued m i" "\<not> issued n i" "n \<le> m"
  shows "layout_ok m (autoPlace l p aspect i s)"
  using layout_ok_mono [OF assms(1,4)] split_ok [OF assms] single_ok [OF assms(2)]
  by (auto simp: autoPlace_def Let_def split: option.split)

text \<open>Two fresh ids and an operation that uses them.\<close>

lemma placed_inv:
  assumes "ui_inv s" "layout_ok (us_ids s) l"
    and "\<And>m i q. issued m i \<Longrightarrow> \<not> issued (us_ids s) i \<Longrightarrow> us_ids s \<le> m \<Longrightarrow> layout_ok m (g i q)"
  shows "ui_inv (let (i, q, s2) = two_ids s in setLayout c (g i q) s2)"
    and "us_ids s \<le> us_ids (let (i, q, s2) = two_ids s in setLayout c (g i q) s2)"
proof -
  obtain i q s2 where t: "two_ids s = (i, q, s2)" by (metis prod.exhaust)
  note f = two_ids_inv [OF assms(1), unfolded t fst_conv snd_conv]
  have "layout_ok (us_ids s2) (g i q)" using assms(3) [OF f(3,4)] f(2) by simp
  then show "ui_inv (let (i, q, s2) = two_ids s in setLayout c (g i q) s2)"
    "us_ids s \<le> us_ids (let (i, q, s2) = two_ids s in setLayout c (g i q) s2)"
    using setLayout_inv [OF f(1)] f(2) by (simp_all add: t)
qed

lemma place_inv:
  assumes "ui_inv s"
  shows "ui_inv (place_or_focus aspect c f pane s) \<and> us_ids s \<le> us_ids (place_or_focus aspect c f pane s)"
proof -
  obtain l s1 where l: "layoutFor c s = (l, s1)" by (rule prod.exhaust)
  note a = layoutFor_inv [OF assms, of c, unfolded l fst_conv snd_conv]
  note b = placed_inv [OF a(1,2), where c = c and g = "autoPlace l pane aspect", OF auto_ok [OF a(2)]]
  show ?thesis
  proof (cases "case ly_root l of None \<Rightarrow> None | Some n \<Rightarrow> findPaneBy n f")
    case None
    then have "place_or_focus aspect c f pane s = (let (p, q, s2) = two_ids s1 in setLayout c (autoPlace l pane aspect p q) s2)"
      by (simp only: place_or_focus_def l Let_def prod.case option.case)
    then show ?thesis using a(3) b by (metis le_trans)
  next
    case (Some x)
    then have "place_or_focus aspect c f pane s = setLayout c (focusPane l (fst x)) s1"
      by (cases x) (simp only: place_or_focus_def l Let_def prod.case option.case fst_conv)
    then show ?thesis using a(3) setLayout_inv [OF a(1) focus_ok [OF a(2)]] by simp
  qed
qed

lemma splitFocused_inv:
  assumes "ui_inv s"
  shows "ui_inv (splitFocused axis pane s) \<and> us_ids s \<le> us_ids (splitFocused axis pane s)"
proof (cases "us_active s")
  case (Some c)
  obtain l s1 where l: "layoutFor c s = (l, s1)" by (rule prod.exhaust)
  note a = layoutFor_inv [OF assms, of c, unfolded l fst_conv snd_conv]
  have one: "ui_inv (setLayout c (singlePane pane (''p'' @ dec_nat (Suc (us_ids s1)))) (s1\<lparr>us_ids := Suc (us_ids s1)\<rparr>))"
  proof (rule setLayout_inv)
    show "ui_inv (s1\<lparr>us_ids := Suc (us_ids s1)\<rparr>)"
      using ids_mono [of "us_ids s1" "us_layouts s1" "Suc (us_ids s1)"] a(1) by (simp add: ui_inv_def)
    show "layout_ok (us_ids (s1\<lparr>us_ids := Suc (us_ids s1)\<rparr>)) (singlePane pane (''p'' @ dec_nat (Suc (us_ids s1))))"
      by (rule single_ok) (simp add: issued_def exI [of _ "Suc (us_ids s1)"])
  qed
  note two = placed_inv [OF a(1,2), where c = c and g = "splitPane l f axis pane" for f, OF split_ok [OF a(2)]]
  show ?thesis
  proof (cases "ly_root l = None \<or> ly_focused l = None")
    case True
    then show ?thesis using Some a(3) one by (auto simp: splitFocused_def l nextNodeId_def split: option.split)
  next
    case False
    then obtain t f where "ly_root l = Some t" "ly_focused l = Some f" by auto
    then show ?thesis using Some a(3) two [of f] by (simp add: splitFocused_def l)
  qed
qed (simp add: splitFocused_def assms)

lemma on_active_inv:
  assumes "ui_inv s" "layout_operation g"
  shows "ui_inv (on_active g s) \<and> us_ids s \<le> us_ids (on_active g s)"
proof (cases "us_active s")
  case (Some c)
  obtain l s1 where l: "layoutFor c s = (l, s1)" by (rule prod.exhaust)
  note a = layoutFor_inv [OF assms(1), of c, unfolded l fst_conv snd_conv]
  show ?thesis
    using Some a setLayout_inv [OF a(1) layout_operation.sound [OF assms(2) a(2)]] by (simp add: on_active_def l)
qed (simp add: on_active_def assms)

lemma close_inv:
  assumes "ui_inv s"
  shows "ui_inv (closeFocused s) \<and> us_ids s \<le> us_ids (closeFocused s)"
proof (cases "us_active s")
  case (Some c)
  obtain l s1 where l: "layoutFor c s = (l, s1)" by (rule prod.exhaust)
  note a = layoutFor_inv [OF assms, of c, unfolded l fst_conv snd_conv]
  show ?thesis
    using Some a setLayout_inv [OF a(1) closePane_ok [OF a(2)]] by (auto simp: closeFocused_def l split: option.split)
qed (simp add: closeFocused_def assms)

text \<open>What a user does to the store; a layout read back from storage is not among it.\<close>

datatype ui_op =
    UiOpen string | UiSlot nat | UiAdd rat pane_spec | UiSplit split_axis pane_spec | UiClose | UiMove move_dir
  | UiFocus string | UiResize string js_number | UiTerminal rat string string | UiDiff rat string string
  | UiReset | UiFleet | UiPalette | UiNotice string | UiWorkspaces "string list"

fun ui_step :: "ui_op \<Rightarrow> ui_state \<Rightarrow> ui_state" where
  "ui_step (UiOpen c) s = openComputer c s"
| "ui_step (UiSlot i) s = switchToSlot i s"
| "ui_step (UiAdd aspect p) s = addPane aspect p s"
| "ui_step (UiSplit ax p) s = splitFocused ax p s"
| "ui_step UiClose s = closeFocused s"
| "ui_step (UiMove d) s = moveFocus d s"
| "ui_step (UiFocus i) s = ui_focusPane i s"
| "ui_step (UiResize i q) s = resizeFocusedSplit i q s"
| "ui_step (UiTerminal aspect c r) s = openRunTerminal aspect c r s"
| "ui_step (UiDiff aspect c r) s = openRunDiff aspect c r s"
| "ui_step UiReset s = resetForSession s"
| "ui_step UiFleet s = goFleet s"
| "ui_step UiPalette s = togglePalette s"
| "ui_step (UiNotice t) s = setNotice t s"
| "ui_step (UiWorkspaces cs) s = setWorkspaces cs s"

lemma ui_step_inv:
  assumes "ui_inv s"
  shows "ui_inv (ui_step e s) \<and> us_ids s \<le> us_ids (ui_step e s)"
proof (cases e)
  case (UiSlot i)
  then show ?thesis using assms open_inv by (simp add: switchToSlot_def)
next
  case (UiAdd aspect p)
  then show ?thesis using assms place_inv by (simp add: addPane_def split: option.split)
next
  case (UiTerminal aspect c r)
  then show ?thesis
    using place_inv [OF conjunct1 [OF open_inv [OF assms]]] open_inv [OF assms, of c] by (simp add: openRunTerminal_def) (meson le_trans)
next
  case (UiDiff aspect c r)
  then show ?thesis
    using place_inv [OF conjunct1 [OF open_inv [OF assms]]] open_inv [OF assms, of c] by (simp add: openRunDiff_def) (meson le_trans)
qed (use assms open_inv splitFocused_inv close_inv on_active_inv moving.layout_operation_axioms
      focusing.layout_operation_axioms resizing.layout_operation_axioms in
    \<open>simp_all add: moveFocus_def ui_focusPane_def resizeFocusedSplit_def ui_inv_def resetForSession_def goFleet_def
       togglePalette_def setNotice_def setWorkspaces_def\<close>)

interpretation store: guarded_machine ui_step ui_inv us_ids
  by unfold_locales (simp_all add: ui_step_inv)

text \<open>Every layout of the store is sound.  Whatever a user does, in any order and over any number of
  computers, each layout has distinct panes whose ids were given out by the counter, splits within the
  ratio bounds, and a focus that is one of its panes exactly when it has any.\<close>

theorem store_layouts_are_sound:
  "list_all (\<lambda>(c, l). layout_ok (us_ids (fold ui_step es initial_ui)) l) (us_layouts (fold ui_step es initial_ui))"
proof -
  have "ui_inv initial_ui" by (simp add: ui_inv_def initial_ui_def)
  from store.all_kept [OF this, of es] show ?thesis by (simp add: ui_inv_def case_prod_unfold)
qed

section \<open>Storage and reload\<close>

lemma num_js_ratio [simp]: "ratio_of (num_js q) = Some q"
  by (simp add: ratio_of_def)

lemma axis_word_axis [simp]: "axis_of (JStr (axis_word ax)) = Some ax"
  by (cases ax) (simp_all add: axis_of_def)

lemma js_get_Cons [simp]: "get ((k, v) # h) j = (if k = j then v else get h j)"
  by (simp add: get_def)

lemma read_node_js:
  "(\<And>p. p \<in> set_wm_node n \<Longrightarrow> pane_ok (pj p)) \<Longrightarrow> read_node (node_js pj n) = Some (map_wm_node pj n)"
  by (induction n) (simp_all add: read_node.simps [of "JObj h" for h])

lemma node_js_not_null [simp]: "node_js pj n \<noteq> JNull"
  by (cases n) simp_all

text \<open>C18: A layout survives storage.  A layout whose panes have known kinds is read back from its persisted form
  as the same tree, with the same ids, axes, ratios and focus.\<close>

theorem layout_survives_storage:
  assumes "\<And>n p. ly_root l = Some n \<Longrightarrow> p \<in> set_wm_node n \<Longrightarrow> pane_ok (pj p)"
  shows "deserializeLayout (serializeLayout pj l)
    = Some \<lparr>ly_root = map_option (map_wm_node pj) (ly_root l), ly_focused = ly_focused l\<rparr>"
  using assms
  by (cases "ly_root l"; cases "ly_focused l")
    (simp_all add: serializeLayout_def deserializeLayout_def null_or_def Let_def read_node_js)

definition files_js :: "string \<Rightarrow> js" where
  "files_js p = JObj [(''kind'', JStr ''files''), (''path'', JStr p)]"

theorem layout_survives_storage_witness:
  "deserializeLayout (serializeLayout files_js \<lparr>ly_root = Some (Split ''s3'' AxRow (1/2) (Pane ''p1'' ''/'') (Pane ''p2'' ''/a'')),
       ly_focused = Some ''p2''\<rparr>)
   = Some \<lparr>ly_root = Some (Split ''s3'' AxRow (1/2) (Pane ''p1'' (files_js ''/'')) (Pane ''p2'' (files_js ''/a''))),
       ly_focused = Some ''p2''\<rparr>"
  using layout_survives_storage [of "\<lparr>ly_root = Some (Split ''s3'' AxRow (1/2) (Pane ''p1'' ''/'') (Pane ''p2'' ''/a'')),
       ly_focused = Some ''p2''\<rparr>" files_js]
  by (simp add: files_js_def pane_ok_def PANE_KINDS_def)

lemma small_ids: "dec_nat (Suc 0) = ''1''" "dec_nat (Suc (Suc 0)) = ''2''" "dec_nat (Suc (Suc (Suc 0))) = ''3''"
  by code_simp+

text \<open>The layout of the first session, and the state of a page that was reloaded: the counter of ids starts again,
  the workspace opens with its default layout and then takes the stored one (\<^verbatim>\<open>Workspace.tsx\<close>).\<close>

definition first_session :: "rat \<Rightarrow> pane_spec \<Rightarrow> string \<Rightarrow> ui_state" where
  "first_session aspect p c = addPane aspect p (openComputer c initial_ui)"

definition reloaded :: "string \<Rightarrow> pane_spec layout \<Rightarrow> ui_state" where
  "reloaded c l = setLayout c l (openComputer c initial_ui)"

lemma opened: "openComputer c initial_ui =
    \<lparr>us_view = ViewWorkspace, us_workspaces = [c], us_active = Some c,
     us_layouts = [(c, singlePane (PFiles ''/'' None) ''p1'')], us_palette = False, us_notice = '''', us_ids = Suc 0\<rparr>"
  by (simp add: openComputer_def initial_ui_def defaultLayout_def nextNodeId_def small_ids)

lemma first_layout:
  assumes "\<not> samePane (PFiles ''/'' None) p"
  shows "\<exists>ax. map_of (us_layouts (first_session aspect p c)) c =
    Some \<lparr>ly_root = Some (Split ''s3'' ax (1/2) (Pane ''p1'' (PFiles ''/'' None)) (Pane ''p2'' p)), ly_focused = Some ''p2''\<rparr>"
  using assms
  by (auto simp: first_session_def opened addPane_def place_or_focus_def layoutFor_def singlePane_def
      two_ids_def nextNodeId_def small_ids autoPlace_def computeRects_def unit_rect_def area_step_def setLayout_def
      splitPane_def)

text \<open>A reload gives an id to two panes.  The node ids of a restored layout come from the counter of an earlier
  page, and the counter of this page starts over: after a reload, the pane added next gets the id of a pane
  that is already there.  Three panes then have two ids, only two rectangles are computed for them, and the
  older of the twins can no longer be found or focused.\<close>

theorem reload_gives_an_id_to_two_panes:
  assumes "\<not> samePane (PFiles ''/'' None) p" "\<not> samePane (PFiles ''/'' None) p'" "\<not> samePane p p'"
  shows "\<exists>l l'. map_of (us_layouts (first_session aspect p c)) c = Some l
    \<and> map_of (us_layouts (addPane aspect' p' (reloaded c l))) c = Some l'
    \<and> map_option paneIds (ly_root l') = Some [''p1'', ''p2'', ''p2'']
    \<and> length (computeRects (ly_root l')) = 2 \<and> find_in l' ''p2'' = Some (''p2'', p')"
proof -
  obtain ax where l: "map_of (us_layouts (first_session aspect p c)) c =
      Some \<lparr>ly_root = Some (Split ''s3'' ax (1/2) (Pane ''p1'' (PFiles ''/'' None)) (Pane ''p2'' p)), ly_focused = Some ''p2''\<rparr>"
    (is "_ = Some ?l") using first_layout [OF assms(1)] by blast
  have "\<exists>l'. map_of (us_layouts (addPane aspect' p' (reloaded c ?l))) c = Some l'
    \<and> map_option paneIds (ly_root l') = Some [''p1'', ''p2'', ''p2'']
    \<and> length (computeRects (ly_root l')) = 2 \<and> find_in l' ''p2'' = Some (''p2'', p')"
    using assms(2,3)
    by (cases ax) (auto simp: reloaded_def opened addPane_def place_or_focus_def layoutFor_def
        two_ids_def nextNodeId_def small_ids autoPlace_def computeRects_def unit_rect_def area_step_def setLayout_def
        splitPane_def EPS_def find_in_def Let_def)
  then show ?thesis using l by blast
qed

theorem reload_gives_an_id_to_two_panes_witness:
  "\<exists>l l'. map_of (us_layouts (first_session 2 (PRuns None) ''c'')) ''c'' = Some l
    \<and> map_of (us_layouts (addPane 2 (PVault None) (reloaded ''c'' l))) ''c'' = Some l'
    \<and> map_option paneIds (ly_root l') = Some [''p1'', ''p2'', ''p2'']"
  using reload_gives_an_id_to_two_panes [of "PRuns None" "PVault None" 2 "''c''" 2] by auto

end
