(* ===== verification/Credentials.thy ===== *)
theory Credentials
  imports Validate JsNumber
begin

text \<open>
  The store credentials of a computer (\<^verbatim>\<open>control-plane/src/r2-credentials.ts\<close>): the namespace of an
  account, the key prefixes one computer may touch, the request for a temporary credential and the
  environment handed to the machine.

  \<open>sha\<close> is SHA-256 of a string as bytes.  The HTTP exchange is a function \<open>ask\<close> from the request to
  an \<open>api_answer\<close>: the status and the decoded body, a refusal by the 15-second timer, or a failure of
  the network.  What the tenancy rests on of the service is \<open>in_scope\<close>: a credential reaches the keys
  that start with one of its prefixes and its exact objects.
\<close>

section \<open>Constants and data\<close>

definition R2_TEMP_PERMISSION :: string where "R2_TEMP_PERMISSION = ''object-read-write''"
definition R2_TEMP_TTL_MAX_SECONDS :: int where "R2_TEMP_TTL_MAX_SECONDS = 604800"
definition R2_TEMP_TTL_DEFAULT_SECONDS :: int where "R2_TEMP_TTL_DEFAULT_SECONDS = 86400"
definition R2_TEMP_TTL_MIN_SECONDS :: int where "R2_TEMP_TTL_MIN_SECONDS = 900"
definition CF_API_BASE :: string where "CF_API_BASE = ''https://api.cloudflare.com/client/v4''"

record store_env =
  se_storeUri :: "string option"
  se_account :: "string option"
  se_parentKey :: "string option"
  se_parentToken :: "string option"
  se_ttl :: "string option"
  se_accessKey :: "string option"
  se_secretKey :: "string option"
  se_endpoint :: "string option"
  se_allowStatic :: "string option"

datatype cred_error =
    NoBucket | NoOwner | BadComputerId | NoEndpoint | OutsideTenant | MintStatus int | MintNotJson | MintIncomplete
  | MintTimedOut | MintNetwork | NoCredentials

section \<open>Namespaces\<close>

definition hex_digit :: "nat \<Rightarrow> char" where
  "hex_digit n = ''0123456789abcdef'' ! (n mod 16)"

definition hex_byte :: "byte \<Rightarrow> string" where
  "hex_byte b = [hex_digit (unat b div 16), hex_digit (unat b)]"

definition hex_of :: "bytes \<Rightarrow> string" where
  "hex_of bs = concat (map hex_byte bs)"

definition is_hex :: "char \<Rightarrow> bool" where
  "is_hex c \<longleftrightarrow> c \<in> set ''0123456789abcdef''"

text \<open>\<^verbatim>\<open>/^[0-9a-f]{64}$/\<close>.\<close>

definition content_address :: "string \<Rightarrow> bool" where
  "content_address s \<longleftrightarrow> length s = 64 \<and> list_all is_hex s"

definition until_slash :: "string \<Rightarrow> string" where
  "until_slash s = takeWhile (\<lambda>c. c \<noteq> CHR ''/'') s"

definition parseS3StoreUri :: "string \<Rightarrow> cred_error + (string \<times> string) option" where
  "parseS3StoreUri uri =
     (if \<not> starts_with uri ''s3://'' then Inr None
      else let rest = drop 5 uri;
               bucket = until_slash rest;
               r = (if CHR ''/'' \<in> set rest then strip_trailing (CHR ''/'') (drop (Suc (length bucket)) rest) else '''')
           in if bucket = '''' then Inl NoBucket else Inr (Some (bucket, r)))"

definition tenantStoreRoot :: "(string \<Rightarrow> bytes) \<Rightarrow> string \<Rightarrow> string \<Rightarrow> cred_error + string" where
  "tenantStoreRoot sha owner r =
     (if owner = '''' then Inl NoOwner
      else let tenant = ''tenants/'' @ hex_of (sha owner)
           in Inr (if r = '''' then tenant else strip_trailing (CHR ''/'') r @ ''/'' @ tenant))"

text \<open>\<^verbatim>\<open>/^(?:(.*)\/)?tenants\/[0-9a-f]{64}$/\<close>: the part before, when the last 72 characters are a tenant.\<close>

definition before_tenant :: "string \<Rightarrow> string option" where
  "before_tenant s =
     (let n = length s - 72; pre = take n s; tail = drop n s
      in if length s \<ge> 72 \<and> starts_with tail ''tenants/'' \<and> content_address (drop 8 tail)
            \<and> (pre = '''' \<or> last pre = CHR ''/'')
         then Some pre else None)"

definition no_line_end :: "string \<Rightarrow> bool" where
  "no_line_end s \<longleftrightarrow> CHR 0x0A \<notin> set s \<and> CHR 0x0D \<notin> set s"

definition tenantStoreParentRoot :: "string \<Rightarrow> string option" where
  "tenantStoreParentRoot tenantRoot =
     (let s = strip_trailing (CHR ''/'') (dropWhile (\<lambda>c. c = CHR ''/'') tenantRoot)
      in case before_tenant s of
           None \<Rightarrow> None
         | Some pre \<Rightarrow> if no_line_end pre then Some (butlast pre) else None)"

definition tenantStoreUri :: "(string \<Rightarrow> bytes) \<Rightarrow> string \<Rightarrow> string \<Rightarrow> cred_error + string" where
  "tenantStoreUri sha uri owner =
     bindE (parseS3StoreUri uri) (\<lambda>p.
       case p of
         None \<Rightarrow> Inr uri
       | Some (bucket, r) \<Rightarrow> bindE (tenantStoreRoot sha owner r) (\<lambda>t. Inr (''s3://'' @ bucket @ ''/'' @ t)))"

section \<open>The scope of a computer\<close>

definition checkComputerId :: "string \<Rightarrow> cred_error + unit" where
  "checkComputerId c =
     (if c = '''' \<or> c = ''.'' \<or> c = ''..'' \<or> CHR ''/'' \<in> set c \<or> CHR 0x5C \<in> set c \<or> CHR 0x00 \<in> set c
      then Inl BadComputerId else Inr ())"

definition in_dir :: "string \<Rightarrow> string \<Rightarrow> string" where
  "in_dir r key = (if r = '''' then key else r @ ''/'' @ key)"

definition storeCredentialPrefixes :: "string \<Rightarrow> string \<Rightarrow> cred_error + string list" where
  "storeCredentialPrefixes c r =
     bindE (checkComputerId c) (\<lambda>_.
       Inr (map (in_dir r) [''chunks/'', ''manifests/'', ''journal/'' @ c @ ''/'', ''runs/'' @ c @ ''/'', ''state/'' @ c @ ''/'']))"

definition storeCredentialObjects :: "string \<Rightarrow> string \<Rightarrow> cred_error + string list" where
  "storeCredentialObjects c r =
     bindE (checkComputerId c) (\<lambda>_. Inr [in_dir r (''heat/'' @ c @ ''.cbor'')])"

section \<open>Minting\<close>

record mint_request =
  mq_url :: string
  mq_token :: string
  mq_bucket :: string
  mq_parentKey :: string
  mq_permission :: string
  mq_ttl :: int
  mq_prefixes :: "string list"
  mq_objects :: "string list"

text \<open>\<open>AnHttp ok status body\<close>: the body is \<open>None\<close> when it is not JSON.\<close>

datatype api_answer = AnHttp bool int "js option" | AnAborted | AnThrew

record minted =
  mi_accessKeyId :: string
  mi_secretAccessKey :: string
  mi_sessionToken :: string

text \<open>\<^verbatim>\<open>v.k\<close> of a decoded value; on \<^verbatim>\<open>null\<close> it throws, which reads as a failure of the exchange.\<close>

definition prop_of :: "js \<Rightarrow> string \<Rightarrow> js" where
  "prop_of v k = (case v of JObj h \<Rightarrow> get h k | _ \<Rightarrow> JUndef)"

definition nonempty :: "js \<Rightarrow> string option" where
  "nonempty v = (case v of JStr s \<Rightarrow> if s = '''' then None else Some s | _ \<Rightarrow> None)"

definition mintTempCredentials :: "(mint_request \<Rightarrow> api_answer) \<Rightarrow> mint_request \<Rightarrow> cred_error + minted" where
  "mintTempCredentials ask q =
     (case ask q of
        AnAborted \<Rightarrow> Inl MintTimedOut
      | AnThrew \<Rightarrow> Inl MintNetwork
      | AnHttp ok status body \<Rightarrow>
          if \<not> ok then Inl (MintStatus status)
          else case body of
            None \<Rightarrow> Inl MintNotJson
          | Some v \<Rightarrow>
              if v = JNull then Inl MintNetwork
              else let result = prop_of v ''result''
                   in case (prop_of v ''success'', nonempty (prop_of result ''accessKeyId''),
                            nonempty (prop_of result ''secretAccessKey''), nonempty (prop_of result ''sessionToken'')) of
                        (JBool True, Some a, Some s, Some t) \<Rightarrow>
                          Inr \<lparr>mi_accessKeyId = a, mi_secretAccessKey = s, mi_sessionToken = t\<rparr>
                      | _ \<Rightarrow> Inl MintIncomplete)"

definition tempCredentialTtlSeconds :: "store_env \<Rightarrow> int" where
  "tempCredentialTtlSeconds env =
     (let raw = (case se_ttl env of None \<Rightarrow> NaN | Some s \<Rightarrow> js_Number s);
          wanted = (case raw of Fin q \<Rightarrow> if q > 0 then \<lfloor>q\<rfloor> else R2_TEMP_TTL_DEFAULT_SECONDS | _ \<Rightarrow> R2_TEMP_TTL_DEFAULT_SECONDS)
      in min (max wanted R2_TEMP_TTL_MIN_SECONDS) R2_TEMP_TTL_MAX_SECONDS)"

definition given :: "string option \<Rightarrow> bool" where
  "given v \<longleftrightarrow> v \<noteq> None \<and> v \<noteq> Some ''''"

definition endpoint_of :: "store_env \<Rightarrow> string option" where
  "endpoint_of env =
     (case se_endpoint env of
        Some e \<Rightarrow> Some e
      | None \<Rightarrow>
          if given (se_account env) then Some (''https://'' @ the (se_account env) @ ''.r2.cloudflarestorage.com'') else None)"

definition mint_request_for :: "store_env \<Rightarrow> string \<Rightarrow> string \<Rightarrow> string \<Rightarrow> cred_error + mint_request" where
  "mint_request_for env computer bucket r =
     bindE (storeCredentialPrefixes computer r) (\<lambda>ps.
     bindE (storeCredentialObjects computer r) (\<lambda>obs.
       Inr \<lparr>mq_url = CF_API_BASE @ ''/accounts/'' @ the (se_account env) @ ''/r2/temp-access-credentials'',
            mq_token = the (se_parentToken env), mq_bucket = bucket, mq_parentKey = the (se_parentKey env),
            mq_permission = R2_TEMP_PERMISSION, mq_ttl = tempCredentialTtlSeconds env,
            mq_prefixes = ps, mq_objects = obs\<rparr>))"

text \<open>What is decided before anything is asked: no credentials, a request on a base environment, a static pair.\<close>

datatype plan = PlanNone | PlanMint "(string \<times> string) list" mint_request | PlanStatic "(string \<times> string) list"

definition store_plan :: "store_env \<Rightarrow> string \<Rightarrow> cred_error + plan" where
  "store_plan env computer =
     (case se_storeUri env of
        None \<Rightarrow> Inr PlanNone
      | Some uri \<Rightarrow>
          if \<not> starts_with uri ''s3://'' then Inr PlanNone
          else bindE (parseS3StoreUri uri) (\<lambda>p.
            case p of
              None \<Rightarrow> Inr PlanNone
            | Some (bucket, r) \<Rightarrow>
                (case endpoint_of env of
                   None \<Rightarrow> Inl NoEndpoint
                 | Some endpoint \<Rightarrow>
                     let base = [(''AWS_ENDPOINT_URL'', endpoint), (''AWS_REGION'', ''auto'')]
                     in if given (se_account env) \<and> given (se_parentKey env) \<and> given (se_parentToken env) then
                          (if before_tenant r = None then Inl OutsideTenant
                           else bindE (mint_request_for env computer bucket r) (\<lambda>q. Inr (PlanMint base q)))
                        else if given (se_accessKey env) \<and> given (se_secretKey env) \<and> se_allowStatic env = Some ''1'' then
                          Inr (PlanStatic (base @ [(''AWS_ACCESS_KEY_ID'', the (se_accessKey env)),
                                                   (''AWS_SECRET_ACCESS_KEY'', the (se_secretKey env))]))
                        else Inl NoCredentials)))"

definition composeStoreEnv :: "(mint_request \<Rightarrow> api_answer) \<Rightarrow> store_env \<Rightarrow> string \<Rightarrow> cred_error + (string \<times> string) list" where
  "composeStoreEnv ask env computer =
     bindE (store_plan env computer) (\<lambda>p.
       case p of
         PlanNone \<Rightarrow> Inr []
       | PlanStatic e \<Rightarrow> Inr e
       | PlanMint base q \<Rightarrow>
           bindE (mintTempCredentials ask q) (\<lambda>c.
             Inr (base @ [(''AWS_ACCESS_KEY_ID'', mi_accessKeyId c), (''AWS_SECRET_ACCESS_KEY'', mi_secretAccessKey c),
                          (''AWS_SESSION_TOKEN'', mi_sessionToken c)])))"

section \<open>Keys and scopes\<close>

text \<open>The keys a credential reaches, the namespace of an account, and the keys private to one computer.\<close>

definition in_scope :: "mint_request \<Rightarrow> string \<Rightarrow> bool" where
  "in_scope q key \<longleftrightarrow> list_ex (\<lambda>p. starts_with key p) (mq_prefixes q) \<or> key \<in> set (mq_objects q)"

definition under :: "string \<Rightarrow> string \<Rightarrow> bool" where
  "under r key \<longleftrightarrow> starts_with key (r @ ''/'')"

definition private_to :: "string \<Rightarrow> string \<Rightarrow> bool" where
  "private_to c k \<longleftrightarrow> starts_with k (''journal/'' @ c @ ''/'') \<or> starts_with k (''runs/'' @ c @ ''/'')
     \<or> starts_with k (''state/'' @ c @ ''/'') \<or> k = ''heat/'' @ c @ ''.cbor''"

lemma hex_digit_in: "hex_digit n \<in> set ''0123456789abcdef''"
  unfolding hex_digit_def by (rule nth_mem) simp

lemma slash_not_hex: "CHR ''/'' \<notin> set ''0123456789abcdef''"
  by code_simp

lemma hex_digit_no_slash: "hex_digit n \<noteq> CHR ''/''" "CHR ''/'' \<noteq> hex_digit n"
  using hex_digit_in [of n] slash_not_hex by (metis (no_types))+

lemma hex_of_set: "c \<in> set (hex_of bs) \<Longrightarrow> c \<noteq> CHR ''/''"
  by (induction bs) (auto simp: hex_of_def hex_byte_def hex_digit_no_slash)

lemma length_hex_of: "length (hex_of bs) = 2 * length bs"
  by (induction bs) (simp_all add: hex_of_def hex_byte_def)

lemma strip_trailing_id: "s \<noteq> [] \<Longrightarrow> last s \<noteq> c \<Longrightarrow> strip_trailing c s = s"
  by (cases s rule: rev_cases) (simp_all add: strip_trailing_def)

lemma until_slash_append: "CHR ''/'' \<notin> set b \<Longrightarrow> until_slash (b @ CHR ''/'' # t) = b"
  by (simp add: until_slash_def takeWhile_tail) (metis takeWhile_append2 append_Nil2 takeWhile.simps(2))

lemma until_slash_free: "CHR ''/'' \<notin> set (until_slash s)"
  by (auto simp: until_slash_def dest: set_takeWhileD)

lemma same_segment:
  assumes "CHR ''/'' \<notin> set b" "CHR ''/'' \<notin> set c" "starts_with k (b @ ''/'')" "starts_with k (c @ ''/'')"
  shows "b = c"
proof -
  obtain x y where "k = b @ CHR ''/'' # x" "k = c @ CHR ''/'' # y"
    using assms(3,4) by (simp add: starts_with_def prefix_def) (metis append_Cons append_Nil append_assoc)
  then show ?thesis using until_slash_append assms(1,2) by metis
qed

lemma parse_tenant_uri:
  assumes "parseS3StoreUri uri = Inr (Some (bucket, r))" "t \<noteq> ''''" "last t \<noteq> CHR ''/''"
  shows "parseS3StoreUri (''s3://'' @ bucket @ ''/'' @ t) = Inr (Some (bucket, t))"
proof -
  have b: "CHR ''/'' \<notin> set bucket" "bucket \<noteq> ''''"
    using assms(1) until_slash_free by (auto simp: parseS3StoreUri_def Let_def split: if_splits)
  show ?thesis
    using b until_slash_append [OF b(1), of t] strip_trailing_id [OF assms(2,3)] by (simp add: parseS3StoreUri_def Let_def)
qed

lemma tenant_root_end:
  assumes "tenantStoreRoot sha owner r = Inr t" "sha owner \<noteq> []"
  shows "t \<noteq> ''''" "last t \<noteq> CHR ''/''" "\<exists>base. t = base @ ''tenants/'' @ hex_of (sha owner)"
proof -
  have ne: "hex_of (sha owner) \<noteq> []" using assms(2) length_hex_of [of "sha owner"] by auto
  show b: "\<exists>base. t = base @ ''tenants/'' @ hex_of (sha owner)"
    using assms(1) by (auto simp: tenantStoreRoot_def Let_def split: if_splits)
  then show "t \<noteq> ''''" "last t \<noteq> CHR ''/''"
    using ne hex_of_set [OF last_in_set [OF ne]] by auto
qed

lemma two_tenants:
  assumes "tenantStoreRoot sha a r = Inr s" "tenantStoreRoot sha b r = Inr t"
    "length (sha a) = length (sha b)" "under s key" "under t key"
  shows "hex_of (sha a) = hex_of (sha b)"
proof -
  have len: "length (hex_of (sha a)) = length (hex_of (sha b))" using assms(3) by (simp add: length_hex_of)
  then have "length s = length t" using assms(1,2) by (auto simp: tenantStoreRoot_def Let_def split: if_splits)
  then have "s = t" using assms(4,5) by (auto simp: under_def starts_with_def prefix_def)
  then show ?thesis using assms(1,2) by (auto simp: tenantStoreRoot_def Let_def split: if_splits)
qed

lemma scope_keys:
  assumes "mint_request_for env c bucket t = Inr q" "t \<noteq> ''''" "in_scope q key"
  shows "under t key" "\<exists>k. key = t @ ''/'' @ k \<and> (starts_with k ''chunks/'' \<or> starts_with k ''manifests/'' \<or> private_to c k)"
    "mq_bucket q = bucket" "CHR ''/'' \<notin> set c"
proof -
  have q: "checkComputerId c = Inr ()" "mq_bucket q = bucket"
    "mq_prefixes q = map (in_dir t) [''chunks/'', ''manifests/'', ''journal/'' @ c @ ''/'', ''runs/'' @ c @ ''/'', ''state/'' @ c @ ''/'']"
    "mq_objects q = [in_dir t (''heat/'' @ c @ ''.cbor'')]"
    using assms(1) by (auto simp: mint_request_for_def storeCredentialPrefixes_def storeCredentialObjects_def bindE_def split: sum.splits)
  show "mq_bucket q = bucket" by (rule q(2))
  show "CHR ''/'' \<notin> set c" using q(1) by (auto simp: checkComputerId_def split: if_splits)
  show k: "\<exists>k. key = t @ ''/'' @ k \<and> (starts_with k ''chunks/'' \<or> starts_with k ''manifests/'' \<or> private_to c k)"
    using assms(2,3) unfolding in_scope_def q(3,4) in_dir_def private_to_def
    by (auto simp: starts_with_def prefix_def)
  then show "under t key" by (auto simp: under_def starts_with_def prefix_def)
qed

lemma private_to_one:
  assumes "private_to c k" "private_to c' k" "CHR ''/'' \<notin> set c" "CHR ''/'' \<notin> set c'"
  shows "c = c'"
  using assms same_segment [OF assms(3,4)] unfolding private_to_def starts_with_def prefix_def by auto

lemma private_not_shared:
  "private_to c k \<Longrightarrow> \<not> starts_with k ''chunks/'' \<and> \<not> starts_with k ''manifests/''"
  by (auto simp: private_to_def starts_with_def prefix_def)

text \<open>C19: A credential stays inside its account and its computer.  When a machine is started on the store
  of its account, every key the minted credential reaches lies in the bucket and under the namespace of
  that account, so under no account with another digest; below that namespace it is shared content of the
  account (\<open>chunks/\<close> or \<open>manifests/\<close>) or private to this computer, so private to no other one.\<close>

theorem credential_stays_in_its_account:
  assumes "parseS3StoreUri uri = Inr (Some (bucket, r))" "tenantStoreUri sha uri owner = Inr u"
    "se_storeUri env = Some u" "store_plan env c = Inr (PlanMint base q)" "in_scope q key"
    "length (sha owner) = 32"
  shows "\<exists>t k. tenantStoreRoot sha owner r = Inr t \<and> mq_bucket q = bucket \<and> key = t @ ''/'' @ k
    \<and> (starts_with k ''chunks/'' \<or> starts_with k ''manifests/'' \<or> private_to c k)
    \<and> (\<forall>owner' t'. tenantStoreRoot sha owner' r = Inr t' \<and> length (sha owner') = 32
          \<and> hex_of (sha owner') \<noteq> hex_of (sha owner) \<longrightarrow> \<not> under t' key)
    \<and> (\<forall>c'. c' \<noteq> c \<and> CHR ''/'' \<notin> set c' \<longrightarrow> \<not> private_to c' k)"
proof -
  obtain t where t: "tenantStoreRoot sha owner r = Inr t" "u = ''s3://'' @ bucket @ ''/'' @ t"
    using assms(1,2) by (auto simp: tenantStoreUri_def)
  have "sha owner \<noteq> []" using assms(6) by auto
  note e = tenant_root_end [OF t(1) this]
  have p: "parseS3StoreUri u = Inr (Some (bucket, t))"
    unfolding t(2) by (rule parse_tenant_uri [OF assms(1) e(1,2)])
  have m: "mint_request_for env c bucket t = Inr q"
    using assms(3,4) p by (auto simp: store_plan_def Let_def split: if_splits option.splits)
  note sc = scope_keys [OF m e(1) assms(5)]
  obtain k where k: "key = t @ ''/'' @ k" "starts_with k ''chunks/'' \<or> starts_with k ''manifests/'' \<or> private_to c k"
    using sc(2) by blast
  have "\<not> under t' key" if "tenantStoreRoot sha owner' r = Inr t'" "length (sha owner') = 32"
      "hex_of (sha owner') \<noteq> hex_of (sha owner)" for owner' t'
    using two_tenants [OF that(1) t(1)] that(2,3) assms(6) sc(1) by metis
  moreover have "\<not> private_to c' k" if "c' \<noteq> c" "CHR ''/'' \<notin> set c'" for c'
    using k(2) private_to_one [of c k c'] private_not_shared [of c' k] sc(4) that by blast
  ultimately show ?thesis using t(1) sc(3) k(1) k(2) by blast
qed

definition demo_sha :: "string \<Rightarrow> bytes" where
  "demo_sha s = replicate 32 (of_nat (length s))"

definition demo_env :: store_env where
  "demo_env = \<lparr>se_storeUri = Some (''s3://mari/prod/tenants/'' @ hex_of (demo_sha ''ann'')), se_account = Some ''acc'',
     se_parentKey = Some ''k'', se_parentToken = Some ''t'', se_ttl = None, se_accessKey = None, se_secretKey = None,
     se_endpoint = None, se_allowStatic = None\<rparr>"

definition demo_key :: string where
  "demo_key = ''prod/tenants/'' @ hex_of (demo_sha ''ann'') @ ''/journal/c1/run1/0.seg''"

theorem credential_stays_in_its_account_witness:
  "\<exists>base q t. store_plan demo_env ''c1'' = Inr (PlanMint base q) \<and> in_scope q demo_key
     \<and> tenantStoreRoot demo_sha ''joe'' ''prod'' = Inr t \<and> tenantStoreRoot demo_sha ''bill'' ''prod'' \<noteq> Inr t
     \<and> mq_bucket q = ''mari''"
proof -
  have "(case store_plan demo_env ''c1'' of Inr (PlanMint base q) \<Rightarrow> in_scope q demo_key | _ \<Rightarrow> False)" by code_simp
  then obtain base q where q: "store_plan demo_env ''c1'' = Inr (PlanMint base q)" "in_scope q demo_key"
    by (auto split: sum.splits plan.splits)
  have u: "parseS3StoreUri ''s3://mari/prod/'' = Inr (Some (''mari'', ''prod''))" by code_simp
  have t: "tenantStoreUri demo_sha ''s3://mari/prod/'' ''ann'' = Inr (''s3://mari/prod/tenants/'' @ hex_of (demo_sha ''ann''))"
    by code_simp
  have l: "length (demo_sha ''ann'') = 32" by (simp add: demo_sha_def)
  have e: "se_storeUri demo_env = Some (''s3://mari/prod/tenants/'' @ hex_of (demo_sha ''ann''))" by (simp add: demo_env_def)
  have "mq_bucket q = ''mari''" using credential_stays_in_its_account [OF u t e q l] by blast
  moreover have "tenantStoreRoot demo_sha ''joe'' ''prod'' \<noteq> tenantStoreRoot demo_sha ''bill'' ''prod''" by code_simp
  ultimately show ?thesis using q by (auto simp: tenantStoreRoot_def Let_def)
qed

end
