(* ===== verification/Store.thy ===== *)
theory Store
  imports Runs Credentials "HOL-Library.List_Lexorder" "HOL-Library.Char_ord"
begin

text \<open>
  Reading a computer's filesystem from the chunk store without waking it
  (\<^verbatim>\<open>control-plane/src/manifest-store.ts\<close>): the keys of objects, a stored chunk body back to plaintext,
  a directory listing and a small file from the manifest, and the bootstrap of an account's namespace.

  The bucket is a map from keys to bodies.  \<open>hash\<close> is BLAKE3 in lowercase hex, \<open>zstd\<close> the decompressor
  (\<open>None\<close> is its error), \<open>dec\<close> the decoder of a manifest (its validation is \<open>Validate\<close>; \<open>None\<close> is its
  error).  A read of the bucket answers; what a failing bucket throws is not modelled.
\<close>

type_synonym bucket = "(string \<times> bytes) list"

section \<open>Keys\<close>

definition inRoot :: "string \<Rightarrow> string \<Rightarrow> string" where
  "inRoot r key = (if r = '''' then key else strip_trailing (CHR ''/'') r @ ''/'' @ key)"

definition manifestKey :: "string \<Rightarrow> string \<Rightarrow> string" where
  "manifestKey i r = inRoot r (''manifests/'' @ i @ ''.cbor'')"

definition chunkKey :: "string \<Rightarrow> string \<Rightarrow> string" where
  "chunkKey i r = inRoot r (''chunks/'' @ take 2 i @ ''/'' @ i)"

section \<open>Errors\<close>

datatype store_error =
    ChunkIdMalformed string | ChunkMissing string | ChunkUndecodable string | ChunkCorrupted string string
  | ChunkLengthMismatch string nat nat | ManifestSizeMismatch string nat nat
  | ManifestNotFound string | ManifestUndecodable | PathNotFound string | NotAFile string | FileTooLarge string
  | InvalidNamespace

type_synonym 'a stored = "store_error + 'a"

section \<open>Chunks\<close>

text \<open>The empty body is refused before the decompressor sees it.\<close>

definition decodeChunkBody :: "(bytes \<Rightarrow> bytes option) \<Rightarrow> (bytes \<Rightarrow> string) \<Rightarrow> bytes \<Rightarrow> string \<Rightarrow> nat option \<Rightarrow> bytes stored" where
  "decodeChunkBody zstd hash body i expectedLen =
     (if \<not> content_address i then Inl (ChunkIdMalformed i)
      else case (if body = [] then None else zstd body) of
        None \<Rightarrow> Inl (ChunkUndecodable i)
      | Some plain \<Rightarrow>
          if hash plain \<noteq> i then Inl (ChunkCorrupted i (hash plain))
          else case expectedLen of
            None \<Rightarrow> Inr plain
          | Some n \<Rightarrow> if length plain \<noteq> n then Inl (ChunkLengthMismatch i n (length plain)) else Inr plain)"

definition getChunk :: "(bytes \<Rightarrow> bytes option) \<Rightarrow> (bytes \<Rightarrow> string) \<Rightarrow> bucket \<Rightarrow> string \<Rightarrow> nat option \<Rightarrow> string \<Rightarrow> bytes stored" where
  "getChunk zstd hash store i expectedLen r =
     (if \<not> content_address i then Inl (ChunkIdMalformed i)
      else case map_of store (chunkKey i r) of
        None \<Rightarrow> Inl (ChunkMissing i)
      | Some body \<Rightarrow> decodeChunkBody zstd hash body i expectedLen)"

section \<open>The stored form of a chunk\<close>

definition RAW_BLOCK_MAX :: nat where "RAW_BLOCK_MAX = 128 * 1024"

definition le_bytes :: "nat \<Rightarrow> nat \<Rightarrow> bytes" where
  "le_bytes k n = map (\<lambda>i. word_of_nat (n div 256 ^ i)) [0..<k]"

text \<open>The loop over the blocks of a frame: three bytes of header (bit 0 the last block, the size from bit 3), then the
  bytes; \<open>last\<close> is the last index.\<close>

fun encode_blocks :: "nat \<Rightarrow> nat \<Rightarrow> bytes \<Rightarrow> bytes" where
  "encode_blocks 0 off plain = []"
| "encode_blocks (Suc left) off plain =
     (let size = min RAW_BLOCK_MAX (length plain - off);
          header = (if left = 0 then 1 else 0) + size * 8
      in le_bytes 3 header @ take size (drop off plain) @ encode_blocks left (off + size) plain)"

definition encodeChunkBody :: "bytes \<Rightarrow> bytes" where
  "encodeChunkBody plain =
     (let blocks = max 1 ((length plain + RAW_BLOCK_MAX - 1) div RAW_BLOCK_MAX)
      in [0x28, 0xb5, 0x2f, 0xfd, 0xa0] @ le_bytes 4 (length plain) @ encode_blocks blocks 0 plain)"

section \<open>Paths\<close>

definition MAX_INLINE_FILE_BYTES :: nat where "MAX_INLINE_FILE_BYTES = 1024 * 1024"

definition normalizePath :: "string \<Rightarrow> string" where
  "normalizePath input =
     (let p = js_trim input
      in if p = '''' \<or> p = ''.'' then ''/''
         else let p1 = (if starts_with p ''/'' then p else ''/'' @ p);
                  p2 = collapse (CHR ''/'') p1
              in if length p2 > 1 \<and> ends_with p2 ''/'' then butlast p2 else p2)"

text \<open>\<^verbatim>\<open>parentDir\<close> is that of \<open>Runs\<close>: \<^verbatim>\<open>'/'\<close> has its only slash at index 0.\<close>

definition baseName :: "string \<Rightarrow> string" where
  "baseName path =
     (if path = ''/'' then ''/''
      else case last_index (CHR ''/'') path of None \<Rightarrow> path | Some i \<Rightarrow> drop (Suc i) path)"

definition findEntry :: "manifest \<Rightarrow> string \<Rightarrow> manifest_entry option" where
  "findEntry m path = find (\<lambda>e. normalizePath (me_path e) = normalizePath path) (mf_entries m)"

section \<open>Listing a directory\<close>

record dir_entry =
  de_name :: string
  de_path :: string
  de_kind :: entry_kind
  de_mode :: nat
  de_size :: nat
  de_symlink_target :: "string option"

record dir_listing =
  dl_path :: string
  dl_entries :: "dir_entry list"

definition recorded_child :: "string \<Rightarrow> manifest_entry \<Rightarrow> dir_entry" where
  "recorded_child p e = \<lparr>de_name = baseName p, de_path = p, de_kind = me_kind e, de_mode = me_mode e,
     de_size = me_size e, de_symlink_target = me_symlink_target e\<rparr>"

definition implied_child :: "string \<Rightarrow> string \<Rightarrow> dir_entry" where
  "implied_child pre seg = \<lparr>de_name = seg, de_path = pre @ seg, de_kind = EDir, de_mode = 16877, de_size = 0,
     de_symlink_target = None\<rparr>"

text \<open>The body of the loop: the children so far and whether anything was seen under the directory.\<close>

definition list_step :: "string \<Rightarrow> string \<Rightarrow> manifest_entry \<Rightarrow> (string \<times> dir_entry) list \<times> bool \<Rightarrow> (string \<times> dir_entry) list \<times> bool" where
  "list_step dir pre e = (\<lambda>(children, saw).
     let p = normalizePath (me_path e)
     in if p = dir then (children, saw)
        else if \<not> starts_with p pre then (children, saw)
        else if parentDir p = dir then (AList.update p (recorded_child p e) children, True)
        else let seg = takeWhile (\<lambda>c. c \<noteq> CHR ''/'') (drop (length pre) p); child = pre @ seg
             in (if map_of children child \<noteq> None then (children, True)
                 else (AList.update child (implied_child pre seg) children, True)))"

definition listDirectory :: "manifest \<Rightarrow> string \<Rightarrow> dir_listing stored" where
  "listDirectory m dirPath =
     (let dir = normalizePath dirPath; entry = findEntry m dir
      in if dir \<noteq> ''/'' \<and> (case entry of None \<Rightarrow> False | Some e \<Rightarrow> me_kind e \<noteq> EDir) then Inl (NotAFile dir)
         else let pre = (if dir = ''/'' then ''/'' else dir @ ''/'');
                  (children, saw) = fold (list_step dir pre) (mf_entries m) ([], dir = ''/'' \<or> entry \<noteq> None)
              in if \<not> saw then Inl (PathNotFound dir)
                 else Inr \<lparr>dl_path = dir, dl_entries = sort_key de_path (map snd children)\<rparr>)"

section \<open>Reading a file\<close>

text \<open>The loop state: the chunks fetched so far, the output buffer of the recorded size, and the cursor.\<close>

record read_state =
  rd_fetched :: "(string \<times> bytes) list"
  rd_out :: bytes
  rd_cursor :: nat

definition read_ref ::
  "(bytes \<Rightarrow> bytes option) \<Rightarrow> (bytes \<Rightarrow> string) \<Rightarrow> bucket \<Rightarrow> string \<Rightarrow> manifest_entry \<Rightarrow> chunk_ref \<Rightarrow> read_state \<Rightarrow> read_state stored" where
  "read_ref zstd hash store r entry ref s =
     bindE (case map_of (rd_fetched s) (cr_chunk ref) of
              None \<Rightarrow> bindE (getChunk zstd hash store (cr_chunk ref) (Some (cr_len ref)) r)
                       (\<lambda>plain. Inr (plain, AList.update (cr_chunk ref) plain (rd_fetched s)))
            | Some plain \<Rightarrow>
                if length plain \<noteq> cr_len ref then Inl (ChunkLengthMismatch (cr_chunk ref) (cr_len ref) (length plain))
                else Inr (plain, rd_fetched s))
       (\<lambda>(plain, fetched).
          if rd_cursor s + length plain > length (rd_out s)
          then Inl (ManifestSizeMismatch (me_path entry) (me_size entry) (rd_cursor s + length plain))
          else Inr \<lparr>rd_fetched = fetched,
                    rd_out = take (rd_cursor s) (rd_out s) @ plain @ drop (rd_cursor s + length plain) (rd_out s),
                    rd_cursor = rd_cursor s + length plain\<rparr>)"

fun read_refs ::
  "(bytes \<Rightarrow> bytes option) \<Rightarrow> (bytes \<Rightarrow> string) \<Rightarrow> bucket \<Rightarrow> string \<Rightarrow> manifest_entry \<Rightarrow> chunk_ref list \<Rightarrow> read_state \<Rightarrow> read_state stored" where
  "read_refs zstd hash store r entry [] s = Inr s"
| "read_refs zstd hash store r entry (ref # refs) s =
     bindE (read_ref zstd hash store r entry ref s) (read_refs zstd hash store r entry refs)"

definition readFile ::
  "(bytes \<Rightarrow> bytes option) \<Rightarrow> (bytes \<Rightarrow> string) \<Rightarrow> bucket \<Rightarrow> manifest \<Rightarrow> string \<Rightarrow> string \<Rightarrow> bytes stored" where
  "readFile zstd hash store m filePath r =
     (case findEntry m filePath of
        None \<Rightarrow> Inl (PathNotFound (normalizePath filePath))
      | Some entry \<Rightarrow>
          if me_kind entry \<noteq> EFile then Inl (NotAFile (normalizePath filePath))
          else if me_size entry > MAX_INLINE_FILE_BYTES then Inl (FileTooLarge (normalizePath filePath))
          else bindE (read_refs zstd hash store r entry (me_chunks entry)
                       \<lparr>rd_fetched = [], rd_out = replicate (me_size entry) 0, rd_cursor = 0\<rparr>)
                 (\<lambda>s. if rd_cursor s \<noteq> me_size entry
                      then Inl (ManifestSizeMismatch (me_path entry) (me_size entry) (rd_cursor s))
                      else Inr (rd_out s)))"

section \<open>Manifests and namespaces\<close>

definition loadManifest :: "(bytes \<Rightarrow> manifest option) \<Rightarrow> bucket \<Rightarrow> string \<Rightarrow> string \<Rightarrow> manifest stored" where
  "loadManifest dec store i r =
     (case map_of store (manifestKey i r) of
        None \<Rightarrow> Inl (ManifestNotFound i)
      | Some body \<Rightarrow> (case dec body of None \<Rightarrow> Inl ManifestUndecodable | Some m \<Rightarrow> Inr m))"

text \<open>Each chunk once, in the order of its first reference (\<^verbatim>\<open>new Set\<close>).\<close>

definition chunk_ids :: "manifest \<Rightarrow> string list" where
  "chunk_ids m = rev (remdups (rev (concat (map (\<lambda>e. map cr_chunk (me_chunks e)) (mf_entries m)))))"

text \<open>
  The bootstrap as the writes it makes, in order, and how it ends.  The chunks of a batch of 32 are copied
  concurrently, and a batch is awaited before the next begins: every copy of a batch is attempted, in an
  order that is taken to be that of the list, and a chunk missing at the source ends the bootstrap after
  its batch.
\<close>

definition copy_chunk :: "bucket \<Rightarrow> string \<Rightarrow> string \<Rightarrow> string \<Rightarrow> (string \<times> bytes) list \<times> bool" where
  "copy_chunk store source target chunk =
     (if map_of store (chunkKey chunk target) \<noteq> None then ([], True)
      else case map_of store (chunkKey chunk source) of None \<Rightarrow> ([], False) | Some body \<Rightarrow> ([(chunkKey chunk target, body)], True))"

function copy_batches :: "bucket \<Rightarrow> string \<Rightarrow> string \<Rightarrow> string list \<Rightarrow> (string \<times> bytes) list \<times> string option" where
  "copy_batches store source target chunks =
     (if chunks = [] then ([], None)
      else let batch = take 32 chunks;
               writes = concat (map (\<lambda>c. fst (copy_chunk store source target c)) batch)
           in case find (\<lambda>c. \<not> snd (copy_chunk store source target c)) batch of
                Some c \<Rightarrow> (writes, Some c)
              | None \<Rightarrow> (let (more, e) = copy_batches store source target (drop 32 chunks) in (writes @ more, e)))"
  by pat_completeness auto
termination
  by (relation "measure (\<lambda>(_, _, _, chunks). length chunks)") auto

declare copy_batches.simps [simp del]

definition ensureManifestNamespace :: "(bytes \<Rightarrow> manifest option) \<Rightarrow> bucket \<Rightarrow> string \<Rightarrow> string \<Rightarrow> (string \<times> bytes) list \<times> unit stored" where
  "ensureManifestNamespace dec store i r =
     (if r = '''' \<or> map_of store (manifestKey i r) \<noteq> None then ([], Inr ())
      else case tenantStoreParentRoot r of
        None \<Rightarrow> ([], Inl InvalidNamespace)
      | Some source \<Rightarrow>
          (case map_of store (manifestKey i source) of
             None \<Rightarrow> ([], Inl (ManifestNotFound i))
           | Some body \<Rightarrow>
               (case dec body of
                  None \<Rightarrow> ([], Inl ManifestUndecodable)
                | Some m \<Rightarrow>
                    (case copy_batches store source r (chunk_ids m) of
                       (writes, Some c) \<Rightarrow> (writes, Inl (ChunkMissing c))
                     | (writes, None) \<Rightarrow> (writes @ [(manifestKey i r, body)], Inr ())))))"

text \<open>\<open>empty_cbor\<close> is the canonical encoding of the empty manifest.\<close>

definition ensureEmptyBaseManifest :: "(bytes \<Rightarrow> string) \<Rightarrow> bytes \<Rightarrow> bucket \<Rightarrow> string \<Rightarrow> string \<times> bucket" where
  "ensureEmptyBaseManifest hash empty_cbor store r =
     (let i = hash empty_cbor; key = manifestKey i r
      in (i, if map_of store key = None then AList.update key empty_cbor store else store))"

definition apply_writes :: "(string \<times> bytes) list \<Rightarrow> bucket \<Rightarrow> bucket" where
  "apply_writes ws store = fold (\<lambda>(k, v). AList.update k v) ws store"

section \<open>A file is its verified chunks\<close>

text \<open>What a reference must lead to: a stored body that decompresses to bytes of the recorded hash and length.\<close>

definition chunk_ok :: "(bytes \<Rightarrow> bytes option) \<Rightarrow> (bytes \<Rightarrow> string) \<Rightarrow> bucket \<Rightarrow> string \<Rightarrow> chunk_ref \<Rightarrow> bytes \<Rightarrow> bool" where
  "chunk_ok zstd hash store r ref p \<longleftrightarrow>
     content_address (cr_chunk ref)
     \<and> (\<exists>body. map_of store (chunkKey (cr_chunk ref) r) = Some body \<and> body \<noteq> [] \<and> zstd body = Some p)
     \<and> hash p = cr_chunk ref \<and> length p = cr_len ref"

lemma getChunk_iff:
  "getChunk zstd hash store (cr_chunk ref) (Some (cr_len ref)) r = Inr p \<longleftrightarrow> chunk_ok zstd hash store r ref p"
  by (auto simp: getChunk_def decodeChunkBody_def chunk_ok_def split: option.split if_splits)

text \<open>Reading a cached chunk is reading it again: same bytes, same errors.\<close>

definition cache_ok :: "(bytes \<Rightarrow> bytes option) \<Rightarrow> (bytes \<Rightarrow> string) \<Rightarrow> bucket \<Rightarrow> string \<Rightarrow> (string \<times> bytes) list \<Rightarrow> bool" where
  "cache_ok zstd hash store r f \<longleftrightarrow> (\<forall>c p. map_of f c = Some p \<longrightarrow> getChunk zstd hash store c None r = Inr p)"

lemma getChunk_len:
  "getChunk zstd hash store c (Some n) r =
     bindE (getChunk zstd hash store c None r) (\<lambda>p. if length p \<noteq> n then Inl (ChunkLengthMismatch c n (length p)) else Inr p)"
  by (simp add: getChunk_def decodeChunkBody_def bindE_def split: option.split)

lemma cache_ok_update:
  assumes "cache_ok zstd hash store r f" "getChunk zstd hash store c (Some n) r = Inr p"
  shows "cache_ok zstd hash store r (AList.update c p f)"
  using assms by (auto simp: cache_ok_def map_of_AList_update getChunk_len split: if_splits)

lemma read_ref_uncached:
  assumes "cache_ok zstd hash store r (rd_fetched s)"
  shows "\<exists>f. read_ref zstd hash store r entry ref s =
      bindE (getChunk zstd hash store (cr_chunk ref) (Some (cr_len ref)) r) (\<lambda>plain.
        if rd_cursor s + length plain > length (rd_out s)
        then Inl (ManifestSizeMismatch (me_path entry) (me_size entry) (rd_cursor s + length plain))
        else Inr \<lparr>rd_fetched = f,
                  rd_out = take (rd_cursor s) (rd_out s) @ plain @ drop (rd_cursor s + length plain) (rd_out s),
                  rd_cursor = rd_cursor s + length plain\<rparr>)
    \<and> (\<forall>p. getChunk zstd hash store (cr_chunk ref) (Some (cr_len ref)) r = Inr p \<longrightarrow> cache_ok zstd hash store r f)"
proof (cases "map_of (rd_fetched s) (cr_chunk ref)")
  case None
  show ?thesis
  proof (cases "getChunk zstd hash store (cr_chunk ref) (Some (cr_len ref)) r")
    case (Inl e)
    then show ?thesis using None by (simp add: read_ref_def bindE_def)
  next
    case (Inr p)
    then show ?thesis
      using None cache_ok_update [OF assms Inr] by (auto simp: read_ref_def bindE_def)
  qed
next
  case (Some p)
  then have g: "getChunk zstd hash store (cr_chunk ref) None r = Inr p" using assms by (simp add: cache_ok_def)
  show ?thesis
    by (rule exI [of _ "rd_fetched s"]) (auto simp: read_ref_def Some getChunk_len g assms bindE_def)
qed

text \<open>The loop fills the buffer with the chunks in order, or stops.\<close>

lemma read_refs_iff:
  assumes "cache_ok zstd hash store r (rd_fetched s)" "rd_out s = w @ replicate k 0" "rd_cursor s = length w"
  shows "(\<exists>f. read_refs zstd hash store r entry refs s = Inr \<lparr>rd_fetched = f, rd_out = b, rd_cursor = n\<rparr>) \<longleftrightarrow>
    (\<exists>ps. list_all2 (chunk_ok zstd hash store r) refs ps \<and> length (concat ps) \<le> k
       \<and> b = w @ concat ps @ replicate (k - length (concat ps)) 0 \<and> n = length w + length (concat ps))"
  using assms
proof (induction refs arbitrary: s w k)
  case Nil
  then show ?case by (cases s) auto
next
  case (Cons ref refs)
  obtain f where f: "read_ref zstd hash store r entry ref s =
      bindE (getChunk zstd hash store (cr_chunk ref) (Some (cr_len ref)) r) (\<lambda>plain.
        if rd_cursor s + length plain > length (rd_out s)
        then Inl (ManifestSizeMismatch (me_path entry) (me_size entry) (rd_cursor s + length plain))
        else Inr \<lparr>rd_fetched = f,
                  rd_out = take (rd_cursor s) (rd_out s) @ plain @ drop (rd_cursor s + length plain) (rd_out s),
                  rd_cursor = rd_cursor s + length plain\<rparr>)"
    and fo: "\<And>p. getChunk zstd hash store (cr_chunk ref) (Some (cr_len ref)) r = Inr p \<Longrightarrow> cache_ok zstd hash store r f"
    using read_ref_uncached [OF Cons.prems(1), of entry ref] by blast
  show ?case
  proof (cases "getChunk zstd hash store (cr_chunk ref) (Some (cr_len ref)) r")
    case (Inl e)
    then have "\<not> chunk_ok zstd hash store r ref p" for p using getChunk_iff [of zstd hash store ref r p] by simp
    then show ?thesis by (simp add: f Inl bindE_def list_all2_Cons1)
  next
    case (Inr p)
    have only: "chunk_ok zstd hash store r ref p' \<longleftrightarrow> p' = p" for p'
      using getChunk_iff [of zstd hash store ref r p'] Inr by auto
    let ?s = "\<lparr>rd_fetched = f, rd_out = (w @ p) @ replicate (k - length p) 0, rd_cursor = length (w @ p)\<rparr>"
    have ih: "(\<exists>f. read_refs zstd hash store r entry refs ?s = Inr \<lparr>rd_fetched = f, rd_out = b, rd_cursor = n\<rparr>) \<longleftrightarrow>
      (\<exists>ps. list_all2 (chunk_ok zstd hash store r) refs ps \<and> length (concat ps) \<le> k - length p
       \<and> b = (w @ p) @ concat ps @ replicate (k - length p - length (concat ps)) 0
       \<and> n = length (w @ p) + length (concat ps))"
      by (rule Cons.IH) (simp_all add: fo [OF Inr])
    show ?thesis
    proof (cases "length p \<le> k")
      case True
      then have "read_refs zstd hash store r entry (ref # refs) s = read_refs zstd hash store r entry refs ?s"
        using Cons.prems(2,3) by (simp add: f Inr)
      then show ?thesis using ih True by (auto simp: list_all2_Cons1 only)
    next
      case False
      then show ?thesis using Cons.prems(2,3) by (auto simp: f Inr list_all2_Cons1 only bindE_def)
    qed
  qed
qed

text \<open>C20: A file is its verified chunks.  Reading a file returns bytes exactly when the manifest has a file of
  inline size at that path, and each of its chunk references leads to a stored body that decompresses to
  bytes with the referenced BLAKE3 and length, which concatenate to the recorded size; and the bytes are
  that concatenation.  The cache of chunks fetched once changes nothing.\<close>

theorem file_is_its_verified_chunks:
  "readFile zstd hash store m path r = Inr b \<longleftrightarrow>
    (\<exists>entry ps. findEntry m path = Some entry \<and> me_kind entry = EFile \<and> me_size entry \<le> 1048576
      \<and> list_all2 (chunk_ok zstd hash store r) (me_chunks entry) ps \<and> concat ps = b \<and> length b = me_size entry)"
proof (cases "findEntry m path")
  case (Some entry)
  let ?s = "\<lparr>rd_fetched = [], rd_out = replicate (me_size entry) 0, rd_cursor = 0\<rparr>"
  have refs: "(\<exists>f. read_refs zstd hash store r entry (me_chunks entry) ?s = Inr \<lparr>rd_fetched = f, rd_out = b, rd_cursor = me_size entry\<rparr>)
    \<longleftrightarrow> (\<exists>ps. list_all2 (chunk_ok zstd hash store r) (me_chunks entry) ps \<and> concat ps = b \<and> length b = me_size entry)"
    by (subst read_refs_iff [where w = "[]" and k = "me_size entry"]) (auto simp: cache_ok_def)
  have "(\<exists>s. read_refs zstd hash store r entry (me_chunks entry) ?s = Inr s \<and> rd_cursor s = me_size entry \<and> rd_out s = b) \<longleftrightarrow>
    (\<exists>f. read_refs zstd hash store r entry (me_chunks entry) ?s = Inr \<lparr>rd_fetched = f, rd_out = b, rd_cursor = me_size entry\<rparr>)"
    by (metis read_state.surjective old.unit.exhaust read_state.select_convs)
  then show ?thesis
    using Some refs by (auto simp: readFile_def MAX_INLINE_FILE_BYTES_def split: if_splits)
qed (simp add: readFile_def)

section \<open>A namespace never dangles\<close>

text \<open>Every manifest an account's namespace holds has all its chunks there.\<close>

definition closed_namespace :: "(bytes \<Rightarrow> manifest option) \<Rightarrow> string \<Rightarrow> bucket \<Rightarrow> bool" where
  "closed_namespace dec r store \<longleftrightarrow>
     (\<forall>i body m. map_of store (manifestKey i r) = Some body \<and> dec body = Some m
        \<longrightarrow> (\<forall>c\<in>set (chunk_ids m). map_of store (chunkKey c r) \<noteq> None))"

lemma inRoot_inj [simp]: "inRoot r a = inRoot r b \<longleftrightarrow> a = b"
  by (simp add: inRoot_def)

lemma keys_differ [simp]: "manifestKey i r \<noteq> chunkKey c r" "chunkKey c r \<noteq> manifestKey i r"
  "manifestKey i r = manifestKey j r \<longleftrightarrow> i = j"
  by (simp_all add: manifestKey_def chunkKey_def)

lemma apply_writes_simps [simp]:
  "apply_writes [] store = store"
  "apply_writes (w # ws) store = apply_writes ws (AList.update (fst w) (snd w) store)"
  "apply_writes (ws @ vs) store = apply_writes vs (apply_writes ws store)"
  by (simp_all add: apply_writes_def case_prod_unfold)

lemma apply_keeps: "map_of store k \<noteq> None \<Longrightarrow> map_of (apply_writes ws store) k \<noteq> None"
  by (induction ws arbitrary: store) (simp_all add: map_of_AList_update)

lemma apply_other: "k \<notin> fst ` set ws \<Longrightarrow> map_of (apply_writes ws store) k = map_of store k"
  by (induction ws arbitrary: store) (auto simp: map_of_AList_update)

lemma apply_written: "k \<in> fst ` set ws \<Longrightarrow> map_of (apply_writes ws store) k \<noteq> None"
proof (induction ws arbitrary: store)
  case (Cons w ws)
  show ?case
  proof (cases "k = fst w")
    case True
    then show ?thesis by (simp add: apply_keeps map_of_AList_update)
  next
    case False
    then show ?thesis using Cons by simp
  qed
qed simp

lemma chunk_writes_closed:
  assumes "closed_namespace dec r store" "fst ` set ws \<subseteq> range (\<lambda>c. chunkKey c r)"
  shows "closed_namespace dec r (apply_writes ws store)"
proof -
  have "map_of (apply_writes ws store) (manifestKey i r) = map_of store (manifestKey i r)" for i
    using assms(2) by (intro apply_other) auto
  then show ?thesis using assms(1) apply_keeps unfolding closed_namespace_def by metis
qed

lemma manifest_write_closed:
  assumes "closed_namespace dec r store" "dec body = Some m"
    "\<And>c. c \<in> set (chunk_ids m) \<Longrightarrow> map_of store (chunkKey c r) \<noteq> None"
  shows "closed_namespace dec r (AList.update (manifestKey i r) body store)"
  unfolding closed_namespace_def
proof (intro allI impI ballI)
  fix j b n c
  assume stored: "map_of (AList.update (manifestKey i r) body store) (manifestKey j r) = Some b \<and> dec b = Some n"
    and c: "c \<in> set (chunk_ids n)"
  have "map_of store (chunkKey c r) \<noteq> None"
  proof (cases "j = i")
    case True
    then show ?thesis using stored c assms(2,3) by (simp add: map_of_AList_update)
  next
    case False
    then show ?thesis using stored c assms(1) by (simp add: map_of_AList_update closed_namespace_def)
  qed
  then show "map_of (AList.update (manifestKey i r) body store) (chunkKey c r) \<noteq> None"
    by (simp add: map_of_AList_update)
qed

lemma copy_chunk_keys: "fst ` set (fst (copy_chunk store source target c)) \<subseteq> {chunkKey c target}"
  by (auto simp: copy_chunk_def split: option.splits)

lemma copy_chunk_done:
  "snd (copy_chunk store source target c) \<Longrightarrow>
     map_of store (chunkKey c target) \<noteq> None \<or> chunkKey c target \<in> fst ` set (fst (copy_chunk store source target c))"
  by (auto simp: copy_chunk_def split: option.splits if_splits)

lemma copy_batches_spec:
  "copy_batches store source target chunks = (ws, e) \<Longrightarrow>
     fst ` set ws \<subseteq> range (\<lambda>c. chunkKey c target)
     \<and> (e = None \<longrightarrow> (\<forall>c\<in>set chunks. map_of store (chunkKey c target) \<noteq> None \<or> chunkKey c target \<in> fst ` set ws))"
proof (induction store source target chunks arbitrary: ws e rule: copy_batches.induct)
  case (1 store source target chunks)
  let ?copy = "copy_chunk store source target"
  let ?ws = "concat (map (\<lambda>c. fst (?copy c)) (take 32 chunks))"
  have keys: "fst ` set ?ws \<subseteq> range (\<lambda>c. chunkKey c target)" using copy_chunk_keys by fastforce
  show ?case
  proof (cases "chunks = []")
    case True
    then show ?thesis using "1.prems" by (simp add: copy_batches.simps)
  next
    case False
    show ?thesis
    proof (cases "find (\<lambda>c. \<not> snd (?copy c)) (take 32 chunks)")
      case (Some c)
      then show ?thesis using "1.prems" False keys by (auto simp: copy_batches.simps [of store source target chunks] Let_def)
    next
      case None
      obtain more e' where m: "copy_batches store source target (drop 32 chunks) = (more, e')" by (rule prod.exhaust)
      have r: "ws = ?ws @ more" "e = e'"
        using "1.prems" False None m by (simp_all add: copy_batches.simps [of store source target chunks] Let_def)
      note ih = "1.IH" [OF False refl refl None m]
      have "map_of store (chunkKey c target) \<noteq> None \<or> chunkKey c target \<in> fst ` set ?ws" if "c \<in> set (take 32 chunks)" for c
      proof -
        have "snd (?copy c)" using None that by (auto simp: find_None_iff)
        from copy_chunk_done [OF this] show ?thesis using that by force
      qed
      then have first: "\<forall>c\<in>set (take 32 chunks). map_of store (chunkKey c target) \<noteq> None \<or> chunkKey c target \<in> fst ` set ?ws" ..
      have split: "set chunks = set (take 32 chunks) \<union> set (drop 32 chunks)" by (metis append_take_drop_id set_append)
      have parts: "fst ` set ws = fst ` set ?ws \<union> fst ` set more" by (simp only: r(1) set_append image_Un)
      have sub: "fst ` set ws \<subseteq> range (\<lambda>c. chunkKey c target)"
        unfolding parts by (rule Un_least [OF keys conjunct1 [OF ih]])
      have "map_of store (chunkKey c target) \<noteq> None \<or> chunkKey c target \<in> fst ` set ws"
        if e: "e = None" and c: "c \<in> set chunks" for c
      proof (cases "c \<in> set (take 32 chunks)")
        case True
        from bspec [OF first this] show ?thesis unfolding parts Un_iff by iprover
      next
        case False
        then have "c \<in> set (drop 32 chunks)" using c split by simp
        from bspec [OF mp [OF conjunct2 [OF ih]] this] show ?thesis
          using e unfolding parts Un_iff r(2) by iprover
      qed
      with sub show ?thesis by (intro conjI impI ballI)
    qed
  qed
qed

lemma ensure_shape:
  assumes "ensureManifestNamespace dec store i r = (ws, res)"
  shows "fst ` set ws \<subseteq> range (\<lambda>c. chunkKey c r) \<and> (res = Inr () \<longrightarrow> r = '''' \<or> map_of store (manifestKey i r) \<noteq> None)
    \<or> (\<exists>cs body m. ws = cs @ [(manifestKey i r, body)] \<and> dec body = Some m \<and> fst ` set cs \<subseteq> range (\<lambda>c. chunkKey c r)
         \<and> (\<forall>c\<in>set (chunk_ids m). map_of store (chunkKey c r) \<noteq> None \<or> chunkKey c r \<in> fst ` set cs))"
proof (cases "r = '''' \<or> map_of store (manifestKey i r) \<noteq> None")
  case True
  then show ?thesis using assms by (auto simp: ensureManifestNamespace_def)
next
  case False
  show ?thesis
  proof (cases "\<exists>source body m. tenantStoreParentRoot r = Some source \<and> map_of store (manifestKey i source) = Some body \<and> dec body = Some m")
    case True
    then obtain source body m where s: "tenantStoreParentRoot r = Some source" "map_of store (manifestKey i source) = Some body"
      "dec body = Some m" by blast
    obtain cs e where c: "copy_batches store source r (chunk_ids m) = (cs, e)" by (rule prod.exhaust)
    show ?thesis
      using assms False s c copy_batches_spec [OF c] by (cases e) (auto simp: ensureManifestNamespace_def)
  next
    case no: False
    then have "ws = [] \<and> res \<noteq> Inr ()"
      using assms False by (auto simp: ensureManifestNamespace_def split: option.splits)
    then show ?thesis by simp
  qed
qed

text \<open>C21: A namespace never dangles.  Bootstrapping a manifest into an account writes its chunks first and the
  manifest last: if every manifest of the account has its chunks before, so it is after any number of the
  writes, whether the bootstrap ends, fails or is cut short, and when it succeeds the manifest is there.\<close>

theorem namespace_never_dangles:
  assumes "closed_namespace dec r store" "ensureManifestNamespace dec store i r = (ws, res)"
  shows "closed_namespace dec r (apply_writes (take n ws) store)
    \<and> (res = Inr () \<longrightarrow> r = '''' \<or> map_of (apply_writes ws store) (manifestKey i r) \<noteq> None)"
  using ensure_shape [OF assms(2)]
proof
  assume a: "fst ` set ws \<subseteq> range (\<lambda>c. chunkKey c r) \<and> (res = Inr () \<longrightarrow> r = '''' \<or> map_of store (manifestKey i r) \<noteq> None)"
  have "fst ` set (take n ws) \<subseteq> range (\<lambda>c. chunkKey c r)"
    using image_mono [OF set_take_subset [of n ws], of fst] a by (meson order_trans)
  from chunk_writes_closed [OF assms(1) this] show ?thesis
    using a apply_keeps [of store "manifestKey i r" ws] by blast
next
  assume "\<exists>cs body m. ws = cs @ [(manifestKey i r, body)] \<and> dec body = Some m \<and> fst ` set cs \<subseteq> range (\<lambda>c. chunkKey c r)
         \<and> (\<forall>c\<in>set (chunk_ids m). map_of store (chunkKey c r) \<noteq> None \<or> chunkKey c r \<in> fst ` set cs)"
  then obtain cs body m where w: "ws = cs @ [(manifestKey i r, body)]" "dec body = Some m"
    "fst ` set cs \<subseteq> range (\<lambda>c. chunkKey c r)"
    "\<forall>c\<in>set (chunk_ids m). map_of store (chunkKey c r) \<noteq> None \<or> chunkKey c r \<in> fst ` set cs"
    by (elim exE conjE) (rule that)
  have cut: "closed_namespace dec r (apply_writes (take k cs) store)" for k
    using image_mono [OF set_take_subset [of k cs], of fst] w(3) by (intro chunk_writes_closed [OF assms(1)]) (rule order_trans)
  have all: "closed_namespace dec r (apply_writes cs store)" using cut [of "length cs"] by simp
  have "map_of (apply_writes cs store) (chunkKey c r) \<noteq> None" if "c \<in> set (chunk_ids m)" for c
    using bspec [OF w(4) that] by (elim disjE) (erule apply_keeps, erule apply_written)
  from manifest_write_closed [OF all w(2) this] have "closed_namespace dec r (apply_writes ws store)"
    by (simp add: w(1))
  then have "closed_namespace dec r (apply_writes (take n ws) store)"
    using cut [of n] by (cases "n \<le> length cs") (simp_all add: w(1))
  then show ?thesis by (simp add: w(1) map_of_AList_update)
qed

section \<open>Stored chunks\<close>

definition le_value :: "bytes \<Rightarrow> nat" where
  "le_value bs = (\<Sum>i<length bs. unat (bs ! i) * 256 ^ i)"

text \<open>A reader of frames with raw blocks only (RFC 8878): the blocks up to the last one, and what follows.\<close>

function decode_blocks :: "bytes \<Rightarrow> bytes option" where
  "decode_blocks bs =
     (if length bs < 3 then None
      else let h = le_value (take 3 bs); size = h div 8; body = take size (drop 3 bs)
           in if h div 2 mod 4 \<noteq> 0 \<or> length body < size then None
              else if odd h then (if length bs = 3 + size then Some body else None)
              else map_option (\<lambda>more. body @ more) (decode_blocks (drop (3 + size) bs)))"
  by pat_completeness auto
termination
  by (relation "measure length") auto

declare decode_blocks.simps [simp del]

definition decode_frame :: "bytes \<Rightarrow> bytes option" where
  "decode_frame bs =
     (if length bs < 9 \<or> take 5 bs \<noteq> [0x28, 0xb5, 0x2f, 0xfd, 0xa0] then None
      else case decode_blocks (drop 9 bs) of
        None \<Rightarrow> None
      | Some plain \<Rightarrow> if length plain = le_value (take 4 (drop 5 bs)) then Some plain else None)"

lemma length_le_bytes [simp]: "length (le_bytes k n) = k"
  by (simp add: le_bytes_def)

lemma le_value_bytes: "n < 256 ^ k \<Longrightarrow> le_value (le_bytes k n) = n"
proof -
  have digit: "unat (word_of_nat (n div 256 ^ i) :: byte) = n div 256 ^ i mod 256" for i
    by (simp add: unat_of_nat)
  have "(\<Sum>i<k. n div 256 ^ i mod 256 * 256 ^ i) = n mod 256 ^ k" for k
  proof (induction k)
    case (Suc k)
    then show ?case using mod_mult2_eq [of n "256 ^ k" 256] by (simp add: mult.commute)
  qed simp
  then show "n < 256 ^ k \<Longrightarrow> ?thesis" by (simp add: le_value_def le_bytes_def digit)
qed

lemma decode_encode_blocks:
  "length plain - off \<le> Suc k * RAW_BLOCK_MAX \<Longrightarrow> decode_blocks (encode_blocks (Suc k) off plain) = Some (drop off plain)"
proof (induction k arbitrary: off)
  case 0
  let ?n = "length plain - off"
  have n: "?n \<le> RAW_BLOCK_MAX" using 0 by simp
  then have "Suc (?n * 8) < 256 ^ 3" by (simp add: RAW_BLOCK_MAX_def)
  from le_value_bytes [OF this] have h: "le_value (le_bytes 3 (Suc (?n * 8))) = Suc (?n * 8)" .
  have bits: "Suc (?n * 8) div 2 mod 4 = 0" "Suc (?n * 8) div 8 = ?n" "odd (Suc (?n * 8))" by presburger+
  show ?case
    using n by (subst decode_blocks.simps) (simp add: Let_def min_absorb2 h bits)
next
  case (Suc k)
  let ?n = "min RAW_BLOCK_MAX (length plain - off)"
  have "?n * 8 < 256 ^ 3" by (simp add: RAW_BLOCK_MAX_def min_def)
  from le_value_bytes [OF this] have h: "le_value (le_bytes 3 (?n * 8)) = ?n * 8" .
  have "length plain - (off + ?n) \<le> Suc k * RAW_BLOCK_MAX"
  proof (cases "RAW_BLOCK_MAX \<le> length plain - off")
    case True
    then show ?thesis using Suc.prems by simp
  qed simp
  from Suc.IH [OF this] have ih: "decode_blocks (encode_blocks (Suc k) (off + ?n) plain) = Some (drop (off + ?n) plain)" .
  have "take ?n (drop off plain) @ drop (off + ?n) plain = drop off plain"
    by (metis append_take_drop_id drop_drop add.commute)
  then show ?case
    using ih by (subst encode_blocks.simps, subst decode_blocks.simps) (simp add: Let_def h del: encode_blocks.simps)
qed

lemma frame_roundtrip:
  assumes "length plain < 2 ^ 32"
  shows "decode_frame (encodeChunkBody plain) = Some plain"
proof -
  let ?b = "max 1 ((length plain + RAW_BLOCK_MAX - 1) div RAW_BLOCK_MAX)"
  obtain k where k: "?b = Suc k" by (metis max_def not0_implies_Suc le_numeral_extra(4) not_one_le_zero)
  have "length plain + 131071 = (length plain + 131071) div 131072 * 131072 + (length plain + 131071) mod 131072"
    "(length plain + 131071) mod 131072 < 131072" by simp_all
  then have "length plain \<le> (length plain + 131071) div 131072 * 131072" by linarith
  then have "length plain \<le> ?b * RAW_BLOCK_MAX"
    by (auto simp: RAW_BLOCK_MAX_def max_def add.commute)
  then have "decode_blocks (encode_blocks ?b 0 plain) = Some plain"
    using decode_encode_blocks [of plain 0 k] unfolding k by simp
  moreover have "le_value (le_bytes 4 (length plain)) = length plain" by (rule le_value_bytes) (use assms in simp)
  ultimately show ?thesis by (simp add: encodeChunkBody_def decode_frame_def Let_def)
qed

text \<open>A chunk body is read back.  The frame \<open>encodeChunkBody\<close> writes for fewer than 2^32 bytes, given to the
  reader under its own address and length, comes back as the bytes, with any decompressor that decodes
  frames of raw blocks.\<close>

theorem chunk_body_roundtrip:
  assumes "\<And>f p. decode_frame f = Some p \<Longrightarrow> zstd f = Some p"
    "length plain < 2 ^ 32" "content_address (hash plain)"
  shows "decodeChunkBody zstd hash (encodeChunkBody plain) (hash plain) (Some (length plain)) = Inr plain"
  using assms(1) [OF frame_roundtrip [OF assms(2)]] assms(3)
  by (simp add: decodeChunkBody_def encodeChunkBody_def Let_def)


section \<open>A listing is the children of the directory\<close>

definition dir_prefix :: "string \<Rightarrow> string" where
  "dir_prefix dir = (if dir = ''/'' then ''/'' else dir @ ''/'')"

text \<open>The child of \<open>dir\<close> that a path lies in or is.\<close>

definition child_path :: "string \<Rightarrow> string \<Rightarrow> string option" where
  "child_path dir p =
     (if p = dir \<or> \<not> starts_with p (dir_prefix dir) then None
      else Some (dir_prefix dir @ takeWhile (\<lambda>c. c \<noteq> CHR ''/'') (drop (length (dir_prefix dir)) p)))"

definition child_paths :: "string \<Rightarrow> manifest_entry list \<Rightarrow> string set" where
  "child_paths dir es = {c. \<exists>e\<in>set es. child_path dir (normalizePath (me_path e)) = Some c}"

text \<open>What a child shows: its last entry of the manifest as recorded, or else an implied directory.\<close>

definition shown :: "string \<Rightarrow> manifest_entry list \<Rightarrow> string \<Rightarrow> dir_entry" where
  "shown dir es c =
     (case find (\<lambda>e. normalizePath (me_path e) = c) (rev es) of
        Some e \<Rightarrow> recorded_child c e
      | None \<Rightarrow> implied_child (dir_prefix dir) (drop (length (dir_prefix dir)) c))"

definition normal_path :: "string \<Rightarrow> bool" where
  "normal_path p \<longleftrightarrow> p = ''/'' \<or> p \<noteq> [] \<and> no_double (CHR ''/'') p \<and> last p \<noteq> CHR ''/''"

lemma ends_in_slash: "s \<noteq> [] \<Longrightarrow> last s = CHR ''/'' \<Longrightarrow> s \<noteq> ''/'' \<Longrightarrow> length s > 1 \<and> ends_with s ''/''"
  by (cases s rule: rev_cases) (auto simp: ends_with_def)

lemma normalizePath_normal: "normal_path (normalizePath s)"
proof -
  let ?p = "js_trim s"
  let ?q = "if starts_with ?p ''/'' then ?p else ''/'' @ ?p"
  let ?c = "collapse (CHR ''/'') ?q"
  show ?thesis
  proof (cases "?p = '''' \<or> ?p = ''.''")
    case False
    have c: "?c \<noteq> []" "no_double (CHR ''/'') ?c" using False by (simp_all add: no_double_collapse del: collapse.simps)
    show ?thesis
    proof (cases "length ?c > 1 \<and> ends_with ?c ''/''")
      case True
      then obtain s where s: "?c = s @ ''/''" by (auto simp: ends_with_def suffix_def)
      with True have "s \<noteq> []" by auto
      moreover have "last s \<noteq> CHR ''/''"
      proof
        assume l: "last s = CHR ''/''"
        have "no_double (CHR ''/'') (s @ ''/'')" using c(2) s by simp
        then show False using \<open>s \<noteq> []\<close> l by (induction s rule: induct_list012) (auto simp: no_double_Cons)
      qed
      ultimately show ?thesis
        using False True c no_double_butlast [OF c(2)] s by (simp add: normalizePath_def Let_def normal_path_def)
    next
      case no: False
      have "?c = ''/'' \<or> last ?c \<noteq> CHR ''/''"
      proof (rule ccontr)
        assume "\<not> (?c = ''/'' \<or> last ?c \<noteq> CHR ''/'')"
        then show False using no ends_in_slash [OF c(1)] by blast
      qed
      moreover have "normalizePath s = ?c" by (simp only: normalizePath_def Let_def False no if_False)
      ultimately show ?thesis using c by (simp only: normal_path_def simp_thms)
    qed
  qed (auto simp: normalizePath_def normal_path_def)
qed

lemma last_index_append:
  "last_index c (xs @ ys) = (case last_index c ys of Some j \<Rightarrow> Some (length xs + j) | None \<Rightarrow> last_index c xs)"
  by (induction xs) (auto split: option.splits)

lemma last_index_None [simp]: "last_index c s = None \<longleftrightarrow> c \<notin> set s"
  by (induction s) (auto split: option.splits)

lemma last_index_bound: "last_index c s = Some j \<Longrightarrow> j < length s \<and> s ! j = c"
  by (induction s arbitrary: j) (auto split: option.splits if_splits)


text \<open>A path under the directory is its prefix and a remainder that does not start with a slash.\<close>

lemma under_dir:
  assumes "normal_path dir" "normal_path p" "p \<noteq> dir" "starts_with p (dir_prefix dir)"
  obtains rest where "p = dir_prefix dir @ rest" "rest \<noteq> []" "hd rest \<noteq> CHR ''/''"
proof -
  obtain rest where r: "p = dir_prefix dir @ rest" using assms(4) by (auto simp: starts_with_def prefix_def)
  have d: "dir \<noteq> []" using assms(1) by (auto simp: normal_path_def)
  have ne: "rest \<noteq> []"
  proof
    assume "rest = []"
    then show False using r assms(2,3) d by (auto simp: dir_prefix_def normal_path_def split: if_splits)
  qed
  have double: "\<not> no_double (CHR ''/'') (xs @ CHR ''/'' # CHR ''/'' # ys)" for xs ys
    by (induction xs) (auto simp: no_double_Cons)
  have "hd rest \<noteq> CHR ''/''"
  proof
    assume "hd rest = CHR ''/''"
    then obtain t where t: "rest = CHR ''/'' # t" using ne by (cases rest) auto
    have "p \<noteq> ''/''" using r ne d by (cases dir) (auto simp: dir_prefix_def split: if_splits)
    then have "no_double (CHR ''/'') p" using assms(2) by (simp add: normal_path_def)
    then show False using double [of dir t] by (auto simp: r t dir_prefix_def split: if_splits)
  qed
  with r ne show thesis by (rule that)
qed

lemma parent_of_child:
  assumes "normal_path dir" "rest \<noteq> []" "hd rest \<noteq> CHR ''/''"
  shows "parentDir (dir_prefix dir @ rest) = dir \<longleftrightarrow> CHR ''/'' \<notin> set rest"
proof -
  have d: "dir \<noteq> []" using assms(1) by (auto simp: normal_path_def)
  have pre: "last_index (CHR ''/'') (dir_prefix dir) = Some (length (dir_prefix dir) - 1)"
    by (simp add: dir_prefix_def last_index_append)
  show ?thesis
  proof (cases "last_index (CHR ''/'') rest")
    case None
    then show ?thesis
      using pre d by (simp add: parentDir_def last_index_append del: last_index_None) (simp add: dir_prefix_def)
  next
    case (Some j)
    then have j: "j < length rest" "rest ! j = CHR ''/''" by (simp_all add: last_index_bound)
    then have "0 < j" using assms(2,3) by (cases j) (auto simp: hd_conv_nth)
    moreover have "CHR ''/'' \<in> set rest" using j by (metis nth_mem)
    moreover have "length (take (length (dir_prefix dir) + j) (dir_prefix dir @ rest)) = length (dir_prefix dir) + j"
      using j(1) by simp
    then have "take (length (dir_prefix dir) + j) (dir_prefix dir @ rest) \<noteq> dir"
      using \<open>0 < j\<close> by (auto simp: dir_prefix_def split: if_splits)
    ultimately show ?thesis using Some by (simp add: parentDir_def last_index_append)
  qed
qed

text \<open>One step of the loop in terms of the child the entry lies in or is.\<close>

lemma list_step_eq:
  assumes "normal_path dir"
  shows "list_step dir (dir_prefix dir) e (ch, saw) =
    (case child_path dir (normalizePath (me_path e)) of
       None \<Rightarrow> (ch, saw)
     | Some c \<Rightarrow>
         ((if c = normalizePath (me_path e) then AList.update c (recorded_child c e) ch
           else if map_of ch c \<noteq> None then ch
           else AList.update c (implied_child (dir_prefix dir) (drop (length (dir_prefix dir)) c)) ch), True))"
proof (cases "normalizePath (me_path e) = dir \<or> \<not> starts_with (normalizePath (me_path e)) (dir_prefix dir)")
  case True
  then show ?thesis by (auto simp: list_step_def child_path_def Let_def)
next
  case False
  then obtain rest where r: "normalizePath (me_path e) = dir_prefix dir @ rest" "rest \<noteq> []" "hd rest \<noteq> CHR ''/''"
    using under_dir [OF assms normalizePath_normal] by metis
  have pre: "starts_with (dir_prefix dir @ rest) (dir_prefix dir)" by simp
  note under = False [unfolded r(1) de_Morgan_disj not_not]
  show ?thesis
  proof (cases "CHR ''/'' \<in> set rest")
    case True
    then have "takeWhile (\<lambda>c. c \<noteq> CHR ''/'') rest \<noteq> rest" by (metis set_takeWhileD)
    then show ?thesis
      using under True parent_of_child [OF assms r(2,3)]
      by (auto simp: list_step_def child_path_def Let_def r(1))
  next
    case no: False
    then have t: "takeWhile (\<lambda>c. c \<noteq> CHR ''/'') rest = rest" by (auto simp: takeWhile_eq_all_conv)
    then show ?thesis
      using under no parent_of_child [OF assms r(2,3)]
      by (auto simp: list_step_def child_path_def Let_def r(1) t)
  qed
qed

text \<open>A recorded path that is a child's is that child.\<close>

lemma child_of_child:
  assumes "normal_path dir" "normal_path p" "child_path dir p = Some c" "normal_path q" "q = c"
  shows "child_path dir q = Some c"
proof -
  obtain rest where r: "p = dir_prefix dir @ rest" "rest \<noteq> []" "hd rest \<noteq> CHR ''/''"
    using assms(3) under_dir [OF assms(1,2)] by (metis child_path_def option.distinct(1))
  have c: "c = dir_prefix dir @ takeWhile (\<lambda>c. c \<noteq> CHR ''/'') rest"
    using assms(3) by (auto simp: child_path_def r(1) split: if_splits)
  moreover have "takeWhile (\<lambda>c. c \<noteq> CHR ''/'') rest \<noteq> []" using r by (cases rest) auto
  moreover have "c \<noteq> dir" using calculation by (auto simp: dir_prefix_def split: if_splits)
  ultimately show ?thesis by (simp add: assms(5) child_path_def)
qed


lemma shown_snoc:
  "shown dir (es @ [e]) c = (if normalizePath (me_path e) = c then recorded_child c e else shown dir es c)"
  by (simp add: shown_def)

lemma shown_implied:
  assumes "\<And>e. e \<in> set es \<Longrightarrow> normalizePath (me_path e) \<noteq> c"
  shows "shown dir es c = implied_child (dir_prefix dir) (drop (length (dir_prefix dir)) c)"
  using assms by (auto simp: shown_def find_Some_iff split: option.split) (metis nth_mem set_rev length_rev)

lemma child_paths_snoc:
  "child_paths dir (es @ [e]) =
     (case child_path dir (normalizePath (me_path e)) of None \<Rightarrow> child_paths dir es | Some c \<Rightarrow> insert c (child_paths dir es))"
  by (auto simp: child_paths_def split: option.split)

text \<open>The children after a prefix of the entries.\<close>

lemma listing_children:
  assumes "normal_path dir" "fold (list_step dir (dir_prefix dir)) es ([], saw0) = (ch, saw)"
  shows "(\<forall>c. map_of ch c = (if c \<in> child_paths dir es then Some (shown dir es c) else None))
    \<and> distinct (map fst ch) \<and> (saw \<longleftrightarrow> saw0 \<or> child_paths dir es \<noteq> {})"
  using assms(2)
proof (induction es arbitrary: ch saw rule: rev_induct)
  case Nil
  then show ?case by (auto simp: child_paths_def)
next
  case (snoc e es)
  obtain ch1 saw1 where before: "fold (list_step dir (dir_prefix dir)) es ([], saw0) = (ch1, saw1)" by (rule prod.exhaust)
  from snoc.IH [OF before]
  have ih: "\<And>c. map_of ch1 c = (if c \<in> child_paths dir es then Some (shown dir es c) else None)"
    "distinct (map fst ch1)" "saw1 \<longleftrightarrow> saw0 \<or> child_paths dir es \<noteq> {}" by blast+
  let ?p = "normalizePath (me_path e)"
  have step: "list_step dir (dir_prefix dir) e (ch1, saw1) = (ch, saw)" using snoc.prems before by simp
  have self: "child_path dir ?p = Some c" if c: "c \<in> child_paths dir (es @ [e])" and p: "?p = c" for c
  proof -
    obtain e' :: manifest_entry where "child_path dir (normalizePath (me_path e')) = Some c"
      using c unfolding child_paths_def mem_Collect_eq by (elim bexE)
    from child_of_child [OF assms(1) normalizePath_normal this normalizePath_normal p] show ?thesis .
  qed
  show ?case
  proof (cases "child_path dir ?p")
    case None
    then have "?p \<noteq> c" if "c \<in> child_paths dir es" for c
      using self [of c] that by (auto simp: child_paths_snoc)
    then show ?thesis
      using step ih None unfolding list_step_eq [OF assms(1)] by (auto simp: shown_snoc child_paths_snoc)
  next
    case (Some c0)
    have all: "child_paths dir (es @ [e]) = insert c0 (child_paths dir es)" by (simp add: child_paths_snoc Some)
    have saw: "saw" using step Some by (simp add: list_step_eq [OF assms(1)])
    have other: "?p \<noteq> c" if "c \<in> child_paths dir es" "c \<noteq> c0" for c
      using self [of c] that Some by (auto simp: all)
    show ?thesis
    proof (cases "c0 = ?p")
      case True
      then have "ch = AList.update c0 (recorded_child c0 e) ch1"
        using step Some by (simp add: list_step_eq [OF assms(1)])
      then show ?thesis
        using saw ih True other by (auto simp: map_of_AList_update all shown_snoc keys_AList_update)
    next
      case False
      have same: "?p \<noteq> c" if "c \<in> insert c0 (child_paths dir es)" for c
        using that False other by auto
      show ?thesis
      proof (cases "c0 \<in> child_paths dir es")
        case True
        then have "ch = ch1" using step Some False ih(1) [of c0] by (simp add: list_step_eq [OF assms(1)])
        then show ?thesis using saw ih True same by (auto simp: all shown_snoc insert_absorb)
      next
        case new: False
        have "normalizePath (me_path e') \<noteq> c0" if "e' \<in> set es" for e'
          using new that child_of_child [OF assms(1) normalizePath_normal Some normalizePath_normal]
          by (auto simp: child_paths_def)
        then have imp: "shown dir es c0 = implied_child (dir_prefix dir) (drop (length (dir_prefix dir)) c0)"
          by (rule shown_implied)
        have "ch = AList.update c0 (shown dir es c0) ch1"
          using step Some False new ih(1) [of c0] by (simp add: list_step_eq [OF assms(1)] imp)
        then show ?thesis
          using saw ih same by (auto simp: map_of_AList_update all shown_snoc keys_AList_update)
      qed
    qed
  qed
qed


lemma finite_child_paths: "finite (child_paths dir es)"
proof -
  have "child_paths dir es \<subseteq> (\<lambda>e. the (child_path dir (normalizePath (me_path e)))) ` set es"
    unfolding child_paths_def by force
  then show ?thesis by (rule finite_subset) simp
qed

lemma shown_path: "c \<in> child_paths dir es \<Longrightarrow> de_path (shown dir es c) = c"
  by (auto simp: shown_def recorded_child_def implied_child_def child_paths_def child_path_def
      split: option.splits if_splits)

lemma sorted_children:
  assumes "\<forall>c. map_of ch c = (if c \<in> C then Some (f c) else None)" "distinct (map fst ch)" "finite C"
    "\<And>c. c \<in> C \<Longrightarrow> de_path (f c) = c"
  shows "sort_key de_path (map snd ch) = map f (sorted_list_of_set C)"
proof -
  have mem: "(c, d) \<in> set ch \<longleftrightarrow> c \<in> C \<and> d = f c" for c d
    using assms(1) map_of_eq_Some_iff [OF assms(2), of c d] by (auto split: if_splits)
  have "de_path (snd x) = fst x" if "x \<in> set ch" for x
    using mem [of "fst x" "snd x"] assms(4) that by simp
  then have keys: "map de_path (map snd ch) = map fst ch" unfolding map_map by (intro map_cong) simp_all
  let ?s = "sort_key de_path (map snd ch)"
  have "map de_path ?s = sorted_list_of_set C"
  proof (rule sorted_distinct_set_unique)
    have "distinct (map de_path (map snd ch))" unfolding keys by (rule assms(2))
    then show "distinct (map de_path ?s)" by (simp only: distinct_map distinct_sort set_sort)
    have "set (map de_path ?s) = set (map fst ch)" using keys by (metis set_map set_sort)
    also have "\<dots> = C" using mem by force
    finally show "set (map de_path ?s) = set (sorted_list_of_set C)" using assms(3) by simp
  qed simp_all
  moreover have "map f (map de_path ?s) = ?s"
    unfolding map_map by (rule map_idI) (use mem assms(4) in auto)
  ultimately show ?thesis by simp
qed

text \<open>A listing is the children of the directory.  Listing a path fails when its entry is not a directory or
  nothing is at or under it; otherwise it shows, once each and in the order of their paths, exactly the
  paths one level below that an entry is or lies under, each as its last entry records it, or as a plain
  directory when only deeper entries imply it.\<close>

theorem listing_is_the_children:
  "listDirectory m path =
    (let dir = normalizePath path; children = child_paths dir (mf_entries m)
     in if dir \<noteq> ''/'' \<and> (\<exists>e. findEntry m dir = Some e \<and> me_kind e \<noteq> EDir) then Inl (NotAFile dir)
        else if dir \<noteq> ''/'' \<and> findEntry m dir = None \<and> children = {} then Inl (PathNotFound dir)
        else Inr \<lparr>dl_path = dir, dl_entries = map (shown dir (mf_entries m)) (sorted_list_of_set children)\<rparr>)"
proof -
  let ?dir = "normalizePath path"
  let ?saw0 = "?dir = ''/'' \<or> findEntry m ?dir \<noteq> None"
  obtain ch saw where f: "fold (list_step ?dir (dir_prefix ?dir)) (mf_entries m) ([], ?saw0) = (ch, saw)"
    by (rule prod.exhaust)
  from listing_children [OF normalizePath_normal f]
  have l: "\<forall>c. map_of ch c = (if c \<in> child_paths ?dir (mf_entries m) then Some (shown ?dir (mf_entries m) c) else None)"
    "distinct (map fst ch)" and saw: "saw \<longleftrightarrow> ?saw0 \<or> child_paths ?dir (mf_entries m) \<noteq> {}" by blast+
  have "sort_key de_path (map snd ch) = map (shown ?dir (mf_entries m)) (sorted_list_of_set (child_paths ?dir (mf_entries m)))"
    by (rule sorted_children [OF l finite_child_paths shown_path])
  then show ?thesis
    using f saw unfolding listDirectory_def Let_def dir_prefix_def
    by (auto split: option.split)
qed

section \<open>Examples\<close>

definition demo_hash :: "bytes \<Rightarrow> string" where
  "demo_hash b = replicate 63 (CHR ''a'') @ (if length b = 1 then ''c'' else ''0'')"

definition demo_chunk :: string where
  "demo_chunk = demo_hash [9]"

definition demo_root :: string where
  "demo_root = ''p/tenants/'' @ replicate 64 (CHR ''a'')"

definition demo_base :: manifest where
  "demo_base = \<lparr>mf_version = 1, mf_parent = None, mf_created_at = 0,
     mf_entries = [\<lparr>me_path = ''/a'', me_kind = EFile, me_mode = 0, me_size = 1, me_symlink_target = None,
       me_chunks = [\<lparr>cr_chunk = demo_chunk, cr_len = 1\<rparr>]\<rparr>]\<rparr>"

definition demo_dec :: "bytes \<Rightarrow> manifest option" where
  "demo_dec body = (if body = [7] then Some demo_base else None)"

definition demo_store :: bucket where
  "demo_store = [(''p/manifests/m.cbor'', [7]), (''p/chunks/aa/'' @ demo_chunk, [40])]"

lemma demo_closed: "closed_namespace demo_dec demo_root demo_store"
proof -
  have "strip_trailing (CHR ''/'') demo_root = demo_root" by code_simp
  then have "map_of demo_store (manifestKey i demo_root) = None" for i
    by (simp add: manifestKey_def inRoot_def demo_store_def) (simp add: demo_root_def)
  then show ?thesis by (simp add: closed_namespace_def)
qed

theorem namespace_never_dangles_witness:
  "\<exists>ws. ensureManifestNamespace demo_dec demo_store ''m'' demo_root = (ws, Inr ()) \<and> length ws = 2
     \<and> closed_namespace demo_dec demo_root (apply_writes (take 2 ws) demo_store)
     \<and> map_of (apply_writes ws demo_store) (manifestKey ''m'' demo_root) \<noteq> None"
proof -
  have "(case ensureManifestNamespace demo_dec demo_store ''m'' demo_root of
          (ws, res) \<Rightarrow> res = Inr () \<and> length ws = 2)" by code_simp
  then obtain ws where w: "ensureManifestNamespace demo_dec demo_store ''m'' demo_root = (ws, Inr ())" "length ws = 2"
    by (auto split: prod.splits)
  have "demo_root \<noteq> ''''" by (simp add: demo_root_def)
  then show ?thesis using namespace_never_dangles [OF demo_closed w(1), of 2] w by simp
qed

theorem chunk_body_roundtrip_witness:
  "decodeChunkBody decode_frame demo_hash (encodeChunkBody [1, 2, 3]) (demo_hash [1, 2, 3]) (Some 3) = Inr [1, 2, 3]"
proof -
  have address: "content_address (demo_hash [1, 2, 3])" by code_simp
  have three: "length [1 :: byte, 2, 3] = 3" by simp
  show ?thesis
    by (rule chunk_body_roundtrip [of decode_frame "[1, 2, 3]" demo_hash, OF _ _ address, unfolded three]) simp_all
qed

end
