(* ===== verification/AuthConfig.thy ===== *)
theory AuthConfig
  imports Prelude
begin

text \<open>
  Who may sign in (\<^verbatim>\<open>control-plane/src/auth.ts\<close>): the verdict that an environment is production, the
  refusal to run a production origin with a development configuration, the configuration derived from the
  environment, and the two halves of a passkey-first sign-up.

  \<open>url\<close> is the URL parser of the platform (\<open>None\<close> is its error).  Better Auth itself, its adapters and the
  WebAuthn verification are not under \<^verbatim>\<open>src/\<close>: the two callbacks are modelled over the tables they read and
  write.  The texts of errors are not modelled.
\<close>

record web_url =
  u_protocol :: string
  u_hostname :: string
  u_origin :: string

type_synonym url_parser = "string \<Rightarrow> web_url option"

section \<open>Strings\<close>

text \<open>\<^verbatim>\<open>s.toLowerCase()\<close> on code units below 256.\<close>

definition lower_char :: "char \<Rightarrow> char" where
  "lower_char c =
     (let n = of_char c :: nat
      in if 65 \<le> n \<and> n \<le> 90 \<or> 192 \<le> n \<and> n \<le> 222 \<and> n \<noteq> 215 then char_of (n + 32) else c)"

definition js_lower :: "string \<Rightarrow> string" where
  "js_lower s = map lower_char s"

text \<open>\<^verbatim>\<open>[...new Set(xs)]\<close>: each element once, at its first place.\<close>

definition js_unique :: "'a list \<Rightarrow> 'a list" where
  "js_unique xs = rev (remdups (rev xs))"

section \<open>Production\<close>

record auth_env =
  ae_ENVIRONMENT :: "string option"
  ae_BASE_URL :: "string option"
  ae_AUTH_SECRET :: "string option"
  ae_AUTH_RP_ID :: "string option"
  ae_AUTH_RP_NAME :: "string option"
  ae_AUTH_TRUSTED_ORIGINS :: "string option"
  ae_DEV_AUTH :: "string option"
  ae_DEV_SEED :: "string option"
  ae_GITHUB_CLIENT_ID :: "string option"
  ae_GITHUB_CLIENT_SECRET :: "string option"

definition DEV_SECRET :: string where
  "DEV_SECRET = ''mari-dev-only-secret-do-not-use-in-prod''"

definition PLACEHOLDER_SECRETS :: "string list" where
  "PLACEHOLDER_SECRETS = [DEV_SECRET, ''change-me-in-production'', ''mari-private-instance-change-me'',
     ''test-secret-not-for-prod'', ''node-suite-secret-not-for-prod'']"

definition MIN_SECRET_LENGTH :: nat where "MIN_SECRET_LENGTH = 32"

text \<open>The brackets of an IPv6 host go, one at each end.\<close>

definition isLoopbackHost :: "string \<Rightarrow> bool" where
  "isLoopbackHost host =
     (let l = js_lower host;
          l1 = (if starts_with l ''['' then tl l else l);
          h = (if ends_with l1 '']'' then butlast l1 else l1)
      in h = ''localhost'' \<or> ends_with h ''.localhost'' \<or> h = ''::1'' \<or> h = ''0.0.0.0'' \<or> starts_with h ''127.'')"

definition isPublicTlsOrigin :: "url_parser \<Rightarrow> string \<Rightarrow> bool" where
  "isPublicTlsOrigin url raw =
     (case url raw of None \<Rightarrow> False | Some u \<Rightarrow> u_protocol u = ''https:'' \<and> \<not> isLoopbackHost (u_hostname u))"

definition isProductionEnv :: "url_parser \<Rightarrow> auth_env \<Rightarrow> string option \<Rightarrow> bool" where
  "isProductionEnv url env requestUrl =
     (if js_lower (js_trim (case ae_ENVIRONMENT env of None \<Rightarrow> '''' | Some e \<Rightarrow> e)) = ''production'' then True
      else let baseUrl = js_trim (case ae_BASE_URL env of None \<Rightarrow> '''' | Some b \<Rightarrow> b)
           in if baseUrl \<noteq> '''' \<and> isPublicTlsOrigin url baseUrl then True
              else (case requestUrl of None \<Rightarrow> False | Some r \<Rightarrow> isPublicTlsOrigin url r))"

datatype auth_config_error =
  SecretUnbound | SecretPlaceholder | SecretTooShort nat | DevAuthInProduction | DevSeedInProduction

definition assertProductionSafety :: "url_parser \<Rightarrow> auth_env \<Rightarrow> string option \<Rightarrow> auth_config_error option" where
  "assertProductionSafety url env requestUrl =
     (if \<not> isProductionEnv url env requestUrl then None
      else case ae_AUTH_SECRET env of
        None \<Rightarrow> Some SecretUnbound
      | Some secret \<Rightarrow>
          if secret = '''' then Some SecretUnbound
          else if secret \<in> set PLACEHOLDER_SECRETS then Some SecretPlaceholder
          else if length secret < MIN_SECRET_LENGTH then Some (SecretTooShort (length secret))
          else if ae_DEV_AUTH env = Some ''1'' then Some DevAuthInProduction
          else if ae_DEV_SEED env = Some ''1'' then Some DevSeedInProduction
          else None)"

section \<open>The configuration\<close>

record auth_config =
  ac_production :: bool
  ac_secret :: string
  ac_baseURL :: string
  ac_rpID :: string
  ac_rpName :: string
  ac_origin :: "string list option"
  ac_trustedOrigins :: "string list"
  ac_emailPassword :: bool
  ac_github :: "(string \<times> string) option"

definition splitOrigins :: "string option \<Rightarrow> string list" where
  "splitOrigins raw =
     (case raw of
        None \<Rightarrow> []
      | Some r \<Rightarrow> if r = '''' then []
                  else filter (\<lambda>s. s \<noteq> '''') (map (\<lambda>s. strip_trailing (CHR ''/'') (js_trim s)) (split_on (CHR '','') r)))"

definition originOf :: "url_parser \<Rightarrow> string \<Rightarrow> string" where
  "originOf url baseURL = (case url baseURL of None \<Rightarrow> baseURL | Some u \<Rightarrow> u_origin u)"

definition rpIdFor :: "url_parser \<Rightarrow> string \<Rightarrow> string" where
  "rpIdFor url baseURL =
     (case url baseURL of None \<Rightarrow> ''localhost'' | Some u \<Rightarrow> if u_hostname u = '''' then ''localhost'' else u_hostname u)"

definition or_else :: "'a option \<Rightarrow> 'a \<Rightarrow> 'a" where
  "or_else v d = (case v of None \<Rightarrow> d | Some x \<Rightarrow> x)"

definition resolveAuthConfig :: "url_parser \<Rightarrow> auth_env \<Rightarrow> auth_config_error + auth_config" where
  "resolveAuthConfig url env =
     (case assertProductionSafety url env None of
        Some e \<Rightarrow> Inl e
      | None \<Rightarrow>
          (let production = isProductionEnv url env None;
               baseURL = or_else (ae_BASE_URL env) ''http://localhost'';
               pinned = originOf url baseURL # splitOrigins (ae_AUTH_TRUSTED_ORIGINS env);
               github = (case (ae_GITHUB_CLIENT_ID env, ae_GITHUB_CLIENT_SECRET env) of
                           (Some i, Some s) \<Rightarrow> if i \<noteq> '''' \<and> s \<noteq> '''' then Some (i, s) else None
                         | _ \<Rightarrow> None)
           in Inr \<lparr>ac_production = production, ac_secret = or_else (ae_AUTH_SECRET env) DEV_SECRET,
                ac_baseURL = baseURL, ac_rpID = or_else (ae_AUTH_RP_ID env) (rpIdFor url baseURL),
                ac_rpName = or_else (ae_AUTH_RP_NAME env) ''Mari'',
                ac_origin = (if production then Some (js_unique pinned) else None),
                ac_trustedOrigins = js_unique (baseURL # pinned),
                ac_emailPassword = (ae_DEV_AUTH env = Some ''1''), ac_github = github\<rparr>))"

section \<open>Passkey-first sign-up\<close>

record user_row =
  us_id :: string
  us_email :: string

text \<open>The tables: users, and the users of stored passkeys, of other linked accounts and of sessions.\<close>

record auth_db =
  db_users :: "user_row list"
  db_passkeys :: "string list"
  db_accounts :: "string list"
  db_sessions :: "string list"

datatype signup_error = INVALID_EMAIL | ACCOUNT_EXISTS

definition PENDING :: string where "PENDING = ''pending:''"

text \<open>\<^verbatim>\<open>/^[^\s@]+@[^\s@]+\.[^\s@]+$/\<close>: one @, no space, and a dot inside what follows it.\<close>

definition EMAIL_RE :: "string \<Rightarrow> bool" where
  "EMAIL_RE s =
     (let local = takeWhile (\<lambda>c. c \<noteq> CHR ''@'') s; domain = drop (Suc (length local)) s
      in local \<noteq> '''' \<and> length local < length s \<and> CHR ''@'' \<notin> set domain \<and> list_all (\<lambda>c. \<not> js_space c) s
         \<and> CHR ''.'' \<in> set (tl (butlast domain)))"

definition signupEmail :: "string option \<Rightarrow> signup_error + string" where
  "signupEmail raw =
     (let email = js_lower (js_trim (or_else raw ''''))
      in if length email > 320 \<or> \<not> EMAIL_RE email then Inl INVALID_EMAIL else Inr email)"

definition findUserByEmail :: "auth_db \<Rightarrow> string \<Rightarrow> user_row option" where
  "findUserByEmail db email = find (\<lambda>u. us_email u = email) (db_users db)"

definition hasCredentials :: "auth_db \<Rightarrow> string \<Rightarrow> bool" where
  "hasCredentials db userId \<longleftrightarrow> userId \<in> set (db_passkeys db) \<or> userId \<in> set (db_accounts db)"

text \<open>The first half: whom the challenge is for.\<close>

definition resolveUser :: "auth_db \<Rightarrow> string option \<Rightarrow> string option \<Rightarrow> signup_error + string" where
  "resolveUser db ctx_name query_name =
     (case signupEmail (case ctx_name of None \<Rightarrow> query_name | Some c \<Rightarrow> Some c) of
        Inl e \<Rightarrow> Inl e
      | Inr email \<Rightarrow>
          (case findUserByEmail db email of
             Some u \<Rightarrow> if hasCredentials db (us_id u) then Inl ACCOUNT_EXISTS else Inr (us_id u)
           | None \<Rightarrow> Inr (PENDING @ email)))"

text \<open>The second half, once the credential has verified: the user the credential is stored for.  \<open>new_id\<close> is the id
  the database gives to a created user.\<close>

definition afterVerification :: "string \<Rightarrow> string \<Rightarrow> auth_db \<Rightarrow> signup_error + (string \<times> auth_db)" where
  "afterVerification new_id user db =
     (if \<not> starts_with user PENDING then Inr (user, db)
      else let email = drop (length PENDING) user
           in if findUserByEmail db email \<noteq> None then Inl ACCOUNT_EXISTS
              else Inr (new_id, db\<lparr>db_users := db_users db @ [\<lparr>us_id = new_id, us_email = email\<rparr>],
                                  db_sessions := db_sessions db @ [new_id]\<rparr>))"


section \<open>A production origin\<close>

text \<open>A public origin is never served with a development configuration.  When a request arrives at a public TLS
  origin, or the environment is production, and the request is not refused, the configuration signs sessions
  with a secret of at least 32 characters that is in no published file, accepts no password, has no seed
  route, and a production configuration pins the ceremony to the deployment's own origins.\<close>

theorem production_is_never_dev:
  assumes "assertProductionSafety url env (Some request) = None"
    "isPublicTlsOrigin url request \<or> isProductionEnv url env None" "resolveAuthConfig url env = Inr c"
  shows "ac_secret c \<notin> set PLACEHOLDER_SECRETS \<and> 32 \<le> length (ac_secret c) \<and> \<not> ac_emailPassword c
    \<and> ae_DEV_SEED env \<noteq> Some ''1''
    \<and> ac_production c = isProductionEnv url env None
    \<and> (ac_production c \<longrightarrow> (\<exists>os. ac_origin c = Some os
         \<and> set os = insert (originOf url (ac_baseURL c)) (set (splitOrigins (ae_AUTH_TRUSTED_ORIGINS env)))))"
proof -
  have "isProductionEnv url env (Some request)"
    using assms(2) by (auto simp: isProductionEnv_def Let_def)
  then have "\<exists>secret. ae_AUTH_SECRET env = Some secret \<and> secret \<notin> set PLACEHOLDER_SECRETS \<and> 32 \<le> length secret
    \<and> ae_DEV_AUTH env \<noteq> Some ''1'' \<and> ae_DEV_SEED env \<noteq> Some ''1''"
    using assms(1) by (auto simp: assertProductionSafety_def MIN_SECRET_LENGTH_def split: option.splits if_splits)
  then show ?thesis
    using assms(3) by (auto simp: resolveAuthConfig_def Let_def or_else_def js_unique_def split: option.splits)
qed

text \<open>An environment that a request may be refused in: the order of the checks decides the error.\<close>

lemma safe_iff:
  "assertProductionSafety url env r = None \<longleftrightarrow>
     \<not> isProductionEnv url env r
     \<or> (\<exists>s. ae_AUTH_SECRET env = Some s \<and> s \<notin> set PLACEHOLDER_SECRETS \<and> 32 \<le> length s
          \<and> ae_DEV_AUTH env \<noteq> Some ''1'' \<and> ae_DEV_SEED env \<noteq> Some ''1'')"
  by (auto simp: assertProductionSafety_def MIN_SECRET_LENGTH_def split: option.splits)

definition demo_url :: url_parser where
  "demo_url s = (if starts_with s ''https://app'' then Some \<lparr>u_protocol = ''https:'', u_hostname = ''app.mari.sh'', u_origin = ''https://app.mari.sh''\<rparr>
     else None)"

definition demo_auth_env :: auth_env where
  "demo_auth_env = \<lparr>ae_ENVIRONMENT = None, ae_BASE_URL = Some ''https://app.mari.sh/'',
     ae_AUTH_SECRET = Some (replicate 40 (CHR ''k'')), ae_AUTH_RP_ID = None, ae_AUTH_RP_NAME = None,
     ae_AUTH_TRUSTED_ORIGINS = Some '' https://x.sh/ ,'', ae_DEV_AUTH = None, ae_DEV_SEED = None,
     ae_GITHUB_CLIENT_ID = None, ae_GITHUB_CLIENT_SECRET = None\<rparr>"

theorem production_is_never_dev_witness:
  "\<exists>c. resolveAuthConfig demo_url demo_auth_env = Inr c \<and> ac_production c \<and> 32 \<le> length (ac_secret c) \<and> \<not> ac_emailPassword c"
proof -
  have safe: "assertProductionSafety demo_url demo_auth_env (Some ''https://app/x'') = None" by code_simp
  have prod: "isProductionEnv demo_url demo_auth_env None" by code_simp
  have "assertProductionSafety demo_url demo_auth_env None = None" by code_simp
  then obtain c where c: "resolveAuthConfig demo_url demo_auth_env = Inr c"
    by (auto simp: resolveAuthConfig_def Let_def)
  show ?thesis using production_is_never_dev [OF safe _ c] prod c by blast
qed

section \<open>Sign-ups in any order\<close>

text \<open>
  Ceremonies interleaved: a visitor begins one and is given a challenge, and any challenge may be finished
  once, when its credential has verified; the passkey plugin then stores the credential for the user the
  second half answers.  The database gives a new user an id it has not used, and no id begins as a pending
  marker does.
\<close>

record signup_state =
  su_db :: auth_db
  su_challenges :: "string list"

datatype signup_event = Begin "string option" "string option" | Finish nat string

definition new_user_id :: "auth_db \<Rightarrow> string \<Rightarrow> bool" where
  "new_user_id db i \<longleftrightarrow> i \<notin> us_id ` set (db_users db) \<and> \<not> starts_with i PENDING"

definition signup_step :: "signup_event \<Rightarrow> signup_state \<Rightarrow> signup_state" where
  "signup_step e s =
     (case e of
        Begin ctx_name query_name \<Rightarrow>
          (case resolveUser (su_db s) ctx_name query_name of
             Inl _ \<Rightarrow> s
           | Inr i \<Rightarrow> s\<lparr>su_challenges := su_challenges s @ [i]\<rparr>)
      | Finish k i \<Rightarrow>
          if k < length (su_challenges s) \<and> new_user_id (su_db s) i
          then let rest = take k (su_challenges s) @ drop (Suc k) (su_challenges s)
               in case afterVerification i (su_challenges s ! k) (su_db s) of
                    Inl _ \<Rightarrow> s\<lparr>su_challenges := rest\<rparr>
                  | Inr (user, db) \<Rightarrow> \<lparr>su_db = db\<lparr>db_passkeys := db_passkeys db @ [user]\<rparr>, su_challenges = rest\<rparr>
          else s)"

definition signup_ok :: "signup_state \<Rightarrow> bool" where
  "signup_ok s \<longleftrightarrow> distinct (map us_email (db_users (su_db s))) \<and> distinct (map us_id (db_users (su_db s)))
     \<and> (\<forall>u\<in>set (db_users (su_db s)). \<not> starts_with (us_id u) PENDING)
     \<and> set (db_passkeys (su_db s)) \<subseteq> us_id ` set (db_users (su_db s))
     \<and> set (db_accounts (su_db s)) \<subseteq> us_id ` set (db_users (su_db s))
     \<and> (\<forall>c\<in>set (su_challenges s). starts_with c PENDING \<or> c \<in> us_id ` set (db_users (su_db s)))"

lemma findUserByEmail_None: "findUserByEmail db e = None \<longleftrightarrow> e \<notin> us_email ` set (db_users db)"
  by (auto simp: findUserByEmail_def find_None_iff)

lemma findUserByEmail_Some: "findUserByEmail db e = Some u \<Longrightarrow> u \<in> set (db_users db) \<and> us_email u = e"
  by (auto simp: findUserByEmail_def find_Some_iff)

lemma resolveUser_cases:
  "resolveUser db c q = Inr i \<Longrightarrow>
     starts_with i PENDING \<or> (\<exists>u\<in>set (db_users db). us_id u = i \<and> \<not> hasCredentials db i)"
  by (auto simp: resolveUser_def split: sum.splits option.splits if_splits dest: findUserByEmail_Some)

lemma signup_step_ok:
  assumes "signup_ok s" shows "signup_ok (signup_step e s)"
proof (cases e)
  case (Begin c q)
  then show ?thesis
    using assms resolveUser_cases [of "su_db s" c q]
    by (auto simp: signup_step_def signup_ok_def split: sum.splits)
next
  case (Finish k i)
  let ?rest = "take k (su_challenges s) @ drop (Suc k) (su_challenges s)"
  have rest: "set ?rest \<subseteq> set (su_challenges s)" by (auto dest: in_set_takeD in_set_dropD)
  show ?thesis
  proof (cases "k < length (su_challenges s) \<and> new_user_id (su_db s) i")
    case True
    then have mem: "su_challenges s ! k \<in> set (su_challenges s)" by simp
    show ?thesis
    proof (cases "starts_with (su_challenges s ! k) PENDING")
      case False
      then show ?thesis
        using assms True mem rest
        by (auto simp: signup_step_def Finish afterVerification_def signup_ok_def Let_def)
    next
      case pending: True
      show ?thesis
      proof (cases "findUserByEmail (su_db s) (drop (length PENDING) (su_challenges s ! k))")
        case None
        then show ?thesis
          using assms True rest pending
          by (auto simp: signup_step_def Finish afterVerification_def signup_ok_def Let_def new_user_id_def
              findUserByEmail_None)
      next
        case (Some u)
        then show ?thesis
          using assms True rest pending
          by (auto simp: signup_step_def Finish afterVerification_def signup_ok_def Let_def)
      qed
    qed
  next
    case False
    then show ?thesis using assms by (simp only: signup_step_def Finish signup_event.case if_not_P if_False)
  qed
qed


interpretation signups: guarded_machine signup_step signup_ok "\<lambda>s. length (db_users (su_db s))"
proof
  fix s e
  show "signup_ok s \<Longrightarrow> signup_ok (signup_step e s)" by (rule signup_step_ok)
  show "length (db_users (su_db s)) \<le> length (db_users (su_db (signup_step e s)))"
    by (auto simp: signup_step_def afterVerification_def Let_def split: signup_event.splits sum.splits)
qed

lemma resolved_has_no_credential:
  assumes "signup_ok s" "resolveUser (su_db s) c q = Inr i"
  shows "\<not> hasCredentials (su_db s) i"
proof (cases "starts_with i PENDING")
  case True
  then show ?thesis using assms(1) by (auto simp: signup_ok_def hasCredentials_def)
next
  case False
  then show ?thesis using resolveUser_cases [OF assms(2)] by blast
qed

text \<open>C22: Sign-ups keep accounts apart.  However ceremonies interleave, no two accounts share an address, and a
  challenge is only ever given for an address no account has, or for an account that holds no credential: an
  address is never enough to reach an account somebody can sign in to.\<close>

theorem sign_ups_keep_accounts_apart:
  assumes "signup_ok s"
  shows "distinct (map us_email (db_users (su_db (fold signup_step es s))))
    \<and> (\<forall>c q i. resolveUser (su_db (fold signup_step es s)) c q = Inr i
         \<longrightarrow> \<not> hasCredentials (su_db (fold signup_step es s)) i)"
proof -
  have "signup_ok (fold signup_step es s)" by (rule signups.all_kept [OF assms])
  then show ?thesis using resolved_has_no_credential by (simp add: signup_ok_def)
qed

definition no_accounts :: signup_state where
  "no_accounts = \<lparr>su_db = \<lparr>db_users = [], db_passkeys = [], db_accounts = [], db_sessions = []\<rparr>, su_challenges = []\<rparr>"

text \<open>Two ceremonies begun for one address: the second to finish is refused.\<close>

theorem sign_ups_keep_accounts_apart_witness:
  "distinct (map us_email (db_users (su_db (fold signup_step
      [Begin (Some '' Ann@x.io'') None, Begin None (Some ''ann@x.io''), Finish 1 ''u1'', Finish 0 ''u2''] no_accounts))))
   \<and> db_users (su_db (fold signup_step
      [Begin (Some '' Ann@x.io'') None, Begin None (Some ''ann@x.io''), Finish 1 ''u1'', Finish 0 ''u2''] no_accounts))
      = [\<lparr>us_id = ''u1'', us_email = ''ann@x.io''\<rparr>]"
proof -
  have "signup_ok no_accounts" by (simp add: signup_ok_def no_accounts_def)
  moreover have "db_users (su_db (fold signup_step
      [Begin (Some '' Ann@x.io'') None, Begin None (Some ''ann@x.io''), Finish 1 ''u1'', Finish 0 ''u2''] no_accounts))
      = [\<lparr>us_id = ''u1'', us_email = ''ann@x.io''\<rparr>]" by code_simp
  ultimately show ?thesis using sign_ups_keep_accounts_apart by blast
qed

text \<open>
  The second half does not look at credentials again: of two challenges given for an account without one, the
  second to finish stores its passkey for an account that by then somebody else can sign in to.
\<close>

lemma adoption_race:
  "let s = \<lparr>su_db = \<lparr>db_users = [\<lparr>us_id = ''u1'', us_email = ''ann@x.io''\<rparr>], db_passkeys = [], db_accounts = [],
              db_sessions = []\<rparr>, su_challenges = []\<rparr>;
       s1 = fold signup_step [Begin (Some ''ann@x.io'') None, Begin (Some ''ann@x.io'') None, Finish 1 ''u2''] s;
       s2 = signup_step (Finish 0 ''u3'') s1
   in hasCredentials (su_db s1) ''u1'' \<and> db_passkeys (su_db s2) = [''u1'', ''u1'']"
  by code_simp

end
