(* ===== verification/Diff.thy ===== *)
theory Diff
  imports Store "HOL-Library.Multiset"
begin

text \<open>
  The difference of two manifests (\<^verbatim>\<open>control-plane/src/diff.ts\<close>), its projection onto the wire
  (\<^verbatim>\<open>toDiffEntries\<close> of \<^verbatim>\<open>app.ts\<close>) and the model the review view renders (\<^verbatim>\<open>web/src/diff/model.ts\<close>).
\<close>

section \<open>The difference of two manifests\<close>

record diff_facts =
  df_kind :: entry_kind
  df_mode :: nat
  df_size :: nat
  df_symlink_target :: "string option"
  df_chunks :: nat

record diff_entry =
  de_entry_path :: string
  de_facts :: diff_facts

record modified_entry =
  mo_path :: string
  mo_from :: diff_facts
  mo_to :: diff_facts
  mo_sizeDelta :: int
  mo_contentChanged :: bool
  mo_modeChanged :: bool
  mo_kindChanged :: bool
  mo_symlinkChanged :: bool

record manifest_diff =
  md_added :: "diff_entry list"
  md_modified :: "modified_entry list"
  md_removed :: "diff_entry list"
  md_summary :: diff_summary

definition entry_facts :: "manifest_entry \<Rightarrow> diff_facts" where
  "entry_facts e = \<lparr>df_kind = me_kind e, df_mode = me_mode e, df_size = me_size e,
     df_symlink_target = me_symlink_target e, df_chunks = length (me_chunks e)\<rparr>"

definition sameChunks :: "manifest_entry \<Rightarrow> manifest_entry \<Rightarrow> bool" where
  "sameChunks a b \<longleftrightarrow>
     length (me_chunks a) = length (me_chunks b)
     \<and> list_all (\<lambda>i. cr_chunk (me_chunks a ! i) = cr_chunk (me_chunks b ! i)
                   \<and> cr_len (me_chunks a ! i) = cr_len (me_chunks b ! i)) [0..<length (me_chunks a)]"

definition byPath :: "manifest \<Rightarrow> (string \<times> manifest_entry) list" where
  "byPath m = fold (\<lambda>e. AList.update (me_path e) e) (mf_entries m) []"

definition contentDiffers :: "manifest_entry \<Rightarrow> manifest_entry \<Rightarrow> bool" where
  "contentDiffers a b \<longleftrightarrow> \<not> sameChunks a b \<or> me_size a \<noteq> me_size b"

definition entry_differs :: "manifest_entry \<Rightarrow> manifest_entry \<Rightarrow> bool" where
  "entry_differs a b \<longleftrightarrow> contentDiffers a b \<or> me_mode a \<noteq> me_mode b \<or> me_kind a \<noteq> me_kind b
     \<or> me_symlink_target a \<noteq> me_symlink_target b"

definition modified_of :: "string \<Rightarrow> manifest_entry \<Rightarrow> manifest_entry \<Rightarrow> modified_entry" where
  "modified_of path a b = \<lparr>mo_path = path, mo_from = entry_facts a, mo_to = entry_facts b,
     mo_sizeDelta = int (me_size b) - int (me_size a), mo_contentChanged = contentDiffers a b,
     mo_modeChanged = (me_mode a \<noteq> me_mode b), mo_kindChanged = (me_kind a \<noteq> me_kind b),
     mo_symlinkChanged = (me_symlink_target a \<noteq> me_symlink_target b)\<rparr>"

text \<open>The body of the loop over the new manifest: the lists of added and modified entries.\<close>

definition diff_step ::
  "(string \<times> manifest_entry) list \<Rightarrow> string \<times> manifest_entry \<Rightarrow> diff_entry list \<times> modified_entry list
     \<Rightarrow> diff_entry list \<times> modified_entry list" where
  "diff_step a = (\<lambda>(path, toEntry) (added, modified).
     case map_of a path of
       None \<Rightarrow> (added @ [\<lparr>de_entry_path = path, de_facts = entry_facts toEntry\<rparr>], modified)
     | Some fromEntry \<Rightarrow>
         if entry_differs fromEntry toEntry then (added, modified @ [modified_of path fromEntry toEntry])
         else (added, modified))"

definition diffManifests :: "manifest \<Rightarrow> manifest \<Rightarrow> manifest_diff" where
  "diffManifests from_m to_m =
     (let a = byPath from_m; b = byPath to_m;
          (added, modified) = fold (diff_step a) b ([], []);
          removed = map (\<lambda>(path, e). \<lparr>de_entry_path = path, de_facts = entry_facts e\<rparr>) (filter (\<lambda>(path, _). map_of b path = None) a)
      in \<lparr>md_added = sort_key de_entry_path added, md_modified = sort_key mo_path modified,
          md_removed = sort_key de_entry_path removed,
          md_summary = \<lparr>ds_added = length added, ds_modified = length modified, ds_removed = length removed\<rparr>\<rparr>)"

definition changedCount :: "diff_summary \<Rightarrow> nat" where
  "changedCount s = ds_added s + ds_modified s + ds_removed s"

definition diffManifestIds :: "(bytes \<Rightarrow> manifest option) \<Rightarrow> bucket \<Rightarrow> string \<Rightarrow> string \<Rightarrow> string \<Rightarrow> manifest_diff stored" where
  "diffManifestIds dec store fromId toId r =
     (if fromId = toId then bindE (loadManifest dec store fromId r) (\<lambda>only. Inr (diffManifests only only))
      else bindE (loadManifest dec store fromId r) (\<lambda>from_m.
             bindE (loadManifest dec store toId r) (\<lambda>to_m. Inr (diffManifests from_m to_m))))"

section \<open>On the wire\<close>

datatype change = Added | Modified | Removed

record wire_entry =
  we_path :: string
  we_change :: change
  we_oldMode :: "nat option"
  we_newMode :: "nat option"
  we_oldSize :: "nat option"
  we_newSize :: "nat option"
  we_contentChanged :: bool
  we_kind :: entry_kind
  we_symlinkTarget :: "string option"

definition MAX_DIFF_ENTRIES :: nat where "MAX_DIFF_ENTRIES = 5000"

definition added_entry :: "diff_entry \<Rightarrow> wire_entry" where
  "added_entry e = \<lparr>we_path = de_entry_path e, we_change = Added, we_oldMode = None, we_newMode = Some (df_mode (de_facts e)),
     we_oldSize = None, we_newSize = Some (df_size (de_facts e)), we_contentChanged = (df_kind (de_facts e) = EFile),
     we_kind = df_kind (de_facts e), we_symlinkTarget = df_symlink_target (de_facts e)\<rparr>"

definition modified_wire :: "modified_entry \<Rightarrow> wire_entry" where
  "modified_wire m = \<lparr>we_path = mo_path m, we_change = Modified, we_oldMode = Some (df_mode (mo_from m)),
     we_newMode = Some (df_mode (mo_to m)), we_oldSize = Some (df_size (mo_from m)), we_newSize = Some (df_size (mo_to m)),
     we_contentChanged = mo_contentChanged m, we_kind = df_kind (mo_to m), we_symlinkTarget = df_symlink_target (mo_to m)\<rparr>"

definition removed_entry :: "diff_entry \<Rightarrow> wire_entry" where
  "removed_entry e = \<lparr>we_path = de_entry_path e, we_change = Removed, we_oldMode = Some (df_mode (de_facts e)), we_newMode = None,
     we_oldSize = Some (df_size (de_facts e)), we_newSize = None, we_contentChanged = (df_kind (de_facts e) = EFile),
     we_kind = df_kind (de_facts e), we_symlinkTarget = df_symlink_target (de_facts e)\<rparr>"

definition toDiffEntries :: "manifest_diff \<Rightarrow> wire_entry list" where
  "toDiffEntries d = sort_key we_path
     (map added_entry (md_added d) @ map modified_wire (md_modified d) @ map removed_entry (md_removed d))"

record diff_response =
  dr_base :: "string option"
  dr_head :: "string option"
  dr_summary :: "diff_summary option"
  dr_entries :: "wire_entry list"
  dr_truncated :: bool

definition diff_reply :: "string \<Rightarrow> string \<Rightarrow> manifest_diff \<Rightarrow> diff_response" where
  "diff_reply base head d =
     (let entries = toDiffEntries d
      in \<lparr>dr_base = Some base, dr_head = Some head, dr_summary = Some (md_summary d),
          dr_entries = take MAX_DIFF_ENTRIES entries, dr_truncated = (length entries > MAX_DIFF_ENTRIES)\<rparr>)"

section \<open>The review view\<close>

datatype change_class = CAdded | CRemoved | CContent | CMode

record diff_row =
  rw_path :: string
  rw_name :: string
  rw_dir :: string
  rw_class :: change_class
  rw_oldMode :: "nat option"
  rw_newMode :: "nat option"
  rw_oldSize :: "nat option"
  rw_newSize :: "nat option"
  rw_sizeDelta :: "int option"

record diff_counts =
  dc_added :: nat
  dc_removed :: nat
  dc_modified :: nat
  dc_modeOnly :: nat
  dc_contentChanged :: nat
  dc_total :: nat

record diff_group =
  dg_dir :: string
  dg_rows :: "diff_row list"
  dg_counts :: diff_counts

record diff_view =
  dv_rows :: "diff_row list"
  dv_groups :: "diff_group list"
  dv_counts :: diff_counts
  dv_summary :: "diff_summary option"
  dv_base :: "string option"
  dv_head :: "string option"
  dv_truncated :: bool
  dv_empty :: bool

definition classifyEntry :: "wire_entry \<Rightarrow> change_class" where
  "classifyEntry e =
     (if we_change e = Added then CAdded
      else if we_change e = Removed then CRemoved
      else if we_contentChanged e then CContent
      else case (we_oldMode e, we_newMode e) of
             (Some x, Some y) \<Rightarrow> if x \<noteq> y then CMode else CContent
           | _ \<Rightarrow> CContent)"

definition dirOf :: "string \<Rightarrow> string" where
  "dirOf path =
     (let trimmed = strip_trailing (CHR ''/'') path
      in case last_index (CHR ''/'') trimmed of
           None \<Rightarrow> ''/''
         | Some idx \<Rightarrow> if idx = 0 then ''/'' else take idx trimmed)"

definition baseOf :: "string \<Rightarrow> string" where
  "baseOf path = (let l = last (split_on (CHR ''/'') (strip_trailing (CHR ''/'') path)) in if l = '''' then path else l)"

definition toRow :: "wire_entry \<Rightarrow> diff_row" where
  "toRow e = \<lparr>rw_path = we_path e, rw_name = baseOf (we_path e), rw_dir = dirOf (we_path e), rw_class = classifyEntry e,
     rw_oldMode = we_oldMode e, rw_newMode = we_newMode e, rw_oldSize = we_oldSize e, rw_newSize = we_newSize e,
     rw_sizeDelta = (case (we_oldSize e, we_newSize e) of (Some a, Some b) \<Rightarrow> Some (int b - int a) | _ \<Rightarrow> None)\<rparr>"

definition count_row :: "diff_row \<Rightarrow> diff_counts \<Rightarrow> diff_counts" where
  "count_row row c =
     (case rw_class row of
        CAdded \<Rightarrow> c\<lparr>dc_added := dc_added c + 1\<rparr>
      | CRemoved \<Rightarrow> c\<lparr>dc_removed := dc_removed c + 1\<rparr>
      | CMode \<Rightarrow> c\<lparr>dc_modified := dc_modified c + 1, dc_modeOnly := dc_modeOnly c + 1\<rparr>
      | CContent \<Rightarrow> c\<lparr>dc_modified := dc_modified c + 1, dc_contentChanged := dc_contentChanged c + 1\<rparr>)"

definition countRows :: "diff_row list \<Rightarrow> diff_counts" where
  "countRows rows = fold count_row rows
     \<lparr>dc_added = 0, dc_removed = 0, dc_modified = 0, dc_modeOnly = 0, dc_contentChanged = 0, dc_total = length rows\<rparr>"

definition group_row :: "diff_row \<Rightarrow> (string \<times> diff_row list) list \<Rightarrow> (string \<times> diff_row list) list" where
  "group_row row byDir =
     (case map_of byDir (rw_dir row) of
        Some l \<Rightarrow> AList.update (rw_dir row) (l @ [row]) byDir
      | None \<Rightarrow> AList.update (rw_dir row) [row] byDir)"

definition groupRows :: "diff_row list \<Rightarrow> diff_group list" where
  "groupRows rows =
     map (\<lambda>(dir, l). let sorted_rows = sort_key rw_path l
                     in \<lparr>dg_dir = dir, dg_rows = sorted_rows, dg_counts = countRows sorted_rows\<rparr>)
       (sort_key fst (fold group_row rows []))"

definition buildDiffModel :: "diff_response option \<Rightarrow> diff_view" where
  "buildDiffModel diff =
     (let rows = sort_key rw_path (map toRow (case diff of None \<Rightarrow> [] | Some d \<Rightarrow> dr_entries d))
      in \<lparr>dv_rows = rows, dv_groups = groupRows rows, dv_counts = countRows rows,
          dv_summary = Option.bind diff dr_summary, dv_base = Option.bind diff dr_base, dv_head = Option.bind diff dr_head,
          dv_truncated = (case diff of None \<Rightarrow> False | Some d \<Rightarrow> dr_truncated d), dv_empty = (rows = [])\<rparr>)"

definition summaryAgrees :: "diff_view \<Rightarrow> bool" where
  "summaryAgrees m =
     (case dv_summary m of
        None \<Rightarrow> True
      | Some s \<Rightarrow> ds_added s = dc_added (dv_counts m) \<and> ds_modified s = dc_modified (dv_counts m)
                  \<and> ds_removed s = dc_removed (dv_counts m))"

section \<open>The difference is exact\<close>

text \<open>What a manifest has at a path: its last entry there.\<close>

definition lookup_entry :: "manifest \<Rightarrow> string \<Rightarrow> manifest_entry option" where
  "lookup_entry m p = find (\<lambda>e. me_path e = p) (rev (mf_entries m))"

lemma map_of_byPath: "map_of (byPath m) p = lookup_entry m p"
proof -
  have "map_of (fold (\<lambda>e. AList.update (me_path e) e) es []) p = find (\<lambda>e. me_path e = p) (rev es)" for es :: "manifest_entry list"
    by (induction es rule: rev_induct) (auto simp: map_of_AList_update)
  then show ?thesis by (simp add: byPath_def lookup_entry_def)
qed

lemma distinct_byPath: "distinct (map fst (byPath m))"
proof -
  have "distinct (map fst (fold (\<lambda>e. AList.update (me_path e) e) es []))" for es :: "manifest_entry list"
    by (induction es rule: rev_induct) (auto simp: keys_AList_update)
  then show ?thesis by (simp add: byPath_def)
qed

lemma sameChunks_iff: "sameChunks a b \<longleftrightarrow> me_chunks a = me_chunks b"
proof
  assume s: "sameChunks a b"
  have "cr_chunk x = cr_chunk y \<Longrightarrow> cr_len x = cr_len y \<Longrightarrow> x = y" for x y :: chunk_ref by simp
  then show "me_chunks a = me_chunks b"
    using s by (intro nth_equalityI) (auto simp: sameChunks_def list_all_iff)
qed (simp add: sameChunks_def list_all_iff)

lemma entry_differs_iff: "me_path a = me_path b \<Longrightarrow> entry_differs a b \<longleftrightarrow> a \<noteq> b"
  by (cases a; cases b) (auto simp: entry_differs_def contentDiffers_def sameChunks_iff)

lemma lookup_path: "lookup_entry m p = Some e \<Longrightarrow> me_path e = p"
  by (auto simp: lookup_entry_def find_Some_iff)

text \<open>The lists of the loop, in the order of the new manifest.\<close>

lemma diff_fold:
  "fold (diff_step a) b (added, modified) =
     (added @ map (\<lambda>(p, e). \<lparr>de_entry_path = p, de_facts = entry_facts e\<rparr>) (filter (\<lambda>(p, _). map_of a p = None) b),
      modified @ map (\<lambda>(p, e). modified_of p (the (map_of a p)) e)
        (filter (\<lambda>(p, e). case map_of a p of None \<Rightarrow> False | Some f \<Rightarrow> entry_differs f e) b))"
proof (induction b arbitrary: added modified)
  case (Cons x b)
  obtain p e where x: "x = (p, e)" by (rule prod.exhaust)
  show ?case
  proof (cases "map_of a p")
    case None
    then have "diff_step a x (added, modified) = (added @ [\<lparr>de_entry_path = p, de_facts = entry_facts e\<rparr>], modified)"
      by (simp add: diff_step_def x)
    then show ?thesis by (simp add: Cons.IH x None)
  next
    case (Some f)
    then have "diff_step a x (added, modified) = (added, if entry_differs f e then modified @ [modified_of p f e] else modified)"
      by (simp add: diff_step_def x)
    then show ?thesis by (simp add: Cons.IH x Some)
  qed
qed simp


lemma byPath_mem: "(p, e) \<in> set (byPath m) \<longleftrightarrow> lookup_entry m p = Some e"
  by (metis distinct_byPath map_of_byPath map_of_eq_Some_iff)

lemma diff_lists:
  "md_added (diffManifests x y) = sort_key de_entry_path
     (map (\<lambda>(p, e). \<lparr>de_entry_path = p, de_facts = entry_facts e\<rparr>) (filter (\<lambda>(p, _). map_of (byPath x) p = None) (byPath y)))"
  "md_modified (diffManifests x y) = sort_key mo_path
     (map (\<lambda>(p, e). modified_of p (the (map_of (byPath x) p)) e)
        (filter (\<lambda>(p, e). case map_of (byPath x) p of None \<Rightarrow> False | Some f \<Rightarrow> entry_differs f e) (byPath y)))"
  "md_removed (diffManifests x y) = sort_key de_entry_path
     (map (\<lambda>(p, e). \<lparr>de_entry_path = p, de_facts = entry_facts e\<rparr>) (filter (\<lambda>(p, _). map_of (byPath y) p = None) (byPath x)))"
  by (simp_all add: diffManifests_def diff_fold Let_def)

lemma diff_summary_counts:
  "md_summary (diffManifests x y) = \<lparr>ds_added = length (md_added (diffManifests x y)),
     ds_modified = length (md_modified (diffManifests x y)), ds_removed = length (md_removed (diffManifests x y))\<rparr>"
  by (simp add: diffManifests_def diff_fold Let_def)

lemma added_paths: "p \<in> de_entry_path ` set (md_added (diffManifests x y)) \<longleftrightarrow> lookup_entry x p = None \<and> lookup_entry y p \<noteq> None"
proof -
  have "p \<in> de_entry_path ` set (md_added (diffManifests x y)) \<longleftrightarrow> (\<exists>e. (p, e) \<in> set (byPath y) \<and> lookup_entry x p = None)"
    by (force simp: diff_lists map_of_byPath image_iff)
  then show ?thesis by (auto simp: byPath_mem)
qed

lemma removed_paths: "p \<in> de_entry_path ` set (md_removed (diffManifests x y)) \<longleftrightarrow> lookup_entry x p \<noteq> None \<and> lookup_entry y p = None"
proof -
  have "p \<in> de_entry_path ` set (md_removed (diffManifests x y)) \<longleftrightarrow> (\<exists>e. (p, e) \<in> set (byPath x) \<and> lookup_entry y p = None)"
    by (force simp: diff_lists map_of_byPath image_iff)
  then show ?thesis by (auto simp: byPath_mem)
qed

lemma modified_paths:
  "p \<in> mo_path ` set (md_modified (diffManifests x y)) \<longleftrightarrow>
     lookup_entry x p \<noteq> None \<and> lookup_entry y p \<noteq> None \<and> lookup_entry x p \<noteq> lookup_entry y p"
proof -
  have "p \<in> mo_path ` set (md_modified (diffManifests x y)) \<longleftrightarrow>
    (\<exists>e f. (p, e) \<in> set (byPath y) \<and> lookup_entry x p = Some f \<and> entry_differs f e)"
    by (force simp: diff_lists map_of_byPath image_iff modified_of_def split: option.splits)
  also have "\<dots> \<longleftrightarrow> (\<exists>e f. lookup_entry y p = Some e \<and> lookup_entry x p = Some f \<and> f \<noteq> e)"
    by (metis byPath_mem entry_differs_iff lookup_path)
  finally show ?thesis by auto
qed

lemma filtered_distinct: "distinct (map fst xs) \<Longrightarrow> distinct (map fst (filter P xs))"
  by (induction xs) auto

lemma sorted_paths:
  "sorted_wrt (<) (map de_entry_path (md_added (diffManifests x y)))"
  "sorted_wrt (<) (map mo_path (md_modified (diffManifests x y)))"
  "sorted_wrt (<) (map de_entry_path (md_removed (diffManifests x y)))"
proof -
  have strict: "sorted_wrt (<) (map k (sort_key k xs))" if "distinct (map k xs)" for k :: "'z \<Rightarrow> string" and xs
    using that by (simp add: strict_sorted_iff distinct_map)
  have keys: "map de_entry_path (map (\<lambda>(p, e). \<lparr>de_entry_path = p, de_facts = entry_facts e\<rparr>) xs) = map fst xs"
    "map mo_path (map (\<lambda>(p, e). modified_of p (h p) e) xs) = map fst xs" for xs h
    by (auto simp: modified_of_def)
  show "sorted_wrt (<) (map de_entry_path (md_added (diffManifests x y)))"
    unfolding diff_lists by (rule strict) (simp only: keys filtered_distinct distinct_byPath)
  show "sorted_wrt (<) (map mo_path (md_modified (diffManifests x y)))"
    unfolding diff_lists by (rule strict) (simp only: keys filtered_distinct distinct_byPath)
  show "sorted_wrt (<) (map de_entry_path (md_removed (diffManifests x y)))"
    unfolding diff_lists by (rule strict) (simp only: keys filtered_distinct distinct_byPath)
qed

text \<open>C24: The difference is exact.  A path is in the difference exactly when the two manifests have different
  entries there (kind, mode, size, link target or chunks): under added when only the new one has it, under
  removed when only the old one has it, under modified otherwise; each list has each path once, in order.\<close>

theorem difference_is_exact:
  "de_entry_path ` set (md_added (diffManifests x y)) = {p. lookup_entry x p = None \<and> lookup_entry y p \<noteq> None}
   \<and> de_entry_path ` set (md_removed (diffManifests x y)) = {p. lookup_entry x p \<noteq> None \<and> lookup_entry y p = None}
   \<and> mo_path ` set (md_modified (diffManifests x y))
       = {p. lookup_entry x p \<noteq> lookup_entry y p \<and> lookup_entry x p \<noteq> None \<and> lookup_entry y p \<noteq> None}
   \<and> sorted_wrt (<) (map de_entry_path (md_added (diffManifests x y)))
   \<and> sorted_wrt (<) (map mo_path (md_modified (diffManifests x y)))
   \<and> sorted_wrt (<) (map de_entry_path (md_removed (diffManifests x y)))"
  by (intro conjI sorted_paths set_eqI)
    (simp only: added_paths mem_Collect_eq, simp only: removed_paths mem_Collect_eq,
      simp only: modified_paths mem_Collect_eq, blast)

section \<open>The review shows every change or says that it does not\<close>

definition class_count :: "diff_row list \<Rightarrow> change_class \<Rightarrow> nat" where
  "class_count rows c = length (filter (\<lambda>r. rw_class r = c) rows)"

lemma count_fold:
  "fold count_row rows c =
     c\<lparr>dc_added := dc_added c + class_count rows CAdded, dc_removed := dc_removed c + class_count rows CRemoved,
       dc_modified := dc_modified c + class_count rows CMode + class_count rows CContent,
       dc_modeOnly := dc_modeOnly c + class_count rows CMode,
       dc_contentChanged := dc_contentChanged c + class_count rows CContent\<rparr>"
  by (induction rows arbitrary: c) (auto simp: class_count_def count_row_def split: change_class.splits)

lemma class_count_mset: "mset xs = mset ys \<Longrightarrow> class_count xs c = class_count ys c"
  unfolding class_count_def by (metis mset_filter size_mset)

lemma countRows_eq:
  "dc_added (countRows rows) = class_count rows CAdded" "dc_removed (countRows rows) = class_count rows CRemoved"
  "dc_modified (countRows rows) = class_count rows CMode + class_count rows CContent"
  by (simp_all add: countRows_def count_fold)

lemma class_total: "length rows = class_count rows CAdded + class_count rows CRemoved + class_count rows CMode + class_count rows CContent"
proof (induction rows)
  case (Cons r rows)
  then show ?case by (cases "rw_class r") (simp_all add: class_count_def)
qed (simp add: class_count_def)

lemma wire_classes:
  "class_count (map toRow (toDiffEntries d)) CAdded = length (md_added d)"
  "class_count (map toRow (toDiffEntries d)) CRemoved = length (md_removed d)"
  "class_count (map toRow (toDiffEntries d)) CMode + class_count (map toRow (toDiffEntries d)) CContent = length (md_modified d)"
proof -
  let ?ws = "map added_entry (md_added d) @ map modified_wire (md_modified d) @ map removed_entry (md_removed d)"
  have m: "class_count (map toRow (toDiffEntries d)) c = class_count (map toRow ?ws) c" for c
    by (rule class_count_mset) (simp add: toDiffEntries_def multiset.map_comp)
  have cls: "classifyEntry (added_entry e) = CAdded" "classifyEntry (removed_entry e) = CRemoved"
    "classifyEntry (modified_wire x) \<in> {CMode, CContent}" for e x
    by (simp_all add: classifyEntry_def added_entry_def removed_entry_def modified_wire_def)
  have no: "filter (\<lambda>x. classifyEntry (modified_wire x) = CAdded) xs = []" "filter (\<lambda>x. classifyEntry (modified_wire x) = CRemoved) xs = []" for xs
    using cls(3) by (simp_all add: filter_empty_conv) (metis change_class.distinct(3,5,7,9))+
  have two: "length (filter (\<lambda>x. classifyEntry (modified_wire x) = CMode) xs)
    + length (filter (\<lambda>x. classifyEntry (modified_wire x) = CContent) xs) = length xs" for xs
    using cls(3) by (induction xs) auto
  show "class_count (map toRow (toDiffEntries d)) CAdded = length (md_added d)"
    "class_count (map toRow (toDiffEntries d)) CRemoved = length (md_removed d)"
    "class_count (map toRow (toDiffEntries d)) CMode + class_count (map toRow (toDiffEntries d)) CContent = length (md_modified d)"
    unfolding m by (simp_all add: class_count_def filter_map comp_def toRow_def cls no two)
qed

lemma length_wire: "length (toDiffEntries d) = length (md_added d) + length (md_modified d) + length (md_removed d)"
  by (simp add: toDiffEntries_def)

text \<open>C25: The review shows every change or says that it does not.  The view built from the reply for two manifests
  agrees with the reply's summary exactly when all changes are in it, that is when there are at most 5000;
  with more, the reply is marked truncated and the view disagrees.\<close>

theorem review_is_complete_or_says_so:
  "let reply = diff_reply base head (diffManifests x y); view = buildDiffModel (Some reply);
       changes = changedCount (md_summary (diffManifests x y))
   in (summaryAgrees view \<longleftrightarrow> changes \<le> 5000) \<and> (dv_truncated view \<longleftrightarrow> \<not> summaryAgrees view)
      \<and> length (dv_rows view) = min 5000 changes"
proof -
  let ?d = "diffManifests x y"
  let ?es = "toDiffEntries ?d"
  let ?view = "buildDiffModel (Some (diff_reply base head ?d))"
  have total: "changedCount (md_summary ?d) = length ?es"
    by (simp add: changedCount_def diff_summary_counts length_wire)
  have rows: "dv_rows ?view = sort_key rw_path (map toRow (take 5000 ?es))"
    by (simp add: buildDiffModel_def diff_reply_def Let_def MAX_DIFF_ENTRIES_def)
  have count: "class_count (dv_rows ?view) c = class_count (map toRow (take 5000 ?es)) c" for c
    unfolding rows by (rule class_count_mset) simp
  have counts: "dv_counts ?view = countRows (dv_rows ?view)" "dv_summary ?view = Some (md_summary ?d)"
    "dv_truncated ?view \<longleftrightarrow> length ?es > 5000"
    by (simp_all add: buildDiffModel_def diff_reply_def Let_def MAX_DIFF_ENTRIES_def)
  have agrees: "summaryAgrees ?view \<longleftrightarrow> length ?es \<le> 5000"
  proof
    assume "length ?es \<le> 5000"
    then have all: "take 5000 ?es = ?es" by simp
    show "summaryAgrees ?view"
      using wire_classes [of ?d] diff_summary_counts [of x y]
      by (simp add: summaryAgrees_def counts countRows_eq count all)
  next
    assume a: "summaryAgrees ?view"
    let ?t = "map toRow (take 5000 ?es)"
    have "class_count ?t CAdded = length (md_added ?d)" "class_count ?t CRemoved = length (md_removed ?d)"
      "class_count ?t CMode + class_count ?t CContent = length (md_modified ?d)"
      using a by (simp_all only: summaryAgrees_def counts countRows_eq count option.case diff_summary_counts diff_summary.select_convs)
    then have "length ?t = length ?es" unfolding class_total [of ?t] length_wire by linarith
    then show "length ?es \<le> 5000" by simp
  qed
  have "length (dv_rows ?view) = min 5000 (length ?es)" by (simp add: rows)
  then show ?thesis using agrees counts(3) total by (simp add: Let_def not_le)
qed

section \<open>Groups\<close>

lemma group_fold:
  "(\<forall>d. map_of (fold group_row rows []) d =
      (if filter (\<lambda>r. rw_dir r = d) rows = [] then None else Some (filter (\<lambda>r. rw_dir r = d) rows)))
   \<and> distinct (map fst (fold group_row rows []))"
proof (induction rows rule: rev_induct)
  case (snoc r rows)
  then show ?case
    by (auto simp: group_row_def map_of_AList_update keys_AList_update split: option.splits)
qed simp

text \<open>The groups of a review are its rows by directory.  The directories are listed once and in order, and the
  group of a directory has exactly the rows of that directory, as often as they occur, sorted by path.\<close>

theorem groups_partition_the_rows:
  "sorted_wrt (<) (map dg_dir (groupRows rows))
   \<and> dg_dir ` set (groupRows rows) = rw_dir ` set rows
   \<and> list_all (\<lambda>g. mset (dg_rows g) = filter_mset (\<lambda>r. rw_dir r = dg_dir g) (mset rows)
        \<and> sorted (map rw_path (dg_rows g)) \<and> dg_counts g = countRows (dg_rows g)) (groupRows rows)"
proof -
  let ?m = "fold group_row rows []"
  have m: "\<And>d. map_of ?m d = (if filter (\<lambda>r. rw_dir r = d) rows = [] then None else Some (filter (\<lambda>r. rw_dir r = d) rows))"
    "distinct (map fst ?m)" using group_fold [of rows] by blast+
  have dirs: "map dg_dir (groupRows rows) = map fst (sort_key fst ?m)"
    by (simp add: groupRows_def Let_def case_prod_unfold)
  have "sorted_wrt (<) (map fst (sort_key fst ?m))" using m(2) by (simp add: strict_sorted_iff distinct_map)
  moreover have "dg_dir ` set (groupRows rows) = rw_dir ` set rows"
  proof -
    have "dg_dir ` set (groupRows rows) = fst ` set ?m" using arg_cong [OF dirs, of set] by simp
    also have "\<dots> = dom (map_of ?m)" by (simp add: dom_map_of_conv_image_fst)
    also have "\<dots> = rw_dir ` set rows" by (auto simp: dom_def m(1) filter_empty_conv split: if_splits)
    finally show ?thesis .
  qed
  moreover have "mset (dg_rows g) = filter_mset (\<lambda>r. rw_dir r = dg_dir g) (mset rows)
      \<and> sorted (map rw_path (dg_rows g)) \<and> dg_counts g = countRows (dg_rows g)" if g: "g \<in> set (groupRows rows)" for g
  proof -
    obtain d l where dl: "(d, l) \<in> set ?m" "g = \<lparr>dg_dir = d, dg_rows = sort_key rw_path l, dg_counts = countRows (sort_key rw_path l)\<rparr>"
      using g by (auto simp: groupRows_def Let_def)
    then have "l = filter (\<lambda>r. rw_dir r = d) rows"
      using m map_of_eq_Some_iff [OF m(2), of d l] by (auto split: if_splits)
    then show ?thesis by (simp add: dl(2) mset_filter)
  qed
  ultimately show ?thesis unfolding dirs by (simp add: list_all_iff)
qed

end
