(* ===== verification/Quota.thy ===== *)
theory Quota
  imports Journal AuthConfig JsNumber "HOL-Library.While_Combinator"
begin

text \<open>
  What an account may hold and spend (\<^verbatim>\<open>control-plane/src/limits.ts\<close>), the per-computer ledger of awake time
  and runs (\<^verbatim>\<open>usage.ts\<close>), and the prices (\<^verbatim>\<open>pricing.ts\<close>).

  A time is in milliseconds since the epoch, within the range of \<^verbatim>\<open>Date\<close>; the rows of a table are a map
  from its primary key.  Arithmetic on times and costs is exact: rounding to a double is not modelled.
\<close>

section \<open>The UTC calendar\<close>

text \<open>\<^verbatim>\<open>getUTCFullYear\<close>, \<^verbatim>\<open>getUTCMonth\<close> and \<^verbatim>\<open>Date.UTC\<close> as ECMAScript specifies them.\<close>

definition ms_per_day :: int where "ms_per_day = 86400000"

definition leap :: "int \<Rightarrow> bool" where
  "leap y \<longleftrightarrow> 4 dvd y \<and> (\<not> 100 dvd y \<or> 400 dvd y)"

text \<open>The number of the first day of a year.\<close>

definition day_from_year :: "int \<Rightarrow> int" where
  "day_from_year y = 365 * (y - 1970) + (y - 1969) div 4 - (y - 1901) div 100 + (y - 1601) div 400"

text \<open>The first day of each month, from the first day of the year.\<close>

definition month_starts :: "int \<Rightarrow> int list" where
  "month_starts y =
     (let l = (if leap y then 1 else 0)
      in [0, 31, 59 + l, 90 + l, 120 + l, 151 + l, 181 + l, 212 + l, 243 + l, 273 + l, 304 + l, 334 + l])"

lemma div_Suc_int: "0 < k \<Longrightarrow> (x + 1) div k = x div k + (if k dvd x + 1 then 1 else 0 :: int)"
proof -
  assume k: "0 < k"
  have x: "x = k * (x div k) + x mod k" by simp
  show ?thesis
  proof (cases "k dvd x + 1")
    case True
    then obtain q where q: "x + 1 = k * q" by blast
    have "x div k = q - 1" by (rule int_div_pos_eq [where r = "k - 1"]) (use q k in \<open>simp_all add: algebra_simps\<close>)
    then show ?thesis using True q k by simp
  next
    case False
    have "x mod k < k" using k by simp
    moreover have "x mod k + 1 \<noteq> k"
    proof
      assume "x mod k + 1 = k"
      moreover have "k * (x div k + 1) = k * (x div k) + k" by (simp add: distrib_left)
      ultimately have "x + 1 = k * (x div k + 1)" using x by linarith
      then show False using False by simp
    qed
    ultimately have r: "x mod k + 1 < k" by linarith
    have "(x + 1) div k = x div k"
      by (rule int_div_pos_eq [where r = "x mod k + 1"]) (use k x r in simp_all)
    then show ?thesis using False by simp
  qed
qed

lemma dvd_shift: "k dvd y - c \<longleftrightarrow> k dvd (y :: int)" if "k dvd c" for k y c :: int
  using that by (metis dvd_add_right_iff diff_add_cancel add.commute)

lemma day_from_year_Suc: "day_from_year (y + 1) = day_from_year y + (if leap y then 366 else 365)"
proof -
  have d4: "(y - 1968) div 4 = (y - 1969) div 4 + (if 4 dvd y then 1 else 0)"
    using div_Suc_int [of 4 "y - 1969"] dvd_shift [of 4 1968 y] by simp
  have d100: "(y - 1900) div 100 = (y - 1901) div 100 + (if 100 dvd y then 1 else 0)"
    using div_Suc_int [of 100 "y - 1901"] dvd_shift [of 100 1900 y] by simp
  have d400: "(y - 1600) div 400 = (y - 1601) div 400 + (if 400 dvd y then 1 else 0)"
    using div_Suc_int [of 400 "y - 1601"] dvd_shift [of 400 1600 y] by simp
  have "day_from_year (y + 1) = 365 * (y - 1970) + 365 + (y - 1968) div 4 - (y - 1900) div 100 + (y - 1600) div 400"
    by (simp add: day_from_year_def)
  then have "day_from_year (y + 1) = day_from_year y + 365 + (if 4 dvd y then 1 else 0) - (if 100 dvd y then 1 else 0)
      + (if 400 dvd y then 1 else 0)"
    unfolding d4 d100 d400 by (simp only: day_from_year_def)
  moreover have "100 dvd y" if "400 dvd y" using that by (rule dvd_trans [rotated]) simp
  moreover have "4 dvd y" if "100 dvd y" using that by (rule dvd_trans [rotated]) simp
  ultimately show ?thesis
    unfolding leap_def by (cases "400 dvd y"; cases "100 dvd y"; cases "4 dvd y"; simp only: if_True if_False simp_thms)
qed

lemma year_length: "day_from_year y + 365 \<le> day_from_year (y + 1)" "day_from_year (y + 1) \<le> day_from_year y + 366"
  by (simp_all add: day_from_year_Suc)

lemma year_mono: "0 \<le> k \<Longrightarrow> day_from_year y + 365 * k \<le> day_from_year (y + k) \<and> day_from_year (y + k) \<le> day_from_year y + 366 * k"
proof (induction k rule: int_ge_induct)
  case (step k)
  then show ?case using year_length [of "y + k"] by (simp add: algebra_simps)
qed simp

lemma year_lt: "y < z \<Longrightarrow> day_from_year (y + 1) \<le> day_from_year z"
  using year_mono [of "z - y - 1" "y + 1"] by simp

text \<open>The year of a day, searched upwards from a year that is not after it.\<close>

function year_up :: "int \<Rightarrow> int \<Rightarrow> int" where
  "year_up d y = (if day_from_year (y + 1) \<le> d then year_up d (y + 1) else y)"
  by pat_completeness auto
termination
proof (relation "measure (\<lambda>(d, y). nat (d - day_from_year y))")
  fix d y
  assume "day_from_year (y + 1) \<le> d"
  then show "((d, y + 1), d, y) \<in> measure (\<lambda>(d, y). nat (d - day_from_year y))"
    using year_length(1) [of y] by simp
qed simp

declare year_up.simps [simp del]

definition year_of_day :: "int \<Rightarrow> int" where
  "year_of_day d = year_up d (1970 + (if d < 0 then d div 365 else d div 366))"

lemma year_up_spec:
  "day_from_year y \<le> d \<Longrightarrow> day_from_year (year_up d y) \<le> d \<and> d < day_from_year (year_up d y + 1)"
proof (induction d y rule: year_up.induct)
  case (1 d y)
  then show ?case by (subst (1 2) year_up.simps) auto
qed

lemma day_from_1970 [simp]: "day_from_year 1970 = 0"
  by (simp add: day_from_year_def)

lemma year_of_day_spec: "day_from_year (year_of_day d) \<le> d \<and> d < day_from_year (year_of_day d + 1)"
  unfolding year_of_day_def
proof (rule year_up_spec)
  show "day_from_year (1970 + (if d < 0 then d div 365 else d div 366)) \<le> d"
  proof (cases "d < 0")
    case True
    define k where "k = - (d div 365)"
    have "0 \<le> k" using True by (simp add: k_def div_neg_pos_less0 less_imp_le)
    then have "day_from_year (1970 - k) + 365 * k \<le> 0" using year_mono [of k "1970 - k"] by simp
    moreover have "- 365 * k \<le> d" unfolding k_def by simp
    ultimately show ?thesis using True by (simp add: k_def)
  next
    case False
    then have "day_from_year (1970 + d div 366) \<le> 366 * (d div 366)"
      using year_mono [of "d div 366" 1970] by (simp add: pos_imp_zdiv_nonneg_iff)
    also have "\<dots> \<le> d" by simp
    finally show ?thesis using False by simp
  qed
qed

lemma year_of_day_unique: "day_from_year y \<le> d \<Longrightarrow> d < day_from_year (y + 1) \<Longrightarrow> year_of_day d = y"
  using year_of_day_spec [of d] year_lt [of y "year_of_day d"] year_lt [of "year_of_day d" y] by linarith

text \<open>The month of a day, from 0: the number of months begun before it in its year.\<close>

definition month_of_day :: "int \<Rightarrow> nat" where
  "month_of_day d =
     (let y = year_of_day d in length (filter (\<lambda>s. day_from_year y + s \<le> d) (month_starts y)) - 1)"

definition first_of_month :: "int \<Rightarrow> nat \<Rightarrow> int" where
  "first_of_month y m = day_from_year (y + int (m div 12)) + month_starts (y + int (m div 12)) ! (m mod 12)"

definition getUTCFullYear :: "time \<Rightarrow> int" where
  "getUTCFullYear t = year_of_day (t div ms_per_day)"

definition getUTCMonth :: "time \<Rightarrow> nat" where
  "getUTCMonth t = month_of_day (t div ms_per_day)"

text \<open>\<^verbatim>\<open>Date.UTC(y, m, 1)\<close>.\<close>

definition Date_UTC :: "int \<Rightarrow> nat \<Rightarrow> time" where
  "Date_UTC y m = first_of_month y m * ms_per_day"


section \<open>A month is an interval of days\<close>

lemma count_below:
  fixes r :: int
  assumes "sorted xs"
  shows "let n = length (filter (\<lambda>s. s \<le> r) xs)
    in n \<le> length xs \<and> (0 < n \<longrightarrow> xs ! (n - 1) \<le> r) \<and> (n < length xs \<longrightarrow> r < xs ! n)"
  using assms
proof (induction xs)
  case (Cons x xs)
  show ?case
  proof (cases "x \<le> r")
    case True
    then show ?thesis
      using Cons by (cases "length (filter (\<lambda>s. s \<le> r) xs)") (auto simp: Let_def)
  next
    case False
    then have "filter (\<lambda>s. s \<le> r) xs = []" using Cons.prems by (auto simp: filter_empty_conv)
    then show ?thesis using False by (simp add: Let_def)
  qed
qed (simp add: Let_def)

lemma count_below_unique:
  fixes r :: int
  assumes "sorted xs" "m < length xs" "xs ! m \<le> r" "Suc m < length xs \<longrightarrow> r < xs ! Suc m"
  shows "length (filter (\<lambda>s. s \<le> r) xs) = Suc m"
  using assms
proof (induction xs arbitrary: m)
  case (Cons x xs)
  show ?case
  proof (cases m)
    case 0
    have "filter (\<lambda>s. s \<le> r) xs = []"
    proof (cases xs)
      case (Cons y ys)
      then show ?thesis using Cons.prems \<open>sorted (x # xs)\<close> 0 \<open>Suc m < length (x # xs) \<longrightarrow> r < (x # xs) ! Suc m\<close>
        by (auto simp: filter_empty_conv)
    qed simp
    then show ?thesis using Cons.prems 0 by simp
  next
    case (Suc k)
    have "xs ! k \<in> set xs" "xs ! k \<le> r" using Cons.prems(2,3) Suc by simp_all
    then have "x \<le> r" using Cons.prems(1) by force
    then show ?thesis using Cons Suc by simp
  qed
qed simp

lemma month_starts_sorted: "sorted (month_starts y)" "length (month_starts y) = 12" "month_starts y ! 0 = 0"
  by (simp_all add: month_starts_def Let_def)

lemma month_starts_last: "day_from_year y + month_starts y ! 11 < day_from_year (y + 1)"
  by (simp add: day_from_year_Suc month_starts_def Let_def)

lemma filter_shift: "filter (\<lambda>s. a + s \<le> d) xs = filter (\<lambda>s. s \<le> d - a) xs" for a d :: int
  by (intro filter_cong) auto

text \<open>The days of a month are those from its first to before the first of the next.\<close>

lemma month_of_day_spec:
  "month_of_day d < 12 \<and> first_of_month (year_of_day d) (month_of_day d) \<le> d
   \<and> d < first_of_month (year_of_day d) (Suc (month_of_day d))"
proof -
  let ?y = "year_of_day d"
  let ?r = "d - day_from_year ?y"
  let ?n = "length (filter (\<lambda>s. s \<le> ?r) (month_starts ?y))"
  have y: "day_from_year ?y \<le> d" "d < day_from_year (?y + 1)" using year_of_day_spec [of d] by simp_all
  have "hd (filter (\<lambda>s. s \<le> ?r) (month_starts ?y)) = 0" "0 < ?n" using y by (simp_all add: month_starts_def Let_def)
  then have n: "?n \<le> 12" "0 < ?n" "month_starts ?y ! (?n - 1) \<le> ?r" "?n < 12 \<longrightarrow> ?r < month_starts ?y ! ?n"
    using count_below [OF month_starts_sorted(1) [of ?y], of ?r] by (simp_all add: Let_def month_starts_sorted)
  have m: "month_of_day d = ?n - 1" by (simp add: month_of_day_def Let_def filter_shift)
  have "d < first_of_month ?y ?n"
  proof (cases "?n < 12")
    case True
    then show ?thesis using n(4) by (simp add: first_of_month_def)
  next
    case False
    then have "?n = 12" using n(1) by simp
    then show ?thesis using y(2) by (simp add: first_of_month_def month_starts_sorted)
  qed
  then show ?thesis using n by (simp add: m first_of_month_def)
qed

lemma same_month:
  assumes "m < 12" "first_of_month y m \<le> d" "d < first_of_month y (Suc m)"
  shows "year_of_day d = y \<and> month_of_day d = m"
proof -
  have ge: "day_from_year y + month_starts y ! m \<le> d" using assms(1,2) by (simp add: first_of_month_def)
  have nonneg: "month_starts y ! 0 \<le> month_starts y ! m"
    using assms(1) by (intro sorted_nth_mono [OF month_starts_sorted(1)]) (simp_all add: month_starts_sorted)
  have year: "d < day_from_year (y + 1)"
  proof (cases "m = 11")
    case True
    then show ?thesis using assms(3) by (simp add: first_of_month_def month_starts_sorted)
  next
    case False
    then have "d < day_from_year y + month_starts y ! Suc m" using assms(1,3) by (simp add: first_of_month_def)
    moreover have "month_starts y ! Suc m \<le> month_starts y ! 11"
      using assms(1) False by (intro sorted_nth_mono [OF month_starts_sorted(1)]) (simp_all add: month_starts_sorted)
    ultimately show ?thesis using month_starts_last [of y] by linarith
  qed
  have y: "year_of_day d = y" by (rule year_of_day_unique) (use ge nonneg year in \<open>simp_all add: month_starts_sorted\<close>)
  have "length (filter (\<lambda>s. s \<le> d - day_from_year y) (month_starts y)) = Suc m"
    by (rule count_below_unique [OF month_starts_sorted(1)])
      (use assms ge in \<open>auto simp: month_starts_sorted first_of_month_def\<close>)
  then show ?thesis using y by (simp add: month_of_day_def Let_def filter_shift)
qed


section \<open>Periods\<close>

definition year_string :: "int \<Rightarrow> string" where
  "year_string y = (if y < 0 then ''-'' @ digits_of (nat (- y)) else digits_of (nat y))"

text \<open>The month of a timestamp, as \<^verbatim>\<open>YYYY-MM\<close>; \<^verbatim>\<open>usage.ts\<close> has the same function as \<open>usagePeriod\<close>.\<close>

definition currentPeriod :: "time \<Rightarrow> string" where
  "currentPeriod now =
     year_string (getUTCFullYear now) @ ''-'' @ pad_start 2 (CHR ''0'') (digits_of (getUTCMonth now + 1))"

definition usagePeriod :: "time \<Rightarrow> string" where
  "usagePeriod at_ms =
     year_string (getUTCFullYear at_ms) @ ''-'' @ pad_start 2 (CHR ''0'') (digits_of (getUTCMonth at_ms + 1))"

record usage_slice =
  sl_period :: string
  sl_ms :: int

text \<open>The \<^verbatim>\<open>while\<close> loop over the months; \<open>None\<close> would be a loop that never ends.\<close>

definition split_step :: "int \<Rightarrow> int \<times> usage_slice list \<Rightarrow> int \<times> usage_slice list" where
  "split_step finish = (\<lambda>(cursor, slices).
     let next = Date_UTC (getUTCFullYear cursor) (getUTCMonth cursor + 1);
         sliceEnd = min finish next
     in (sliceEnd, slices @ [\<lparr>sl_period = currentPeriod cursor, sl_ms = sliceEnd - cursor\<rparr>]))"

definition splitUsagePeriods :: "rat \<Rightarrow> rat \<Rightarrow> usage_slice list option" where
  "splitUsagePeriods startedAt endedAt =
     (let cursor = max 0 \<lfloor>startedAt\<rfloor>; finish = max cursor \<lfloor>endedAt\<rfloor>
      in map_option snd (while_option (\<lambda>(c, _). c < finish) (split_step finish) (cursor, [])))"

section \<open>The loop ends and charges every millisecond to its month\<close>

definition charged :: "usage_slice list \<Rightarrow> string \<Rightarrow> int" where
  "charged slices p = sum_list (map sl_ms (filter (\<lambda>s. sl_period s = p) slices))"

text \<open>The milliseconds of an interval that lie in a month.\<close>

definition ms_in :: "string \<Rightarrow> int \<Rightarrow> int \<Rightarrow> int" where
  "ms_in p a b = int (card {t. a \<le> t \<and> t < b \<and> currentPeriod t = p})"

lemma day_bounds: "d * ms_per_day \<le> t \<longleftrightarrow> d \<le> t div ms_per_day" "t < d * ms_per_day \<longleftrightarrow> t div ms_per_day < d"
  by (auto simp: ms_per_day_def)

lemma next_month:
  "t < Date_UTC (getUTCFullYear t) (getUTCMonth t + 1)"
  using month_of_day_spec [of "t div ms_per_day"]
  by (simp add: Date_UTC_def getUTCFullYear_def getUTCMonth_def day_bounds)

lemma same_period:
  assumes "t \<le> u" "u < Date_UTC (getUTCFullYear t) (getUTCMonth t + 1)"
  shows "currentPeriod u = currentPeriod t"
proof -
  let ?d = "t div ms_per_day"
  have "?d \<le> u div ms_per_day" using assms(1) by (intro zdiv_mono1) (simp_all add: ms_per_day_def)
  moreover have "u div ms_per_day < first_of_month (year_of_day ?d) (Suc (month_of_day ?d))"
    using assms(2) by (simp add: Date_UTC_def getUTCFullYear_def getUTCMonth_def day_bounds)
  ultimately have "year_of_day (u div ms_per_day) = year_of_day ?d \<and> month_of_day (u div ms_per_day) = month_of_day ?d"
    using month_of_day_spec [of ?d] by (intro same_month) auto
  then show ?thesis by (simp add: currentPeriod_def getUTCFullYear_def getUTCMonth_def)
qed

lemma ms_in_empty: "b \<le> a \<Longrightarrow> ms_in p a b = 0"
proof -
  assume "b \<le> a"
  then have none: "{t. a \<le> t \<and> t < b \<and> currentPeriod t = p} = {}" by auto
  show ?thesis unfolding ms_in_def none by simp
qed

lemma ms_in_join:
  assumes "a \<le> b" "b \<le> c" "\<And>t. b \<le> t \<Longrightarrow> t < c \<Longrightarrow> currentPeriod t = currentPeriod b"
  shows "ms_in p a c = ms_in p a b + (if currentPeriod b = p then c - b else 0)"
proof -
  have "t \<in> {t. a \<le> t \<and> t < c \<and> currentPeriod t = p}
      \<longleftrightarrow> t \<in> {t. a \<le> t \<and> t < b \<and> currentPeriod t = p} \<union> (if currentPeriod b = p then {b..<c} else {})" for t
    using assms(1,2) assms(3) [of t] by (cases "t < b") auto
  then have "{t. a \<le> t \<and> t < c \<and> currentPeriod t = p}
      = {t. a \<le> t \<and> t < b \<and> currentPeriod t = p} \<union> (if currentPeriod b = p then {b..<c} else {})" by blast
  moreover have "card ({t. a \<le> t \<and> t < b \<and> currentPeriod t = p} \<union> (if currentPeriod b = p then {b..<c} else {}))
      = card {t. a \<le> t \<and> t < b \<and> currentPeriod t = p} + card (if currentPeriod b = p then {b..<c} else {})"
  proof (rule card_Un_disjoint)
    show "finite {t. a \<le> t \<and> t < b \<and> currentPeriod t = p}"
      by (rule finite_subset [of _ "{a..<b}"]) auto
  qed auto
  ultimately show ?thesis using assms(2) unfolding ms_in_def by simp
qed

lemma split_step_keeps:
  assumes "a \<le> c" "c < finish" "\<forall>p. charged ss p = ms_in p a c" "list_all (\<lambda>s. 0 < sl_ms s) ss"
    "sum_list (map sl_ms ss) = c - a" "split_step finish (c, ss) = (c', ss')"
  shows "a \<le> c' \<and> c < c' \<and> c' \<le> finish \<and> (\<forall>p. charged ss' p = ms_in p a c') \<and> list_all (\<lambda>s. 0 < sl_ms s) ss'
    \<and> sum_list (map sl_ms ss') = c' - a"
proof -
  let ?next = "Date_UTC (getUTCFullYear c) (getUTCMonth c + 1)"
  have s: "c' = min finish ?next" "ss' = ss @ [\<lparr>sl_period = currentPeriod c, sl_ms = c' - c\<rparr>]"
    using assms(6) by (auto simp: split_step_def Let_def)
  have step: "c < c'" using next_month [of c] assms(2) by (simp add: s)
  have "charged ss' p = ms_in p a c'" for p
  proof -
    have "currentPeriod t = currentPeriod c" if "c \<le> t" "t < c'" for t
      by (rule same_period) (use that in \<open>simp_all add: s(1)\<close>)
    from ms_in_join [OF assms(1) less_imp_le [OF step] this]
    have "ms_in p a c' = ms_in p a c + (if currentPeriod c = p then c' - c else 0)" by blast
    then show ?thesis using assms(3) by (simp add: s(2) charged_def)
  qed
  moreover have "list_all (\<lambda>s. 0 < sl_ms s) ss'" "sum_list (map sl_ms ss') = c' - a"
    using step assms(4,5) by (simp_all add: s(2))
  moreover have "c' \<le> finish" by (simp add: s(1))
  ultimately show ?thesis using step assms(1) by simp
qed

lemma splitUsagePeriods_total:
  "\<exists>slices. splitUsagePeriods startedAt endedAt = Some slices
     \<and> (\<forall>p. charged slices p = ms_in p (max 0 \<lfloor>startedAt\<rfloor>) \<lfloor>endedAt\<rfloor>)
     \<and> list_all (\<lambda>s. 0 < sl_ms s) slices
     \<and> sum_list (map sl_ms slices) = max 0 (\<lfloor>endedAt\<rfloor> - max 0 \<lfloor>startedAt\<rfloor>)"
proof -
  let ?c = "max 0 \<lfloor>startedAt\<rfloor>"
  let ?f = "max ?c \<lfloor>endedAt\<rfloor>"
  let ?b = "\<lambda>(c, _ :: usage_slice list). c < ?f"
  let ?P = "\<lambda>(c, ss). ?c \<le> c \<and> c \<le> ?f \<and> (\<forall>p. charged ss p = ms_in p ?c c) \<and> list_all (\<lambda>s. 0 < sl_ms s) ss
    \<and> sum_list (map sl_ms ss) = c - ?c"
  have start: "?P (?c, [])" by (simp add: charged_def ms_in_empty)
  have keeps: "?P (split_step ?f s) \<and> nat (?f - fst (split_step ?f s)) < nat (?f - fst s)" if "?P s" "?b s" for s
  proof -
    obtain c ss c' ss' where s: "s = (c, ss)" "split_step ?f (c, ss) = (c', ss')" by (metis prod.exhaust)
    then show ?thesis using split_step_keeps [of ?c c ?f ss c' ss'] that by auto
  qed
  have "\<exists>t. while_option ?b (split_step ?f) (?c, []) = Some t"
    by (rule measure_while_option_Some [where P = ?P and f = "\<lambda>s. nat (?f - fst s)", OF keeps start])
  then obtain t where t: "while_option ?b (split_step ?f) (?c, []) = Some t" ..
  have "?P t" by (rule while_option_rule [where P = ?P, OF _ t start]) (rule conjunct1 [OF keeps])
  moreover have "\<not> ?b t" by (rule while_option_stop [OF t])
  moreover have "ms_in p ?c ?f = ms_in p ?c \<lfloor>endedAt\<rfloor>" for p
    unfolding ms_in_def by (rule arg_cong [where f = "\<lambda>A. int (card A)"]) auto
  ultimately show ?thesis
    using t by (cases t) (auto simp: splitUsagePeriods_def Let_def)
qed

text \<open>C23: Splitting an interval ends.  The loop of \<open>splitUsagePeriods\<close> returns for any two times; it charges to
  each period the number of milliseconds of the interval (from the start, at least the epoch, to before the
  end) that lie in that month, no slice is empty, and the slices sum to the length of the interval.\<close>

theorem splitUsagePeriods_returns:
  "\<exists>slices. splitUsagePeriods startedAt endedAt = Some slices
     \<and> (\<forall>p. charged slices p = ms_in p (max 0 \<lfloor>startedAt\<rfloor>) \<lfloor>endedAt\<rfloor>)
     \<and> list_all (\<lambda>s. 0 < sl_ms s) slices
     \<and> sum_list (map sl_ms slices) = max 0 (\<lfloor>endedAt\<rfloor> - max 0 \<lfloor>startedAt\<rfloor>)"
  by (rule splitUsagePeriods_total)


section \<open>The account ledger\<close>

record usage_row =
  ur_awakeMs :: int
  ur_boxMs :: int
  ur_updatedAt :: rat

type_synonym usage_table = "((string \<times> string) \<times> usage_row) list"

text \<open>\<^verbatim>\<open>INSERT ... ON CONFLICT(userId, period) DO UPDATE\<close>.\<close>

definition add_usage :: "string \<Rightarrow> string \<Rightarrow> int \<Rightarrow> int \<Rightarrow> rat \<Rightarrow> usage_table \<Rightarrow> usage_table" where
  "add_usage user period awakeMs boxMs now t =
     AList.update (user, period)
       (case map_of t (user, period) of
          None \<Rightarrow> \<lparr>ur_awakeMs = awakeMs, ur_boxMs = boxMs, ur_updatedAt = now\<rparr>
        | Some r \<Rightarrow> \<lparr>ur_awakeMs = ur_awakeMs r + awakeMs, ur_boxMs = ur_boxMs r + boxMs, ur_updatedAt = now\<rparr>) t"

definition accumulateUsage :: "string \<Rightarrow> rat option \<Rightarrow> rat option \<Rightarrow> time \<Rightarrow> usage_table \<Rightarrow> usage_table" where
  "accumulateUsage user awake box now t =
     (let awakeMs = max 0 \<lfloor>or_else awake 0\<rfloor>; boxMs = max 0 \<lfloor>or_else box 0\<rfloor>
      in if awakeMs = 0 \<and> boxMs = 0 then t
         else add_usage user (currentPeriod now) awakeMs boxMs (of_int now) t)"

definition accumulateAwakeInterval :: "string \<Rightarrow> rat \<Rightarrow> rat \<Rightarrow> usage_table \<Rightarrow> usage_table option" where
  "accumulateAwakeInterval user startedAt endedAt t =
     map_option (\<lambda>slices. fold (\<lambda>s. add_usage user (sl_period s) (sl_ms s) 0 endedAt) slices t)
       (splitUsagePeriods startedAt endedAt)"

definition usageFor :: "string \<Rightarrow> string \<Rightarrow> usage_table \<Rightarrow> int \<times> int" where
  "usageFor user period t = (case map_of t (user, period) of None \<Rightarrow> (0, 0) | Some r \<Rightarrow> (ur_awakeMs r, ur_boxMs r))"

section \<open>The plan and its gates\<close>

record limits_env =
  le_auth :: auth_env
  le_LIMIT_MAX_COMPUTERS :: "string option"
  le_LIMIT_COMPUTE_HOURS :: "string option"

definition HOSTED_MAX_COMPUTERS :: rat where "HOSTED_MAX_COMPUTERS = 3"
definition HOSTED_COMPUTE_HOURS :: rat where "HOSTED_COMPUTE_HOURS = 100"

text \<open>\<^verbatim>\<open>null\<close>, here \<open>None\<close>, is unlimited.\<close>

record plan_limits =
  pl_maxComputers :: "rat option"
  pl_computeSecondsCap :: "rat option"

text \<open>The outer \<open>None\<close> is \<^verbatim>\<open>undefined\<close>: the default applies.\<close>

definition parseLimit :: "string option \<Rightarrow> rat option option" where
  "parseLimit raw =
     (case raw of
        None \<Rightarrow> None
      | Some r \<Rightarrow>
          if js_trim r = '''' then None
          else case js_Number r of
            Fin n \<Rightarrow> if n \<le> 0 then Some None else Some (Some n)
          | _ \<Rightarrow> None)"

definition planLimits :: "url_parser \<Rightarrow> limits_env \<Rightarrow> plan_limits" where
  "planLimits url env =
     (let hosted = isProductionEnv url (le_auth env) None;
          maxComputers = parseLimit (le_LIMIT_MAX_COMPUTERS env);
          computeHours = parseLimit (le_LIMIT_COMPUTE_HOURS env)
      in \<lparr>pl_maxComputers = (case maxComputers of Some m \<Rightarrow> m | None \<Rightarrow> if hosted then Some HOSTED_MAX_COMPUTERS else None),
          pl_computeSecondsCap =
            (case computeHours of
               Some None \<Rightarrow> None
             | Some (Some h) \<Rightarrow> Some (h * 3600)
             | None \<Rightarrow> if hosted then Some (HOSTED_COMPUTE_HOURS * 3600) else None)\<rparr>)"

text \<open>\<open>owners\<close> has the owner of every row of \<^verbatim>\<open>computers\<close>.\<close>

definition countComputers :: "string list \<Rightarrow> string \<Rightarrow> nat" where
  "countComputers owners user = length (filter (\<lambda>o'. o' = user) owners)"

datatype create_check = CreateOk | LimitComputers nat rat

definition canCreateComputer :: "url_parser \<Rightarrow> limits_env \<Rightarrow> string list \<Rightarrow> string \<Rightarrow> create_check" where
  "canCreateComputer url env owners user =
     (case pl_maxComputers (planLimits url env) of
        None \<Rightarrow> CreateOk
      | Some cap \<Rightarrow>
          let computers = countComputers owners user
          in if of_nat computers \<ge> cap then LimitComputers computers cap else CreateOk)"

datatype wake_check = WakeOk | LimitCompute int rat

definition canWake :: "url_parser \<Rightarrow> limits_env \<Rightarrow> usage_table \<Rightarrow> string \<Rightarrow> time \<Rightarrow> wake_check" where
  "canWake url env t user now =
     (case pl_computeSecondsCap (planLimits url env) of
        None \<Rightarrow> WakeOk
      | Some cap \<Rightarrow>
          let capMs = cap * 1000; awakeMs = fst (usageFor user (currentPeriod now) t)
          in if of_int awakeMs \<ge> capMs then LimitCompute awakeMs capMs else WakeOk)"

record limits_summary =
  lm_computeSecondsCap :: "rat option"
  lm_computeSecondsUsed :: rat
  lm_maxComputers :: "rat option"
  lm_computers :: nat
  lm_period :: string

definition limitsSummary :: "url_parser \<Rightarrow> limits_env \<Rightarrow> usage_table \<Rightarrow> string list \<Rightarrow> string \<Rightarrow> time \<Rightarrow> limits_summary" where
  "limitsSummary url env t owners user now =
     (let plan = planLimits url env; period = currentPeriod now
      in \<lparr>lm_computeSecondsCap = pl_computeSecondsCap plan,
          lm_computeSecondsUsed = of_int (fst (usageFor user period t)) / 1000,
          lm_maxComputers = pl_maxComputers plan, lm_computers = countComputers owners user, lm_period = period\<rparr>)"

section \<open>The computer ledger\<close>

definition clampMs :: "js_number \<Rightarrow> int" where
  "clampMs ms = (case ms of Fin q \<Rightarrow> if q > 0 then \<lfloor>q + 1 / 2\<rfloor> else 0 | _ \<Rightarrow> 0)"

record ledger_row =
  lr_awakeMs :: int
  lr_boxMs :: int
  lr_runCount :: int
  lr_updatedAt :: rat

type_synonym ledger_table = "((string \<times> string) \<times> ledger_row) list"

definition upsert :: "string \<Rightarrow> string \<Rightarrow> int \<Rightarrow> int \<Rightarrow> int \<Rightarrow> rat \<Rightarrow> ledger_table \<Rightarrow> ledger_table" where
  "upsert computer period awakeMs boxMs runs now t =
     AList.update (computer, period)
       (case map_of t (computer, period) of
          None \<Rightarrow> \<lparr>lr_awakeMs = awakeMs, lr_boxMs = boxMs, lr_runCount = runs, lr_updatedAt = now\<rparr>
        | Some r \<Rightarrow> \<lparr>lr_awakeMs = lr_awakeMs r + awakeMs, lr_boxMs = lr_boxMs r + boxMs,
                     lr_runCount = lr_runCount r + runs, lr_updatedAt = now\<rparr>) t"

definition recordAwakeStretch :: "string \<Rightarrow> js_number \<Rightarrow> time \<Rightarrow> ledger_table \<Rightarrow> ledger_table" where
  "recordAwakeStretch computer ms now t =
     (let clamped = clampMs ms
      in if clamped = 0 then t else upsert computer (usagePeriod now) clamped 0 0 (of_int now) t)"

definition recordAwakeInterval :: "string \<Rightarrow> rat \<Rightarrow> rat \<Rightarrow> ledger_table \<Rightarrow> ledger_table option" where
  "recordAwakeInterval computer startedAt endedAt t =
     map_option (\<lambda>slices. fold (\<lambda>s. upsert computer (sl_period s) (sl_ms s) 0 0 endedAt) slices t)
       (splitUsagePeriods startedAt endedAt)"

definition recordRunExecution :: "string \<Rightarrow> js_number \<Rightarrow> time \<Rightarrow> ledger_table \<Rightarrow> ledger_table" where
  "recordRunExecution computer execMs now t = upsert computer (usagePeriod now) 0 (clampMs execMs) 1 (of_int now) t"

record usage_totals =
  ut_awakeMs :: int
  ut_boxMs :: int
  ut_runCount :: int

definition readUsage :: "string \<Rightarrow> string \<Rightarrow> ledger_table \<Rightarrow> usage_totals" where
  "readUsage computer period t =
     (case map_of t (computer, period) of
        None \<Rightarrow> \<lparr>ut_awakeMs = 0, ut_boxMs = 0, ut_runCount = 0\<rparr>
      | Some r \<Rightarrow> \<lparr>ut_awakeMs = lr_awakeMs r, ut_boxMs = lr_boxMs r, ut_runCount = lr_runCount r\<rparr>)"

section \<open>Prices\<close>

definition CF_STANDARD1_ACTIVE_USD_PER_HOUR :: rat where "CF_STANDARD1_ACTIVE_USD_PER_HOUR = 452 / 10000"
definition BOX_USD_PER_ACTIVE_HOUR :: rat where "BOX_USD_PER_ACTIVE_HOUR = 36 / 1000"

definition roundUsd :: "rat \<Rightarrow> rat" where
  "roundUsd v = of_int \<lfloor>v * 1000000000 + 1 / 2\<rfloor> / 1000000000"

definition estimatedUsd :: "usage_totals \<Rightarrow> rat" where
  "estimatedUsd totals =
     (let awakeHours = of_int (ut_awakeMs totals) / 3600000; boxHours = of_int (ut_boxMs totals) / 3600000
      in roundUsd (awakeHours * CF_STANDARD1_ACTIVE_USD_PER_HOUR + boxHours * BOX_USD_PER_ACTIVE_HOUR))"

definition SUBSTRATE_PRICE_PER_HOUR :: "(string \<times> rat) list" where
  "SUBSTRATE_PRICE_PER_HOUR =
     [(''cloudflare'', 452 / 10000), (''box'', 36 / 1000), (''sprites'', 12 / 100), (''sail'', 1 / 10),
      (''northflank'', 15 / 100), (''docker'', 0), (''fake'', 5 / 100)]"

definition DEFAULT_PRICE_PER_HOUR :: rat where "DEFAULT_PRICE_PER_HOUR = 1 / 10"

text \<open>A name that every object inherits, such as \<^verbatim>\<open>constructor\<close>, is not a substrate's and is left out.\<close>

definition ratePerHour :: "string option \<Rightarrow> rat" where
  "ratePerHour substrate =
     (case substrate of
        None \<Rightarrow> DEFAULT_PRICE_PER_HOUR
      | Some s \<Rightarrow> if s = '''' then DEFAULT_PRICE_PER_HOUR
                  else case map_of SUBSTRATE_PRICE_PER_HOUR s of None \<Rightarrow> DEFAULT_PRICE_PER_HOUR | Some r \<Rightarrow> r)"

definition roundSeconds :: "rat \<Rightarrow> rat" where
  "roundSeconds v = of_int \<lfloor>v * 1000 + 1 / 2\<rfloor> / 1000"

record cost_meter =
  cm_accrued :: rat
  cm_ratePerHour :: rat
  cm_awakeSeconds :: rat

definition costMeter :: "string option \<Rightarrow> js_number \<Rightarrow> string \<Rightarrow> cost_meter" where
  "costMeter substrate awakeSeconds state =
     (let rate = ratePerHour substrate; seconds = (case awakeSeconds of Fin q \<Rightarrow> if q > 0 then q else 0 | _ \<Rightarrow> 0)
      in \<lparr>cm_accrued = roundUsd (seconds / 3600 * rate), cm_ratePerHour = (if state = ''awake'' then rate else 0),
          cm_awakeSeconds = roundSeconds seconds\<rparr>)"


section \<open>A ledger of slices\<close>

text \<open>
  What both tables have in common: a read of a key's awake time, and an addition that changes one key and one
  period by the amount.
\<close>

locale ledger =
  fixes awake :: "string \<Rightarrow> string \<Rightarrow> 't \<Rightarrow> int"
    and add :: "string \<Rightarrow> string \<Rightarrow> int \<Rightarrow> rat \<Rightarrow> 't \<Rightarrow> 't"
  assumes awake_add: "awake k p (add k' p' ms now t) = awake k p t + (if k = k' \<and> p = p' then ms else 0)"
begin

lemma awake_slices:
  "awake k p (fold (\<lambda>s. add k' (sl_period s) (sl_ms s) now) slices t)
     = awake k p t + (if k = k' then charged slices p else 0)"
  by (induction slices arbitrary: t) (auto simp: awake_add charged_def)

text \<open>An interval recorded slice by slice adds its milliseconds in each month.\<close>

lemma awake_interval:
  "\<exists>t'. map_option (\<lambda>slices. fold (\<lambda>s. add k' (sl_period s) (sl_ms s) now) slices t) (splitUsagePeriods a b) = Some t'
     \<and> (\<forall>k p. awake k p t' = awake k p t + (if k = k' then ms_in p (max 0 \<lfloor>a\<rfloor>) \<lfloor>b\<rfloor> else 0))"
proof -
  obtain slices where s: "splitUsagePeriods a b = Some slices" "\<forall>p. charged slices p = ms_in p (max 0 \<lfloor>a\<rfloor>) \<lfloor>b\<rfloor>"
    using splitUsagePeriods_total by blast
  then show ?thesis by (simp add: awake_slices)
qed

end

interpretation account: ledger "\<lambda>u p t. fst (usageFor u p t)" "\<lambda>u p ms now. add_usage u p ms 0 now"
  by unfold_locales (auto simp: usageFor_def add_usage_def map_of_AList_update split: option.splits)

interpretation metered: ledger "\<lambda>c p t. ut_awakeMs (readUsage c p t)" "\<lambda>c p ms now. upsert c p ms 0 0 now"
  by unfold_locales (auto simp: readUsage_def upsert_def map_of_AList_update split: option.splits)

section \<open>The cap is on the time that was spent\<close>

text \<open>What the Durable Objects of an account write, in any order.\<close>

datatype usage_event = AwakeInterval string rat rat | UsageDelta string "rat option" "rat option" time

definition ledger_step :: "usage_event \<Rightarrow> usage_table \<Rightarrow> usage_table option" where
  "ledger_step e t =
     (case e of
        AwakeInterval u a b \<Rightarrow> accumulateAwakeInterval u a b t
      | UsageDelta u awake box now \<Rightarrow> Some (accumulateUsage u awake box now t))"

fun ledger_run :: "usage_event list \<Rightarrow> usage_table \<Rightarrow> usage_table option" where
  "ledger_run [] t = Some t"
| "ledger_run (e # es) t = (case ledger_step e t of None \<Rightarrow> None | Some t' \<Rightarrow> ledger_run es t')"

text \<open>The awake milliseconds an event stands for in a month of an account.\<close>

definition spent :: "string \<Rightarrow> string \<Rightarrow> usage_event \<Rightarrow> int" where
  "spent user p e =
     (case e of
        AwakeInterval u a b \<Rightarrow> if u = user then ms_in p (max 0 \<lfloor>a\<rfloor>) \<lfloor>b\<rfloor> else 0
      | UsageDelta u awake box now \<Rightarrow> if u = user \<and> currentPeriod now = p then max 0 \<lfloor>or_else awake 0\<rfloor> else 0)"

lemma usageFor_delta:
  "fst (usageFor u p (accumulateUsage u' awake box now t)) = fst (usageFor u p t) + spent u p (UsageDelta u' awake box now)"
  by (auto simp: accumulateUsage_def Let_def spent_def usageFor_def add_usage_def map_of_AList_update split: option.splits)

lemma ledger_step_total:
  "\<exists>t'. ledger_step e t = Some t' \<and> (\<forall>u p. fst (usageFor u p t') = fst (usageFor u p t) + spent u p e)"
proof (cases e)
  case (AwakeInterval u a b)
  then show ?thesis
    using account.awake_interval [of u b t a b] by (auto simp: ledger_step_def accumulateAwakeInterval_def spent_def)
next
  case (UsageDelta u awake box now)
  then show ?thesis by (simp add: ledger_step_def usageFor_delta)
qed

lemma ledger_run_total:
  "\<exists>t'. ledger_run es t = Some t' \<and> (\<forall>u p. fst (usageFor u p t') = fst (usageFor u p t) + sum_list (map (spent u p) es))"
proof (induction es arbitrary: t)
  case (Cons e es)
  obtain t1 where 1: "ledger_step e t = Some t1" "\<forall>u p. fst (usageFor u p t1) = fst (usageFor u p t) + spent u p e"
    using ledger_step_total by blast
  obtain t2 where "ledger_run es t1 = Some t2"
    "\<forall>u p. fst (usageFor u p t2) = fst (usageFor u p t1) + sum_list (map (spent u p) es)"
    using Cons.IH by blast
  then show ?case using 1 by simp
qed simp

text \<open>The compute cap is on the time that was spent.  After any writes to an empty ledger, a wake is allowed
  exactly when the plan has no cap or the milliseconds the account was awake in the current UTC month, by the
  intervals written (each charged to the months it lies in), are fewer than the cap.\<close>

theorem cap_is_on_the_time_spent:
  "\<exists>t. ledger_run es [] = Some t
     \<and> (\<forall>user now. canWake url env t user now = WakeOk \<longleftrightarrow>
          (case pl_computeSecondsCap (planLimits url env) of
             None \<Rightarrow> True
           | Some cap \<Rightarrow> of_int (sum_list (map (spent user (currentPeriod now)) es)) < cap * 1000))"
proof -
  obtain t where t: "ledger_run es [] = Some t"
    "\<forall>u p. fst (usageFor u p t) = fst (usageFor u p []) + sum_list (map (spent u p) es)"
    using ledger_run_total by blast
  have "fst (usageFor u p []) = 0" for u p by (simp add: usageFor_def)
  then show ?thesis
    using t by (auto simp: canWake_def Let_def not_le split: option.splits if_splits)
qed

text \<open>Both ledgers charge alike.  An awake interval written to the account ledger and to the computer ledger adds,
  in every month, the same milliseconds to both.\<close>

theorem ledgers_charge_alike:
  "\<exists>t' l'. accumulateAwakeInterval user a b t = Some t' \<and> recordAwakeInterval computer a b l = Some l'
     \<and> (\<forall>p. fst (usageFor user p t') - fst (usageFor user p t)
           = ut_awakeMs (readUsage computer p l') - ut_awakeMs (readUsage computer p l))"
  using account.awake_interval [of user b t a b] metered.awake_interval [of computer b l a b]
  by (auto simp: accumulateAwakeInterval_def recordAwakeInterval_def)

section \<open>Examples\<close>

lemma period_examples:
  "currentPeriod 0 = ''1970-01''" "currentPeriod 1709164800000 = ''2024-02''" "currentPeriod 1709251200000 = ''2024-03''"
  "currentPeriod (-1) = ''1969-12''"
  by code_simp+

lemma plan_examples:
  "parseLimit (Some '' 1e2 '') = Some (Some 100)" "parseLimit (Some ''-1'') = Some None" "parseLimit (Some ''12h'') = None"
  "parseLimit (Some ''Infinity'') = None"
  by code_simp+

end
