(* ===== verification/Fleet.thy ===== *)
theory Fleet
  imports Quota "HOL-Library.List_Lexorder" "HOL-Library.Char_ord" "HOL-Library.Product_Lexorder"
begin

text \<open>
  The fleet tables (\<^verbatim>\<open>control-plane/src/db/fleet.ts\<close>): the rows of computers, their lineage and the names and
  values of their secrets.  A table is the list of its rows; a statement that violates a primary key fails.
  What a failing database throws and the JSON text of \<^verbatim>\<open>excludeGlobs\<close> are not modelled.
\<close>

record computer_row =
  cw_id :: string
  cw_name :: string
  cw_userId :: string
  cw_parentComputer :: "string option"
  cw_head :: "string option"
  cw_state :: string
  cw_excludeGlobs :: "string list"
  cw_createdAt :: time

record fleet_db =
  fd_computers :: "computer_row list"
  fd_lineage :: "(string \<times> string \<times> time) list"
  fd_secrets :: "((string \<times> string) \<times> string) list"
  fd_ledger :: ledger_table

record create_input =
  ci_id :: string
  ci_name :: string
  ci_userId :: string
  ci_parentComputer :: "string option"
  ci_head :: "string option"
  ci_state :: "string option"
  ci_excludeGlobs :: "string list option"

definition row_of_input :: "time \<Rightarrow> create_input \<Rightarrow> computer_row" where
  "row_of_input now i =
     \<lparr>cw_id = ci_id i, cw_name = ci_name i, cw_userId = ci_userId i, cw_parentComputer = ci_parentComputer i,
      cw_head = ci_head i, cw_state = or_else (ci_state i) ''cold'', cw_excludeGlobs = or_else (ci_excludeGlobs i) [],
      cw_createdAt = now\<rparr>"

text \<open>\<^verbatim>\<open>INSERT INTO computers\<close>: \<open>None\<close> when the id is taken.\<close>

definition insert_row :: "computer_row \<Rightarrow> fleet_db \<Rightarrow> fleet_db option" where
  "insert_row row db =
     (if cw_id row \<in> cw_id ` set (fd_computers db) then None
      else Some (db\<lparr>fd_computers := fd_computers db @ [row]\<rparr>))"

definition insertComputer :: "time \<Rightarrow> create_input \<Rightarrow> fleet_db \<Rightarrow> (computer_row \<times> fleet_db) option" where
  "insertComputer now input db =
     (let row = row_of_input now input in map_option (\<lambda>db'. (row, db')) (insert_row row db))"

definition owned_by :: "string \<Rightarrow> fleet_db \<Rightarrow> computer_row list" where
  "owned_by user db = filter (\<lambda>r. cw_userId r = user) (fd_computers db)"

text \<open>One statement: the row is inserted only while the account has fewer than the cap; the inner \<open>None\<close> is the full cap.\<close>

definition insertComputerWithinLimit ::
  "time \<Rightarrow> create_input \<Rightarrow> rat \<Rightarrow> fleet_db \<Rightarrow> (computer_row option \<times> fleet_db) option" where
  "insertComputerWithinLimit now input maxComputers db =
     (let row = row_of_input now input
      in if int (length (owned_by (cw_userId row) db)) < max 0 \<lfloor>maxComputers\<rfloor>
         then map_option (\<lambda>db'. (Some row, db')) (insert_row row db)
         else Some (None, db))"

definition getComputer :: "fleet_db \<Rightarrow> string \<Rightarrow> computer_row option" where
  "getComputer db i = find (\<lambda>r. cw_id r = i) (fd_computers db)"

definition getOwnedComputer :: "fleet_db \<Rightarrow> string \<Rightarrow> string \<Rightarrow> computer_row option" where
  "getOwnedComputer db i user = find (\<lambda>r. cw_id r = i \<and> cw_userId r = user) (fd_computers db)"

definition listComputers :: "fleet_db \<Rightarrow> string \<Rightarrow> computer_row list" where
  "listComputers db user = sort_key (\<lambda>r. - cw_createdAt r) (owned_by user db)"

definition renameComputer :: "string \<Rightarrow> string \<Rightarrow> string \<Rightarrow> fleet_db \<Rightarrow> bool \<times> fleet_db" where
  "renameComputer i user name db =
     (\<exists>r\<in>set (fd_computers db). cw_id r = i \<and> cw_userId r = user,
      db\<lparr>fd_computers := map (\<lambda>r. if cw_id r = i \<and> cw_userId r = user then r\<lparr>cw_name := name\<rparr> else r) (fd_computers db)\<rparr>)"

definition deleteComputer :: "string \<Rightarrow> string \<Rightarrow> fleet_db \<Rightarrow> bool \<times> fleet_db" where
  "deleteComputer i user db =
     (let deleted = (\<exists>r\<in>set (fd_computers db). cw_id r = i \<and> cw_userId r = user)
      in (deleted,
          db\<lparr>fd_secrets := filter (\<lambda>s. fst (fst s) \<noteq> i) (fd_secrets db),
             fd_lineage := filter (\<lambda>(child, parent, _). child \<noteq> i \<and> parent \<noteq> i) (fd_lineage db),
             fd_computers := filter (\<lambda>r. \<not> (cw_id r = i \<and> cw_userId r = user)) (fd_computers db),
             fd_ledger := (if deleted then filter (\<lambda>s. fst (fst s) \<noteq> i) (fd_ledger db) else fd_ledger db)\<rparr>))"

definition updateComputerState :: "string \<Rightarrow> string \<Rightarrow> string option \<Rightarrow> fleet_db \<Rightarrow> fleet_db" where
  "updateComputerState i state head db =
     db\<lparr>fd_computers := map (\<lambda>r. if cw_id r = i
          then r\<lparr>cw_state := state, cw_head := (case head of None \<Rightarrow> cw_head r | Some h \<Rightarrow> Some h)\<rparr> else r) (fd_computers db)\<rparr>"

definition insertLineage :: "time \<Rightarrow> string \<Rightarrow> string \<Rightarrow> fleet_db \<Rightarrow> fleet_db" where
  "insertLineage now child parent db = db\<lparr>fd_lineage := fd_lineage db @ [(child, parent, now)]\<rparr>"

definition setSecret :: "string \<Rightarrow> string \<Rightarrow> string \<Rightarrow> fleet_db \<Rightarrow> fleet_db" where
  "setSecret i name v db = db\<lparr>fd_secrets := AList.update (i, name) v (fd_secrets db)\<rparr>"

definition listSecrets :: "fleet_db \<Rightarrow> string \<Rightarrow> (string \<times> string) list" where
  "listSecrets db i = sort_key fst (map (\<lambda>((_, n), v). (n, v)) (filter (\<lambda>s. fst (fst s) = i) (fd_secrets db)))"

definition listSecretNames :: "fleet_db \<Rightarrow> string \<Rightarrow> string list" where
  "listSecretNames db i = sort (map (\<lambda>s. snd (fst s)) (filter (\<lambda>s. fst (fst s) = i) (fd_secrets db)))"

definition deleteSecret :: "string \<Rightarrow> string \<Rightarrow> fleet_db \<Rightarrow> bool \<times> fleet_db" where
  "deleteSecret i name db =
     (map_of (fd_secrets db) (i, name) \<noteq> None, db\<lparr>fd_secrets := AList.delete (i, name) (fd_secrets db)\<rparr>)"

section \<open>Facts of the tables\<close>

lemma getOwnedComputer_Some:
  "getOwnedComputer db i user = Some r \<Longrightarrow> r \<in> set (fd_computers db) \<and> cw_id r = i \<and> cw_userId r = user"
  by (auto simp: getOwnedComputer_def find_Some_iff)

lemma getComputer_Some: "getComputer db i = Some r \<Longrightarrow> r \<in> set (fd_computers db) \<and> cw_id r = i"
  by (auto simp: getComputer_def find_Some_iff)

lemma getOwnedComputer_None: "getOwnedComputer db i user = None \<longleftrightarrow> (\<forall>r\<in>set (fd_computers db). \<not> (cw_id r = i \<and> cw_userId r = user))"
  by (auto simp: getOwnedComputer_def find_None_iff)

definition unique_ids :: "fleet_db \<Rightarrow> bool" where
  "unique_ids db \<longleftrightarrow> distinct (map cw_id (fd_computers db))"

lemma insert_row_Some:
  "insert_row row db = Some db' \<longleftrightarrow>
     cw_id row \<notin> cw_id ` set (fd_computers db) \<and> db' = db\<lparr>fd_computers := fd_computers db @ [row]\<rparr>"
  by (auto simp: insert_row_def)

lemma limit_kept:
  assumes "insertComputerWithinLimit now input cap db = Some (r, db')"
  shows "length (owned_by u db') \<le> max (length (owned_by u db)) (nat \<lfloor>cap\<rfloor>)"
  using assms
  by (auto simp: insertComputerWithinLimit_def Let_def insert_row_Some owned_by_def split: if_splits)

end
