(* ===== verification/Api.thy ===== *)
theory Api
  imports Diff Fleet
begin

text \<open>
  The REST routes of the control plane (\<^verbatim>\<open>control-plane/src/app.ts\<close>) over the fleet tables, the usage ledger
  and the bucket, with the calls they make of the computers' Durable Objects.

  A request is one constructor per route, its body already read: a body that is not JSON is the empty object,
  and a field of another type than the route asks for is \<open>None\<close>.  What a Durable Object answers is an
  argument (the answers are those of theory \<open>ComputerProps\<close>'s object); a relayed answer is \<open>Relay\<close>.  The session is
  the user of a valid session, or \<open>None\<close>.  A route that throws answers 500.
\<close>

section \<open>The interface of a computer's Durable Object\<close>

datatype do_call =
    CallDescribe | CallListRuns | CallRunDetail string | CallIncidents | CallGetLayout | CallAttention
  | CallInit "string option" | CallDelete | CallWake | CallSleep | CallDeepSleep | CallSetLayout "string option"
  | CallDismiss int | CallEnqueueRun string "string list" string "string list" "string option"
  | CallStopRun string | CallKeep string "rat option" | CallRevert string "rat option" | CallSnapshot bool
  | CallEnqueueWrite string string bytes

datatype wake_answer = Woken | WakeRetrying | WakeFailed

datatype review_answer = Reviewed | ReviewNotFound | ReviewRefused

record answers =
  an_head :: "string \<Rightarrow> string option"
  an_deleted :: "string \<Rightarrow> bool"
  an_wake :: "string \<Rightarrow> wake_answer"
  an_dismissed :: "string \<Rightarrow> int \<Rightarrow> bool"
  an_run :: "string \<Rightarrow> string \<Rightarrow> (string option \<times> string option) option"
  an_stopped :: "string \<Rightarrow> string \<Rightarrow> bool"
  an_review :: "string \<Rightarrow> string \<Rightarrow> review_answer"
  an_snapshot :: "string \<Rightarrow> bool"

text \<open>A call that may materialize a machine.\<close>

fun may_wake :: "do_call \<Rightarrow> bool" where
  "may_wake CallWake = True"
| "may_wake (CallEnqueueRun _ _ _ _ _) = True"
| "may_wake (CallEnqueueWrite _ _ _) = True"
| "may_wake _ = False"

section \<open>Requests and responses\<close>

datatype request =
    FleetHome | MyLimits | ListComputers | CreateComputer "string option"
  | GetComputer string | Rename string "string option" | Delete string
  | Wake string | Sleep string bool | Incidents string | Fork string "string option"
  | GetLayout string | PutLayout string "string option"
  | Attention string | Dismiss string string
  | SecretNames string | PutSecret string string "string option" | DropSecret string string
  | StartRun string "string list option" "string option" "string option" "string option" "string list option"
  | ListRuns string | RunDetail string string | StopRun string string
  | Keep string string "js_number option" | Revert string string "js_number option" | RunDiff string string
  | Snapshot string "string option" | Files string string | FileAt string "string option"
  | WriteFile string "string option" bytes

datatype payload =
    Err string | Limit string rat rat | Computer computer_row | Computers "computer_row list" | Names "string list"
  | Limits limits_summary | Ok string | Relay | Bytes bytes | Listing dir_listing | DiffReply diff_response

record response =
  rs_status :: nat
  rs_payload :: payload

record api_env =
  pe_limits :: limits_env
  pe_STORE_URI :: "string option"
  pe_BASE_MANIFEST :: "string option"

text \<open>The functions that are not under \<^verbatim>\<open>src/\<close>: the URL parser, SHA-256, BLAKE3, the zstd and CBOR decoders, and the
  encoding of the empty manifest.\<close>

record platform =
  pf_url :: url_parser
  pf_sha :: "string \<Rightarrow> bytes"
  pf_hash :: "bytes \<Rightarrow> string"
  pf_zstd :: "bytes \<Rightarrow> bytes option"
  pf_dec :: "bytes \<Rightarrow> manifest option"
  pf_empty :: bytes

record api_state =
  as_db :: fleet_db
  as_usage :: usage_table
  as_bucket :: bucket

type_synonym outcome = "response \<times> api_state \<times> (string \<times> do_call) list"

definition reply :: "nat \<Rightarrow> payload \<Rightarrow> response" where
  "reply status p = \<lparr>rs_status = status, rs_payload = p\<rparr>"

definition not_found :: response where
  "not_found = reply 404 (Err ''not_found'')"

definition accountStoreRoot :: "platform \<Rightarrow> api_env \<Rightarrow> string \<Rightarrow> cred_error + string" where
  "accountStoreRoot pf env user =
     bindE (parseS3StoreUri (or_else (pe_STORE_URI env) '''')) (\<lambda>parsed.
       case parsed of None \<Rightarrow> Inr '''' | Some (_, r) \<Rightarrow> tenantStoreRoot (pf_sha pf) user r)"

text \<open>A page at a time, until none is left: every object whose key has the prefix goes.\<close>

definition deleteObjectPrefix :: "string \<Rightarrow> bucket \<Rightarrow> bucket" where
  "deleteObjectPrefix pre store = filter (\<lambda>(k, _). \<not> starts_with k pre) store"

definition deleteComputerStoreData :: "string list \<Rightarrow> string \<Rightarrow> bucket \<Rightarrow> bucket" where
  "deleteComputerStoreData roots computer store =
     fold (\<lambda>candidate s.
        let key = (\<lambda>suffix. if candidate = '''' then suffix else candidate @ ''/'' @ suffix)
        in AList.delete (key (''heat/'' @ computer @ ''.cbor''))
             (deleteObjectPrefix (key (''state/'' @ computer @ ''/''))
                (deleteObjectPrefix (key (''runs/'' @ computer @ ''/''))
                   (deleteObjectPrefix (key (''journal/'' @ computer @ ''/'')) s))))
       (remdups roots) store"

section \<open>Creating a computer\<close>

text \<open>The manifest a new computer starts at is made available in the account's namespace first.\<close>

definition bootstrap :: "platform \<Rightarrow> api_env \<Rightarrow> string \<Rightarrow> string option \<Rightarrow> bucket \<Rightarrow> bucket \<times> bool" where
  "bootstrap pf env user head store =
     (case head of
        None \<Rightarrow> (store, True)
      | Some h \<Rightarrow>
          if h = '''' then (store, True)
          else case accountStoreRoot pf env user of
            Inl _ \<Rightarrow> (store, False)
          | Inr r \<Rightarrow>
              if r = '''' then (store, True)
              else case ensureManifestNamespace (pf_dec pf) store h r of
                     (ws, Inr _) \<Rightarrow> (apply_writes ws store, True)
                   | (ws, Inl _) \<Rightarrow> (apply_writes ws store, False))"

definition base_head :: "platform \<Rightarrow> api_env \<Rightarrow> bucket \<Rightarrow> cred_error + (string option \<times> bucket)" where
  "base_head pf env store =
     bindE (parseS3StoreUri (or_else (pe_STORE_URI env) '''')) (\<lambda>parsed.
       case pe_BASE_MANIFEST env of
         Some b \<Rightarrow> Inr (Some b, store)
       | None \<Rightarrow> (case parsed of
           None \<Rightarrow> Inr (None, store)
         | Some (_, r) \<Rightarrow> (let (i, s) = ensureEmptyBaseManifest (pf_hash pf) (pf_empty pf) store r in Inr (Some i, s))))"

text \<open>The insertion both creation routes end in: under a cap, the statement that counts.\<close>

definition insert_capped :: "platform \<Rightarrow> api_env \<Rightarrow> time \<Rightarrow> create_input \<Rightarrow> fleet_db \<Rightarrow> (computer_row option \<times> fleet_db) option" where
  "insert_capped pf env now input db =
     (case pl_maxComputers (planLimits (pf_url pf) (pe_limits env)) of
        None \<Rightarrow> map_option (\<lambda>(r, db'). (Some r, db')) (insertComputer now input db)
      | Some cap \<Rightarrow> insertComputerWithinLimit now input cap db)"

definition limit_refusal :: "platform \<Rightarrow> api_env \<Rightarrow> api_state \<Rightarrow> string \<Rightarrow> time \<Rightarrow> payload" where
  "limit_refusal pf env s user now =
     (let l = limitsSummary (pf_url pf) (pe_limits env) (as_usage s) (map cw_userId (fd_computers (as_db s))) user now
      in Limit ''limit_computers'' (of_nat (lm_computers l)) (or_else (lm_maxComputers l) 0))"

definition create_route ::
  "platform \<Rightarrow> api_env \<Rightarrow> string \<Rightarrow> string \<Rightarrow> time \<Rightarrow> string option \<Rightarrow> api_state \<Rightarrow> outcome" where
  "create_route pf env user new_id now body_name s =
     (case canCreateComputer (pf_url pf) (pe_limits env) (map cw_userId (fd_computers (as_db s))) user of
        LimitComputers n cap \<Rightarrow> (reply 403 (Limit ''limit_computers'' (of_nat n) cap), s, [])
      | CreateOk \<Rightarrow>
          (case base_head pf env (as_bucket s) of
             Inl _ \<Rightarrow> (reply 500 (Err ''error''), s, [])
           | Inr (head, store1) \<Rightarrow>
               (let (store2, ok) = bootstrap pf env user head store1;
                    s2 = s\<lparr>as_bucket := store2\<rparr>;
                    input = \<lparr>ci_id = new_id, ci_name = take 200 (or_else body_name ''computer''), ci_userId = user,
                      ci_parentComputer = None, ci_head = head, ci_state = None, ci_excludeGlobs = None\<rparr>
                in if \<not> ok then (reply 500 (Err ''error''), s2, [])
                   else case insert_capped pf env now input (as_db s2) of
                     None \<Rightarrow> (reply 500 (Err ''error''), s2, [])
                   | Some (None, _) \<Rightarrow> (reply 403 (limit_refusal pf env s2 user now), s2, [])
                   | Some (Some row, db) \<Rightarrow>
                       (reply 201 (Computer row), s2\<lparr>as_db := db\<rparr>, [(new_id, CallInit head)]))))"

definition fork_route ::
  "platform \<Rightarrow> api_env \<Rightarrow> answers \<Rightarrow> string \<Rightarrow> string \<Rightarrow> time \<Rightarrow> string \<Rightarrow> string option \<Rightarrow> api_state \<Rightarrow> outcome" where
  "fork_route pf env an user new_id now i body_name s =
     (case getOwnedComputer (as_db s) i user of
        None \<Rightarrow> (not_found, s, [])
      | Some src \<Rightarrow>
          (case canCreateComputer (pf_url pf) (pe_limits env) (map cw_userId (fd_computers (as_db s))) user of
             LimitComputers n cap \<Rightarrow> (reply 403 (Limit ''limit_computers'' (of_nat n) cap), s, [])
           | CreateOk \<Rightarrow>
               (let srcHead = (case an_head an (cw_id src) of Some h \<Rightarrow> Some h | None \<Rightarrow> cw_head src);
                    describe = [(cw_id src, CallDescribe)];
                    (store2, ok) = bootstrap pf env (cw_userId src) srcHead (as_bucket s);
                    s2 = s\<lparr>as_bucket := store2\<rparr>;
                    input = \<lparr>ci_id = new_id, ci_name = take 200 (or_else body_name (cw_name src @ '' (fork)'')),
                      ci_userId = user, ci_parentComputer = Some (cw_id src), ci_head = srcHead, ci_state = Some ''cold'',
                      ci_excludeGlobs = Some (cw_excludeGlobs src)\<rparr>
                in if \<not> ok then (reply 500 (Err ''error''), s2, describe)
                   else case insert_capped pf env now input (as_db s2) of
                     None \<Rightarrow> (reply 500 (Err ''error''), s2, describe)
                   | Some (None, _) \<Rightarrow> (reply 403 (limit_refusal pf env s2 user now), s2, describe)
                   | Some (Some row, db) \<Rightarrow>
                       (reply 201 (Computer row), s2\<lparr>as_db := insertLineage now new_id (cw_id src) db\<rparr>,
                        describe @ [(new_id, CallInit srcHead)]))))"


section \<open>Changing and deleting\<close>

definition rename_route :: "string \<Rightarrow> string \<Rightarrow> string option \<Rightarrow> api_state \<Rightarrow> outcome" where
  "rename_route user i body_name s =
     (case body_name of
        None \<Rightarrow> (reply 400 (Err ''name_required''), s, [])
      | Some name \<Rightarrow>
          (let (ok, db) = renameComputer i user (take 200 name) (as_db s)
           in if ok then (reply 200 (Ok name), s\<lparr>as_db := db\<rparr>, []) else (not_found, s, [])))"

definition delete_route :: "platform \<Rightarrow> api_env \<Rightarrow> answers \<Rightarrow> string \<Rightarrow> string \<Rightarrow> api_state \<Rightarrow> outcome" where
  "delete_route pf env an user i s =
     (case getOwnedComputer (as_db s) i user of
        None \<Rightarrow> (not_found, s, [])
      | Some row \<Rightarrow>
          if \<not> an_deleted an i then (reply 503 Relay, s, [(i, CallDelete)])
          else case bindE (parseS3StoreUri (or_else (pe_STORE_URI env) '''')) (\<lambda>parsed.
                 bindE (accountStoreRoot pf env (cw_userId row)) (\<lambda>account.
                   Inr [case parsed of None \<Rightarrow> '''' | Some (_, r) \<Rightarrow> r, account])) of
            Inl _ \<Rightarrow> (reply 503 (Err ''store_delete_failed''), s, [(i, CallDelete)])
          | Inr roots \<Rightarrow>
              (let (ok, db) = deleteComputer i user (as_db s);
                   s2 = s\<lparr>as_bucket := deleteComputerStoreData roots i (as_bucket s), as_db := db\<rparr>
               in ((if ok then reply 200 (Ok i) else not_found), s2, [(i, CallDelete)])))"

section \<open>Routes of one computer\<close>

text \<open>Every other route of a computer first looks its row up among the session user's.\<close>

definition owned :: "string \<Rightarrow> string \<Rightarrow> api_state \<Rightarrow> (computer_row \<Rightarrow> outcome) \<Rightarrow> outcome" where
  "owned user i s k = (case getOwnedComputer (as_db s) i user of None \<Rightarrow> (not_found, s, []) | Some row \<Rightarrow> k row)"

text \<open>The compute gate, checked after ownership and before the object is addressed.\<close>

definition gated :: "platform \<Rightarrow> api_env \<Rightarrow> string \<Rightarrow> time \<Rightarrow> api_state \<Rightarrow> outcome \<Rightarrow> outcome" where
  "gated pf env user now s k =
     (case canWake (pf_url pf) (pe_limits env) (as_usage s) user now of
        LimitCompute used cap \<Rightarrow> (reply 403 (Limit ''limit_compute'' (of_int used) cap), s, [])
      | WakeOk \<Rightarrow> k)"

definition wake_route :: "platform \<Rightarrow> api_env \<Rightarrow> answers \<Rightarrow> string \<Rightarrow> time \<Rightarrow> string \<Rightarrow> api_state \<Rightarrow> outcome" where
  "wake_route pf env an user now i s = owned user i s (\<lambda>row. gated pf env user now s
     ((case an_wake an (cw_id row) of Woken \<Rightarrow> reply 200 Relay | WakeRetrying \<Rightarrow> reply 202 Relay
         | WakeFailed \<Rightarrow> reply 503 Relay), s, [(cw_id row, CallWake)]))"

definition coerceArgv :: "string list option \<Rightarrow> string list" where
  "coerceArgv v = (case v of None \<Rightarrow> [] | Some xs \<Rightarrow> if '''' \<in> set xs then [] else xs)"

definition run_argv :: "string list option \<Rightarrow> string option \<Rightarrow> string option \<Rightarrow> string list" where
  "run_argv v agent path =
     (let argv = coerceArgv v
      in if argv \<noteq> [] then argv
         else case agent of
           None \<Rightarrow> []
         | Some a \<Rightarrow> (case path of None \<Rightarrow> [a] | Some p \<Rightarrow> [a, p]))"

definition nonempty :: "string option \<Rightarrow> string option" where
  "nonempty v = (if v = Some '''' then None else v)"

definition start_run_route ::
  "platform \<Rightarrow> api_env \<Rightarrow> string \<Rightarrow> string \<Rightarrow> time \<Rightarrow> string \<Rightarrow> string list option \<Rightarrow> string option \<Rightarrow> string option
     \<Rightarrow> string option \<Rightarrow> string list option \<Rightarrow> api_state \<Rightarrow> outcome" where
  "start_run_route pf env user new_id now i argv agent path cwd envNames s =
     owned user i s (\<lambda>row. gated pf env user now s
       (let agent1 = nonempty agent; final = run_argv argv agent1 (nonempty path)
        in if final = [] then (reply 400 (Err ''argv_or_agent_required''), s, [])
           else (reply 200 (Ok new_id), s,
                 [(cw_id row, CallEnqueueRun new_id final (or_else (nonempty cwd) DEFAULT_CWD)
                     (case envNames of Some ns \<Rightarrow> ns | None \<Rightarrow> listSecretNames (as_db s) (cw_id row)) agent1)])))"

definition write_route :: "platform \<Rightarrow> api_env \<Rightarrow> string \<Rightarrow> string \<Rightarrow> time \<Rightarrow> string \<Rightarrow> string option \<Rightarrow> bytes \<Rightarrow> api_state \<Rightarrow> outcome" where
  "write_route pf env user new_id now i rawPath body s =
     owned user i s (\<lambda>row. gated pf env user now s
       (case normalizeWritePath rawPath of
          None \<Rightarrow> (reply 400 (Err ''bad_path''), s, [])
        | Some path \<Rightarrow>
            if length body > MAX_WRITE_BYTES then (reply 413 (Err ''too_large''), s, [])
            else (reply 202 (Ok new_id), s, [(i, CallEnqueueWrite new_id path body)])))"

text \<open>An event id must be a positive safe integer.\<close>

definition dismiss_route :: "answers \<Rightarrow> string \<Rightarrow> string \<Rightarrow> string \<Rightarrow> api_state \<Rightarrow> outcome" where
  "dismiss_route an user i raw s =
     owned user i s (\<lambda>row.
       case safe_integer (js_Number raw) of
         None \<Rightarrow> (reply 400 (Err ''bad_event_id''), s, [])
       | Some n \<Rightarrow>
           if n \<le> 0 then (reply 400 (Err ''bad_event_id''), s, [])
           else ((if an_dismissed an (cw_id row) n then reply 200 (Ok raw) else reply 404 (Err ''attention_not_found'')), s,
                 [(cw_id row, CallDismiss n)]))"

definition env_name :: "string \<Rightarrow> bool" where
  "env_name s =
     (let letter = (\<lambda>c. c = CHR ''_'' \<or> CHR ''A'' \<le> c \<and> c \<le> CHR ''Z'' \<or> CHR ''a'' \<le> c \<and> c \<le> CHR ''z'')
      in s \<noteq> '''' \<and> letter (hd s) \<and> list_all (\<lambda>c. letter c \<or> CHR ''0'' \<le> c \<and> c \<le> CHR ''9'') s \<and> length s \<le> 128)"

definition put_secret_route :: "string \<Rightarrow> string \<Rightarrow> string \<Rightarrow> string option \<Rightarrow> api_state \<Rightarrow> outcome" where
  "put_secret_route user i name v s =
     owned user i s (\<lambda>row.
       case v of
         None \<Rightarrow> (reply 400 (Err ''value_required''), s, [])
       | Some val \<Rightarrow>
           if \<not> env_name name then (reply 400 (Err ''bad_name''), s, [])
           else if starts_with name ''MARI_'' \<or> starts_with name ''AWS_'' then (reply 400 (Err ''reserved_name''), s, [])
           else (reply 200 (Ok name), s\<lparr>as_db := setSecret (cw_id row) name val (as_db s)\<rparr>, []))"

definition drop_secret_route :: "string \<Rightarrow> string \<Rightarrow> string \<Rightarrow> api_state \<Rightarrow> outcome" where
  "drop_secret_route user i name s =
     owned user i s (\<lambda>row.
       let (removed, db) = deleteSecret (cw_id row) name (as_db s)
       in if removed then (reply 200 (Ok name), s\<lparr>as_db := db\<rparr>, []) else (reply 404 (Err ''secret_not_found''), s, []))"

definition review_route :: "answers \<Rightarrow> string \<Rightarrow> bool \<Rightarrow> string \<Rightarrow> string \<Rightarrow> js_number option \<Rightarrow> api_state \<Rightarrow> outcome" where
  "review_route an user keep i run epochRaw s =
     (if i = '''' \<or> run = '''' then (reply 400 (Err ''bad_request''), s, [])
      else owned user i s (\<lambda>row.
        let epoch = (case epochRaw of Some (Fin q) \<Rightarrow> Some q | _ \<Rightarrow> None)
        in ((case an_review an (cw_id row) run of Reviewed \<Rightarrow> reply 200 Relay | ReviewNotFound \<Rightarrow> reply 404 (Err ''not_found'')
               | ReviewRefused \<Rightarrow> reply 409 Relay), s,
            [(cw_id row, if keep then CallKeep run epoch else CallRevert run epoch)])))"

definition diff_route :: "platform \<Rightarrow> api_env \<Rightarrow> answers \<Rightarrow> string \<Rightarrow> string \<Rightarrow> string \<Rightarrow> api_state \<Rightarrow> outcome" where
  "diff_route pf env an user i run s =
     owned user i s (\<lambda>row.
       ((case an_run an (cw_id row) run of
           None \<Rightarrow> reply 404 (Err ''run_not_found'')
         | Some (base, head) \<Rightarrow>
             (case (nonempty base, nonempty head) of
                (Some b, Some h) \<Rightarrow>
                  (case accountStoreRoot pf env (cw_userId row) of
                     Inl _ \<Rightarrow> reply 500 (Err ''error'')
                   | Inr r \<Rightarrow>
                       (case diffManifestIds (pf_dec pf) (as_bucket s) b h r of
                          Inr d \<Rightarrow> reply 200 (DiffReply (diff_reply b h d))
                        | Inl (ManifestNotFound _) \<Rightarrow> reply 404 (Err ''manifest_missing'')
                        | Inl _ \<Rightarrow> reply 500 (Err ''error'')))
              | _ \<Rightarrow> reply 409 (Err ''run_incomplete''))), s, [(cw_id row, CallRunDetail run)]))"

section \<open>Files of the manifest head\<close>

definition chunk_code :: "store_error \<Rightarrow> string" where
  "chunk_code e =
     (case e of
        ChunkIdMalformed _ \<Rightarrow> ''chunk_id_malformed'' | ChunkMissing _ \<Rightarrow> ''chunk_missing''
      | ChunkUndecodable _ \<Rightarrow> ''chunk_undecodable'' | ChunkCorrupted _ _ \<Rightarrow> ''chunk_corrupt''
      | ChunkLengthMismatch _ _ _ \<Rightarrow> ''chunk_length_mismatch'' | ManifestSizeMismatch _ _ _ \<Rightarrow> ''manifest_size_mismatch''
      | _ \<Rightarrow> ''error'')"

definition file_error :: "store_error \<Rightarrow> response" where
  "file_error e =
     (case e of
        ManifestNotFound _ \<Rightarrow> reply 404 (Err ''manifest_missing'') | PathNotFound _ \<Rightarrow> reply 404 (Err ''not_found'')
      | NotAFile _ \<Rightarrow> reply 400 (Err ''not_a_file'') | FileTooLarge _ \<Rightarrow> reply 413 (Err ''too_large'')
      | _ \<Rightarrow> reply 500 (Err (chunk_code e)))"

definition respond :: "response stored \<Rightarrow> response" where
  "respond r = (case r of Inl e \<Rightarrow> file_error e | Inr p \<Rightarrow> p)"

definition file_head :: "answers \<Rightarrow> computer_row \<Rightarrow> string option" where
  "file_head an row = nonempty (case an_head an (cw_id row) of Some h \<Rightarrow> Some h | None \<Rightarrow> cw_head row)"

definition files_route :: "platform \<Rightarrow> api_env \<Rightarrow> answers \<Rightarrow> string \<Rightarrow> string \<Rightarrow> string \<Rightarrow> api_state \<Rightarrow> outcome" where
  "files_route pf env an user i rel s =
     (if i = '''' then (reply 400 (Err ''bad_request''), s, [])
      else owned user i s (\<lambda>row.
        let path = normalizePath rel
        in ((case accountStoreRoot pf env (cw_userId row) of
               Inl _ \<Rightarrow> reply 500 (Err ''error'')
             | Inr r \<Rightarrow>
                 (case file_head an row of
                    None \<Rightarrow> if path = ''/'' then reply 200 (Listing \<lparr>dl_path = ''/'', dl_entries = []\<rparr>)
                            else reply 404 (Err ''not_found'')
                  | Some head \<Rightarrow>
                      respond (bindE (loadManifest (pf_dec pf) (as_bucket s) head r) (\<lambda>m.
                        if (case findEntry m path of Some e \<Rightarrow> me_kind e = EFile | None \<Rightarrow> False)
                        then bindE (readFile (pf_zstd pf) (pf_hash pf) (as_bucket s) m path r) (\<lambda>b. Inr (reply 200 (Bytes b)))
                        else bindE (listDirectory m path) (\<lambda>l. Inr (reply 200 (Listing l))))))), s, [(i, CallDescribe)])))"

definition file_route :: "platform \<Rightarrow> api_env \<Rightarrow> answers \<Rightarrow> string \<Rightarrow> string \<Rightarrow> string option \<Rightarrow> api_state \<Rightarrow> outcome" where
  "file_route pf env an user i query s =
     owned user i s (\<lambda>row.
       ((case file_head an row of
           None \<Rightarrow> reply 404 (Err ''no_manifest'')
         | Some head \<Rightarrow>
             (let path = normalizePath (or_else query '''')
              in case accountStoreRoot pf env (cw_userId row) of
                   Inl _ \<Rightarrow> reply 500 (Err ''error'')
                 | Inr r \<Rightarrow>
                     respond (bindE (loadManifest (pf_dec pf) (as_bucket s) head r) (\<lambda>m.
                       case findEntry m path of
                         None \<Rightarrow> Inl (PathNotFound path)
                       | Some e \<Rightarrow>
                           if me_kind e \<noteq> EFile then Inl (NotAFile path)
                           else bindE (readFile (pf_zstd pf) (pf_hash pf) (as_bucket s) m path r)
                                  (\<lambda>b. Inr (reply 200 (Bytes b))))))), s, [(i, CallDescribe)]))"

section \<open>The router\<close>

text \<open>A route that only relays what the object answers.\<close>

definition relay :: "string \<Rightarrow> string \<Rightarrow> do_call list \<Rightarrow> api_state \<Rightarrow> outcome" where
  "relay user i calls s = owned user i s (\<lambda>row. (reply 200 Relay, s, map (\<lambda>c. (cw_id row, c)) calls))"

definition route ::
  "platform \<Rightarrow> api_env \<Rightarrow> answers \<Rightarrow> string \<Rightarrow> string \<Rightarrow> time \<Rightarrow> request \<Rightarrow> api_state \<Rightarrow> outcome" where
  "route pf env an user new_id now req s =
     (case req of
        FleetHome \<Rightarrow> (reply 200 Relay, s, map (\<lambda>r. (cw_id r, CallDescribe)) (listComputers (as_db s) user))
      | MyLimits \<Rightarrow> (reply 200 (Limits (limitsSummary (pf_url pf) (pe_limits env) (as_usage s)
            (map cw_userId (fd_computers (as_db s))) user now)), s, [])
      | ListComputers \<Rightarrow> (reply 200 (Computers (listComputers (as_db s) user)), s, [])
      | CreateComputer name \<Rightarrow> create_route pf env user new_id now name s
      | GetComputer i \<Rightarrow> relay user i [CallDescribe, CallListRuns] s
      | Rename i name \<Rightarrow> rename_route user i name s
      | Delete i \<Rightarrow> delete_route pf env an user i s
      | Wake i \<Rightarrow> wake_route pf env an user now i s
      | Sleep i deep \<Rightarrow> relay user i [if deep then CallDeepSleep else CallSleep] s
      | Incidents i \<Rightarrow> relay user i [CallIncidents] s
      | Fork i name \<Rightarrow> fork_route pf env an user new_id now i name s
      | GetLayout i \<Rightarrow> relay user i [CallGetLayout] s
      | PutLayout i layout \<Rightarrow> relay user i [CallSetLayout layout] s
      | Attention i \<Rightarrow> relay user i [CallAttention] s
      | Dismiss i e \<Rightarrow> dismiss_route an user i e s
      | SecretNames i \<Rightarrow> owned user i s (\<lambda>row. (reply 200 (Names (listSecretNames (as_db s) (cw_id row))), s, []))
      | PutSecret i name v \<Rightarrow> put_secret_route user i name v s
      | DropSecret i name \<Rightarrow> drop_secret_route user i name s
      | StartRun i argv agent path cwd envNames \<Rightarrow> start_run_route pf env user new_id now i argv agent path cwd envNames s
      | ListRuns i \<Rightarrow> relay user i [CallListRuns] s
      | RunDetail i run \<Rightarrow> owned user i s (\<lambda>row.
            ((if an_run an (cw_id row) run = None then reply 404 (Err ''run_not_found'') else reply 200 Relay), s,
             [(cw_id row, CallRunDetail run)]))
      | StopRun i run \<Rightarrow> owned user i s (\<lambda>row.
            ((if an_stopped an (cw_id row) run then reply 200 Relay else reply 404 (Err ''run_not_found'')), s,
             [(cw_id row, CallStopRun run)]))
      | Keep i run e \<Rightarrow> review_route an user True i run e s
      | Revert i run e \<Rightarrow> review_route an user False i run e s
      | RunDiff i run \<Rightarrow> diff_route pf env an user i run s
      | Snapshot i reason \<Rightarrow> owned user i s (\<lambda>row.
            ((if an_snapshot an (cw_id row) then reply 200 Relay else reply 409 Relay), s,
             [(cw_id row, CallSnapshot (reason = Some ''scheduled''))]))
      | Files i rel \<Rightarrow> files_route pf env an user i rel s
      | FileAt i query \<Rightarrow> file_route pf env an user i query s
      | WriteFile i path body \<Rightarrow> write_route pf env user new_id now i path body s)"

text \<open>The guard before the router: without a session nothing is looked up.\<close>

definition api ::
  "platform \<Rightarrow> api_env \<Rightarrow> answers \<Rightarrow> string option \<Rightarrow> string \<Rightarrow> time \<Rightarrow> request \<Rightarrow> api_state \<Rightarrow> outcome" where
  "api pf env an session new_id now req s =
     (case session of
        None \<Rightarrow> (reply 401 (Err ''unauthorized''), s, [])
      | Some user \<Rightarrow> route pf env an user new_id now req s)"


section \<open>Tenancy\<close>

text \<open>The computer a request names.\<close>

fun addressed :: "request \<Rightarrow> string option" where
  "addressed FleetHome = None"
| "addressed MyLimits = None"
| "addressed ListComputers = None"
| "addressed (CreateComputer _) = None"
| "addressed (GetComputer i) = Some i"
| "addressed (Rename i _) = Some i"
| "addressed (Delete i) = Some i"
| "addressed (Wake i) = Some i"
| "addressed (Sleep i _) = Some i"
| "addressed (Incidents i) = Some i"
| "addressed (Fork i _) = Some i"
| "addressed (GetLayout i) = Some i"
| "addressed (PutLayout i _) = Some i"
| "addressed (Attention i) = Some i"
| "addressed (Dismiss i _) = Some i"
| "addressed (SecretNames i) = Some i"
| "addressed (PutSecret i _ _) = Some i"
| "addressed (DropSecret i _) = Some i"
| "addressed (StartRun i _ _ _ _ _) = Some i"
| "addressed (ListRuns i) = Some i"
| "addressed (RunDetail i _) = Some i"
| "addressed (StopRun i _) = Some i"
| "addressed (Keep i _ _) = Some i"
| "addressed (Revert i _ _) = Some i"
| "addressed (RunDiff i _) = Some i"
| "addressed (Snapshot i _) = Some i"
| "addressed (Files i _) = Some i"
| "addressed (FileAt i _) = Some i"
| "addressed (WriteFile i _ _) = Some i"

lemmas one_computer_routes = owned_def relay_def wake_route_def gated_def start_run_route_def write_route_def
  dismiss_route_def put_secret_route_def drop_secret_route_def review_route_def diff_route_def files_route_def
  file_route_def delete_route_def fork_route_def

lemma not_owned_rename:
  assumes "getOwnedComputer db i u = None"
  shows "renameComputer i u name db = (False, db)"
proof -
  have none: "\<not> (cw_id r = i \<and> cw_userId r = u)" if "r \<in> set (fd_computers db)" for r
    using assms that by (auto simp: getOwnedComputer_None)
  then have "map (\<lambda>r. if cw_id r = i \<and> cw_userId r = u then r\<lparr>cw_name := name\<rparr> else r) (fd_computers db) = fd_computers db"
    by (intro map_idI) (simp only: if_False simp_thms)
  then show ?thesis using none by (auto simp: renameComputer_def)
qed

text \<open>A request for a computer that is not the session user's.\<close>

lemma not_owned_route:
  assumes "getOwnedComputer (as_db s) i u = None" "addressed req = Some i"
  shows "\<exists>resp. route pf env an u new_id now req s = (resp, s, [])
    \<and> (resp = not_found \<or> resp = reply 400 (Err ''name_required'') \<or> resp = reply 400 (Err ''bad_request''))"
  using assms
  by (cases req) (auto simp: route_def one_computer_routes rename_route_def not_owned_rename split: option.splits)

definition no_fleet :: fleet_db where
  "no_fleet = \<lparr>fd_computers = [], fd_lineage = [], fd_secrets = [], fd_ledger = []\<rparr>"

lemma no_fleet_owned [simp]: "getOwnedComputer no_fleet i u = None"
  by (simp add: no_fleet_def getOwnedComputer_def)

text \<open>Somebody else's computer is no computer.  A request for a computer the session user does not own
  changes nothing, calls no Durable Object, and is answered exactly as it would be if there were no
  computers at all.\<close>

theorem strangers_computer_is_no_computer:
  assumes "getOwnedComputer (as_db s) i u = None" "addressed req = Some i"
  shows "\<exists>resp. api pf env an (Some u) new_id now req s = (resp, s, [])
    \<and> api pf env an (Some u) new_id now req (s\<lparr>as_db := no_fleet\<rparr>) = (resp, s\<lparr>as_db := no_fleet\<rparr>, [])"
  using assms
  by (cases req) (auto simp: api_def route_def one_computer_routes rename_route_def not_owned_rename split: option.splits)


section \<open>Whom a request reaches\<close>

lemma insert_capped_Some:
  "insert_capped pf env now input db = Some (Some row, db') \<Longrightarrow>
     row = row_of_input now input \<and> db' = db\<lparr>fd_computers := fd_computers db @ [row]\<rparr> \<and> cw_id row \<notin> cw_id ` set (fd_computers db)"
  by (auto simp: insert_capped_def insertComputer_def insertComputerWithinLimit_def Let_def insert_row_Some
      split: option.splits if_splits)

lemma create_route_db:
  assumes "create_route pf env u new_id now name s = (resp, s', calls)"
  shows "as_usage s' = as_usage s
    \<and> (calls = [] \<and> as_db s' = as_db s
       \<or> (\<exists>row head. insert_capped pf env now \<lparr>ci_id = new_id, ci_name = take 200 (or_else name ''computer''), ci_userId = u,
              ci_parentComputer = None, ci_head = head, ci_state = None, ci_excludeGlobs = None\<rparr> (as_db s) = Some (Some row, as_db s')
            \<and> calls = [(new_id, CallInit head)]))"
  using assms
  by (auto simp: create_route_def Let_def split: create_check.splits sum.splits prod.splits if_splits option.splits)

lemma fork_route_db:
  assumes "fork_route pf env an u new_id now i name s = (resp, s', calls)"
  shows "as_usage s' = as_usage s
    \<and> (as_db s' = as_db s \<and> set calls \<subseteq> {(i, CallDescribe)} \<and> (calls \<noteq> [] \<longrightarrow> getOwnedComputer (as_db s) i u \<noteq> None)
       \<or> (\<exists>src row db head. getOwnedComputer (as_db s) i u = Some src
            \<and> insert_capped pf env now \<lparr>ci_id = new_id, ci_name = take 200 (or_else name (cw_name src @ '' (fork)'')), ci_userId = u,
              ci_parentComputer = Some (cw_id src), ci_head = head, ci_state = Some ''cold'',
              ci_excludeGlobs = Some (cw_excludeGlobs src)\<rparr> (as_db s) = Some (Some row, db)
            \<and> as_db s' = insertLineage now new_id (cw_id src) db
            \<and> calls = [(i, CallDescribe), (new_id, CallInit head)]))"
proof (cases "getOwnedComputer (as_db s) i u")
  case None
  then show ?thesis using assms by (auto simp: fork_route_def)
next
  case (Some src)
  then have "cw_id src = i" by (auto dest: getOwnedComputer_Some)
  then show ?thesis
    using assms Some
    by (auto simp: fork_route_def Let_def split: create_check.splits sum.splits prod.splits if_splits option.splits)
qed

lemma listComputers_owned: "r \<in> set (listComputers db u) \<Longrightarrow> getOwnedComputer db (cw_id r) u \<noteq> None"
  by (auto simp: listComputers_def owned_by_def getOwnedComputer_None)

text \<open>C26: A request reaches the session user's computers only.  Every call a request makes goes to a Durable Object
  of a computer the session user owns, or of the one the request has just created for that user; without a
  session there is none.\<close>

theorem requests_reach_own_computers_only:
  assumes "api pf env an session new_id now req s = (resp, s', calls)" "(i, call) \<in> set calls"
  shows "\<exists>u. session = Some u
    \<and> (getOwnedComputer (as_db s) i u \<noteq> None
       \<or> (i = new_id \<and> (\<exists>head. call = CallInit head) \<and> getOwnedComputer (as_db s) i u = None \<and> getOwnedComputer (as_db s') i u \<noteq> None))"
proof -
  obtain u where u: "session = Some u" using assms by (cases session) (auto simp: api_def)
  then have r: "route pf env an u new_id now req s = (resp, s', calls)" using assms(1) by (simp add: api_def)
  have new: "getOwnedComputer (as_db s) new_id u = None \<and> getOwnedComputer db' new_id u \<noteq> None"
    if "insert_capped pf env now input (as_db s) = Some (Some row, db)" "ci_id input = new_id" "ci_userId input = u"
      "fd_computers db' = fd_computers db" for input row db db'
  proof -
    have ins: "row = row_of_input now input" "db = as_db s\<lparr>fd_computers := fd_computers (as_db s) @ [row]\<rparr>"
      "cw_id row \<notin> cw_id ` set (fd_computers (as_db s))" using insert_capped_Some [OF that(1)] by blast+
    have "cw_id row = new_id" "cw_userId row = u" using that(2,3) by (simp_all add: ins(1) row_of_input_def)
    moreover have "fd_computers db' = fd_computers (as_db s) @ [row]" using that(4) by (simp add: ins(2))
    ultimately have row: "cw_id row = new_id" "cw_userId row = u" "fd_computers db' = fd_computers (as_db s) @ [row]"
      "new_id \<notin> cw_id ` set (fd_computers (as_db s))"
      using ins(3) by simp_all
    then have "\<And>r. r \<in> set (fd_computers (as_db s)) \<Longrightarrow> cw_id r \<noteq> new_id" by (metis image_eqI)
    then show ?thesis using row(1-3) by (simp add: getOwnedComputer_None)
  qed
  show ?thesis
  proof (cases "\<exists>name. req = CreateComputer name")
    case True
    then show ?thesis
      using r u assms(2) create_route_db [of pf env u new_id now _ s resp s' calls] new [of _ _ "as_db s'" "as_db s'"]
      by (fastforce simp: route_def)
  next
    case no_create: False
    show ?thesis
    proof (cases "\<exists>j name. req = Fork j name")
      case True
      then obtain j name where "req = Fork j name" by blast
      with fork_route_db [of pf env an u new_id now j name s resp s' calls] r u assms(2) show ?thesis
        using new [of _ _ _ "as_db s'"] by (auto simp: route_def insertLineage_def)
    next
      case no_fork: False
      show ?thesis
      proof (cases "addressed req")
        case None
        then show ?thesis
          using r u assms(2) no_create by (cases req) (auto simp: route_def dest: listComputers_owned)
      next
        case (Some j)
        have own: "getOwnedComputer (as_db s) j u \<noteq> None"
        proof
          assume "getOwnedComputer (as_db s) j u = None"
          from not_owned_route [OF this Some, of pf env an new_id now] show False using r assms(2) by auto
        qed
        then have "\<exists>row. getOwnedComputer (as_db s) j u = Some row \<and> cw_id row = j" by (auto dest: getOwnedComputer_Some)
        then have "i = j"
          using r assms(2) Some no_fork
          by (cases req) (auto simp: route_def one_computer_routes rename_route_def Let_def
              split: wake_check.splits option.splits if_splits prod.splits sum.splits)
        then show ?thesis using own u by blast
      qed
    qed
  qed
qed


section \<open>What a request changes\<close>

definition reserved_name :: "string \<Rightarrow> bool" where
  "reserved_name n \<longleftrightarrow> starts_with n ''MARI_'' \<or> starts_with n ''AWS_''"

text \<open>The changes a request of a user makes to the tables.\<close>

inductive fleet_change :: "platform \<Rightarrow> api_env \<Rightarrow> string \<Rightarrow> time \<Rightarrow> fleet_db \<Rightarrow> fleet_db \<Rightarrow> bool" for pf env u now db where
  unchanged: "fleet_change pf env u now db db"
| inserted: "ci_userId input = u \<Longrightarrow> insert_capped pf env now input db = Some (Some row, db1)
    \<Longrightarrow> fd_computers db2 = fd_computers db1 \<Longrightarrow> fd_secrets db2 = fd_secrets db1 \<Longrightarrow> fleet_change pf env u now db db2"
| renamed: "fleet_change pf env u now db (snd (renameComputer i u name db))"
| deleted: "getOwnedComputer db i u \<noteq> None \<Longrightarrow> fleet_change pf env u now db (snd (deleteComputer i u db))"
| secret_put: "getOwnedComputer db i u \<noteq> None \<Longrightarrow> env_name n \<Longrightarrow> \<not> reserved_name n
    \<Longrightarrow> fleet_change pf env u now db (setSecret i n v db)"
| secret_dropped: "getOwnedComputer db i u \<noteq> None \<Longrightarrow> fleet_change pf env u now db (snd (deleteSecret i n db))"

lemma route_changes:
  assumes "route pf env an u new_id now req s = (resp, s', calls)"
  shows "fleet_change pf env u now (as_db s) (as_db s')"
proof (cases "\<exists>name. req = CreateComputer name")
  case True
  then obtain name where "create_route pf env u new_id now name s = (resp, s', calls)"
    using assms by (auto simp: route_def)
  from create_route_db [OF this] show ?thesis
    by (auto intro: fleet_change.unchanged) (rule fleet_change.inserted [rotated], assumption, simp_all)
next
  case no_create: False
  show ?thesis
  proof (cases "\<exists>j name. req = Fork j name")
    case True
    then obtain j name where "fork_route pf env an u new_id now j name s = (resp, s', calls)"
      using assms by (auto simp: route_def)
    from fork_route_db [OF this] show ?thesis
      by (auto intro: fleet_change.unchanged simp: insertLineage_def)
        (rule fleet_change.inserted [rotated], assumption, simp_all)
  next
    case no_fork: False
    show ?thesis
    proof (cases req)
      case (Rename i name)
      show ?thesis
      proof (cases name)
        case (Some n)
        then show ?thesis
          using assms fleet_change.renamed [of pf env u now "as_db s" i "take 200 n"]
          by (auto simp: route_def Rename rename_route_def intro: fleet_change.unchanged split: prod.splits if_splits)
      qed (use assms in \<open>auto simp: route_def Rename rename_route_def intro: fleet_change.unchanged\<close>)
    next
      case (Delete i)
      show ?thesis
        using assms fleet_change.deleted [of "as_db s" i u pf env now]
        by (auto simp: route_def Delete delete_route_def Let_def intro: fleet_change.unchanged
            split: option.splits prod.splits if_splits sum.splits)
    next
      case (PutSecret i name v)
      show ?thesis
        using assms fleet_change.secret_put [of "as_db s" i u name pf env now]
        by (auto simp: route_def PutSecret put_secret_route_def owned_def reserved_name_def intro: fleet_change.unchanged
            split: option.splits if_splits dest: getOwnedComputer_Some)
    next
      case (DropSecret i name)
      show ?thesis
        using assms fleet_change.secret_dropped [of "as_db s" i u pf env now name]
        by (auto simp: route_def DropSecret drop_secret_route_def owned_def Let_def intro: fleet_change.unchanged
            split: option.splits if_splits prod.splits dest: getOwnedComputer_Some)
    qed (use assms no_create no_fork in \<open>auto simp: route_def one_computer_routes Let_def intro: fleet_change.unchanged
          split: wake_check.splits option.splits if_splits prod.splits sum.splits\<close>)
  qed
qed


section \<open>Invariants of the fleet\<close>

text \<open>A secret becomes an environment variable of the supervisor: it never shadows the supervisor's own.\<close>

definition vault_ok :: "fleet_db \<Rightarrow> bool" where
  "vault_ok db \<longleftrightarrow> (\<forall>k v. (k, v) \<in> set (fd_secrets db) \<longrightarrow> env_name (snd k) \<and> \<not> reserved_name (snd k))"

lemma in_update: "(j, w) \<in> set (AList.update k v m) \<Longrightarrow> (j, w) \<in> set m \<or> j = k"
  by (induction m) (auto split: if_splits)

lemma in_delete: "x \<in> set (AList.delete k m) \<Longrightarrow> x \<in> set m"
  by (induction m) (auto split: if_splits)

lemma map_id_of: "map cw_id (map (\<lambda>r. if P r then r\<lparr>cw_name := n\<rparr> else r) rs) = map cw_id rs"
  by simp

lemma insert_capped_count:
  assumes "insert_capped pf env now input db = Some (r, db')" "pl_maxComputers (planLimits (pf_url pf) (pe_limits env)) = Some cap"
  shows "length (owned_by v db') \<le> max (length (owned_by v db)) (nat \<lfloor>cap\<rfloor>)"
  using assms limit_kept by (auto simp: insert_capped_def)

lemma length_filter_map: "(\<And>x. x \<in> set xs \<Longrightarrow> P (f x) = P x) \<Longrightarrow> length (filter P (map f xs)) = length (filter P xs)"
  by (induction xs) auto

lemma length_filter_of_filter: "length (filter P (filter Q xs)) \<le> length (filter P xs)"
  by (induction xs) auto

lemma change_keeps:
  assumes "fleet_change pf env u now db db'"
  shows "(unique_ids db \<longrightarrow> unique_ids db') \<and> (vault_ok db \<longrightarrow> vault_ok db')
    \<and> (\<forall>cap. pl_maxComputers (planLimits (pf_url pf) (pe_limits env)) = Some cap
         \<longrightarrow> length (owned_by v db') \<le> max (length (owned_by v db)) (nat \<lfloor>cap\<rfloor>))"
  using assms
proof cases
  case (inserted input row db1)
  from insert_capped_Some [OF inserted(2)]
  have "fd_computers db' = fd_computers db @ [row]" "fd_secrets db' = fd_secrets db" "cw_id row \<notin> cw_id ` set (fd_computers db)"
    using inserted by auto
  then have "unique_ids db \<longrightarrow> unique_ids db'" "vault_ok db \<longrightarrow> vault_ok db'" by (auto simp: unique_ids_def vault_ok_def)
  moreover have "length (owned_by v db') = length (owned_by v db1)" using inserted(3) by (simp add: owned_by_def)
  ultimately show ?thesis using insert_capped_count [OF inserted(2)] by simp
next
  case (renamed i name)
  have rows: "fd_computers db' = map (\<lambda>r. if cw_id r = i \<and> cw_userId r = u then r\<lparr>cw_name := name\<rparr> else r) (fd_computers db)"
    by (simp add: renamed renameComputer_def)
  have "length (owned_by v db') = length (owned_by v db)"
    unfolding owned_by_def rows by (rule length_filter_map) simp
  moreover have "unique_ids db \<longrightarrow> unique_ids db'" unfolding unique_ids_def rows map_id_of ..
  moreover have "vault_ok db \<longrightarrow> vault_ok db'" by (simp add: renamed renameComputer_def vault_ok_def)
  ultimately show ?thesis by simp
next
  case (deleted i)
  have "length (owned_by v db') \<le> length (owned_by v db)"
    by (simp add: deleted deleteComputer_def Let_def owned_by_def length_filter_of_filter del: filter_filter)
  moreover have "unique_ids db \<longrightarrow> unique_ids db'"
    unfolding deleted deleteComputer_def unique_ids_def by (simp add: Let_def distinct_map_filter)
  moreover have "vault_ok db \<longrightarrow> vault_ok db'" by (auto simp: deleted deleteComputer_def Let_def vault_ok_def)
  ultimately show ?thesis by (auto intro: max.coboundedI1)
next
  case (secret_put i n w)
  then show ?thesis
    by (auto simp: setSecret_def unique_ids_def vault_ok_def owned_by_def dest: in_update)
next
  case (secret_dropped i n)
  then show ?thesis
    by (auto simp: deleteSecret_def unique_ids_def vault_ok_def owned_by_def dest: in_delete)
qed simp

text \<open>Requests of any users, one after the other, with whatever the Durable Objects answer.\<close>

type_synonym api_event = "answers \<times> string option \<times> string \<times> time \<times> request"

definition api_step :: "platform \<Rightarrow> api_env \<Rightarrow> api_event \<Rightarrow> api_state \<Rightarrow> api_state" where
  "api_step pf env = (\<lambda>(an, session, new_id, now, req) s. fst (snd (api pf env an session new_id now req s)))"

lemma api_step_change: "\<exists>u now. fleet_change pf env u now (as_db s) (as_db (api_step pf env e s))"
proof -
  obtain an session new_id now req where e: "e = (an, session, new_id, now, req)" by (metis prod.exhaust)
  show ?thesis
  proof (cases session)
    case None
    then show ?thesis by (auto simp: e api_step_def api_def intro: fleet_change.unchanged)
  next
    case (Some u)
    obtain resp s' calls where r: "route pf env an u new_id now req s = (resp, s', calls)" by (metis prod.exhaust)
    from route_changes [OF r] show ?thesis by (auto simp: e api_step_def api_def Some r)
  qed
qed

text \<open>C27: The fleet keeps its limits.  After any requests of any users, ids stay unique, no account has more
  computers than it had or than its plan's cap allows, however create and fork requests interleave, and every
  name in the vault is an environment variable that does not shadow the supervisor's own.\<close>

theorem fleet_keeps_its_limits:
  assumes "unique_ids (as_db s)" "vault_ok (as_db s)"
  shows "unique_ids (as_db (fold (api_step pf env) es s)) \<and> vault_ok (as_db (fold (api_step pf env) es s))
    \<and> (\<forall>v cap. pl_maxComputers (planLimits (pf_url pf) (pe_limits env)) = Some cap
         \<longrightarrow> length (owned_by v (as_db (fold (api_step pf env) es s))) \<le> max (length (owned_by v (as_db s))) (nat \<lfloor>cap\<rfloor>))"
  using assms
proof (induction es arbitrary: s)
  case (Cons e es)
  obtain u now where c: "fleet_change pf env u now (as_db s) (as_db (api_step pf env e s))" using api_step_change by blast
  note k = change_keeps [OF c]
  have "unique_ids (as_db (api_step pf env e s))" "vault_ok (as_db (api_step pf env e s))" using k Cons.prems by blast+
  note ih = Cons.IH [OF this]
  have "length (owned_by v (as_db (fold (api_step pf env) (e # es) s))) \<le> max (length (owned_by v (as_db s))) (nat \<lfloor>cap\<rfloor>)"
    if "pl_maxComputers (planLimits (pf_url pf) (pe_limits env)) = Some cap" for v cap
  proof -
    have "length (owned_by v (as_db (api_step pf env e s))) \<le> max (length (owned_by v (as_db s))) (nat \<lfloor>cap\<rfloor>)"
      using change_keeps [OF c, of v] that by blast
    moreover have "length (owned_by v (as_db (fold (api_step pf env) (e # es) s)))
        \<le> max (length (owned_by v (as_db (api_step pf env e s)))) (nat \<lfloor>cap\<rfloor>)"
      using ih that by simp
    ultimately show ?thesis by (simp add: le_max_iff_disj) linarith
  qed
  then show ?case using ih by simp
qed simp


lemma filter_update: "j \<noteq> fst k \<Longrightarrow> filter (\<lambda>x. fst (fst x) = j) (AList.update k v m) = filter (\<lambda>x. fst (fst x) = j) m"
  by (induction m) auto

lemma filter_delete: "j \<noteq> fst k \<Longrightarrow> filter (\<lambda>x. fst (fst x) = j) (AList.delete k m) = filter (\<lambda>x. fst (fst x) = j) m"
  by (induction m) auto

lemma filter_two_keys: "j \<noteq> i \<Longrightarrow> filter (\<lambda>x. fst (fst x) \<noteq> i \<and> fst (fst x) = j) m = filter (\<lambda>x. fst (fst x) = j) m"
  by (rule filter_cong) auto

lemma filter_map_same: "(\<And>x. x \<in> set xs \<Longrightarrow> P (f x) = P x \<and> (P x \<longrightarrow> f x = x)) \<Longrightarrow> filter P (map f xs) = filter P xs"
  by (induction xs) auto

lemma not_ours:
  assumes "unique_ids db" "v \<noteq> u" "getOwnedComputer db i u \<noteq> None" "row \<in> set (owned_by v db)"
  shows "cw_id row \<noteq> i"
proof
  assume same: "cw_id row = i"
  obtain r where r: "r \<in> set (fd_computers db)" "cw_id r = i" "cw_userId r = u"
    using assms(3) by (auto dest: getOwnedComputer_Some)
  have "row \<in> set (fd_computers db)" "cw_userId row = v" using assms(4) by (auto simp: owned_by_def)
  then have "row = r" using assms(1) r same by (auto simp: unique_ids_def distinct_map inj_on_def)
  then show False using r \<open>cw_userId row = v\<close> assms(2) by simp
qed

text \<open>C28: Other accounts are untouched.  No request of a user changes the rows of another account, or the secrets
  of a computer that account owns.\<close>

theorem other_accounts_are_untouched:
  assumes "unique_ids (as_db s)" "v \<noteq> u" "api pf env an (Some u) new_id now req s = (resp, s', calls)"
  shows "owned_by v (as_db s') = owned_by v (as_db s)
    \<and> (\<forall>row\<in>set (owned_by v (as_db s)). listSecrets (as_db s') (cw_id row) = listSecrets (as_db s) (cw_id row))"
proof -
  have "fleet_change pf env u now (as_db s) (as_db s')"
    using assms(3) by (intro route_changes) (simp add: api_def)
  then show ?thesis
  proof cases
    case (inserted input row db1)
    from insert_capped_Some [OF inserted(2)] inserted(1,3,4) show ?thesis
      using assms(2) by (auto simp: owned_by_def listSecrets_def row_of_input_def)
  next
    case (renamed i name)
    have rows: "fd_computers (as_db s')
        = map (\<lambda>r. if cw_id r = i \<and> cw_userId r = u then r\<lparr>cw_name := name\<rparr> else r) (fd_computers (as_db s))"
      and secrets: "fd_secrets (as_db s') = fd_secrets (as_db s)" by (simp_all add: renamed renameComputer_def)
    have "owned_by v (as_db s') = owned_by v (as_db s)"
      unfolding owned_by_def rows by (rule filter_map_same) (use assms(2) in auto)
    then show ?thesis by (simp add: listSecrets_def secrets)
  next
    case (deleted i)
    have "owned_by v (as_db s') = owned_by v (as_db s)"
      using assms(2) by (auto simp: deleted deleteComputer_def Let_def owned_by_def intro: filter_cong)
    moreover have "cw_id row \<noteq> i" if "row \<in> set (owned_by v (as_db s))" for row
      by (rule not_ours [OF assms(1,2) deleted(2) that])
    ultimately show ?thesis
      by (auto simp: deleted deleteComputer_def Let_def listSecrets_def filter_two_keys)
  next
    case (secret_put i n w)
    have "cw_id row \<noteq> i" if "row \<in> set (owned_by v (as_db s))" for row
      by (rule not_ours [OF assms(1,2) secret_put(2) that])
    then show ?thesis
      by (auto simp: secret_put setSecret_def owned_by_def listSecrets_def filter_update)
  next
    case (secret_dropped i n)
    have "cw_id row \<noteq> i" if "row \<in> set (owned_by v (as_db s))" for row
      by (rule not_ours [OF assms(1,2) secret_dropped(2) that])
    then show ?thesis
      by (auto simp: secret_dropped deleteSecret_def owned_by_def listSecrets_def filter_delete)
  qed simp
qed

text \<open>A wake passes the gate.  A request that makes a call which may materialize a machine (a wake, a run, a file
  write) is one the compute cap of its user allows at that moment.\<close>

theorem wakes_pass_the_gate:
  assumes "api pf env an session new_id now req s = (resp, s', calls)" "(i, call) \<in> set calls" "may_wake call"
  shows "\<exists>u. session = Some u \<and> canWake (pf_url pf) (pe_limits env) (as_usage s) u now = WakeOk"
proof -
  obtain u where u: "session = Some u" using assms by (cases session) (auto simp: api_def)
  then have r: "route pf env an u new_id now req s = (resp, s', calls)" using assms(1) by (simp add: api_def)
  have "canWake (pf_url pf) (pe_limits env) (as_usage s) u now = WakeOk"
  proof (cases "\<exists>name. req = CreateComputer name")
    case True
    then obtain name where "create_route pf env u new_id now name s = (resp, s', calls)" using r by (auto simp: route_def)
    from create_route_db [OF this] show ?thesis using assms(2,3) by auto
  next
    case no_create: False
    show ?thesis
    proof (cases "\<exists>j name. req = Fork j name")
      case True
      then obtain j name where "req = Fork j name" by blast
      with fork_route_db [of pf env an u new_id now j name s resp s' calls] r assms(2,3) show ?thesis
        by (auto simp: route_def)
    next
      case no_fork: False
      then show ?thesis
        using r assms(2,3) no_create
        by (cases req) (auto simp: route_def one_computer_routes rename_route_def Let_def
            split: wake_check.splits option.splits if_splits prod.splits sum.splits)
    qed
  qed
  then show ?thesis using u by blast
qed


section \<open>Examples\<close>

definition demo_row :: computer_row where
  "demo_row = \<lparr>cw_id = ''c1'', cw_name = ''box'', cw_userId = ''ann'', cw_parentComputer = None, cw_head = None,
     cw_state = ''cold'', cw_excludeGlobs = [], cw_createdAt = 0\<rparr>"

definition demo_state :: api_state where
  "demo_state = \<lparr>as_db = no_fleet\<lparr>fd_computers := [demo_row], fd_secrets := [((''c1'', ''KEY''), ''v'')]\<rparr>, as_usage = [], as_bucket = []\<rparr>"

definition demo_platform :: platform where
  "demo_platform = \<lparr>pf_url = demo_url, pf_sha = (\<lambda>_. []), pf_hash = demo_hash, pf_zstd = (\<lambda>_. None), pf_dec = (\<lambda>_. None),
     pf_empty = [0]\<rparr>"

definition demo_api_env :: api_env where
  "demo_api_env = \<lparr>pe_limits = \<lparr>le_auth = demo_auth_env, le_LIMIT_MAX_COMPUTERS = Some ''1'', le_LIMIT_COMPUTE_HOURS = Some ''2''\<rparr>,
     pe_STORE_URI = None, pe_BASE_MANIFEST = None\<rparr>"

definition demo_answers :: answers where
  "demo_answers = \<lparr>an_head = (\<lambda>_. None), an_deleted = (\<lambda>_. True), an_wake = (\<lambda>_. Woken), an_dismissed = (\<lambda>_ _. True),
     an_run = (\<lambda>_ _. None), an_stopped = (\<lambda>_ _. True), an_review = (\<lambda>_ _. Reviewed), an_snapshot = (\<lambda>_. True)\<rparr>"

lemma demo_wake:
  "api demo_platform demo_api_env demo_answers (Some ''ann'') ''n1'' 0 (Wake ''c1'') demo_state
     = (reply 200 Relay, demo_state, [(''c1'', CallWake)])"
proof -
  have gate: "canWake (pf_url demo_platform) (pe_limits demo_api_env) (as_usage demo_state) ''ann'' 0 = WakeOk" by code_simp
  have "getOwnedComputer (as_db demo_state) ''c1'' ''ann'' = Some demo_row"
    by (simp add: demo_state_def demo_row_def getOwnedComputer_def)
  moreover have "cw_id demo_row = ''c1''" by (simp add: demo_row_def)
  ultimately show ?thesis
    by (simp add: api_def route_def wake_route_def owned_def gated_def gate demo_answers_def)
qed

theorem strangers_computer_is_no_computer_witness:
  "\<exists>resp. api demo_platform demo_api_env demo_answers (Some ''bob'') ''n1'' 0 (Wake ''c1'') demo_state = (resp, demo_state, [])
     \<and> getComputer (as_db demo_state) ''c1'' = Some demo_row"
proof -
  have "getOwnedComputer (as_db demo_state) ''c1'' ''bob'' = None"
    by (simp add: demo_state_def demo_row_def getOwnedComputer_def)
  from strangers_computer_is_no_computer [OF this, of "Wake ''c1''" demo_platform demo_api_env demo_answers "''n1''" 0]
  have "\<exists>resp. api demo_platform demo_api_env demo_answers (Some ''bob'') ''n1'' 0 (Wake ''c1'') demo_state = (resp, demo_state, [])"
    by auto
  then show ?thesis by (simp add: getComputer_def demo_state_def demo_row_def)
qed

theorem requests_reach_own_computers_only_witness:
  "\<exists>u. Some ''ann'' = Some u \<and> getOwnedComputer (as_db demo_state) ''c1'' u \<noteq> None"
  using requests_reach_own_computers_only [OF demo_wake, of "''c1''" CallWake] by auto

theorem wakes_pass_the_gate_witness:
  "\<exists>u. Some ''ann'' = Some u \<and> canWake (pf_url demo_platform) (pe_limits demo_api_env) (as_usage demo_state) u 0 = WakeOk"
  using wakes_pass_the_gate [OF demo_wake, of "''c1''" CallWake] by simp

lemma demo_state_ok: "unique_ids (as_db demo_state)" "vault_ok (as_db demo_state)"
proof -
  show "unique_ids (as_db demo_state)" by (simp add: unique_ids_def demo_state_def)
  have "env_name ''KEY'' \<and> \<not> reserved_name ''KEY''" by code_simp
  then show "vault_ok (as_db demo_state)" by (simp add: vault_ok_def demo_state_def)
qed

text \<open>Two users create, past the cap of one.\<close>

theorem fleet_keeps_its_limits_witness:
  "length (owned_by ''ann'' (as_db (fold (api_step demo_platform demo_api_env)
      [(demo_answers, Some ''ann'', ''n1'', 0, CreateComputer None), (demo_answers, Some ''bob'', ''n2'', 0, CreateComputer None)]
      demo_state))) \<le> 1"
proof -
  have cap: "pl_maxComputers (planLimits (pf_url demo_platform) (pe_limits demo_api_env)) = Some 1" by code_simp
  have one: "length (owned_by ''ann'' (as_db demo_state)) = 1" by (simp add: owned_by_def demo_state_def demo_row_def)
  note kept = fleet_keeps_its_limits [OF demo_state_ok, of demo_platform demo_api_env, THEN conjunct2, THEN conjunct2, rule_format, OF cap]
  show ?thesis by (rule order_trans [OF kept]) (simp add: one)
qed

definition demo_two :: api_state where
  "demo_two = demo_state\<lparr>as_db := no_fleet\<lparr>fd_computers := [demo_row, demo_row\<lparr>cw_id := ''c2'', cw_userId := ''bob''\<rparr>],
     fd_secrets := [((''c1'', ''KEY''), ''v''), ((''c2'', ''KEY''), ''w'')]\<rparr>\<rparr>"

theorem other_accounts_are_untouched_witness:
  "listSecrets (as_db (fst (snd (api demo_platform demo_api_env demo_answers (Some ''ann'') ''n1'' 0 (Delete ''c1'') demo_two)))) ''c2''
     = [(''KEY'', ''w'')]"
proof -
  obtain resp s' calls where a:
    "api demo_platform demo_api_env demo_answers (Some ''ann'') ''n1'' 0 (Delete ''c1'') demo_two = (resp, s', calls)"
    by (metis prod.exhaust)
  have ids: "unique_ids (as_db demo_two)" by (simp add: unique_ids_def demo_two_def demo_row_def)
  have row: "demo_row\<lparr>cw_id := ''c2'', cw_userId := ''bob''\<rparr> \<in> set (owned_by ''bob'' (as_db demo_two))"
    by (simp add: owned_by_def demo_two_def)
  have "listSecrets (as_db demo_two) ''c2'' = [(''KEY'', ''w'')]" by code_simp
  then show ?thesis
    using bspec [OF conjunct2 [OF other_accounts_are_untouched [OF ids _ a, of "''bob''"]] row] by (simp add: a)
qed

end
