(* ===== verification/Gateway.thy ===== *)
theory Gateway
  imports Api
begin

unbundle bit_operations_syntax

text \<open>
  The request pipeline before the REST routes (\<^verbatim>\<open>control-plane/src/handler.ts\<close>): the WebSocket routes and the
  wake proxy of preview hosts, with the parsing of preview hosts (\<^verbatim>\<open>host.ts\<close>) and the capabilities that open
  them (\<^verbatim>\<open>preview.ts\<close>).

  \<open>hmac\<close> and \<open>sha\<close> are HMAC-SHA-256 and SHA-256 over the UTF-8 of a string.  A request carries its URL already
  parsed.  An escape of a code unit above 255 cannot be a character of the model and is read as malformed.
\<close>

section \<open>Preview hosts\<close>

record preview_target =
  pt_port :: int
  pt_computer :: string
  pt_user :: string

text \<open>\<^verbatim>\<open>s.split('--')\<close>.\<close>

fun split_dashes :: "string \<Rightarrow> string list" where
  "split_dashes [] = [[]]"
| "split_dashes [c] = [[c]]"
| "split_dashes (x # y # s) =
     (if x = CHR ''-'' \<and> y = CHR ''-'' then [] # split_dashes s
      else (x # hd (split_dashes (y # s))) # tl (split_dashes (y # s)))"

definition is_digit :: "char \<Rightarrow> bool" where
  "is_digit c \<longleftrightarrow> CHR ''0'' \<le> c \<and> c \<le> CHR ''9''"

definition FIELD_RE :: "string \<Rightarrow> bool" where
  "FIELD_RE s \<longleftrightarrow> s \<noteq> '''' \<and> list_all (\<lambda>c. CHR ''a'' \<le> c \<and> c \<le> CHR ''z'' \<or> is_digit c) s"

text \<open>\<^verbatim>\<open>/^[1-9][0-9]{0,4}$/\<close>.\<close>

definition port_form :: "string \<Rightarrow> bool" where
  "port_form s \<longleftrightarrow> s \<noteq> '''' \<and> CHR ''1'' \<le> hd s \<and> list_all is_digit s \<and> length s \<le> 5"

definition parsePreviewHost :: "string option \<Rightarrow> string \<Rightarrow> preview_target option" where
  "parsePreviewHost hostHeader zone =
     (case hostHeader of
        None \<Rightarrow> None
      | Some hh \<Rightarrow>
          if hh = '''' \<or> zone = '''' then None
          else let host = takeWhile (\<lambda>c. c \<noteq> CHR '':'') (js_lower (js_trim hh));
                   sfx = ''.'' @ js_lower (js_trim zone)
               in if host = '''' \<or> \<not> ends_with host sfx then None
                  else let label = take (length host - length sfx) host
                       in if label = '''' \<or> CHR ''.'' \<in> set label then None
                          else case split_dashes label of
                            [portStr, computer, user] \<Rightarrow>
                              if \<not> FIELD_RE computer \<or> \<not> FIELD_RE user \<or> \<not> port_form portStr then None
                              else let port = int (digits_value 10 portStr)
                                   in if port < 1 \<or> port > 65535 then None
                                      else Some \<lparr>pt_port = port, pt_computer = computer, pt_user = user\<rparr>
                          | _ \<Rightarrow> None)"

section \<open>Capabilities\<close>

definition PREVIEW_TOKEN_PARAM :: string where "PREVIEW_TOKEN_PARAM = ''mari_preview''"
definition PREVIEW_COOKIE :: string where "PREVIEW_COOKIE = ''mari_preview''"
definition PREVIEW_TOKEN_TTL_MS :: int where "PREVIEW_TOKEN_TTL_MS = 12 * 60 * 60 * 1000"

type_synonym hmac = "string \<Rightarrow> string \<Rightarrow> bytes"

definition int_string :: "int \<Rightarrow> string" where
  "int_string n = (if n < 0 then ''-'' @ digits_of (nat (- n)) else digits_of (nat n))"

definition digestEquals :: "string \<Rightarrow> string \<Rightarrow> bool" where
  "digestEquals a b =
     (if length a \<noteq> length b then False
      else fold (\<lambda>(x, y) d. d OR ((of_char x :: nat) XOR of_char y)) (zip a b) 0 = 0)"

definition previewUserLabel :: "(string \<Rightarrow> bytes) \<Rightarrow> string \<Rightarrow> string" where
  "previewUserLabel sha userId = take 12 (hex_of (sha (''mari-preview-user:'' @ userId)))"

definition tokenPayload :: "string \<Rightarrow> int \<Rightarrow> int \<Rightarrow> string" where
  "tokenPayload computer port expiresAt = ''p1:'' @ computer @ '':'' @ int_string port @ '':'' @ int_string expiresAt"

definition mintPreviewToken :: "hmac \<Rightarrow> string \<Rightarrow> string \<Rightarrow> int \<Rightarrow> int \<Rightarrow> string" where
  "mintPreviewToken hmac secret computer port expiresAt =
     ''p1.'' @ int_string expiresAt @ ''.'' @ hex_of (hmac secret (tokenPayload computer port expiresAt))"

definition verifyPreviewToken :: "hmac \<Rightarrow> string \<Rightarrow> string option \<Rightarrow> string \<Rightarrow> int \<Rightarrow> time \<Rightarrow> bool" where
  "verifyPreviewToken hmac secret token computer port now =
     (case token of
        None \<Rightarrow> False
      | Some t \<Rightarrow>
          (case split_on (CHR ''.'') t of
             [v, e, sig] \<Rightarrow>
               if v \<noteq> ''p1'' then False
               else (case safe_integer (js_Number e) of
                       None \<Rightarrow> False
                     | Some expiresAt \<Rightarrow>
                         if expiresAt \<le> now then False
                         else digestEquals (hex_of (hmac secret (tokenPayload computer port expiresAt))) sig)
           | _ \<Rightarrow> False))"

text \<open>\<^verbatim>\<open>decodeURIComponent\<close>; \<open>None\<close> is its \<^verbatim>\<open>URIError\<close>.\<close>

definition hex_pair :: "char \<Rightarrow> char \<Rightarrow> nat option" where
  "hex_pair a b = (case (digit_value a, digit_value b) of (Some m, Some n) \<Rightarrow> Some (m * 16 + n) | _ \<Rightarrow> None)"

function decodeURIComponent :: "string \<Rightarrow> string option" where
  "decodeURIComponent s =
     (case s of
        [] \<Rightarrow> Some []
      | c # t \<Rightarrow>
          if c \<noteq> CHR ''%'' then map_option (\<lambda>r. c # r) (decodeURIComponent t)
          else if length t < 2 then None
          else case hex_pair (t ! 0) (t ! 1) of
            None \<Rightarrow> None
          | Some n \<Rightarrow>
              if n < 128 then map_option (\<lambda>r. char_of n # r) (decodeURIComponent (drop 2 t))
              else if n \<notin> {194, 195} \<or> length t < 5 \<or> t ! 2 \<noteq> CHR ''%'' then None
              else case hex_pair (t ! 3) (t ! 4) of
                None \<Rightarrow> None
              | Some m \<Rightarrow> if m < 128 \<or> 192 \<le> m then None
                          else map_option (\<lambda>r. char_of ((n - 192) * 64 + (m - 128)) # r) (decodeURIComponent (drop 5 t)))"
  by pat_completeness auto
termination
  by (relation "measure length") auto

declare decodeURIComponent.simps [simp del]

lemma decodeURIComponent_code [code]:
  "decodeURIComponent [] = Some []"
  "decodeURIComponent (c # t) =
     (if c \<noteq> CHR ''%'' then map_option (\<lambda>r. c # r) (decodeURIComponent t)
      else if length t < 2 then None
      else case hex_pair (t ! 0) (t ! 1) of
        None \<Rightarrow> None
      | Some n \<Rightarrow>
          if n < 128 then map_option (\<lambda>r. char_of n # r) (decodeURIComponent (drop 2 t))
          else if n \<notin> {194, 195} \<or> length t < 5 \<or> t ! 2 \<noteq> CHR ''%'' then None
          else case hex_pair (t ! 3) (t ! 4) of
            None \<Rightarrow> None
          | Some m \<Rightarrow> if m < 128 \<or> 192 \<le> m then None
                      else map_option (\<lambda>r. char_of ((n - 192) * 64 + (m - 128)) # r) (decodeURIComponent (drop 5 t)))"
  by (simp_all add: decodeURIComponent.simps [of "[]"] decodeURIComponent.simps [of "c # t"])

text \<open>The value of a cookie; the outer \<open>None\<close> is the \<^verbatim>\<open>URIError\<close> of a value that does not decode.\<close>

fun read_cookie_parts :: "string \<Rightarrow> string list \<Rightarrow> string option option" where
  "read_cookie_parts name [] = Some None"
| "read_cookie_parts name (part # parts) =
     (let n = takeWhile (\<lambda>c. c \<noteq> CHR ''='') part
      in if CHR ''='' \<notin> set part then read_cookie_parts name parts
         else if js_trim n \<noteq> name then read_cookie_parts name parts
         else map_option Some (decodeURIComponent (js_trim (drop (Suc (length n)) part))))"

definition readCookie :: "string option \<Rightarrow> string \<Rightarrow> string option option" where
  "readCookie header name =
     (case header of
        None \<Rightarrow> Some None
      | Some h \<Rightarrow> if h = '''' then Some None else read_cookie_parts name (split_on (CHR '';'') h))"

section \<open>Preview addresses\<close>

record full_url = web_url +
  u_port :: string

definition previewOrigin :: "(string \<Rightarrow> full_url option) \<Rightarrow> string option \<Rightarrow> string \<times> string" where
  "previewOrigin url baseUrl =
     (case url (or_else baseUrl ''http://localhost'') of
        None \<Rightarrow> (''http'', '''')
      | Some u \<Rightarrow> (if u_protocol u = ''https:'' then ''https'' else ''http'', u_port u))"

definition preview_host :: "int \<Rightarrow> string \<Rightarrow> string \<Rightarrow> string \<Rightarrow> string" where
  "preview_host port computer user zone = int_string port @ ''--'' @ computer @ ''--'' @ user @ ''.'' @ zone"

text \<open>\<open>encode\<close> is \<^verbatim>\<open>encodeURIComponent\<close>, which leaves the characters of a capability as they are.\<close>

definition previewUrlFor ::
  "(string \<Rightarrow> full_url option) \<Rightarrow> string \<Rightarrow> string option \<Rightarrow> int \<Rightarrow> string \<Rightarrow> string \<Rightarrow> string option \<Rightarrow> string \<times> string" where
  "previewUrlFor url zone baseUrl port computer user token =
     (let (scheme, originPort) = previewOrigin url baseUrl;
          host = preview_host port computer user zone;
          authority = (if originPort = '''' then host else host @ '':'' @ originPort);
          query = (case nonempty token of None \<Rightarrow> '''' | Some t \<Rightarrow> ''?'' @ PREVIEW_TOKEN_PARAM @ ''='' @ t)
      in (host, scheme @ ''://'' @ authority @ ''/'' @ query))"


section \<open>The request pipeline\<close>

record http_request =
  hq_method :: string
  hq_url :: string
  hq_host :: string
  hq_path :: string
  hq_host_header :: "string option"
  hq_upgrade :: "string option"
  hq_cookie :: "string option"
  hq_preview_param :: "string option"
  hq_epoch_param :: "string option"
  hq_token_param :: "string option"

record gateway_env =
  ge_limits :: limits_env
  ge_PREVIEW_ZONE :: "string option"

record gateway_state =
  gs_db :: fleet_db
  gs_usage :: usage_table

datatype gateway_outcome =
    GwThrown | GwConfig auth_config_error
  | GwRefused nat string
  | GwSocket bool string "(js_number \<times> string) option"
  | GwRedirect string
  | GwProxied string int "string option"
  | GwHealth | GwRest

text \<open>\<^verbatim>\<open>/^\/(attach|supervisor)\/([^/?]+)\/?$/\<close>: whether it is an attach, and the id as written.\<close>

definition ws_match :: "string \<Rightarrow> (bool \<times> string) option" where
  "ws_match path =
     (let found = (\<lambda>k i. if (k = ''attach'' \<or> k = ''supervisor'') \<and> i \<noteq> '''' \<and> CHR ''?'' \<notin> set i then Some (k = ''attach'', i) else None)
      in case split_on (CHR ''/'') path of
           [a, k, i] \<Rightarrow> if a = '''' then found k i else None
         | [a, k, i, z] \<Rightarrow> if a = '''' \<and> z = '''' then found k i else None
         | _ \<Rightarrow> None)"

text \<open>\<^verbatim>\<open>Number(devEpoch) || 1\<close>.\<close>

definition prime_epoch :: "string \<Rightarrow> js_number" where
  "prime_epoch e = (case js_Number e of NaN \<Rightarrow> Fin 1 | Fin q \<Rightarrow> if q = 0 then Fin 1 else Fin q | v \<Rightarrow> v)"

definition tryWsRoute :: "url_parser \<Rightarrow> gateway_env \<Rightarrow> gateway_state \<Rightarrow> string option \<Rightarrow> http_request \<Rightarrow> gateway_outcome option" where
  "tryWsRoute url env s session req =
     (case ws_match (hq_path req) of
        None \<Rightarrow> None
      | Some (attach, raw) \<Rightarrow>
          if js_lower (or_else (hq_upgrade req) '''') \<noteq> ''websocket'' then Some (GwRefused 426 ''expected websocket'')
          else case decodeURIComponent raw of
            None \<Rightarrow> Some GwThrown
          | Some i \<Rightarrow>
              if attach then
                (case resolveAuthConfig url (le_auth (ge_limits env)) of
                   Inl e \<Rightarrow> Some (GwConfig e)
                 | Inr _ \<Rightarrow>
                     (case session of
                        None \<Rightarrow> Some (GwRefused 401 ''unauthorized'')
                      | Some u \<Rightarrow>
                          if getOwnedComputer (gs_db s) i u = None then Some (GwRefused 403 ''forbidden'')
                          else Some (GwSocket True i None)))
              else Some (GwSocket False i
                (case (hq_epoch_param req, hq_token_param req) of
                   (Some e, Some t) \<Rightarrow>
                     if ae_DEV_AUTH (le_auth (ge_limits env)) = Some ''1'' then Some (prime_epoch e, t) else None
                 | _ \<Rightarrow> None)))"

text \<open>Mari's own cookies stop at the proxy.\<close>

definition js_includes :: "string \<Rightarrow> string \<Rightarrow> bool" where
  "js_includes s t \<longleftrightarrow> list_ex (\<lambda>i. starts_with (drop i s) t) [0..<Suc (length s)]"

definition cookie_name :: "string \<Rightarrow> string" where
  "cookie_name c = js_lower (takeWhile (\<lambda>x. x \<noteq> CHR ''='') c)"

definition guest_cookies :: "string option \<Rightarrow> string list" where
  "guest_cookies header =
     filter (\<lambda>c. c \<noteq> '''' \<and> \<not> starts_with (cookie_name c) ''mari_'' \<and> \<not> js_includes (cookie_name c) ''better-auth'')
       (map js_trim (split_on (CHR '';'') (or_else header '''')))"

fun join_cookies :: "string list \<Rightarrow> string" where
  "join_cookies [] = []"
| "join_cookies [c] = c"
| "join_cookies (c # cs) = c @ ''; '' @ join_cookies cs"

definition tryWakeProxy ::
  "url_parser \<Rightarrow> (string \<Rightarrow> bytes) \<Rightarrow> hmac \<Rightarrow> gateway_env \<Rightarrow> gateway_state \<Rightarrow> string option \<Rightarrow> time \<Rightarrow> http_request
     \<Rightarrow> gateway_outcome option" where
  "tryWakeProxy url sha hmac env s session now req =
     (case parsePreviewHost (if hq_host req \<noteq> '''' then Some (hq_host req) else hq_host_header req)
             (or_else (ge_PREVIEW_ZONE env) ''mari.sh'') of
        None \<Rightarrow> None
      | Some target \<Rightarrow> Some
          (case getComputer (gs_db s) (pt_computer target) of
             None \<Rightarrow> GwRefused 404 ''no_such_preview''
           | Some row \<Rightarrow>
               if previewUserLabel sha (cw_userId row) \<noteq> pt_user target then GwRefused 404 ''no_such_preview''
               else case resolveAuthConfig url (le_auth (ge_limits env)) of
                 Inl e \<Rightarrow> GwConfig e
               | Inr config \<Rightarrow>
                   (case readCookie (hq_cookie req) PREVIEW_COOKIE of
                      None \<Rightarrow> GwThrown
                    | Some cookieToken \<Rightarrow>
                        (let by = (\<lambda>t. verifyPreviewToken hmac (ac_secret config) t (pt_computer target) (pt_port target) now);
                             byCookie = by cookieToken;
                             byQuery = (\<not> byCookie \<and> hq_preview_param req \<noteq> None \<and> by (hq_preview_param req));
                             bySession = (case session of None \<Rightarrow> False
                                          | Some u \<Rightarrow> getOwnedComputer (gs_db s) (pt_computer target) u \<noteq> None)
                         in if \<not> byCookie \<and> \<not> byQuery \<and> \<not> bySession then GwRefused 401 ''preview_unauthorized''
                            else case canWake url (ge_limits env) (gs_usage s) (cw_userId row) now of
                              LimitCompute _ _ \<Rightarrow> GwRefused 403 ''limit_compute''
                            | WakeOk \<Rightarrow>
                                if byQuery \<and> (hq_method req = ''GET'' \<or> hq_method req = ''HEAD'')
                                then GwRedirect (or_else (hq_preview_param req) '''')
                                else GwProxied (pt_computer target) (pt_port target)
                                  (let guests = guest_cookies (hq_cookie req)
                                   in if guests = [] then None else Some (join_cookies guests))))))"

definition dispatch ::
  "url_parser \<Rightarrow> (string \<Rightarrow> bytes) \<Rightarrow> hmac \<Rightarrow> gateway_env \<Rightarrow> gateway_state \<Rightarrow> string option \<Rightarrow> time \<Rightarrow> http_request \<Rightarrow> gateway_outcome" where
  "dispatch url sha hmac env s session now req =
     (case assertProductionSafety url (le_auth (ge_limits env)) (Some (hq_url req)) of
        Some e \<Rightarrow> GwConfig e
      | None \<Rightarrow>
          (case tryWsRoute url env s session req of
             Some o' \<Rightarrow> o'
           | None \<Rightarrow>
               (case tryWakeProxy url sha hmac env s session now req of
                  Some o' \<Rightarrow> o'
                | None \<Rightarrow> if hq_path req = ''/healthz'' then GwHealth else GwRest)))"

text \<open>The route that mints a capability (\<^verbatim>\<open>app.ts\<close>): a port of a computer the session user owns.\<close>

definition preview_route ::
  "(string \<Rightarrow> full_url option) \<Rightarrow> (string \<Rightarrow> bytes) \<Rightarrow> hmac \<Rightarrow> string \<Rightarrow> string option \<Rightarrow> string option \<Rightarrow> fleet_db
     \<Rightarrow> string \<Rightarrow> time \<Rightarrow> string \<Rightarrow> string option \<Rightarrow> (nat \<times> string) + (string \<times> string \<times> string \<times> int)" where
  "preview_route url sha hmac secret baseUrl zone_var db user now i portRaw =
     (case getOwnedComputer db i user of
        None \<Rightarrow> Inl (404, ''not_found'')
      | Some row \<Rightarrow>
          (case safe_integer (js_Number (or_else portRaw '''')) of
             None \<Rightarrow> Inl (400, ''bad_port'')
           | Some port \<Rightarrow>
               if port < 1 \<or> port > 65535 then Inl (400, ''bad_port'')
               else let zone = or_else zone_var ''mari.sh'';
                        label = previewUserLabel sha (cw_userId row);
                        expiresAt = now + PREVIEW_TOKEN_TTL_MS;
                        token = mintPreviewToken hmac secret (cw_id row) port expiresAt;
                        (host, u) = previewUrlFor url zone baseUrl port (cw_id row) label (Some token);
                        (_, stable) = previewUrlFor url zone baseUrl port (cw_id row) label None
                    in Inr (host, u, stable, expiresAt)))"

section \<open>Lemmas on strings\<close>

text \<open>Code equations that evaluate the recursive call once.\<close>

lemma split_on_code [code]:
  "split_on c [] = [[]]"
  "split_on c (x # s) = (case split_on c s of [] \<Rightarrow> [] | y # ys \<Rightarrow> if x = c then [] # y # ys else (x # y) # ys)"
  by (simp_all split: list.split)

lemma digit_value_digit: "is_digit c \<Longrightarrow> digit_value c = Some (of_char c - 48)"
  by (auto simp: is_digit_def digit_value_def less_eq_char_def Let_def)

lemma digits_value_snoc: "digits_value 10 (s @ [c]) = digits_value 10 s * 10 + (case digit_value c of None \<Rightarrow> 0 | Some d \<Rightarrow> d)"
  by (simp add: digits_value_def)

lemma digit_char: "is_digit c \<Longrightarrow> of_char c - 48 < (10 :: nat) \<and> char_of (48 + (of_char c - 48 :: nat)) = c"
  by (auto simp: is_digit_def less_eq_char_def)

lemma digits_value_pos: "s \<noteq> [] \<Longrightarrow> list_all is_digit s \<Longrightarrow> CHR ''1'' \<le> hd s \<Longrightarrow> 1 \<le> digits_value 10 s"
proof (induction s rule: rev_induct)
  case (snoc c s)
  show ?case
  proof (cases "s = []")
    case True
    then show ?thesis using snoc.prems digit_value_digit [of c] by (auto simp: digits_value_def less_eq_char_def)
  next
    case False
    then show ?thesis using snoc by (simp add: digits_value_snoc)
  qed
qed simp

lemma digits_of_value:
  "s \<noteq> [] \<Longrightarrow> list_all is_digit s \<Longrightarrow> CHR ''1'' \<le> hd s \<Longrightarrow> digits_of (digits_value 10 s) = s"
proof (induction s rule: rev_induct)
  case (snoc c s)
  have c: "is_digit c" using snoc.prems(2) by simp
  note d = digit_char [OF c] digit_value_digit [OF c]
  show ?case
  proof (cases "s = []")
    case True
    then show ?thesis using d by (simp add: digits_value_def digits_of.simps [of "of_char c - 48"])
  next
    case False
    then have s: "1 \<le> digits_value 10 s" "digits_of (digits_value 10 s) = s"
      using snoc digits_value_pos [of s] by simp_all
    then show ?thesis
      using d by (subst digits_of.simps) (simp add: digits_value_snoc)
  qed
qed simp

lemma digits_of_digit: "n < 10 \<Longrightarrow> is_digit (char_of (48 + n)) \<and> (0 < n \<longrightarrow> CHR ''1'' \<le> char_of (48 + n))" for n :: nat
  by (simp add: is_digit_def less_eq_char_def)

lemma digits_of_form: "list_all is_digit (digits_of n) \<and> digits_of n \<noteq> [] \<and> (0 < n \<longrightarrow> CHR ''1'' \<le> hd (digits_of n))
    \<and> digits_value 10 (digits_of n) = n"
proof (induction n rule: digits_of.induct)
  case (1 n)
  show ?case
  proof (cases "n < 10")
    case True
    then show ?thesis using digits_of_digit [of n] digit_value_digit [of "char_of (48 + n)"]
      by (simp add: digits_of.simps [of n] digits_value_def)
  next
    case False
    note ih = 1 [OF False]
    have "is_digit (char_of (48 + n mod 10))" using digits_of_digit [of "n mod 10"] by simp
    then show ?thesis
      using ih False digit_value_digit [of "char_of (48 + n mod 10)"]
      by (simp add: digits_of.simps [of n] digits_value_snoc)
  qed
qed


fun join_dashes :: "string list \<Rightarrow> string" where
  "join_dashes [] = []"
| "join_dashes [s] = s"
| "join_dashes (s # t # ts) = s @ ''--'' @ join_dashes (t # ts)"

lemma split_dashes_nonempty [simp]: "split_dashes s \<noteq> []"
  by (induction s rule: split_dashes.induct) auto

lemma join_head: "xs \<noteq> [] \<Longrightarrow> join_dashes ((x # hd xs) # tl xs) = x # join_dashes xs"
  by (cases xs rule: join_dashes.cases) auto

lemma join_split: "join_dashes (split_dashes s) = s"
proof (induction s rule: split_dashes.induct)
  case (3 x y s)
  then show ?case
    by (cases "split_dashes s") (auto simp: join_head)
qed auto

lemma split_plain: "CHR ''-'' \<notin> set a \<Longrightarrow> split_dashes a = [a]"
  by (induction a rule: split_dashes.induct) auto

lemma split_first: "CHR ''-'' \<notin> set a \<Longrightarrow> split_dashes (a @ ''--'' @ s) = a # split_dashes s"
proof (induction a)
  case (Cons x a)
  then show ?case by (cases a) auto
qed simp

lemma field_chars: "FIELD_RE s \<Longrightarrow> CHR ''-'' \<notin> set s \<and> CHR ''.'' \<notin> set s"
  by (auto simp: FIELD_RE_def list_all_iff is_digit_def less_eq_char_def)

lemma digit_chars: "list_all is_digit s \<Longrightarrow> CHR ''-'' \<notin> set s \<and> CHR ''.'' \<notin> set s \<and> CHR '':'' \<notin> set s"
  by (auto simp: list_all_iff is_digit_def less_eq_char_def)

lemma digits_value_bound: "list_all is_digit s \<Longrightarrow> digits_value 10 s < 10 ^ length s"
proof (induction s rule: rev_induct)
  case (snoc c s)
  then have "is_digit c" by simp
  then show ?case using snoc digit_value_digit [of c] digit_char [of c] by (simp add: digits_value_snoc)
qed (simp add: digits_value_def)

lemma digits_of_length: "n < 10 ^ Suc k \<Longrightarrow> length (digits_of n) \<le> Suc k"
proof (induction k arbitrary: n)
  case (Suc k)
  then have "n div 10 < 10 ^ Suc k" by simp
  from Suc.IH [OF this] show ?case by (subst digits_of.simps) simp
qed (simp add: digits_of.simps)

text \<open>A port as it is written.\<close>

lemma port_iff: "port_form s \<and> int (digits_value 10 s) = p \<and> 1 \<le> p \<and> p \<le> 65535 \<longleftrightarrow> s = int_string p \<and> 1 \<le> p \<and> p \<le> 65535"
proof
  assume a: "port_form s \<and> int (digits_value 10 s) = p \<and> 1 \<le> p \<and> p \<le> 65535"
  then show "s = int_string p \<and> 1 \<le> p \<and> p \<le> 65535"
    using digits_of_value [of s] by (auto simp: port_form_def int_string_def)
next
  assume a: "s = int_string p \<and> 1 \<le> p \<and> p \<le> 65535"
  then have s: "s = digits_of (nat p)" "0 < nat p" by (simp_all add: int_string_def)
  have "nat p < 10 ^ Suc 4" using a by (simp add: nat_less_iff)
  then have "length s \<le> 5" using digits_of_length [of "nat p" 4] s(1) by simp
  then show "port_form s \<and> int (digits_value 10 s) = p \<and> 1 \<le> p \<and> p \<le> 65535"
    using digits_of_form [of "nat p"] a s by (auto simp: port_form_def)
qed

text \<open>What is left of a host once its zone is cut off.\<close>

fun fields_target :: "string list \<Rightarrow> preview_target option" where
  "fields_target [portStr, computer, user] =
     (if FIELD_RE computer \<and> FIELD_RE user \<and> port_form portStr \<and> digits_value 10 portStr \<le> 65535
      then Some \<lparr>pt_port = int (digits_value 10 portStr), pt_computer = computer, pt_user = user\<rparr> else None)"
| "fields_target _ = None"

definition label_target :: "string \<Rightarrow> preview_target option" where
  "label_target label = (if label = '''' \<or> CHR ''.'' \<in> set label then None else fields_target (split_dashes label))"

lemma fields_target_Some:
  "fields_target xs = Some t \<Longrightarrow> \<exists>portStr computer user. xs = [portStr, computer, user]"
  by (cases xs rule: fields_target.cases) auto

lemma port_form_pos: "port_form s \<Longrightarrow> 1 \<le> digits_value 10 s"
  using digits_value_pos [of s] by (simp add: port_form_def)

lemma parse_fields:
  "(case xs of
      [portStr, computer, user] \<Rightarrow>
        if \<not> FIELD_RE computer \<or> \<not> FIELD_RE user \<or> \<not> port_form portStr then None
        else if int (digits_value 10 portStr) < 1 \<or> int (digits_value 10 portStr) > 65535 then None
             else Some \<lparr>pt_port = int (digits_value 10 portStr), pt_computer = computer, pt_user = user\<rparr>
    | _ \<Rightarrow> None) = fields_target xs"
  by (cases xs rule: fields_target.cases) (auto dest: port_form_pos)

lemma parse_at:
  assumes h: "takeWhile (\<lambda>c. c \<noteq> CHR '':'') (js_lower (js_trim hh)) = l @ ''.'' @ js_lower (js_trim zone)"
    and e: "hh \<noteq> []" "zone \<noteq> []"
  shows "parsePreviewHost (Some hh) zone = label_target l"
proof -
  have sfx: "ends_with (l @ ''.'' @ z) (''.'' @ z)" "l @ ''.'' @ z \<noteq> []"
    "take (length (l @ ''.'' @ z) - length (''.'' @ z)) (l @ ''.'' @ z) = l" for z
    by (simp_all add: ends_with_def suffix_def)
  show ?thesis
    unfolding parsePreviewHost_def label_target_def option.case Let_def h sfx(3) parse_fields
    using sfx(1,2) e by (simp only: not_True_eq_False simp_thms if_False)
qed

lemma label_target_iff:
  "label_target l = Some t \<longleftrightarrow>
     l = int_string (pt_port t) @ ''--'' @ pt_computer t @ ''--'' @ pt_user t
     \<and> FIELD_RE (pt_computer t) \<and> FIELD_RE (pt_user t) \<and> 1 \<le> pt_port t \<and> pt_port t \<le> 65535"
proof
  assume p: "label_target l = Some t"
  then obtain portStr computer user where s: "split_dashes l = [portStr, computer, user]"
    by (auto simp: label_target_def split: if_splits dest: fields_target_Some)
  then have f: "FIELD_RE computer" "FIELD_RE user" "port_form portStr" "digits_value 10 portStr \<le> 65535"
    "t = \<lparr>pt_port = int (digits_value 10 portStr), pt_computer = computer, pt_user = user\<rparr>"
    using p by (auto simp: label_target_def split: if_splits)
  have t: "pt_port t = int (digits_value 10 portStr)" "pt_computer t = computer" "pt_user t = user" by (simp_all add: f(5))
  have range: "1 \<le> pt_port t" "pt_port t \<le> 65535" using port_form_pos [OF f(3)] f(4) by (simp_all add: t(1))
  have port: "int_string (pt_port t) = portStr" using port_iff [of portStr "pt_port t"] f(3) t(1) range by metis
  have "l = portStr @ ''--'' @ computer @ ''--'' @ user" using join_split [of l] by (simp add: s)
  then show "l = int_string (pt_port t) @ ''--'' @ pt_computer t @ ''--'' @ pt_user t
     \<and> FIELD_RE (pt_computer t) \<and> FIELD_RE (pt_user t) \<and> 1 \<le> pt_port t \<and> pt_port t \<le> 65535"
    unfolding port using f(1,2) t(2,3) range by blast
next
  assume a: "l = int_string (pt_port t) @ ''--'' @ pt_computer t @ ''--'' @ pt_user t
     \<and> FIELD_RE (pt_computer t) \<and> FIELD_RE (pt_user t) \<and> 1 \<le> pt_port t \<and> pt_port t \<le> 65535"
  define p where "p = int_string (pt_port t)"
  have form: "port_form p \<and> int (digits_value 10 p) = pt_port t" using port_iff [of p "pt_port t"] a p_def by blast
  have l: "l = p @ ''--'' @ pt_computer t @ ''--'' @ pt_user t" using a p_def by simp
  from form have "list_all is_digit p" by (simp add: port_form_def)
  note chars = digit_chars [OF this] field_chars [of "pt_computer t"] field_chars [of "pt_user t"]
  have "split_dashes l = [p, pt_computer t, pt_user t]"
    using chars a by (simp add: l split_first [simplified] split_plain)
  moreover have "l \<noteq> ''''" "CHR ''.'' \<notin> set l" using chars a by (auto simp: l)
  ultimately show "label_target l = Some t" using a form by (cases t) (simp add: label_target_def)
qed

section \<open>A preview host names one port of one computer\<close>

lemma preview_host_iff:
  "parsePreviewHost (Some hh) zone = Some t \<longleftrightarrow>
     hh \<noteq> '''' \<and> zone \<noteq> ''''
     \<and> takeWhile (\<lambda>c. c \<noteq> CHR '':'') (js_lower (js_trim hh))
         = preview_host (pt_port t) (pt_computer t) (pt_user t) (js_lower (js_trim zone))
     \<and> FIELD_RE (pt_computer t) \<and> FIELD_RE (pt_user t) \<and> 1 \<le> pt_port t \<and> pt_port t \<le> 65535"
    (is "_ \<longleftrightarrow> ?R")
proof
  assume p: "parsePreviewHost (Some hh) zone = Some t"
  then have b: "hh \<noteq> ''''" "zone \<noteq> ''''"
    "ends_with (takeWhile (\<lambda>c. c \<noteq> CHR '':'') (js_lower (js_trim hh))) (''.'' @ js_lower (js_trim zone))"
    by (auto simp: parsePreviewHost_def Let_def split: if_splits)
  then obtain l where l: "takeWhile (\<lambda>c. c \<noteq> CHR '':'') (js_lower (js_trim hh)) = l @ ''.'' @ js_lower (js_trim zone)"
    by (auto simp: ends_with_def suffix_def)
  with p b have "label_target l = Some t" by (simp add: parse_at)
  then show ?R using b l by (simp add: label_target_iff preview_host_def)
next
  assume r: ?R
  define l where "l = int_string (pt_port t) @ ''--'' @ pt_computer t @ ''--'' @ pt_user t"
  have "takeWhile (\<lambda>c. c \<noteq> CHR '':'') (js_lower (js_trim hh)) = l @ ''.'' @ js_lower (js_trim zone)"
    using r by (simp add: preview_host_def l_def)
  then show "parsePreviewHost (Some hh) zone = Some t" using r by (simp add: parse_at label_target_iff l_def)
qed

text \<open>A preview host is exact.  A host is read as a port of a computer exactly when it is, but for case,
  surrounding space and a port of its own, the address that this port, computer and owner's label have under
  the zone: no other host is a preview host, and no two targets share one.\<close>

theorem preview_host_is_exact:
  "parsePreviewHost (Some hh) zone = Some t \<longleftrightarrow>
     hh \<noteq> '''' \<and> zone \<noteq> ''''
     \<and> takeWhile (\<lambda>c. c \<noteq> CHR '':'') (js_lower (js_trim hh))
         = preview_host (pt_port t) (pt_computer t) (pt_user t) (js_lower (js_trim zone))
     \<and> FIELD_RE (pt_computer t) \<and> FIELD_RE (pt_user t) \<and> 1 \<le> pt_port t \<and> pt_port t \<le> 65535"
  by (rule preview_host_iff)

section \<open>Who gets through a preview host\<close>

definition asked_host :: "http_request \<Rightarrow> string option" where
  "asked_host req = (if hq_host req \<noteq> '''' then Some (hq_host req) else hq_host_header req)"

text \<open>The account that may use a preview host: the owner of the computer it names, if it is that owner's host.\<close>

definition preview_owner :: "(string \<Rightarrow> bytes) \<Rightarrow> gateway_env \<Rightarrow> fleet_db \<Rightarrow> http_request \<Rightarrow> (preview_target \<times> string) option" where
  "preview_owner sha env db req =
     (case parsePreviewHost (asked_host req) (or_else (ge_PREVIEW_ZONE env) ''mari.sh'') of
        None \<Rightarrow> None
      | Some t \<Rightarrow>
          (case getComputer db (pt_computer t) of
             None \<Rightarrow> None
           | Some row \<Rightarrow> if previewUserLabel sha (cw_userId row) = pt_user t then Some (t, cw_userId row) else None))"

text \<open>The part of the proxy after the address: what it makes of the capabilities of the request.\<close>

definition admitted ::
  "url_parser \<Rightarrow> hmac \<Rightarrow> gateway_env \<Rightarrow> gateway_state \<Rightarrow> string option \<Rightarrow> time \<Rightarrow> http_request
     \<Rightarrow> preview_target \<Rightarrow> string \<Rightarrow> auth_config \<Rightarrow> string option \<Rightarrow> gateway_outcome" where
  "admitted url hmac env s session now req t owner config cookieToken =
     (let by = (\<lambda>tok. verifyPreviewToken hmac (ac_secret config) tok (pt_computer t) (pt_port t) now);
          byQuery = (\<not> by cookieToken \<and> hq_preview_param req \<noteq> None \<and> by (hq_preview_param req))
      in if \<not> by cookieToken \<and> \<not> byQuery
            \<and> (\<forall>u. session = Some u \<longrightarrow> getOwnedComputer (gs_db s) (pt_computer t) u = None)
         then GwRefused 401 ''preview_unauthorized''
         else if canWake url (ge_limits env) (gs_usage s) owner now \<noteq> WakeOk then GwRefused 403 ''limit_compute''
         else if byQuery \<and> (hq_method req = ''GET'' \<or> hq_method req = ''HEAD'')
         then GwRedirect (or_else (hq_preview_param req) '''')
         else GwProxied (pt_computer t) (pt_port t)
           (let guests = guest_cookies (hq_cookie req) in if guests = [] then None else Some (join_cookies guests)))"

lemma admitted_source:
  "(let by = (\<lambda>tok. verifyPreviewToken hmac (ac_secret config) tok (pt_computer t) (pt_port t) now);
        byCookie = by cookieToken;
        byQuery = (\<not> byCookie \<and> hq_preview_param req \<noteq> None \<and> by (hq_preview_param req));
        bySession = (case session of None \<Rightarrow> False
                     | Some u \<Rightarrow> getOwnedComputer (gs_db s) (pt_computer t) u \<noteq> None)
    in if \<not> byCookie \<and> \<not> byQuery \<and> \<not> bySession then GwRefused 401 ''preview_unauthorized''
       else case canWake url (ge_limits env) (gs_usage s) owner now of
         WakeOk \<Rightarrow>
           if byQuery \<and> (hq_method req = ''GET'' \<or> hq_method req = ''HEAD'')
           then GwRedirect (or_else (hq_preview_param req) '''')
           else GwProxied (pt_computer t) (pt_port t)
             (let guests = guest_cookies (hq_cookie req)
              in if guests = [] then None else Some (join_cookies guests))
       | LimitCompute _ _ \<Rightarrow> GwRefused 403 ''limit_compute'')
     = admitted url hmac env s session now req t owner config cookieToken"
  by (cases session; cases "canWake url (ge_limits env) (gs_usage s) owner now") (simp_all add: admitted_def Let_def)

lemmas proxy_parts = tryWakeProxy_def admitted_source asked_host_def [symmetric]

lemma proxy_for_nobody:
  assumes "preview_owner sha env (gs_db s) req = None"
  shows "tryWakeProxy url sha hmac env s session now req \<in> {None, Some (GwRefused 404 ''no_such_preview'')}"
proof (cases "parsePreviewHost (asked_host req) (or_else (ge_PREVIEW_ZONE env) ''mari.sh'')")
  case None
  then show ?thesis by (simp add: proxy_parts)
next
  case (Some t)
  with assms have "getComputer (gs_db s) (pt_computer t) = None
      \<or> (\<exists>row. getComputer (gs_db s) (pt_computer t) = Some row \<and> previewUserLabel sha (cw_userId row) \<noteq> pt_user t)"
    by (simp add: preview_owner_def split: option.splits if_splits)
  with Some show ?thesis by (auto simp: proxy_parts)
qed

lemma preview_ownerD:
  assumes "preview_owner sha env db req = Some (t, owner)"
  shows "\<exists>row. parsePreviewHost (asked_host req) (or_else (ge_PREVIEW_ZONE env) ''mari.sh'') = Some t
    \<and> getComputer db (pt_computer t) = Some row \<and> previewUserLabel sha (cw_userId row) = pt_user t \<and> cw_userId row = owner"
proof (cases "parsePreviewHost (asked_host req) (or_else (ge_PREVIEW_ZONE env) ''mari.sh'')")
  case None
  then show ?thesis using assms by (simp add: preview_owner_def)
next
  case (Some t')
  then show ?thesis using assms
    by (cases "getComputer db (pt_computer t')") (simp_all add: preview_owner_def split: if_split_asm)
qed

lemma proxy_for_owner:
  assumes "preview_owner sha env (gs_db s) req = Some (t, owner)"
  shows "tryWakeProxy url sha hmac env s session now req =
    Some (case resolveAuthConfig url (le_auth (ge_limits env)) of
      Inl e \<Rightarrow> GwConfig e
    | Inr config \<Rightarrow>
        (case readCookie (hq_cookie req) PREVIEW_COOKIE of
           None \<Rightarrow> GwThrown
         | Some tok \<Rightarrow> admitted url hmac env s session now req t owner config tok))"
proof -
  from preview_ownerD [OF assms] show ?thesis unfolding proxy_parts by (elim exE conjE) (hypsubst, simp)
qed

lemma GwProxied_by_proxy:
  "dispatch url sha hmac env s session now req = GwProxied c p cs \<Longrightarrow>
     tryWakeProxy url sha hmac env s session now req = Some (GwProxied c p cs)"
  by (auto simp: dispatch_def tryWsRoute_def split: option.splits sum.splits if_splits prod.splits)

lemma GwRedirect_by_proxy:
  "dispatch url sha hmac env s session now req = GwRedirect t \<Longrightarrow>
     tryWakeProxy url sha hmac env s session now req = Some (GwRedirect t)"
  by (auto simp: dispatch_def tryWsRoute_def split: option.splits sum.splits if_splits prod.splits)

text \<open>C29: Nothing reaches a computer through its preview host unless it is let in.  A request that is proxied to a
  port of a computer was sent to the preview host of that computer and that port, under the label of the
  computer's owner; it carried a capability of this very computer and port that has not expired, in its cookie
  or, if it is not one that is redirected first, in its query, or the session of an account that owns the
  computer; the owner's allowance is not spent; and no cookie it hands on is one of Mari's own.\<close>

theorem proxy_lets_in_only_the_entitled:
  assumes "dispatch url sha hmac env s session now req = GwProxied c p cookies"
  shows "\<exists>t owner config.
     preview_owner sha env (gs_db s) req = Some (t, owner) \<and> pt_computer t = c \<and> pt_port t = p
     \<and> resolveAuthConfig url (le_auth (ge_limits env)) = Inr config
     \<and> ((\<exists>tok. readCookie (hq_cookie req) PREVIEW_COOKIE = Some tok \<and> verifyPreviewToken hmac (ac_secret config) tok c p now)
         \<or> hq_method req \<notin> {''GET'', ''HEAD''} \<and> verifyPreviewToken hmac (ac_secret config) (hq_preview_param req) c p now
         \<or> (\<exists>u. session = Some u \<and> getOwnedComputer (gs_db s) c u \<noteq> None))
     \<and> canWake url (ge_limits env) (gs_usage s) owner now = WakeOk
     \<and> (\<forall>v\<in>set (guest_cookies (hq_cookie req)).
          \<not> starts_with (cookie_name v) ''mari_'' \<and> \<not> js_includes (cookie_name v) ''better-auth'')
     \<and> cookies = (if guest_cookies (hq_cookie req) = [] then None else Some (join_cookies (guest_cookies (hq_cookie req))))"
proof -
  have p: "tryWakeProxy url sha hmac env s session now req = Some (GwProxied c p cookies)"
    using assms by (rule GwProxied_by_proxy)
  then obtain t owner where o: "preview_owner sha env (gs_db s) req = Some (t, owner)"
    using proxy_for_nobody [of sha env s req url hmac session now] by fastforce
  obtain config tok where r: "resolveAuthConfig url (le_auth (ge_limits env)) = Inr config"
    "readCookie (hq_cookie req) PREVIEW_COOKIE = Some tok"
    "admitted url hmac env s session now req t owner config tok = GwProxied c p cookies"
    using p by (auto simp: proxy_for_owner [OF o] split: sum.splits option.splits)
  have ids: "pt_computer t = c" "pt_port t = p" "canWake url (ge_limits env) (gs_usage s) owner now = WakeOk"
    "cookies = (if guest_cookies (hq_cookie req) = [] then None else Some (join_cookies (guest_cookies (hq_cookie req))))"
    using r(3) by (auto simp: admitted_def Let_def split: if_splits)
  have "verifyPreviewToken hmac (ac_secret config) tok c p now
     \<or> hq_method req \<notin> {''GET'', ''HEAD''} \<and> verifyPreviewToken hmac (ac_secret config) (hq_preview_param req) c p now
     \<or> (\<exists>u. session = Some u \<and> getOwnedComputer (gs_db s) c u \<noteq> None)"
    using r(3) ids(1,2) by (auto simp: admitted_def Let_def split: if_splits)
  moreover have "\<forall>v\<in>set (guest_cookies (hq_cookie req)).
      \<not> starts_with (cookie_name v) ''mari_'' \<and> \<not> js_includes (cookie_name v) ''better-auth''"
    by (auto simp: guest_cookies_def)
  ultimately show ?thesis using o r(1,2) ids by blast
qed

text \<open>The sockets are guarded.  A terminal is attached only to a session that owns the computer.  A supervisor's
  socket is handed on with an epoch and token to prime only under development sign-in, and then never for a
  request that reached a public origin.\<close>

theorem sockets_are_guarded:
  assumes "dispatch url sha hmac env s session now req = GwSocket attach c prime"
  shows "(attach \<longrightarrow> prime = None \<and> (\<exists>u. session = Some u \<and> getOwnedComputer (gs_db s) c u \<noteq> None))
    \<and> (prime \<noteq> None \<longrightarrow> ae_DEV_AUTH (le_auth (ge_limits env)) = Some ''1''
         \<and> \<not> isProductionEnv url (le_auth (ge_limits env)) (Some (hq_url req)))"
proof -
  have safe: "assertProductionSafety url (le_auth (ge_limits env)) (Some (hq_url req)) = None"
    and ws: "tryWsRoute url env s session req = Some (GwSocket attach c prime)"
    using assms by (auto simp: dispatch_def tryWakeProxy_def Let_def split: option.splits sum.splits if_splits wake_check.splits)
  have "prime \<noteq> None \<longrightarrow> ae_DEV_AUTH (le_auth (ge_limits env)) = Some ''1''"
    using ws by (auto simp: tryWsRoute_def split: option.splits sum.splits if_splits)
  moreover have "attach \<longrightarrow> prime = None \<and> (\<exists>u. session = Some u \<and> getOwnedComputer (gs_db s) c u \<noteq> None)"
    using ws by (auto simp: tryWsRoute_def split: option.splits sum.splits if_splits)
  ultimately show ?thesis using safe by (auto simp: safe_iff)
qed

text \<open>When the proxy fails.  A request to a preview host that is its owner's ends in an exception exactly when its
  cookie header has a capability that is not well formed as an escape sequence, under a sound configuration:
  no session and no valid capability in the query gets it past such a cookie.\<close>

theorem malformed_cookie_fails_the_proxy:
  "tryWakeProxy url sha hmac env s session now req = Some GwThrown \<longleftrightarrow>
     preview_owner sha env (gs_db s) req \<noteq> None
     \<and> (\<exists>config. resolveAuthConfig url (le_auth (ge_limits env)) = Inr config)
     \<and> readCookie (hq_cookie req) PREVIEW_COOKIE = None"
proof (cases "preview_owner sha env (gs_db s) req")
  case None
  then show ?thesis using proxy_for_nobody [OF None, of url hmac session now] by auto
next
  case (Some to)
  have "admitted url hmac env s session now req t owner config tok \<noteq> GwThrown" for t owner config tok
    by (simp add: admitted_def Let_def)
  then show ?thesis using Some by (cases to) (simp add: proxy_for_owner split: sum.split option.split)
qed

section \<open>Capabilities are bound to a computer, a port and a time\<close>

lemma or_xor_zero: "d OR (a XOR b) = 0 \<longleftrightarrow> d = 0 \<and> a = b" for a b d :: nat
proof -
  have "a XOR b = 0 \<Longrightarrow> a = b" by (metis xor.assoc xor.right_neutral xor_self_eq)
  then show ?thesis by (auto simp: or_eq_0_iff)
qed

lemma digest_fold: "fold (\<lambda>(x, y) d. d OR ((of_char x :: nat) XOR of_char y)) zs d = 0 \<longleftrightarrow> d = 0 \<and> list_all (\<lambda>(x, y). x = y) zs"
proof (induction zs arbitrary: d)
  case (Cons z zs)
  then show ?case by (cases z) (simp add: or_xor_zero)
qed simp

lemma digestEquals_iff: "digestEquals a b \<longleftrightarrow> a = b"
proof -
  have "length a = length b \<Longrightarrow> list_all (\<lambda>(x, y). x = y) (zip a b) \<longleftrightarrow> a = b"
    by (induction a b rule: list_induct2) auto
  then show ?thesis by (auto simp: digestEquals_def digest_fold)
qed

lemma hex_digit_inj: "m < 16 \<Longrightarrow> n < 16 \<Longrightarrow> hex_digit m = hex_digit n \<Longrightarrow> m = n"
proof -
  have d: "distinct ''0123456789abcdef''" by simp
  assume "m < 16" "n < 16" "hex_digit m = hex_digit n"
  then show "m = n" using nth_eq_iff_index_eq [OF d, of m n] by (simp add: hex_digit_def)
qed

lemma hex_byte_inj: "hex_byte a = hex_byte b \<Longrightarrow> a = b"
proof -
  assume h: "hex_byte a = hex_byte b"
  have "unat a < 256" "unat b < 256" using unsigned_less [of a] unsigned_less [of b] by simp_all
  then have "unat a div 16 = unat b div 16" "unat a mod 16 = unat b mod 16"
    using h hex_digit_inj [of "unat a div 16" "unat b div 16"] hex_digit_inj [of "unat a mod 16" "unat b mod 16"]
    by (simp_all add: hex_byte_def hex_digit_def)
  then have "unat a = unat b" by (metis div_mult_mod_eq)
  then show "a = b" by (simp add: word_unat_eq_iff)
qed

lemma hex_of_inj: "hex_of a = hex_of b \<Longrightarrow> a = b"
proof (induction a arbitrary: b)
  case Nil
  then show ?case by (cases b) (simp_all add: hex_of_def hex_byte_def)
next
  case (Cons x a)
  then obtain y b' where b: "b = y # b'" by (cases b) (simp_all add: hex_of_def hex_byte_def)
  have "hex_byte x @ hex_of a = hex_byte y @ hex_of b'" using Cons.prems b by (simp add: hex_of_def)
  then have "hex_byte x = hex_byte y \<and> hex_of a = hex_of b'"
    by (subst (asm) append_eq_append_conv) (simp_all add: hex_byte_def)
  then show ?case using Cons.IH b hex_byte_inj by simp
qed

lemma hex_digit_cases: "hex_digit n \<in> set ''0123456789abcdef''"
  unfolding hex_digit_def by (rule nth_mem) simp

lemma hex_of_no_dot: "CHR ''.'' \<notin> set (hex_of bs)"
proof -
  have "hex_digit n \<noteq> CHR ''.''" for n using hex_digit_cases [of n] by auto
  from this [symmetric] show ?thesis by (induction bs) (auto simp: hex_of_def hex_byte_def)
qed

lemma split_on_plain: "c \<notin> set a \<Longrightarrow> split_on c a = [a]"
  by (induction a) auto

lemma split_on_append: "c \<notin> set a \<Longrightarrow> split_on c (a @ c # s) = a # split_on c s"
  by (induction a) auto

lemma int_string_chars: "CHR ''.'' \<notin> set (int_string n) \<and> CHR '':'' \<notin> set (int_string n)"
  using digits_of_form [of "nat n"] digits_of_form [of "nat (- n)"] digit_chars
  by (simp add: int_string_def)

lemma digits_of_inj: "digits_of m = digits_of n \<Longrightarrow> m = n"
  using digits_of_form [of m] digits_of_form [of n] by metis

lemma digits_of_hd: "hd (digits_of n) \<noteq> CHR ''-''"
  using digits_of_form [of n] hd_in_set [of "digits_of n"] digit_chars [of "digits_of n"] by metis

lemma int_string_inj: "int_string m = int_string n \<Longrightarrow> m = n"
  using digits_of_hd [of "nat m"] digits_of_hd [of "nat n"]
  by (auto simp: int_string_def split: if_splits dest: digits_of_inj arg_cong [where f = hd])

lemma last_field:
  assumes "c \<notin> set a" "c \<notin> set b" "x @ c # a = y @ c # b"
  shows "x = y \<and> a = b"
proof -
  have "rev a @ c # rev x = rev b @ c # rev y" using arg_cong [OF assms(3), of rev] by simp
  moreover have "takeWhile (\<lambda>z. z \<noteq> c) (rev a @ c # s) = rev a" "takeWhile (\<lambda>z. z \<noteq> c) (rev b @ c # s) = rev b" for s
    using assms by (auto simp: takeWhile_append)
  ultimately have "rev a = rev b" by metis
  with \<open>rev a @ c # rev x = rev b @ c # rev y\<close> show ?thesis by simp
qed

lemma tokenPayload_inj: "tokenPayload c p e = tokenPayload c' p' e' \<longleftrightarrow> c = c' \<and> p = p' \<and> e = e'"
proof
  assume eq: "tokenPayload c p e = tokenPayload c' p' e'"
  have "(''p1:'' @ c @ '':'' @ int_string p) @ CHR '':'' # int_string e = (''p1:'' @ c' @ '':'' @ int_string p') @ CHR '':'' # int_string e'"
    using eq by (simp add: tokenPayload_def)
  from last_field [OF _ _ this] int_string_chars
  have 1: "''p1:'' @ c @ '':'' @ int_string p = ''p1:'' @ c' @ '':'' @ int_string p'" and 2: "int_string e = int_string e'"
    by blast+
  have "(''p1:'' @ c) @ CHR '':'' # int_string p = (''p1:'' @ c') @ CHR '':'' # int_string p'" using 1 by simp
  from last_field [OF _ _ this] int_string_chars have "''p1:'' @ c = ''p1:'' @ c'" "int_string p = int_string p'" by blast+
  then show "c = c' \<and> p = p' \<and> e = e'" using 2 int_string_inj by simp
qed simp

lemma is_decimal_digit: "is_decimal = is_digit"
  by (rule ext) (auto simp: is_decimal_def digit_below_def digit_value_def is_digit_def less_eq_char_def Let_def)

lemma digit_plain:
  "is_digit c \<Longrightarrow> \<not> js_space c \<and> c \<noteq> CHR ''-'' \<and> c \<noteq> CHR ''+'' \<and> c \<noteq> CHR ''x'' \<and> c \<noteq> CHR ''X'' \<and> c \<noteq> CHR ''o''
     \<and> c \<noteq> CHR ''O'' \<and> c \<noteq> CHR ''b'' \<and> c \<noteq> CHR ''B'' \<and> c \<noteq> CHR ''I''"
  by (auto simp: js_space_def is_digit_def less_eq_char_def)

lemma js_Number_digits: "js_Number (digits_of n) = Fin (of_nat n)"
proof -
  note f = digits_of_form [of n]
  obtain c t where d: "digits_of n = c # t" using f by (cases "digits_of n") auto
  have dig: "is_digit c" "list_all is_digit t" using f d by auto
  have trim: "js_trim (c # t) = c # t"
    by (rule js_trim_id) (use dig digit_plain in \<open>auto simp: list_all_iff\<close>)
  have dec: "takeWhile is_decimal (c # t) = c # t" "dropWhile is_decimal (c # t) = []"
    using dig by (simp_all add: is_decimal_digit list_all_iff)
  have "parse_decimal (c # t) = Some (of_nat n)"
    using f d unfolding parse_decimal_def dec Let_def by (simp add: parse_exponent_def)
  then have "parse_signed False (c # t) = Fin (of_nat n)"
    using digit_plain [OF dig(1)] by (simp add: parse_signed_def)
  moreover have "t = [] \<or> is_digit (hd t)" using dig(2) by (cases t) simp_all
  ultimately show ?thesis
    unfolding d js_Number_def trim list.case
    using digit_plain [of c, OF dig(1)] digit_plain [of "hd t"] by (elim disjE) simp_all
qed

lemma capability_iff:
  assumes "hmac secret (tokenPayload c p e) = hmac secret (tokenPayload c' p' e) \<Longrightarrow> tokenPayload c p e = tokenPayload c' p' e"
    and "0 \<le> e" "e < 2 ^ 53"
  shows "verifyPreviewToken hmac secret (Some (mintPreviewToken hmac secret c p e)) c' p' now \<longleftrightarrow> c' = c \<and> p' = p \<and> now < e"
proof -
  have split: "split_on (CHR ''.'') (mintPreviewToken hmac secret c p e)
      = [''p1'', int_string e, hex_of (hmac secret (tokenPayload c p e))]"
    using int_string_chars [of e] by (simp add: mintPreviewToken_def split_on_append split_on_plain hex_of_no_dot)
  have "js_Number (int_string e) = Fin (of_int e)"
    using assms(2) js_Number_digits [of "nat e"] by (simp add: int_string_def)
  then have "safe_integer (js_Number (int_string e)) = Some e"
    using assms(2,3) by (simp add: safe_integer_def)
  moreover have "hex_of (hmac secret (tokenPayload c' p' e)) = hex_of (hmac secret (tokenPayload c p e)) \<longleftrightarrow> c' = c \<and> p' = p"
    using assms(1) tokenPayload_inj [of c p e c' p' e] by (metis hex_of_inj)
  ultimately show ?thesis
    by (auto simp: verifyPreviewToken_def split digestEquals_iff)
qed

text \<open>A capability opens one port of one computer, for its time.  What the control plane mints is accepted for a
  computer and a port exactly if it was minted for them and has not expired, as long as the code that signs it
  does not collide on the two texts that are compared.\<close>

theorem capability_is_bound:
  assumes "hmac secret (tokenPayload c p e) = hmac secret (tokenPayload c' p' e) \<Longrightarrow> tokenPayload c p e = tokenPayload c' p' e"
    and "0 \<le> e" "e < 2 ^ 53"
  shows "verifyPreviewToken hmac secret (Some (mintPreviewToken hmac secret c p e)) c' p' now \<longleftrightarrow> c' = c \<and> p' = p \<and> now < e"
  using assms by (rule capability_iff)

section \<open>A link that is handed out works\<close>

text \<open>The characters of a capability and of the label of a host.\<close>

definition plain_char :: "char \<Rightarrow> bool" where
  "plain_char c \<longleftrightarrow> CHR ''a'' \<le> c \<and> c \<le> CHR ''z'' \<or> is_digit c \<or> c = CHR ''.'' \<or> c = CHR ''-''"

lemma plain_char_facts:
  "plain_char c \<Longrightarrow> \<not> js_space c \<and> lower_char c = c \<and> c \<noteq> CHR '';'' \<and> c \<noteq> CHR ''='' \<and> c \<noteq> CHR ''%'' \<and> c \<noteq> CHR '':''"
  by (auto simp: plain_char_def js_space_def is_digit_def less_eq_char_def lower_char_def)

lemma trim_plain: "list_all plain_char s \<Longrightarrow> js_trim s = s"
  by (rule js_trim_id) (metis hd_in_set last_in_set list_all_iff plain_char_facts)

lemma lower_plain: "list_all plain_char s \<Longrightarrow> js_lower s = s"
  by (induction s) (simp_all add: js_lower_def plain_char_facts)

lemma plain_extra: "plain_char (CHR ''.'')" "plain_char (CHR ''-'')" "plain_char (CHR ''p'')" "plain_char (CHR ''1'')"
  by (simp_all add: plain_char_def is_digit_def less_eq_char_def)

lemma decode_plain: "list_all (\<lambda>c. c \<noteq> CHR ''%'') s \<Longrightarrow> decodeURIComponent s = Some s"
  by (induction s) (simp_all add: decodeURIComponent.simps [of "[]"] decodeURIComponent.simps [of "_ # _"])

lemma plain_digits: "list_all is_digit s \<Longrightarrow> list_all plain_char s"
  by (auto simp: list_all_iff plain_char_def)

lemma plain_int_string: "0 \<le> n \<Longrightarrow> list_all plain_char (int_string n)"
  using digits_of_form [of "nat n"] by (simp add: int_string_def plain_digits)

lemma field_hex: "FIELD_RE [hex_digit n]"
  using hex_digit_cases [of n] by (auto simp: FIELD_RE_def is_digit_def less_eq_char_def)

lemma hex_field: "c \<in> set (hex_of bs) \<Longrightarrow> FIELD_RE [c]"
  using field_hex by (induction bs) (auto simp: hex_of_def hex_byte_def)

lemma FIELD_RE_iff: "FIELD_RE s \<longleftrightarrow> s \<noteq> '''' \<and> (\<forall>c\<in>set s. FIELD_RE [c])"
  by (auto simp: FIELD_RE_def list_all_iff)

lemma plain_field: "FIELD_RE [c] \<Longrightarrow> plain_char c"
  by (auto simp: FIELD_RE_def plain_char_def)

lemma plain_token: "0 \<le> e \<Longrightarrow> list_all plain_char (mintPreviewToken hmac secret c p e)"
  using plain_int_string [of e] hex_field [THEN plain_field]
  by (auto simp: mintPreviewToken_def list_all_iff plain_extra)

lemma label_field: "sha (''mari-preview-user:'' @ u) \<noteq> [] \<Longrightarrow> FIELD_RE (previewUserLabel sha u)"
  using hex_field length_hex_of [of "sha (''mari-preview-user:'' @ u)"]
  by (subst FIELD_RE_iff) (auto simp: previewUserLabel_def dest: in_set_takeD)

lemma own_cookie: "list_all plain_char t \<Longrightarrow> readCookie (Some (PREVIEW_COOKIE @ ''='' @ t)) PREVIEW_COOKIE = Some (Some t)"
proof -
  assume t: "list_all plain_char t"
  then have c: "CHR '';'' \<notin> set t" "list_all (\<lambda>c. c \<noteq> CHR ''%'') t" using plain_char_facts by (auto simp: list_all_iff)
  have trim: "js_trim ''mari_preview'' = ''mari_preview''" by code_simp
  show ?thesis
    using c by (simp add: readCookie_def PREVIEW_COOKIE_def split_on_plain trim trim_plain [OF t] decode_plain)
qed

lemma preview_host_plain:
  assumes "FIELD_RE c" "FIELD_RE l" "1 \<le> p" "list_all plain_char zone"
  shows "list_all plain_char (preview_host p c l zone)"
  using assms plain_int_string [of p] FIELD_RE_iff [of c] FIELD_RE_iff [of l] plain_field
  by (auto simp: preview_host_def list_all_iff plain_extra)

lemma link_is_read_back:
  assumes "FIELD_RE c" "FIELD_RE l" "1 \<le> p" "p \<le> 65535" "list_all plain_char zone" "zone \<noteq> ''''"
  shows "parsePreviewHost (Some (preview_host p c l zone)) zone = Some \<lparr>pt_port = p, pt_computer = c, pt_user = l\<rparr>"
proof -
  note plain = preview_host_plain [OF assms(1-3,5)]
  have "takeWhile (\<lambda>c. c \<noteq> CHR '':'') (preview_host p c l zone) = preview_host p c l zone"
    using plain plain_char_facts by (auto simp: list_all_iff takeWhile_eq_all_conv)
  moreover have "preview_host p c l zone \<noteq> ''''" by (simp add: preview_host_def)
  ultimately show ?thesis
    using assms plain
    by (subst parse_at [of _ "int_string p @ ''--'' @ c @ ''--'' @ l"])
      (simp_all add: trim_plain lower_plain preview_host_def label_target_iff)
qed

lemma unique_owner:
  assumes "unique_ids db" "getOwnedComputer db i u = Some row"
  shows "getComputer db i = Some row"
proof -
  have r: "row \<in> set (fd_computers db)" "cw_id row = i" using getOwnedComputer_Some [OF assms(2)] by simp_all
  obtain r' where r': "getComputer db i = Some r'"
    using r by (cases "getComputer db i") (auto simp: getComputer_def find_None_iff)
  then have "r' \<in> set (fd_computers db)" "cw_id r' = i" using getComputer_Some by blast+
  then have "r' = row" using assms(1) r by (auto simp: unique_ids_def distinct_map inj_on_def)
  then show ?thesis using r' by simp
qed

lemma preview_route_Inr:
  assumes "preview_route furl sha hmac secret baseUrl zone_var db u now i portRaw = Inr (host, link, stableUrl, expiresAt)"
  shows "\<exists>row port. getOwnedComputer db i u = Some row \<and> 1 \<le> port \<and> port \<le> 65535 \<and> safe_integer (js_Number (or_else portRaw '''')) = Some port
    \<and> expiresAt = now + PREVIEW_TOKEN_TTL_MS \<and> host = preview_host port i (previewUserLabel sha u) (or_else zone_var ''mari.sh'')
    \<and> link = snd (previewUrlFor furl (or_else zone_var ''mari.sh'') baseUrl port i (previewUserLabel sha u)
         (Some (mintPreviewToken hmac secret i port expiresAt)))"
proof (cases "getOwnedComputer db i u")
  case None
  then show ?thesis using assms by (simp add: preview_route_def)
next
  case (Some row)
  note owned = getOwnedComputer_Some [OF Some]
  have host: "fst (previewUrlFor furl zone baseUrl port c l tok) = preview_host port c l zone" for zone port c l tok
    by (simp add: previewUrlFor_def Let_def split: prod.split)
  show ?thesis
    using assms owned Some host
    by (auto simp: preview_route_def Let_def split: option.splits if_splits prod.splits) (metis fst_conv snd_conv)
qed

lemma own_cookie_is_no_guest:
  assumes "list_all plain_char t"
  shows "guest_cookies (Some (PREVIEW_COOKIE @ ''='' @ t)) = []"
proof -
  have c: "CHR '';'' \<notin> set t" using assms plain_char_facts by (auto simp: list_all_iff)
  have "js_trim (PREVIEW_COOKIE @ ''='' @ t) = PREVIEW_COOKIE @ ''='' @ t"
    using assms plain_char_facts
    by (intro js_trim_id) (auto simp: PREVIEW_COOKIE_def js_space_def list_all_iff)
  moreover have "cookie_name (PREVIEW_COOKIE @ ''='' @ t) = ''mari_preview''"
    by (simp add: cookie_name_def PREVIEW_COOKIE_def js_lower_def lower_char_def)
  ultimately show ?thesis using c by (simp add: guest_cookies_def or_else_def PREVIEW_COOKIE_def split_on_plain)
qed

text \<open>C30: A link that is handed out works.  The owner of a computer who asks for a preview of one of its ports is given
  an address whose host is read back as that port of that computer; until the capability in it expires, and
  while the owner's allowance lasts, opening it without any session sets the cookie, and a request with the
  cookie alone is proxied to that port, without the cookie.\<close>

theorem preview_link_opens_its_port:
  assumes route: "preview_route furl sha hmac (ac_secret config) baseUrl (ge_PREVIEW_ZONE env) (gs_db s) u now i portRaw
      = Inr (host, link, stableUrl, expiresAt)"
    and config: "resolveAuthConfig url (le_auth (ge_limits env)) = Inr config"
    and db: "unique_ids (gs_db s)" "FIELD_RE i" "sha (''mari-preview-user:'' @ u) \<noteq> []"
    and zone: "list_all plain_char (or_else (ge_PREVIEW_ZONE env) ''mari.sh'')" "or_else (ge_PREVIEW_ZONE env) ''mari.sh'' \<noteq> ''''"
    and time: "0 \<le> now" "expiresAt < 2 ^ 53" "later < expiresAt"
    and allowed: "canWake url (ge_limits env) (gs_usage s) u later = WakeOk"
    and req: "hq_host req = host" "hq_method req = ''GET''"
  shows "\<exists>port token.
     link = snd (previewUrlFor furl (or_else (ge_PREVIEW_ZONE env) ''mari.sh'') baseUrl port i (previewUserLabel sha u) (Some token))
     \<and> tryWakeProxy url sha hmac env s None later (req\<lparr>hq_preview_param := Some token, hq_cookie := None\<rparr>) = Some (GwRedirect token)
     \<and> tryWakeProxy url sha hmac env s None later
         (req\<lparr>hq_preview_param := None, hq_cookie := Some (PREVIEW_COOKIE @ ''='' @ token)\<rparr>) = Some (GwProxied i port None)"
proof -
  obtain row port where r: "getOwnedComputer (gs_db s) i u = Some row" "1 \<le> port" "port \<le> 65535"
    "expiresAt = now + PREVIEW_TOKEN_TTL_MS" "host = preview_host port i (previewUserLabel sha u) (or_else (ge_PREVIEW_ZONE env) ''mari.sh'')"
    and link: "link = snd (previewUrlFor furl (or_else (ge_PREVIEW_ZONE env) ''mari.sh'') baseUrl port i (previewUserLabel sha u)
         (Some (mintPreviewToken hmac (ac_secret config) i port expiresAt)))"
    using preview_route_Inr [OF route] by blast
  define t where "t = \<lparr>pt_port = port, pt_computer = i, pt_user = previewUserLabel sha u\<rparr>"
  define token where "token = mintPreviewToken hmac (ac_secret config) i port expiresAt"
  have e: "0 \<le> expiresAt" using time(1) r(4) by (simp add: PREVIEW_TOKEN_TTL_MS_def)
  have plain: "list_all plain_char token" unfolding token_def by (rule plain_token [OF e])
  have good: "verifyPreviewToken hmac (ac_secret config) (Some token) i port later"
    using capability_iff [of hmac "ac_secret config" i port expiresAt i port later] e time by (simp add: token_def)
  have "host \<noteq> ''''" by (simp add: r(5) preview_host_def)
  then have "preview_owner sha env (gs_db s) (req\<lparr>hq_preview_param := a, hq_cookie := b\<rparr>) = Some (t, u)" for a b
    using link_is_read_back [OF db(2) label_field [of sha u, OF db(3)] r(2,3) zone] unique_owner [OF db(1) r(1)]
      getOwnedComputer_Some [OF r(1)] req
    by (simp add: preview_owner_def asked_host_def r(5) t_def)
  note proxy = proxy_for_owner [OF this, of url]
  have no: "\<not> verifyPreviewToken hmac (ac_secret config) None i port later" by (simp add: verifyPreviewToken_def)
  have "tryWakeProxy url sha hmac env s None later (req\<lparr>hq_preview_param := Some token, hq_cookie := None\<rparr>) = Some (GwRedirect token)"
    using good no allowed req by (simp add: proxy config readCookie_def admitted_def t_def or_else_def)
  moreover have "tryWakeProxy url sha hmac env s None later
      (req\<lparr>hq_preview_param := None, hq_cookie := Some (PREVIEW_COOKIE @ ''='' @ token)\<rparr>) = Some (GwProxied i port None)"
    using good allowed own_cookie [OF plain] own_cookie_is_no_guest [OF plain]
    by (simp add: proxy config admitted_def t_def Let_def)
  ultimately show ?thesis using link token_def by blast
qed

section \<open>Examples\<close>

definition demo_hmac :: hmac where "demo_hmac secret text = [of_nat (length text), if text = ''p1:c1:80:90'' then 1 else 0]"
definition demo_label_sha :: "string \<Rightarrow> bytes" where "demo_label_sha s = [1, 2, of_nat (length s)]"

definition demo_gateway_env :: gateway_env where
  "demo_gateway_env = \<lparr>ge_limits = pe_limits demo_api_env, ge_PREVIEW_ZONE = Some ''p.sh''\<rparr>"

definition demo_gateway :: gateway_state where
  "demo_gateway = \<lparr>gs_db = as_db demo_state, gs_usage = []\<rparr>"

definition demo_secret :: string where "demo_secret = replicate 40 (CHR ''k'')"

definition demo_token :: string where "demo_token = mintPreviewToken demo_hmac demo_secret ''c1'' 80 90"

definition demo_visit :: http_request where
  "demo_visit = \<lparr>hq_method = ''GET'', hq_url = ''http://80--c1--x.p.sh/'', hq_host = preview_host 80 ''c1'' (previewUserLabel demo_label_sha ''ann'') ''p.sh'',
     hq_path = ''/'', hq_host_header = None, hq_upgrade = None, hq_cookie = Some (PREVIEW_COOKIE @ ''='' @ demo_token),
     hq_preview_param = None, hq_epoch_param = None, hq_token_param = None\<rparr>"

definition demo_attach :: http_request where
  "demo_attach = demo_visit\<lparr>hq_host := ''app.mari.sh'', hq_path := ''/attach/c1'', hq_upgrade := Some ''websocket''\<rparr>"

lemma demo_config: "\<exists>config. resolveAuthConfig demo_url demo_auth_env = Inr config \<and> ac_secret config = demo_secret"
proof -
  have "assertProductionSafety demo_url demo_auth_env None = None" by code_simp
  then show ?thesis by (auto simp: resolveAuthConfig_def Let_def or_else_def demo_auth_env_def demo_secret_def)
qed

lemma demo_auth [simp]: "le_auth (ge_limits demo_gateway_env) = demo_auth_env"
  by (simp add: demo_gateway_env_def demo_api_env_def)

definition demo_target :: preview_target where
  "demo_target = \<lparr>pt_port = 80, pt_computer = ''c1'', pt_user = previewUserLabel demo_label_sha ''ann''\<rparr>"

lemma demo_zone: "list_all plain_char ''p.sh''"
  by (simp add: plain_char_def is_digit_def less_eq_char_def)

lemma demo_fields: "FIELD_RE ''c1''" "demo_label_sha (''mari-preview-user:'' @ ''ann'') \<noteq> []"
  by (simp_all add: FIELD_RE_def is_digit_def less_eq_char_def demo_label_sha_def)

lemma demo_owner: "preview_owner demo_label_sha demo_gateway_env (gs_db demo_gateway) demo_visit = Some (demo_target, ''ann'')"
proof -
  have "parsePreviewHost (Some (hq_host demo_visit)) ''p.sh'' = Some demo_target"
    unfolding demo_visit_def demo_target_def http_request.simps
    by (rule link_is_read_back) (use demo_fields demo_zone label_field [of demo_label_sha "''ann''"] in simp_all)
  moreover have "hq_host demo_visit \<noteq> ''''" by (simp add: demo_visit_def preview_host_def)
  moreover have "getComputer (gs_db demo_gateway) ''c1'' = Some demo_row"
    by (simp add: demo_gateway_def demo_state_def demo_row_def getComputer_def)
  ultimately show ?thesis
    by (simp add: preview_owner_def asked_host_def demo_gateway_env_def or_else_def demo_target_def demo_row_def)
qed

lemma demo_plain: "list_all plain_char demo_token"
  unfolding demo_token_def by (rule plain_token) simp

lemma demo_cookie: "readCookie (hq_cookie demo_visit) PREVIEW_COOKIE = Some (Some demo_token)"
  using own_cookie [OF demo_plain] by (simp add: demo_visit_def)

lemma demo_guests: "guest_cookies (hq_cookie demo_visit) = []"
  using own_cookie_is_no_guest [OF demo_plain] by (simp add: demo_visit_def)

lemma demo_allowed: "canWake demo_url (ge_limits demo_gateway_env) (gs_usage demo_gateway) ''ann'' 20 = WakeOk"
  by code_simp

lemma demo_verified: "verifyPreviewToken demo_hmac demo_secret (Some demo_token) ''c1'' 80 20"
  unfolding demo_token_def using capability_iff [of demo_hmac demo_secret "''c1''" 80 90 "''c1''" 80 20] by simp

lemma demo_proxied:
  "dispatch demo_url demo_label_sha demo_hmac demo_gateway_env demo_gateway None 20 demo_visit = GwProxied ''c1'' 80 None"
proof -
  have safe: "assertProductionSafety demo_url demo_auth_env (Some (hq_url demo_visit)) = None" by code_simp
  have ws: "tryWsRoute demo_url demo_gateway_env demo_gateway None demo_visit = None"
    by (simp add: tryWsRoute_def ws_match_def demo_visit_def Let_def)
  obtain config where c: "resolveAuthConfig demo_url demo_auth_env = Inr config" "ac_secret config = demo_secret"
    using demo_config by blast
  have "tryWakeProxy demo_url demo_label_sha demo_hmac demo_gateway_env demo_gateway None 20 demo_visit = Some (GwProxied ''c1'' 80 None)"
    using proxy_for_owner [OF demo_owner, of demo_url demo_hmac None 20]
    by (simp add: c demo_cookie admitted_def demo_verified demo_allowed demo_guests demo_target_def)
  then show ?thesis by (simp add: dispatch_def safe ws)
qed

theorem proxy_lets_in_only_the_entitled_witness:
  "\<exists>config. resolveAuthConfig demo_url demo_auth_env = Inr config
     \<and> verifyPreviewToken demo_hmac (ac_secret config) (Some demo_token) ''c1'' 80 20"
proof -
  have m: "hq_method demo_visit = ''GET''" by (simp add: demo_visit_def)
  show ?thesis using proxy_lets_in_only_the_entitled [OF demo_proxied] by (auto simp: demo_cookie m)
qed

theorem sockets_are_guarded_witness: "getOwnedComputer (gs_db demo_gateway) ''c1'' ''ann'' \<noteq> None"
proof -
  have safe: "assertProductionSafety demo_url demo_auth_env (Some (hq_url demo_visit)) = None" by code_simp
  obtain config where c: "resolveAuthConfig demo_url demo_auth_env = Inr config" using demo_config by blast
  have "js_lower ''websocket'' = ''websocket''" by (simp add: js_lower_def lower_char_def)
  moreover have "getOwnedComputer (gs_db demo_gateway) ''c1'' ''ann'' \<noteq> None"
    by (simp add: demo_gateway_def demo_state_def demo_row_def getOwnedComputer_def)
  moreover have "decodeURIComponent ''c1'' = Some ''c1''" by (rule decode_plain) simp
  moreover have "ws_match ''/attach/c1'' = Some (True, ''c1'')" by (simp add: ws_match_def Let_def)
  ultimately have "tryWsRoute demo_url demo_gateway_env demo_gateway (Some ''ann'') demo_attach = Some (GwSocket True ''c1'' None)"
    by (simp add: tryWsRoute_def demo_attach_def or_else_def c)
  then have "dispatch demo_url demo_label_sha demo_hmac demo_gateway_env demo_gateway (Some ''ann'') 20 demo_attach = GwSocket True ''c1'' None"
    using safe by (simp add: dispatch_def demo_attach_def)
  from sockets_are_guarded [OF this] show ?thesis by simp
qed

theorem capability_is_bound_witness:
  "\<not> verifyPreviewToken demo_hmac demo_secret (Some (mintPreviewToken demo_hmac demo_secret ''c1'' 80 90)) ''c1'' 81 20"
proof -
  have "tokenPayload ''c1'' 80 90 = tokenPayload ''c1'' 81 90"
    if "demo_hmac demo_secret (tokenPayload ''c1'' 80 90) = demo_hmac demo_secret (tokenPayload ''c1'' 81 90)"
  proof -
    have "demo_hmac demo_secret (tokenPayload ''c1'' 80 90) \<noteq> demo_hmac demo_secret (tokenPayload ''c1'' 81 90)" by code_simp
    then show ?thesis using that by blast
  qed
  from capability_is_bound [OF this] show ?thesis by simp
qed

theorem preview_link_opens_its_port_witness:
  "\<exists>port token. tryWakeProxy demo_url demo_label_sha demo_hmac demo_gateway_env demo_gateway None 60
     (demo_visit\<lparr>hq_preview_param := Some token, hq_cookie := None\<rparr>) = Some (GwRedirect token)"
proof -
  obtain config where c: "resolveAuthConfig demo_url (le_auth (ge_limits demo_gateway_env)) = Inr config" "ac_secret config = demo_secret"
    using demo_config by (auto simp: demo_gateway_env_def demo_api_env_def)
  obtain link stableUrl where r: "preview_route (\<lambda>_. None) demo_label_sha demo_hmac (ac_secret config) None (ge_PREVIEW_ZONE demo_gateway_env)
      (gs_db demo_gateway) ''ann'' 20 ''c1'' (Some ''80'') = Inr (hq_host demo_visit, link, stableUrl, 20 + PREVIEW_TOKEN_TTL_MS)"
  proof -
    have "\<exists>link stableUrl. preview_route (\<lambda>_. None) demo_label_sha demo_hmac (ac_secret config) None (ge_PREVIEW_ZONE demo_gateway_env)
      (gs_db demo_gateway) ''ann'' 20 ''c1'' (Some ''80'') = Inr (hq_host demo_visit, link, stableUrl, 20 + PREVIEW_TOKEN_TTL_MS)"
    proof -
      have o: "getOwnedComputer (gs_db demo_gateway) ''c1'' ''ann'' = Some demo_row" by code_simp
      have "digits_of 80 = ''80''" by code_simp
      then have "js_Number ''80'' = Fin 80" using js_Number_digits [of 80] by simp
      then have n: "safe_integer (js_Number ''80'') = Some 80" by (simp add: safe_integer_def)
      have row: "cw_userId demo_row = ''ann''" "cw_id demo_row = ''c1''" by (simp_all add: demo_row_def)
      show ?thesis
        by (simp add: preview_route_def o or_else_def n row Let_def previewUrlFor_def previewOrigin_def demo_visit_def demo_gateway_env_def)
    qed
    then show ?thesis using that by blast
  qed
  have u: "unique_ids (gs_db demo_gateway)" by (simp add: demo_gateway_def demo_state_ok)
  have z: "list_all plain_char (or_else (ge_PREVIEW_ZONE demo_gateway_env) ''mari.sh'')"
    "or_else (ge_PREVIEW_ZONE demo_gateway_env) ''mari.sh'' \<noteq> ''''"
    using demo_zone by (simp_all add: demo_gateway_env_def or_else_def)
  have t: "(0 :: int) \<le> 20" "20 + PREVIEW_TOKEN_TTL_MS < 2 ^ 53" "60 < 20 + PREVIEW_TOKEN_TTL_MS"
    by (simp_all add: PREVIEW_TOKEN_TTL_MS_def)
  have w: "canWake demo_url (ge_limits demo_gateway_env) (gs_usage demo_gateway) ''ann'' 60 = WakeOk" by code_simp
  have m: "hq_method demo_visit = ''GET''" by (simp add: demo_visit_def)
  from preview_link_opens_its_port [OF r c(1) u demo_fields z t w refl m] show ?thesis by blast
qed

text \<open>The sockets come before the preview hosts: a path of the guest's own that looks like one of theirs is not proxied.\<close>

lemma guest_path_is_swallowed:
  "tryWsRoute demo_url demo_gateway_env demo_gateway session (demo_visit\<lparr>hq_path := ''/attach/x''\<rparr>)
     = Some (GwRefused 426 ''expected websocket'')"
  by (simp add: tryWsRoute_def ws_match_def demo_visit_def or_else_def js_lower_def Let_def)

text \<open>An owner who is signed in, stopped by a cookie that does not decode.\<close>

lemma hostile_cookie: "readCookie (Some ''mari_preview=%'') PREVIEW_COOKIE = None"
  by code_simp

end
