(* ===== verification/Grid.thy ===== *)
theory Grid
  imports Validate JsNumber
begin

unbundle bit_operations_syntax

text \<open>
  The terminal grid of a run as the control plane renders it from journal bytes
  (\<^verbatim>\<open>control-plane/src/grid.ts\<close>): the parser of control sequences, the operations on cells and cursor, and what
  the snapshots of a grid look like.

  \<open>fffd\<close> is the string of the replacement character, to which a byte from 128 decodes.  A row is extended at its
  end, as an array is that is assigned at its length; no operation assigns further out (\<open>vt_shape\<close>).
\<close>

section \<open>Cells\<close>

definition DEFAULT_FG :: int where "DEFAULT_FG = - 1"
definition DEFAULT_BG :: int where "DEFAULT_BG = - 1"

definition ATTR_BOLD :: nat where "ATTR_BOLD = 1"
definition ATTR_ITALIC :: nat where "ATTR_ITALIC = 2"
definition ATTR_UNDERLINE :: nat where "ATTR_UNDERLINE = 4"
definition ATTR_INVERSE :: nat where "ATTR_INVERSE = 8"

definition PALETTE_16 :: "int list" where
  "PALETTE_16 =
     [0x000000, 0xcd0000, 0x00cd00, 0xcdcd00, 0x0000ee, 0xcd00cd, 0x00cdcd, 0xe5e5e5,
      0x7f7f7f, 0xff0000, 0x00ff00, 0xffff00, 0x5c5cff, 0xff00ff, 0x00ffff, 0xffffff]"

definition blank :: grid_cell where
  "blank = \<lparr>gc_ch = '' '', gc_attrs = 0, gc_fg = DEFAULT_FG, gc_bg = DEFAULT_BG\<rparr>"

definition blank_row :: "nat \<Rightarrow> grid_cell list" where
  "blank_row cols = replicate cols blank"

definition emptyGrid :: "nat \<Rightarrow> nat \<Rightarrow> grid_cell list list" where
  "emptyGrid cols rows = replicate rows (blank_row cols)"

text \<open>\<^verbatim>\<open>n | 0\<close>, and the shift and disjunction of 32-bit integers.\<close>

definition int32 :: "int \<Rightarrow> int" where "int32 n = signed_take_bit 31 n"
definition shl :: "int \<Rightarrow> nat \<Rightarrow> int" where "shl n k = int32 (push_bit k n)"

section \<open>The engine\<close>

datatype vt_mode = Ground | Esc | Csi

record vt =
  vt_cols :: nat
  vt_rows :: nat
  vt_grid :: "grid_cell list list"
  vt_cx :: nat
  vt_cy :: nat
  vt_visible :: bool
  vt_fg :: int
  vt_bg :: int
  vt_attrs :: nat
  vt_mode :: vt_mode
  vt_params :: "nat list"
  vt_curParam :: string

definition dimension :: "int \<Rightarrow> nat" where
  "dimension n = nat (max 1 (int32 n))"

definition new_vt :: "int \<Rightarrow> int \<Rightarrow> vt" where
  "new_vt cols rows =
     \<lparr>vt_cols = dimension cols, vt_rows = dimension rows, vt_grid = emptyGrid (dimension cols) (dimension rows),
      vt_cx = 0, vt_cy = 0, vt_visible = True, vt_fg = DEFAULT_FG, vt_bg = DEFAULT_BG, vt_attrs = 0,
      vt_mode = Ground, vt_params = [], vt_curParam = ''''\<rparr>"

text \<open>A cell of a row is replaced, or the row extended by one.\<close>

definition set_cell :: "nat \<Rightarrow> grid_cell \<Rightarrow> grid_cell list \<Rightarrow> grid_cell list" where
  "set_cell c v row = (if c < length row then row[c := v] else row @ [v])"

definition on_row :: "nat \<Rightarrow> (grid_cell list \<Rightarrow> grid_cell list) \<Rightarrow> vt \<Rightarrow> vt" where
  "on_row r f e = e\<lparr>vt_grid := (vt_grid e)[r := f (vt_grid e ! r)]\<rparr>"

definition vt_resize :: "int \<Rightarrow> int \<Rightarrow> vt \<Rightarrow> vt" where
  "vt_resize cols rows e =
     (let nc = dimension cols; nr = dimension rows in
      e\<lparr>vt_grid := map (\<lambda>r. map (\<lambda>c. if r < min nr (vt_rows e) \<and> c < min nc (vt_cols e) then vt_grid e ! r ! c else blank) [0..<nc]) [0..<nr],
        vt_cols := nc, vt_rows := nr, vt_cx := min (vt_cx e) (nc - 1), vt_cy := min (vt_cy e) (nr - 1)\<rparr>)"

definition lineFeed :: "vt \<Rightarrow> vt" where
  "lineFeed e =
     (if vt_cy e < vt_rows e - 1 then e\<lparr>vt_cy := Suc (vt_cy e)\<rparr>
      else e\<lparr>vt_grid := tl (vt_grid e) @ [blank_row (vt_cols e)]\<rparr>)"

definition print_byte :: "string \<Rightarrow> byte \<Rightarrow> vt \<Rightarrow> vt" where
  "print_byte fffd b e =
     (let ch = (if unat b < 0x80 then [char_of (unat b)] else fffd);
          e1 = (if vt_cx e \<ge> vt_cols e then lineFeed (e\<lparr>vt_cx := 0\<rparr>) else e)
      in on_row (vt_cy e1)
           (set_cell (vt_cx e1) \<lparr>gc_ch = ch, gc_attrs = vt_attrs e1, gc_fg = vt_fg e1, gc_bg = vt_bg e1\<rparr>) e1
         \<lparr>vt_cx := Suc (vt_cx e1)\<rparr>)"

definition ground :: "string \<Rightarrow> byte \<Rightarrow> vt \<Rightarrow> vt" where
  "ground fffd b e =
     (if b = 0x1b then e\<lparr>vt_mode := Esc\<rparr>
      else if b = 0x0d then e\<lparr>vt_cx := 0\<rparr>
      else if b = 0x0a \<or> b = 0x0b \<or> b = 0x0c then lineFeed e
      else if b = 0x08 then (if vt_cx e > 0 then e\<lparr>vt_cx := vt_cx e - 1\<rparr> else e)
      else if b = 0x09 then e\<lparr>vt_cx := min ((vt_cx e div 8 + 1) * 8) (vt_cols e - 1)\<rparr>
      else if b = 0x07 then e
      else if unat b < 0x20 then e
      else print_byte fffd b e)"

definition esc :: "byte \<Rightarrow> vt \<Rightarrow> vt" where
  "esc b e = (if b = 0x5b then e\<lparr>vt_mode := Csi, vt_params := [], vt_curParam := ''''\<rparr> else e\<lparr>vt_mode := Ground\<rparr>)"

section \<open>Control sequences\<close>

text \<open>The loop of \<^verbatim>\<open>#eraseLine\<close>: the columns from the first to the last, in order.\<close>

definition erase_cells :: "nat list \<Rightarrow> grid_cell list \<Rightarrow> grid_cell list" where
  "erase_cells cs row = fold (\<lambda>c. set_cell c blank) cs row"

definition eraseLine :: "nat \<Rightarrow> vt \<Rightarrow> vt" where
  "eraseLine mode e =
     on_row (vt_cy e) (erase_cells
       (if mode = 2 then [0..<vt_cols e]
        else if mode = 1 then [0..<Suc (vt_cx e)] else [vt_cx e..<vt_cols e])) e"

definition eraseDisplay :: "nat \<Rightarrow> vt \<Rightarrow> vt" where
  "eraseDisplay mode e =
     (if mode = 2 then e\<lparr>vt_grid := emptyGrid (vt_cols e) (vt_rows e)\<rparr>
      else if mode = 0 then fold (\<lambda>r. on_row r (\<lambda>_. blank_row (vt_cols e))) [Suc (vt_cy e)..<vt_rows e] (eraseLine 0 e)
      else if mode = 1 then fold (\<lambda>r. on_row r (\<lambda>_. blank_row (vt_cols e))) [0..<vt_cy e] (eraseLine 1 e)
      else e)"

definition cube_level :: "int \<Rightarrow> int" where
  "cube_level v = (if v = 0 then 0 else 55 + v * 40)"

definition xterm256 :: "nat \<Rightarrow> int" where
  "xterm256 idx =
     (if idx < 16 then PALETTE_16 ! idx
      else if idx \<le> 231 then
        let n = int idx - 16
        in shl (cube_level (n div 36)) 16 OR shl (cube_level (n mod 36 div 6)) 8 OR cube_level (n mod 6)
      else let gray = 8 + (int idx - 232) * 10 in shl gray 16 OR shl gray 8 OR int32 gray)"

definition arg :: "nat list \<Rightarrow> nat \<Rightarrow> nat" where
  "arg ps i = (if i < length ps then ps ! i else 0)"

definition rgb :: "nat \<Rightarrow> nat \<Rightarrow> nat \<Rightarrow> int" where
  "rgb r g b = shl (int r AND 0xff) 16 OR shl (int g AND 0xff) 8 OR (int b AND 0xff)"

definition put_colour :: "nat \<Rightarrow> int \<Rightarrow> vt \<Rightarrow> vt" where
  "put_colour n c e = (if n = 38 then e\<lparr>vt_fg := c\<rparr> else e\<lparr>vt_bg := c\<rparr>)"

text \<open>One parameter that is not the head of an extended colour.\<close>

definition sgr_one :: "nat \<Rightarrow> vt \<Rightarrow> vt" where
  "sgr_one n e =
     (if n = 0 then e\<lparr>vt_fg := DEFAULT_FG, vt_bg := DEFAULT_BG, vt_attrs := 0\<rparr>
      else if n = 1 then e\<lparr>vt_attrs := vt_attrs e OR ATTR_BOLD\<rparr>
      else if n = 3 then e\<lparr>vt_attrs := vt_attrs e OR ATTR_ITALIC\<rparr>
      else if n = 4 then e\<lparr>vt_attrs := vt_attrs e OR ATTR_UNDERLINE\<rparr>
      else if n = 7 then e\<lparr>vt_attrs := vt_attrs e OR ATTR_INVERSE\<rparr>
      else if n = 22 then e\<lparr>vt_attrs := unset_bit 0 (vt_attrs e)\<rparr>
      else if n = 23 then e\<lparr>vt_attrs := unset_bit 1 (vt_attrs e)\<rparr>
      else if n = 24 then e\<lparr>vt_attrs := unset_bit 2 (vt_attrs e)\<rparr>
      else if n = 27 then e\<lparr>vt_attrs := unset_bit 3 (vt_attrs e)\<rparr>
      else if 30 \<le> n \<and> n \<le> 37 then e\<lparr>vt_fg := PALETTE_16 ! (n - 30)\<rparr>
      else if n = 39 then e\<lparr>vt_fg := DEFAULT_FG\<rparr>
      else if 40 \<le> n \<and> n \<le> 47 then e\<lparr>vt_bg := PALETTE_16 ! (n - 40)\<rparr>
      else if n = 49 then e\<lparr>vt_bg := DEFAULT_BG\<rparr>
      else if 90 \<le> n \<and> n \<le> 97 then e\<lparr>vt_fg := PALETTE_16 ! (8 + (n - 90))\<rparr>
      else if 100 \<le> n \<and> n \<le> 107 then e\<lparr>vt_bg := PALETTE_16 ! (8 + (n - 100))\<rparr>
      else e)"

text \<open>The loop over the parameters; \<open>ps\<close> are those after the current one.\<close>

fun sgr_from :: "nat list \<Rightarrow> vt \<Rightarrow> vt" where
  "sgr_from [] e = e"
| "sgr_from (n # ps) e =
     (if n = 38 \<or> n = 48 then
        (if ps \<noteq> [] \<and> hd ps = 5 then sgr_from (drop 2 ps) (put_colour n (xterm256 (arg ps 1)) e)
         else if ps \<noteq> [] \<and> hd ps = 2 then sgr_from (drop 4 ps) (put_colour n (rgb (arg ps 1) (arg ps 2) (arg ps 3)) e)
         else sgr_from ps e)
      else sgr_from ps (sgr_one n e))"

definition sgr :: "nat list \<Rightarrow> vt \<Rightarrow> vt" where
  "sgr ps e = sgr_from (if ps = [] then [0] else ps) e"

definition dispatchCsi :: "char \<Rightarrow> vt \<Rightarrow> vt" where
  "dispatchCsi final e =
     (let p = vt_params e; first = arg p 0; n = (if first = 0 then 1 else first) in
      if final = CHR ''H'' \<or> final = CHR ''f'' then
        let row = n; col = (if arg p 1 = 0 then 1 else arg p 1)
        in e\<lparr>vt_cy := min (row - 1) (vt_rows e - 1), vt_cx := min (col - 1) (vt_cols e - 1)\<rparr>
      else if final = CHR ''A'' then e\<lparr>vt_cy := vt_cy e - n\<rparr>
      else if final = CHR ''B'' then e\<lparr>vt_cy := min (vt_cy e + n) (vt_rows e - 1)\<rparr>
      else if final = CHR ''C'' then e\<lparr>vt_cx := min (vt_cx e + n) (vt_cols e - 1)\<rparr>
      else if final = CHR ''D'' then e\<lparr>vt_cx := vt_cx e - n\<rparr>
      else if final = CHR ''G'' then e\<lparr>vt_cx := min (n - 1) (vt_cols e - 1)\<rparr>
      else if final = CHR ''J'' then eraseDisplay first e
      else if final = CHR ''K'' then eraseLine first e
      else if final = CHR ''m'' then sgr p e
      else if final = CHR ''h'' then (if 25 \<in> set p then e\<lparr>vt_visible := True\<rparr> else e)
      else if final = CHR ''l'' then (if 25 \<in> set p then e\<lparr>vt_visible := False\<rparr> else e)
      else e)"

definition end_param :: "vt \<Rightarrow> vt" where
  "end_param e = e\<lparr>vt_params := vt_params e @ [if vt_curParam e = '''' then 0 else digits_value 10 (vt_curParam e)]\<rparr>"

definition csi :: "byte \<Rightarrow> vt \<Rightarrow> vt" where
  "csi b e =
     (let n = unat b; ch = char_of n in
      if 0x30 \<le> n \<and> n \<le> 0x3f then
        (if ch = CHR '';'' then end_param e\<lparr>vt_curParam := ''''\<rparr>
         else if n \<le> 0x39 then e\<lparr>vt_curParam := vt_curParam e @ [ch]\<rparr>
         else e)
      else if 0x20 \<le> n \<and> n \<le> 0x2f then e
      else if 0x40 \<le> n \<and> n \<le> 0x7e then dispatchCsi ch (end_param e)\<lparr>vt_mode := Ground\<rparr>
      else e\<lparr>vt_mode := Ground\<rparr>)"

definition write_byte :: "string \<Rightarrow> byte \<Rightarrow> vt \<Rightarrow> vt" where
  "write_byte fffd b e =
     (case vt_mode e of Ground \<Rightarrow> ground fffd b e | Esc \<Rightarrow> esc b e | Csi \<Rightarrow> csi b e)"

definition vt_write :: "string \<Rightarrow> bytes \<Rightarrow> vt \<Rightarrow> vt" where
  "vt_write fffd bs e = fold (write_byte fffd) bs e"

definition snapshot :: "vt \<Rightarrow> grid_snapshot" where
  "snapshot e =
     \<lparr>gs_cols = vt_cols e, gs_rows = vt_rows e, gs_cells = vt_grid e, gs_cursorCol = vt_cx e, gs_cursorRow = vt_cy e,
      gs_cursorVisible = vt_visible e\<rparr>"

text \<open>The grid of a run, rendered from its journal (\<^verbatim>\<open>snapshotGrid\<close> of the Durable Object).\<close>

definition snapshotGrid :: "string \<Rightarrow> bytes \<Rightarrow> int \<Rightarrow> int \<Rightarrow> grid_snapshot" where
  "snapshotGrid fffd journal cols rows = snapshot (vt_write fffd journal (new_vt cols rows))"

section \<open>The shape of a grid\<close>

text \<open>A row is as wide as the grid, or one cell wider.\<close>

definition vt_shape :: "vt \<Rightarrow> bool" where
  "vt_shape e \<longleftrightarrow> 1 \<le> vt_cols e \<and> 1 \<le> vt_rows e \<and> length (vt_grid e) = vt_rows e \<and> vt_cy e < vt_rows e \<and> vt_cx e \<le> vt_cols e
     \<and> (\<forall>row\<in>set (vt_grid e). length row = vt_cols e \<or> length row = Suc (vt_cols e))"

definition vt_size :: "vt \<Rightarrow> nat \<times> nat" where
  "vt_size e = (vt_cols e, vt_rows e)"

definition shaped :: "nat \<times> nat \<Rightarrow> vt \<Rightarrow> bool" where
  "shaped n e \<longleftrightarrow> vt_shape e \<and> vt_size e = n"

lemmas shape_defs = shaped_def vt_shape_def vt_size_def

named_theorems shapes "operations that keep the shape and the size of a grid"

lemma shaped_fold: "(\<And>x e. x \<in> set xs \<Longrightarrow> shaped n e \<Longrightarrow> shaped n (f x e)) \<Longrightarrow> shaped n e \<Longrightarrow> shaped n (fold f xs e)"
  by (induction xs arbitrary: e) auto

lemma length_set_cell: "length (set_cell c v row) = (if c < length row then length row else Suc (length row))"
  by (simp add: set_cell_def)

lemma length_erase_upt:
  "a \<le> length row \<Longrightarrow> b \<le> Suc (length row) \<Longrightarrow> length (erase_cells [a..<b] row) = max (length row) (if a < b then b else 0)"
proof (induction b)
  case (Suc b)
  then show ?case
    by (cases "a \<le> b") (auto simp: erase_cells_def length_set_cell max_def split: if_splits)
qed (simp add: erase_cells_def)

lemma shaped_on_row [shapes]:
  assumes e: "shaped n e"
    and f: "r < vt_rows e \<Longrightarrow> length (f (vt_grid e ! r)) = vt_cols e \<or> length (f (vt_grid e ! r)) = Suc (vt_cols e)"
  shows "shaped n (on_row r f e)"
proof (cases "r < vt_rows e")
  case True
  then show ?thesis
    using e f set_update_subset_insert [of "vt_grid e" r "f (vt_grid e ! r)"]
    by (auto simp: shape_defs on_row_def)
next
  case False
  then have "(vt_grid e)[r := f (vt_grid e ! r)] = vt_grid e"
    using e by (intro list_update_beyond) (simp add: shape_defs)
  then have "on_row r f e = e" by (simp add: on_row_def)
  then show ?thesis using e by simp
qed

lemma shaped_row:
  "shaped n e \<Longrightarrow> r < vt_rows e \<Longrightarrow> length (vt_grid e ! r) = vt_cols e \<or> length (vt_grid e ! r) = Suc (vt_cols e)"
  by (auto simp: shape_defs dest!: bspec [where x = "vt_grid e ! r"])

lemma shaped_blank_row: "shaped n e \<Longrightarrow> shaped n (on_row r (\<lambda>_. blank_row (vt_cols e)) e)"
  by (rule shaped_on_row) (simp_all add: blank_row_def)

lemma shaped_cursor [shapes]: "shaped n e \<Longrightarrow> x \<le> vt_cols e \<Longrightarrow> shaped n (e\<lparr>vt_cx := x\<rparr>)"
  "shaped n e \<Longrightarrow> y < vt_rows e \<Longrightarrow> shaped n (e\<lparr>vt_cy := y\<rparr>)"
  "shaped n e \<Longrightarrow> x \<le> vt_cols e \<Longrightarrow> y < vt_rows e \<Longrightarrow> shaped n (e\<lparr>vt_cx := x, vt_cy := y\<rparr>)"
  "shaped n e \<Longrightarrow> x \<le> vt_cols e \<Longrightarrow> y < vt_rows e \<Longrightarrow> shaped n (e\<lparr>vt_cy := y, vt_cx := x\<rparr>)"
  by (auto simp: shape_defs)

lemma shaped_other [shapes]:
  "shaped n (e\<lparr>vt_visible := v\<rparr>) = shaped n e" "shaped n (e\<lparr>vt_fg := c\<rparr>) = shaped n e"
  "shaped n (e\<lparr>vt_bg := c\<rparr>) = shaped n e" "shaped n (e\<lparr>vt_attrs := a\<rparr>) = shaped n e"
  "shaped n (e\<lparr>vt_mode := m\<rparr>) = shaped n e" "shaped n (e\<lparr>vt_params := ps\<rparr>) = shaped n e"
  "shaped n (e\<lparr>vt_curParam := cp\<rparr>) = shaped n e"
  by (auto simp: shape_defs)

lemma shaped_size: "shaped n e \<Longrightarrow> vt_cols e = fst n \<and> vt_rows e = snd n"
  by (auto simp: shape_defs)

lemma shaped_facts: "shaped n e \<Longrightarrow> 1 \<le> vt_cols e \<and> 1 \<le> vt_rows e \<and> vt_cy e < vt_rows e \<and> vt_cx e \<le> vt_cols e"
  by (simp add: shape_defs)

lemma shaped_lineFeed [shapes]: "shaped n e \<Longrightarrow> shaped n (lineFeed e)"
  by (cases "vt_grid e") (auto simp: lineFeed_def shape_defs blank_row_def)

lemma shaped_print: "shaped n e \<Longrightarrow> shaped n (print_byte fffd b e)"
proof -
  assume e: "shaped n e"
  define e1 where "e1 = (if vt_cx e \<ge> vt_cols e then lineFeed (e\<lparr>vt_cx := 0\<rparr>) else e)"
  have e1: "shaped n e1" unfolding e1_def using e by (auto intro: shapes)
  have size: "vt_cols e1 = vt_cols e" using shaped_size [OF e] shaped_size [OF e1] by simp
  have cx: "vt_cx e1 < vt_cols e1"
    using shaped_facts [OF e] unfolding size by (auto simp: e1_def lineFeed_def)
  have "shaped n (on_row (vt_cy e1) (set_cell (vt_cx e1) v) e1)" for v
    using shaped_row [OF e1, of "vt_cy e1"] cx by (intro shaped_on_row [OF e1]) (auto simp: length_set_cell)
  then have "shaped n ((on_row (vt_cy e1) (set_cell (vt_cx e1) v) e1)\<lparr>vt_cx := Suc (vt_cx e1)\<rparr>)" for v
    by (rule shaped_cursor) (use cx in \<open>simp add: on_row_def\<close>)
  then show ?thesis by (simp add: print_byte_def Let_def e1_def)
qed

lemma shaped_eraseLine: "shaped n e \<Longrightarrow> shaped n (eraseLine mode e)"
proof -
  assume e: "shaped n e"
  note row = shaped_row [OF e, of "vt_cy e"] shaped_facts [OF e]
  have "length (erase_cells [0..<vt_cols e] (vt_grid e ! vt_cy e)) \<in> {vt_cols e, Suc (vt_cols e)}"
    "length (erase_cells [0..<Suc (vt_cx e)] (vt_grid e ! vt_cy e)) \<in> {vt_cols e, Suc (vt_cols e)}"
    "length (erase_cells [vt_cx e..<vt_cols e] (vt_grid e ! vt_cy e)) \<in> {vt_cols e, Suc (vt_cols e)}"
    by ((subst length_erase_upt; use row in \<open>force simp: max_def\<close>)+)
  then show ?thesis unfolding eraseLine_def by (intro shaped_on_row [OF e]) (auto split: if_splits)
qed

lemma shaped_eraseDisplay: "shaped n e \<Longrightarrow> shaped n (eraseDisplay mode e)"
proof -
  assume e: "shaped n e"
  have fold: "shaped n (fold (\<lambda>r. on_row r (\<lambda>_. blank_row (vt_cols e))) rs (eraseLine mode e))" for rs
  proof (rule shaped_fold [OF _ shaped_eraseLine [OF e]])
    fix r e'
    assume "shaped n e'"
    moreover from this have "vt_cols e' = vt_cols e" using shaped_size [OF e] shaped_size [of n e'] by simp
    ultimately show "shaped n (on_row r (\<lambda>_. blank_row (vt_cols e)) e')" using shaped_blank_row by metis
  qed
  have "shaped n (e\<lparr>vt_grid := emptyGrid (vt_cols e) (vt_rows e)\<rparr>)"
    using e by (auto simp: shape_defs emptyGrid_def blank_row_def)
  then show ?thesis using fold e by (auto simp: eraseDisplay_def)
qed

lemma shaped_sgr: "shaped n e \<Longrightarrow> shaped n (sgr_from ps e)"
proof (induction ps e rule: sgr_from.induct)
  case (2 k ps e)
  moreover have "shaped n (put_colour k c e) = shaped n e" for c by (simp add: put_colour_def shapes)
  moreover have "shaped n (sgr_one k e) = shaped n e" by (simp add: sgr_one_def shapes)
  ultimately show ?case by auto
qed simp

lemma shaped_dispatch:
  assumes e: "shaped n e"
  shows "shaped n (dispatchCsi c e)"
proof -
  note facts = shaped_facts [OF e]
  have "shaped n (e\<lparr>vt_cx := min x (vt_cols e - 1)\<rparr>)" "shaped n (e\<lparr>vt_cx := vt_cx e - x\<rparr>)"
    "shaped n (e\<lparr>vt_cy := min x (vt_rows e - 1)\<rparr>)" "shaped n (e\<lparr>vt_cy := vt_cy e - x\<rparr>)"
    "shaped n (e\<lparr>vt_cy := min y (vt_rows e - 1), vt_cx := min x (vt_cols e - 1)\<rparr>)" for x y
    using facts by (auto intro!: shaped_cursor e)
  then show ?thesis
    unfolding dispatchCsi_def Let_def
    using e by (simp add: sgr_def shaped_sgr shaped_eraseLine shaped_eraseDisplay shaped_other)
qed

lemma shaped_byte:
  assumes e: "shaped n e"
  shows "shaped n (write_byte fffd b e)"
proof -
  note facts = shaped_facts [OF e]
  have "shaped n (ground fffd b e)"
    unfolding ground_def using facts e
    by (auto intro!: shaped_cursor simp: shaped_lineFeed shaped_print shaped_other)
  moreover have "shaped n (csi b e)"
    using e shaped_dispatch [of n "end_param e"]
    by (simp add: csi_def end_param_def Let_def shaped_other)
  moreover have "shaped n (esc b e)"
    using e by (simp add: esc_def shaped_other)
  ultimately show ?thesis by (simp add: write_byte_def split: vt_mode.split)
qed

lemma shaped_write: "shaped n e \<Longrightarrow> shaped n (vt_write fffd bs e)"
  unfolding vt_write_def by (rule shaped_fold [OF shaped_byte])

lemma dimension_pos: "1 \<le> dimension n"
  by (simp add: dimension_def)

lemma shaped_new: "shaped (dimension cols, dimension rows) (new_vt cols rows)"
  using dimension_pos [of cols] dimension_pos [of rows]
  by (auto simp: shape_defs new_vt_def emptyGrid_def blank_row_def)

lemma shaped_resize: "shaped n e \<Longrightarrow> shaped (dimension cols, dimension rows) (vt_resize cols rows e)"
  using dimension_pos [of cols] dimension_pos [of rows]
  by (auto simp: shape_defs vt_resize_def Let_def)

section \<open>Colours and attributes\<close>

definition paint_ok :: "int \<Rightarrow> int \<Rightarrow> nat \<Rightarrow> bool" where
  "paint_ok fg bg attrs \<longleftrightarrow> - 1 \<le> fg \<and> fg \<le> RGB_MAX \<and> - 1 \<le> bg \<and> bg \<le> RGB_MAX \<and> attrs < 2 ^ 4"

definition tinted :: "vt \<Rightarrow> bool" where
  "tinted e \<longleftrightarrow> paint_ok (vt_fg e) (vt_bg e) (vt_attrs e)
     \<and> (\<forall>row\<in>set (vt_grid e). \<forall>c\<in>set row. paint_ok (gc_fg c) (gc_bg c) (gc_attrs c))"

lemma rgb_bound:
  assumes "0 \<le> r" "r < 256" "0 \<le> g" "g < 256" "0 \<le> b" "b < 256"
  shows "0 \<le> shl r 16 OR shl g 8 OR b \<and> shl r 16 OR shl g 8 OR b \<le> RGB_MAX"
proof -
  have s: "shl r 16 = r * 65536" "shl g 8 = g * 256"
    using assms by (simp_all add: shl_def int32_def push_bit_eq_mult signed_take_bit_int_eq_self)
  have "g * 256 OR b < 2 ^ 24" by (rule OR_upper) (use assms in simp_all)
  then have "r * 65536 OR (g * 256 OR b) < 2 ^ 24" by (intro OR_upper) (use assms in simp_all)
  then show ?thesis using assms by (simp add: s RGB_MAX_def or.assoc)
qed

lemma palette_bound: "i < 16 \<Longrightarrow> 0 \<le> PALETTE_16 ! i \<and> PALETTE_16 ! i \<le> RGB_MAX"
proof -
  assume "i < 16"
  then have "PALETTE_16 ! i \<in> set PALETTE_16" by (intro nth_mem) (simp add: PALETTE_16_def)
  then show ?thesis by (auto simp: PALETTE_16_def RGB_MAX_def)
qed

lemma level_bound: "0 \<le> v \<Longrightarrow> v < 6 \<Longrightarrow> 0 \<le> cube_level v \<and> cube_level v < 256"
  by (auto simp: cube_level_def)

lemma xterm256_bound:
  assumes "idx \<le> 255"
  shows "0 \<le> xterm256 idx \<and> xterm256 idx \<le> RGB_MAX"
proof -
  let ?n = "int idx - 16" and ?g = "8 + (int idx - 232) * 10"
  consider "idx < 16" | "16 \<le> idx" "idx \<le> 231" | "232 \<le> idx" by linarith
  then show ?thesis
  proof cases
    case 1
    then show ?thesis using palette_bound by (simp add: xterm256_def)
  next
    case 2
    have "0 \<le> cube_level (?n div 36) \<and> cube_level (?n div 36) < 256"
      by (intro level_bound) (use 2 in presburger)+
    moreover have "0 \<le> cube_level (?n mod 36 div 6) \<and> cube_level (?n mod 36 div 6) < 256"
      by (intro level_bound) (use 2 in presburger)+
    moreover have "0 \<le> cube_level (?n mod 6) \<and> cube_level (?n mod 6) < 256"
      by (intro level_bound) (use 2 in presburger)+
    ultimately show ?thesis
      using 2 rgb_bound [of "cube_level (?n div 36)" "cube_level (?n mod 36 div 6)" "cube_level (?n mod 6)"]
      by (simp add: xterm256_def Let_def)
  next
    case 3
    then have g: "0 \<le> ?g" "?g < 256" using assms by simp_all
    then have "int32 ?g = ?g" by (simp add: int32_def signed_take_bit_int_eq_self)
    then show ?thesis using 3 rgb_bound [OF g g g] by (simp add: xterm256_def Let_def)
  qed
qed

lemma and_byte: "0 \<le> int n AND 255 \<and> int n AND 255 < 256"
  using take_bit_eq_mask [of 8 "int n"] by (simp add: mask_eq_exp_minus_1 take_bit_eq_mod flip: take_bit_eq_mask)

lemma rgb_ok: "0 \<le> rgb r g b \<and> rgb r g b \<le> RGB_MAX"
  unfolding rgb_def using and_byte [of r] and_byte [of g] and_byte [of b] by (intro rgb_bound) simp_all

lemma attr_bits: "a < 16 \<Longrightarrow> a OR ATTR_BOLD < 16 \<and> a OR ATTR_ITALIC < 16 \<and> a OR ATTR_UNDERLINE < 16 \<and> a OR ATTR_INVERSE < 16
    \<and> unset_bit k a < 16" for a :: nat
proof -
  assume a: "a < 16"
  have "a OR b < 16" if "b < 16" for b
    using a that take_bit_or [of 4 a b] by (simp add: take_bit_nat_eq_self_iff [symmetric, of _ 4, simplified])
  moreover have "unset_bit k a < 16"
    using a unset_bit_less_eq [of k "int a"] by (simp add: le_less_trans flip: of_nat_unset_bit_eq)
  ultimately show ?thesis by (simp add: ATTR_BOLD_def ATTR_ITALIC_def ATTR_UNDERLINE_def ATTR_INVERSE_def)
qed

lemma tinted_blank: "\<forall>c\<in>set (blank_row n). paint_ok (gc_fg c) (gc_bg c) (gc_attrs c)"
  by (simp add: blank_row_def blank_def paint_ok_def DEFAULT_FG_def DEFAULT_BG_def RGB_MAX_def)

lemma set_set_cell: "set (set_cell c v row) \<subseteq> insert v (set row)"
  by (auto simp: set_cell_def dest: set_update_subset_insert [THEN subsetD])

lemma set_erase_cells: "set (erase_cells cs row) \<subseteq> insert blank (set row)"
  unfolding erase_cells_def
  by (induction cs arbitrary: row) (use set_set_cell in fastforce)+

lemma tinted_on_row:
  assumes "tinted e" "\<And>row c. c \<in> set (f row) \<Longrightarrow> c \<in> set row \<or> paint_ok (gc_fg c) (gc_bg c) (gc_attrs c)"
  shows "tinted (on_row r f e)"
proof (cases "r < length (vt_grid e)")
  case True
  have "\<forall>c\<in>set (f (vt_grid e ! r)). paint_ok (gc_fg c) (gc_bg c) (gc_attrs c)"
    using assms nth_mem [OF True] by (force simp: tinted_def)
  then show ?thesis
    using assms(1) set_update_subset_insert [of "vt_grid e" r "f (vt_grid e ! r)"] by (auto simp: tinted_def on_row_def)
next
  case False
  then have "on_row r f e = e" by (simp add: on_row_def list_update_beyond)
  then show ?thesis using assms(1) by simp
qed

lemma tinted_other [simp]:
  "tinted (e\<lparr>vt_visible := v\<rparr>) = tinted e" "tinted (e\<lparr>vt_cx := x\<rparr>) = tinted e" "tinted (e\<lparr>vt_cy := x\<rparr>) = tinted e"
  "tinted (e\<lparr>vt_mode := m\<rparr>) = tinted e" "tinted (e\<lparr>vt_params := ps\<rparr>) = tinted e" "tinted (e\<lparr>vt_curParam := cp\<rparr>) = tinted e"
  by (simp_all add: tinted_def)

lemma tinted_lineFeed: "tinted e \<Longrightarrow> tinted (lineFeed e)"
  using tinted_blank by (cases "vt_grid e") (auto simp: lineFeed_def tinted_def)

lemma tinted_print: "tinted e \<Longrightarrow> tinted (print_byte fffd b e)"
proof -
  assume e: "tinted e"
  define e1 where "e1 = (if vt_cx e \<ge> vt_cols e then lineFeed (e\<lparr>vt_cx := 0\<rparr>) else e)"
  have e1: "tinted e1" unfolding e1_def using e tinted_lineFeed [of "e\<lparr>vt_cx := 0\<rparr>"] by simp
  then have p: "paint_ok (vt_fg e1) (vt_bg e1) (vt_attrs e1)" by (simp add: tinted_def)
  have "tinted (on_row (vt_cy e1)
      (set_cell (vt_cx e1) \<lparr>gc_ch = ch, gc_attrs = vt_attrs e1, gc_fg = vt_fg e1, gc_bg = vt_bg e1\<rparr>) e1)" for ch
    by (rule tinted_on_row [OF e1]) (use p set_set_cell in force)
  then show ?thesis by (simp add: print_byte_def Let_def e1_def [symmetric])
qed

lemma tinted_eraseLine: "tinted e \<Longrightarrow> tinted (eraseLine mode e)"
  unfolding eraseLine_def
proof (rule tinted_on_row)
  fix row c cs
  have "paint_ok (gc_fg blank) (gc_bg blank) (gc_attrs blank)"
    by (simp add: blank_def paint_ok_def DEFAULT_FG_def DEFAULT_BG_def RGB_MAX_def)
  moreover assume "c \<in> set (erase_cells cs row)"
  ultimately show "c \<in> set row \<or> paint_ok (gc_fg c) (gc_bg c) (gc_attrs c)" using set_erase_cells by fastforce
qed

lemma tinted_eraseDisplay: "tinted e \<Longrightarrow> tinted (eraseDisplay mode e)"
proof -
  assume e: "tinted e"
  have "tinted (on_row r (\<lambda>_. blank_row n) e')" if "tinted e'" for r n e'
    by (rule tinted_on_row [OF that]) (use tinted_blank in blast)
  then have "tinted (fold (\<lambda>r. on_row r (\<lambda>_. blank_row n)) rs e')" if "tinted e'" for rs n e'
    using that by (induction rs arbitrary: e') auto
  moreover have "tinted (e\<lparr>vt_grid := emptyGrid (vt_cols e) (vt_rows e)\<rparr>)"
    using e tinted_blank by (auto simp: tinted_def emptyGrid_def)
  ultimately show ?thesis using e tinted_eraseLine by (simp add: eraseDisplay_def)
qed

lemma tinted_sgr_one: "tinted e \<Longrightarrow> tinted (sgr_one n e)"
  using attr_bits [of "vt_attrs e"]
  by (auto simp: sgr_one_def tinted_def paint_ok_def DEFAULT_FG_def DEFAULT_BG_def palette_bound
      intro: order_trans [of "- 1" 0] simp: RGB_MAX_def [symmetric])

lemma tinted_sgr: "tinted e \<Longrightarrow> list_all (\<lambda>p. p \<le> 255) ps \<Longrightarrow> tinted (sgr_from ps e)"
proof (induction ps e rule: sgr_from.induct)
  case (2 n ps e)
  have "arg ps 1 \<le> 255" using 2(6) by (auto simp: arg_def list_all_iff)
  then have "tinted (put_colour n (xterm256 (arg ps 1)) e)"
    using 2(5) xterm256_bound [of "arg ps 1"] by (auto simp: put_colour_def tinted_def paint_ok_def)
  moreover have "tinted (put_colour n (rgb r g b) e)" for r g b
    using 2(5) rgb_ok [of r g b] by (auto simp: put_colour_def tinted_def paint_ok_def)
  moreover have "list_all (\<lambda>p. p \<le> 255) ps" "list_all (\<lambda>p. p \<le> 255) (drop k ps)" for k
    using 2(6) by (auto simp: list_all_iff dest: in_set_dropD)
  ultimately show ?case using 2(1-5) tinted_sgr_one [of e n] by auto
qed simp

lemma tinted_dispatch: "tinted e \<Longrightarrow> list_all (\<lambda>p. p \<le> 255) (vt_params e) \<Longrightarrow> tinted (dispatchCsi c e)"
  unfolding dispatchCsi_def Let_def
  by (simp add: sgr_def tinted_sgr tinted_eraseLine tinted_eraseDisplay)

lemma params_fold: "(\<And>x e. vt_params (f x e) = vt_params e) \<Longrightarrow> vt_params (fold f xs e) = vt_params e"
  by (induction xs arbitrary: e) auto

lemma params_kept: "vt_params (dispatchCsi c e) = vt_params e"
proof -
  have row: "vt_params (on_row r f e) = vt_params e" for r f e by (simp add: on_row_def)
  have "vt_params (eraseLine m e) = vt_params e" for m e by (simp add: eraseLine_def row)
  then have "vt_params (eraseDisplay m e) = vt_params e" for m e by (simp add: eraseDisplay_def params_fold row)
  moreover have "vt_params (sgr_from ps e) = vt_params e" for ps e
    by (induction ps e rule: sgr_from.induct) (auto simp: put_colour_def sgr_one_def)
  ultimately show ?thesis by (simp add: dispatchCsi_def Let_def sgr_def eraseLine_def row)
qed

lemma tinted_byte:
  assumes e: "tinted e" and p: "list_all (\<lambda>p. p \<le> 255) (vt_params (write_byte fffd b e))"
  shows "tinted (write_byte fffd b e)"
proof (cases "vt_mode e")
  case Ground
  then show ?thesis using e by (simp add: write_byte_def ground_def tinted_print tinted_lineFeed)
next
  case Esc
  then show ?thesis using e by (simp add: write_byte_def esc_def)
next
  case Csi
  then have "list_all (\<lambda>p. p \<le> 255) (vt_params (end_param e)) \<Longrightarrow> tinted (dispatchCsi c (end_param e))" for c
    using e by (intro tinted_dispatch) (simp_all add: end_param_def)
  then show ?thesis
    using e p Csi by (auto simp: write_byte_def csi_def Let_def params_kept end_param_def split: if_splits)
qed

text \<open>No parameter above 255 is read on the way.\<close>

definition small_params :: "string \<Rightarrow> bytes \<Rightarrow> vt \<Rightarrow> bool" where
  "small_params fffd bs e \<longleftrightarrow> (\<forall>k\<le>length bs. list_all (\<lambda>p. p \<le> 255) (vt_params (vt_write fffd (take k bs) e)))"

lemma tinted_write: "tinted e \<Longrightarrow> small_params fffd bs e \<Longrightarrow> tinted (vt_write fffd bs e)"
proof (induction bs rule: rev_induct)
  case (snoc b bs)
  have "small_params fffd bs e"
    unfolding small_params_def
  proof (intro allI impI)
    fix k assume "k \<le> length bs"
    then show "list_all (\<lambda>p. p \<le> 255) (vt_params (vt_write fffd (take k bs) e))"
      using snoc.prems(2) by (auto simp: small_params_def dest!: spec [of _ k])
  qed
  moreover have "list_all (\<lambda>p. p \<le> 255) (vt_params (vt_write fffd (bs @ [b]) e))"
    using snoc.prems(2) by (auto simp: small_params_def dest!: spec [of _ "Suc (length bs)"])
  ultimately show ?case using snoc.IH [OF snoc.prems(1)] by (simp add: vt_write_def tinted_byte)
qed (simp add: vt_write_def)

lemma tinted_new: "tinted (new_vt cols rows)"
  using tinted_blank [of "dimension cols"]
  by (simp add: tinted_def new_vt_def emptyGrid_def paint_ok_def DEFAULT_FG_def DEFAULT_BG_def RGB_MAX_def)

section \<open>What is sent\<close>

datatype vt_op = Output bytes | Resized int int

fun vt_run :: "string \<Rightarrow> vt_op list \<Rightarrow> vt \<Rightarrow> vt" where
  "vt_run fffd [] e = e"
| "vt_run fffd (Output bs # ops) e = vt_run fffd ops (vt_write fffd bs e)"
| "vt_run fffd (Resized cols rows # ops) e = vt_run fffd ops (vt_resize cols rows e)"

text \<open>C31: A grid keeps its shape.  Whatever bytes a run prints and however its terminal is resized in between, the
  snapshot has the rows it says it has, each as wide as the grid or a single cell wider, and the cursor stands on
  a row of the grid, at most just past its last column.\<close>

theorem grid_keeps_its_shape:
  "let g = snapshot (vt_run fffd ops (new_vt cols rows)) in
     length (gs_cells g) = gs_rows g \<and> set (map length (gs_cells g)) \<subseteq> {gs_cols g, Suc (gs_cols g)}
     \<and> gs_cursorRow g < gs_rows g \<and> gs_cursorCol g \<le> gs_cols g"
proof -
  have "\<exists>n. shaped n (vt_run fffd ops e)" if "shaped n e" for n e
    using that
  proof (induction fffd ops e arbitrary: n rule: vt_run.induct)
    case (3 fffd cols rows ops e)
    then show ?case using 3(1) [OF shaped_resize [OF 3(2)]] by simp
  next
    case (2 fffd bs ops e)
    then show ?case using 2(1) [OF shaped_write [OF 2(2)]] by simp
  qed auto
  then obtain n where "shaped n (vt_run fffd ops (new_vt cols rows))" using shaped_new by blast
  then show ?thesis by (auto simp: shape_defs snapshot_def)
qed

text \<open>C32: A snapshot passes the check of the wire.  The grid of a run that is rendered from its journal is a message
  the client's validation accepts, at any size a terminal may have, as long as no control sequence of the
  journal has a parameter above 255.\<close>

theorem snapshots_pass_the_wire:
  assumes "1 \<le> cols" "cols \<le> 65535" "1 \<le> rows" "rows \<le> 65535" "small_params fffd journal (new_vt cols rows)"
  shows "grid_ok (snapshotGrid fffd journal cols rows)"
proof -
  define e where "e = vt_write fffd journal (new_vt cols rows)"
  have dim: "dimension n = nat n" if "1 \<le> n" "n \<le> 65535" for n
    using that by (simp add: dimension_def int32_def signed_take_bit_int_eq_self)
  have "shaped (nat cols, nat rows) e"
    unfolding e_def using shaped_write [OF shaped_new, of cols rows] assms by (simp add: dim)
  then have "vt_cols e = nat cols" "vt_rows e = nat rows" "vt_cx e \<le> nat cols" "vt_cy e < nat rows"
    by (auto simp: shape_defs)
  moreover have "tinted e" unfolding e_def using tinted_write [OF tinted_new assms(5)] .
  then have "\<forall>row\<in>set (vt_grid e). \<forall>c\<in>set row. cell_ok c"
    unfolding tinted_def paint_ok_def cell_ok_def U32_MAX_def by fastforce
  ultimately show ?thesis
    using assms(1-4) by (auto simp: snapshotGrid_def snapshot_def grid_ok_def u16_def U16_MAX_def list_all_iff simp flip: e_def)
qed

text \<open>A byte that stands for a character, and the cell it becomes.\<close>

definition printable :: "byte \<Rightarrow> bool" where
  "printable b \<longleftrightarrow> 0x20 \<le> unat b \<and> unat b < 0x7f"

definition cell_of :: "vt \<Rightarrow> byte \<Rightarrow> grid_cell" where
  "cell_of e b = \<lparr>gc_ch = [char_of (unat b)], gc_attrs = vt_attrs e, gc_fg = vt_fg e, gc_bg = vt_bg e\<rparr>"

lemma write_printable:
  assumes "shaped n e" "vt_mode e = Ground" "printable b" "vt_cx e < vt_cols e"
  shows "write_byte fffd b e =
    e\<lparr>vt_grid := (vt_grid e)[vt_cy e := (vt_grid e ! vt_cy e)[vt_cx e := cell_of e b]], vt_cx := Suc (vt_cx e)\<rparr>"
proof -
  have "ground fffd b e = print_byte fffd b e"
    using assms(3) by (auto simp: ground_def printable_def)
  moreover have "vt_cx e < length (vt_grid e ! vt_cy e)"
    using shaped_row [OF assms(1), of "vt_cy e"] shaped_facts [OF assms(1)] assms(4) by auto
  ultimately show ?thesis
    using assms by (simp add: write_byte_def print_byte_def Let_def on_row_def set_cell_def cell_of_def printable_def)
qed

text \<open>Plain text is shown where the cursor stands.  Printable bytes that fit in what is left of the line replace
  exactly the cells from the cursor on, in order and in the current colours, and the cursor follows them; no
  other row and no other cell of the row changes.\<close>

theorem plain_text_is_shown:
  assumes "vt_shape e" "vt_mode e = Ground" "list_all printable bs" "vt_cx e + length bs \<le> vt_cols e"
  shows "vt_write fffd bs e =
    e\<lparr>vt_grid := (vt_grid e)[vt_cy e :=
        take (vt_cx e) (vt_grid e ! vt_cy e) @ map (cell_of e) bs @ drop (vt_cx e + length bs) (vt_grid e ! vt_cy e)],
      vt_cx := vt_cx e + length bs\<rparr>"
proof -
  obtain n where "shaped n e" using assms(1) by (simp add: shaped_def)
  then show ?thesis using assms(2-4)
  proof (induction bs arbitrary: e)
    case Nil
    then show ?case by (simp add: vt_write_def)
  next
    case (Cons b bs)
    define row where "row = vt_grid e ! vt_cy e"
    define e1 where "e1 = write_byte fffd b e"
    have e1: "e1 = e\<lparr>vt_grid := (vt_grid e)[vt_cy e := row[vt_cx e := cell_of e b]], vt_cx := Suc (vt_cx e)\<rparr>"
      unfolding e1_def row_def using Cons.prems by (intro write_printable [OF Cons.prems(1,2)]) simp_all
    have len: "vt_cx e < length row" "vt_cy e < length (vt_grid e)"
      using shaped_row [OF Cons.prems(1), of "vt_cy e"] shaped_facts [OF Cons.prems(1)] Cons.prems
      by (auto simp: row_def) (simp_all add: shape_defs)
    have "vt_write fffd bs e1 =
      e1\<lparr>vt_grid := (vt_grid e1)[vt_cy e1 :=
          take (vt_cx e1) (vt_grid e1 ! vt_cy e1) @ map (cell_of e1) bs @ drop (vt_cx e1 + length bs) (vt_grid e1 ! vt_cy e1)],
        vt_cx := vt_cx e1 + length bs\<rparr>"
    proof (rule Cons.IH)
      show "shaped n e1" unfolding e1_def by (rule shaped_byte [OF Cons.prems(1)])
    qed (use Cons.prems e1 in simp_all)
    moreover have "cell_of e1 = cell_of e" by (rule ext) (simp add: e1 cell_of_def)
    moreover have "take (Suc (vt_cx e)) (row[vt_cx e := cell_of e b]) = take (vt_cx e) row @ [cell_of e b]"
      using len by (simp add: take_Suc_conv_app_nth)
    ultimately show ?case
      using len by (simp add: vt_write_def e1_def [symmetric] e1 row_def [symmetric])
  qed
qed

section \<open>Examples\<close>

text \<open>A row that is too long: the erasure to the left of a cursor that has just printed the last column writes one
  cell past the end of the row.\<close>

lemma erased_row_is_too_long:
  assumes "vt_shape e" "vt_cx e = vt_cols e" "length (vt_grid e ! vt_cy e) = vt_cols e"
  shows "length (gs_cells (snapshot (eraseLine 1 e)) ! vt_cy e) = Suc (vt_cols e)"
  using assms by (simp add: snapshot_def eraseLine_def on_row_def vt_shape_def length_erase_upt del: upt_Suc)

text \<open>An index outside the palette of 256 may be no colour of the wire.\<close>

lemma stray_colour: "RGB_MAX < xterm256 257"
  by (simp add: xterm256_def shl_def int32_def RGB_MAX_def push_bit_eq_mult signed_take_bit_int_eq_self Let_def)

theorem snapshots_pass_the_wire_witness: "grid_ok (snapshotGrid '''' [0x61, 0x0d, 0x62] 2 1)"
proof -
  have "small_params '''' [0x61, 0x0d, 0x62] (new_vt 2 1)"
    unfolding small_params_def
  proof (intro allI impI)
    fix k :: nat assume "k \<le> length [0x61, 0x0d, 0x62 :: byte]"
    then have "k = 0 \<or> k = 1 \<or> k = 2 \<or> k = 3" by auto
    moreover have "\<forall>k\<in>{0, 1, 2, 3}. list_all (\<lambda>p. p \<le> 255) (vt_params (vt_write '''' (take k [0x61, 0x0d, 0x62]) (new_vt 2 1)))"
      by code_simp
    ultimately show "list_all (\<lambda>p. p \<le> 255) (vt_params (vt_write '''' (take k [0x61, 0x0d, 0x62]) (new_vt 2 1)))"
      by blast
  qed
  then show ?thesis using snapshots_pass_the_wire [of 2 1 "''''" "[0x61, 0x0d, 0x62]"] by simp
qed

theorem plain_text_is_shown_witness:
  "map (map gc_ch) (gs_cells (snapshot (vt_write '''' [0x68, 0x69] (new_vt 3 1)))) = [[''h'', ''i'', '' '']]"
proof -
  have "vt_shape (new_vt 3 1)" using shaped_new [of 3 1] by (simp add: shaped_def)
  moreover have "vt_mode (new_vt 3 1) = Ground" "list_all printable [0x68, 0x69]" by (simp_all add: new_vt_def printable_def)
  moreover have "vt_cx (new_vt 3 1) = 0" "vt_cy (new_vt 3 1) = 0" "vt_cols (new_vt 3 1) = 3" "vt_grid (new_vt 3 1) = [[blank, blank, blank]]"
    by code_simp+
  moreover have "char_of (104 :: nat) = CHR ''h''" "char_of (105 :: nat) = CHR ''i''" by code_simp+
  ultimately show ?thesis
    using plain_text_is_shown [of "new_vt 3 1" "[0x68, 0x69]"] by (simp add: snapshot_def cell_of_def blank_def)
qed

end
