(* ===== verification/Predictor.thy ===== *)
theory Predictor
  imports Prelude
begin

text \<open>
  Local echo in a terminal pane (\<^verbatim>\<open>web/src/terminal/predictor.ts\<close>): keystrokes are shown before the server has
  echoed them, and what the server sends is reconciled with the predictions in order.

  A cell is the string it holds; the row is the list of its cells.  No cell is ever written as the empty string.
\<close>

section \<open>Rows\<close>

definition DEL :: byte where "DEL = 0x7f"
definition BS :: byte where "BS = 0x08"
definition CR :: byte where "CR = 0x0d"
definition LF :: byte where "LF = 0x0a"
definition ESC :: byte where "ESC = 0x1b"

datatype prediction = PrChar nat string | PrBackspace nat

record overlay =
  ov_cells :: "string list"
  ov_cursor :: nat
  ov_marks :: "nat list"

definition isPrintable :: "byte \<Rightarrow> bool" where
  "isPrintable b \<longleftrightarrow> 0x20 \<le> unat b \<and> unat b \<le> 0x7e"

definition cellAt :: "string list \<Rightarrow> nat \<Rightarrow> string" where
  "cellAt cells i = (if i < length cells \<and> cells ! i \<noteq> '''' then cells ! i else '' '')"

definition setCell :: "nat \<Rightarrow> string \<Rightarrow> string list \<Rightarrow> string list" where
  "setCell i ch cells = (cells @ replicate (Suc i - length cells) '' '')[i := ch]"

definition byte_string :: "byte \<Rightarrow> string" where
  "byte_string b = [char_of (unat b)]"

section \<open>The predictor\<close>

datatype input_state = InGround | InEsc | InCsi

record predictor =
  ep_auth :: "string list"
  ep_authCursor :: nat
  ep_pending :: "prediction list"
  ep_inputState :: input_state

definition new_predictor :: predictor where
  "new_predictor = \<lparr>ep_auth = [], ep_authCursor = 0, ep_pending = [], ep_inputState = InGround\<rparr>"

fun cursor_after :: "prediction \<Rightarrow> nat" where
  "cursor_after (PrChar col ch) = Suc col"
| "cursor_after (PrBackspace col) = col"

definition predictedCursor :: "predictor \<Rightarrow> nat" where
  "predictedCursor p = fold (\<lambda>q _. cursor_after q) (ep_pending p) (ep_authCursor p)"

text \<open>One byte of input, with the local \<^verbatim>\<open>cursor\<close> of the loop.\<close>

definition input_byte :: "byte \<Rightarrow> predictor \<times> nat \<Rightarrow> predictor \<times> nat" where
  "input_byte b = (\<lambda>(p, cursor).
     case ep_inputState p of
       InEsc \<Rightarrow> (p\<lparr>ep_inputState := (if b = 0x5b then InCsi else InGround)\<rparr>, cursor)
     | InCsi \<Rightarrow> ((if 0x40 \<le> unat b \<and> unat b \<le> 0x7e then p\<lparr>ep_inputState := InGround\<rparr> else p), cursor)
     | InGround \<Rightarrow>
         if b = ESC then (p\<lparr>ep_inputState := InEsc\<rparr>, cursor)
         else if isPrintable b then
           (p\<lparr>ep_pending := ep_pending p @ [PrChar cursor (byte_string b)]\<rparr>, Suc cursor)
         else if b = DEL \<or> b = BS then
           (if cursor > 0 then (p\<lparr>ep_pending := ep_pending p @ [PrBackspace (cursor - 1)]\<rparr>, cursor - 1) else (p, cursor))
         else (p, cursor))"

definition overlay :: "predictor \<Rightarrow> overlay" where
  "overlay p =
     fold (\<lambda>q ov. case q of
         PrChar col ch \<Rightarrow> \<lparr>ov_cells = setCell col ch (ov_cells ov), ov_cursor = Suc col, ov_marks = ov_marks ov @ [col]\<rparr>
       | PrBackspace col \<Rightarrow> \<lparr>ov_cells = setCell col '' '' (ov_cells ov), ov_cursor = col, ov_marks = ov_marks ov @ [col]\<rparr>)
       (ep_pending p) \<lparr>ov_cells = ep_auth p, ov_cursor = ep_authCursor p, ov_marks = []\<rparr>"

definition input :: "bytes \<Rightarrow> predictor \<Rightarrow> predictor \<times> overlay" where
  "input bs p = (let p' = fst (fold input_byte bs (p, predictedCursor p)) in (p', overlay p'))"

text \<open>One authoritative byte, with the counters of the loop.\<close>

definition flush :: "predictor \<Rightarrow> predictor" where
  "flush p = p\<lparr>ep_pending := []\<rparr>"

definition advance_row :: "byte \<Rightarrow> predictor \<Rightarrow> predictor" where
  "advance_row b p =
     (if isPrintable b then
        p\<lparr>ep_auth := setCell (ep_authCursor p) (byte_string b) (ep_auth p), ep_authCursor := Suc (ep_authCursor p)\<rparr>
      else if b = DEL then
        p\<lparr>ep_authCursor := ep_authCursor p - 1, ep_auth := setCell (ep_authCursor p - 1) '' '' (ep_auth p)\<rparr>
      else if b = BS then p\<lparr>ep_authCursor := ep_authCursor p - 1\<rparr>
      else if b = CR then p\<lparr>ep_authCursor := 0\<rparr>
      else p)"

definition reconcile_byte :: "byte \<Rightarrow> predictor \<times> nat \<times> bool \<Rightarrow> predictor \<times> nat \<times> bool" where
  "reconcile_byte b = (\<lambda>(p0, confirmed, corrected).
     if b = LF then (p0\<lparr>ep_auth := [], ep_authCursor := 0, ep_pending := []\<rparr>, confirmed, corrected)
     else let p = advance_row b p0 in
       case ep_pending p of
         [] \<Rightarrow> (p, confirmed, corrected)
       | h # rest \<Rightarrow>
           if isPrintable b then
             (if h = PrChar (ep_authCursor p - 1) (byte_string b) then (p\<lparr>ep_pending := rest\<rparr>, Suc confirmed, corrected)
              else (flush p, confirmed, True))
           else if b = DEL \<or> b = BS then
             (if h = PrBackspace (ep_authCursor p) then (p\<lparr>ep_pending := rest\<rparr>, Suc confirmed, corrected)
              else (flush p, confirmed, True))
           else (p, confirmed, corrected))"

record reconcile_result =
  rr_overlay :: overlay
  rr_confirmed :: nat
  rr_corrected :: bool

definition reconcile :: "bytes \<Rightarrow> predictor \<Rightarrow> predictor \<times> reconcile_result" where
  "reconcile bs p =
     (let (p', confirmed, corrected) = fold reconcile_byte bs (p, 0, False)
      in (p', \<lparr>rr_overlay = overlay p', rr_confirmed = confirmed, rr_corrected = corrected\<rparr>))"

definition trimEnd :: "string \<Rightarrow> string" where
  "trimEnd s = rev (dropWhile (\<lambda>c. c = CHR '' '') (rev s))"

definition row_text :: "string list \<Rightarrow> string" where
  "row_text cells = trimEnd (concat (map (\<lambda>c. if c = '''' then '' '' else c) cells))"

definition predictedText :: "predictor \<Rightarrow> string" where
  "predictedText p = row_text (ov_cells (overlay p))"

definition authoritativeText :: "predictor \<Rightarrow> string" where
  "authoritativeText p = row_text (ep_auth p)"

section \<open>Predictions never reach the row\<close>

datatype echo_event = Typed bytes | Received bytes

fun echo_step :: "predictor \<Rightarrow> echo_event \<Rightarrow> predictor" where
  "echo_step p (Typed bs) = fst (input bs p)"
| "echo_step p (Received bs) = fst (reconcile bs p)"

fun received :: "echo_event \<Rightarrow> bytes" where
  "received (Typed bs) = []"
| "received (Received bs) = bs"

text \<open>The row as the server's bytes alone make it.\<close>

definition row_step :: "byte \<Rightarrow> string list \<times> nat \<Rightarrow> string list \<times> nat" where
  "row_step b = (\<lambda>(cells, c).
     if isPrintable b then (setCell c (byte_string b) cells, Suc c)
     else if b = DEL then (setCell (c - 1) '' '' cells, c - 1)
     else if b = BS then (cells, c - 1)
     else if b = CR then (cells, 0)
     else if b = LF then ([], 0)
     else (cells, c))"

definition row_of :: "predictor \<Rightarrow> string list \<times> nat" where
  "row_of p = (ep_auth p, ep_authCursor p)"

lemma control_bytes: "\<not> isPrintable DEL" "\<not> isPrintable BS" "\<not> isPrintable CR" "\<not> isPrintable LF" "\<not> isPrintable ESC"
  "LF \<noteq> DEL" "LF \<noteq> BS" "LF \<noteq> CR" "DEL \<noteq> BS" "BS \<noteq> DEL" "DEL \<noteq> LF" "BS \<noteq> LF" "CR \<noteq> LF" "ESC \<noteq> BS" "ESC \<noteq> DEL"
  by (simp_all add: isPrintable_def DEL_def BS_def CR_def LF_def ESC_def)

lemma reconcile_byte_row: "row_of (fst (reconcile_byte b s)) = row_step b (row_of (fst s))"
  using control_bytes
  by (cases s) (auto simp: reconcile_byte_def row_step_def row_of_def advance_row_def flush_def Let_def split: list.split)

lemma reconcile_row: "row_of (fst (reconcile bs p)) = fold row_step bs (row_of p)"
proof -
  have "row_of (fst (fold reconcile_byte bs s)) = fold row_step bs (row_of (fst s))" for s
    by (induction bs arbitrary: s) (simp_all add: reconcile_byte_row)
  from this [of "(p, 0, False)"] show ?thesis
    by (cases "fold reconcile_byte bs (p, 0, False)") (simp add: reconcile_def)
qed

lemma input_row: "row_of (fst (input bs p)) = row_of p"
proof -
  have "row_of (fst (fold input_byte bs s)) = row_of (fst s)" for s
  proof (induction bs arbitrary: s)
    case (Cons b bs)
    have "row_of (fst (input_byte b s)) = row_of (fst s)"
      by (cases s) (simp add: input_byte_def row_of_def split: input_state.split)
    then show ?case using Cons by simp
  qed simp
  from this [of "(p, predictedCursor p)"] show ?thesis by (simp add: input_def Let_def)
qed

text \<open>Mispredictions leave nothing behind.  However typing and output interleave, the confirmed row and cursor are
  those the server's bytes alone produce, and as soon as no prediction is outstanding the row that is shown
  is that row, with nothing marked.\<close>

theorem mispredictions_leave_nothing:
  "row_of (foldl echo_step p es) = fold row_step (concat (map received es)) (row_of p)
   \<and> overlay (q\<lparr>ep_pending := []\<rparr>) = \<lparr>ov_cells = ep_auth q, ov_cursor = ep_authCursor q, ov_marks = []\<rparr>"
proof
  show "row_of (foldl echo_step p es) = fold row_step (concat (map received es)) (row_of p)"
  proof (induction es arbitrary: p)
    case (Cons e es)
    then show ?case by (cases e) (simp_all add: input_row reconcile_row)
  qed simp
qed (simp add: overlay_def)

section \<open>An honest echo is invisible\<close>

text \<open>The predictions follow one another from the confirmed cursor on.\<close>

fun path :: "nat \<Rightarrow> prediction list \<Rightarrow> bool" where
  "path c [] \<longleftrightarrow> True"
| "path c (PrChar col ch # qs) \<longleftrightarrow> col = c \<and> (\<exists>b. isPrintable b \<and> ch = byte_string b) \<and> path (Suc c) qs"
| "path c (PrBackspace col # qs) \<longleftrightarrow> 0 < c \<and> col = c - 1 \<and> path (c - 1) qs"

definition on_path :: "predictor \<Rightarrow> bool" where
  "on_path p \<longleftrightarrow> path (ep_authCursor p) (ep_pending p)"

text \<open>The byte with which a server that erases echoes a keystroke.\<close>

fun echo_of :: "prediction \<Rightarrow> byte" where
  "echo_of (PrChar col ch) = word_of_nat (of_char (hd ch))"
| "echo_of (PrBackspace col) = DEL"

abbreviation end_of :: "nat \<Rightarrow> prediction list \<Rightarrow> nat" where
  "end_of c qs \<equiv> fold (\<lambda>q _. cursor_after q) qs c"

lemma path_append: "path c (qs @ rs) \<longleftrightarrow> path c qs \<and> path (end_of c qs) rs"
  by (induction c qs rule: path.induct) auto

lemma echo_printable: "isPrintable b \<Longrightarrow> echo_of (PrChar col (byte_string b)) = b"
  by (simp add: byte_string_def isPrintable_def)

lemma input_byte_path:
  assumes "on_path p" "cursor = predictedCursor p"
  shows "on_path (fst (input_byte b (p, cursor))) \<and> snd (input_byte b (p, cursor)) = predictedCursor (fst (input_byte b (p, cursor)))"
  using assms
  by (auto simp: input_byte_def on_path_def predictedCursor_def path_append split: input_state.split)

lemma input_path: "on_path p \<Longrightarrow> on_path (fst (input bs p))"
proof -
  assume "on_path p"
  have "on_path (fst (fold input_byte bs s))" if "on_path (fst s)" "snd s = predictedCursor (fst s)" for s
    using that
  proof (induction bs arbitrary: s)
    case (Cons b bs)
    obtain p c where s: "s = (p, c)" by (cases s)
    show ?case
      using input_byte_path [of p c b] Cons.IH [of "input_byte b s"] Cons.prems by (simp add: s)
  qed simp
  then show ?thesis using \<open>on_path p\<close> by (simp add: input_def Let_def)
qed

text \<open>One keystroke is echoed: its prediction is confirmed and nothing that is shown changes.\<close>

definition shown_row :: "predictor \<Rightarrow> string list \<times> nat" where
  "shown_row p = (ov_cells (overlay p), ov_cursor (overlay p))"

definition apply_prediction :: "prediction \<Rightarrow> string list \<times> nat \<Rightarrow> string list \<times> nat" where
  "apply_prediction q = (\<lambda>(cells, c). case q of
     PrChar col ch \<Rightarrow> (setCell col ch cells, Suc col) | PrBackspace col \<Rightarrow> (setCell col '' '' cells, col))"

lemma shown_fold: "shown_row p = fold apply_prediction (ep_pending p) (ep_auth p, ep_authCursor p)"
proof -
  let ?f = "\<lambda>q ov. case q of
         PrChar col ch \<Rightarrow> \<lparr>ov_cells = setCell col ch (ov_cells ov), ov_cursor = Suc col, ov_marks = ov_marks ov @ [col]\<rparr>
       | PrBackspace col \<Rightarrow> \<lparr>ov_cells = setCell col '' '' (ov_cells ov), ov_cursor = col, ov_marks = ov_marks ov @ [col]\<rparr>"
  have "(ov_cells (fold ?f qs ov), ov_cursor (fold ?f qs ov)) = fold apply_prediction qs (ov_cells ov, ov_cursor ov)" for qs ov
  proof (induction qs arbitrary: ov)
    case (Cons q qs)
    then show ?case by (cases q) (simp_all add: apply_prediction_def)
  qed simp
  from this [of "ep_pending p" "\<lparr>ov_cells = ep_auth p, ov_cursor = ep_authCursor p, ov_marks = []\<rparr>"]
  show ?thesis by (simp add: shown_row_def overlay_def)
qed

lemma echo_confirms:
  assumes "on_path p" "ep_pending p = q # rest"
  shows "\<exists>p'. reconcile_byte (echo_of q) (p, n, corrected) = (p', Suc n, corrected)
    \<and> ep_pending p' = rest \<and> on_path p' \<and> shown_row p' = shown_row p \<and> ep_inputState p' = ep_inputState p"
proof (cases q)
  case (PrChar col ch)
  then obtain b where b: "isPrintable b" "ch = byte_string b" "col = ep_authCursor p" "path (Suc (ep_authCursor p)) rest"
    using assms by (auto simp: on_path_def)
  then have "b \<noteq> LF" using control_bytes by auto
  then show ?thesis
    using b PrChar assms(2) echo_printable [OF b(1), of col]
    by (simp add: reconcile_byte_def advance_row_def Let_def shown_fold on_path_def apply_prediction_def)
next
  case (PrBackspace col)
  then have "0 < ep_authCursor p" "col = ep_authCursor p - 1" "path (ep_authCursor p - 1) rest"
    using assms by (auto simp: on_path_def)
  then show ?thesis
    using PrBackspace assms(2) control_bytes
    by (simp add: reconcile_byte_def advance_row_def Let_def shown_fold on_path_def apply_prediction_def)
qed

text \<open>C33: An honest echo is invisible.  While the predictions follow one another, as they do from the start and
  through any typing, a server that echoes the oldest \<open>n\<close> of them, in any batches, confirms exactly these,
  corrects nothing, and changes neither the row nor the cursor on the screen.\<close>

theorem honest_echo_is_invisible:
  assumes "on_path p" "n \<le> length (ep_pending p)"
  shows "let (p', r) = reconcile (map echo_of (take n (ep_pending p))) p in
     rr_confirmed r = n \<and> \<not> rr_corrected r \<and> ep_pending p' = drop n (ep_pending p) \<and> on_path p' \<and> shown_row p' = shown_row p
     \<and> on_path (fst (input bs p'))"
proof -
  have "\<exists>p'. fold reconcile_byte (map echo_of (take n (ep_pending p))) (p, k, False) = (p', k + n, False)
      \<and> ep_pending p' = drop n (ep_pending p) \<and> on_path p' \<and> shown_row p' = shown_row p" for k
    using assms
  proof (induction n arbitrary: p k)
    case (Suc n)
    then obtain q rest where q: "ep_pending p = q # rest" by (cases "ep_pending p") auto
    obtain p1 where p1: "reconcile_byte (echo_of q) (p, k, False) = (p1, Suc k, False)" "ep_pending p1 = rest"
      "on_path p1" "shown_row p1 = shown_row p"
      using echo_confirms [OF Suc.prems(1) q, of k False] by blast
    have "n \<le> length (ep_pending p1)" using Suc.prems(2) by (simp add: q p1(2))
    from Suc.IH [OF p1(3) this, of "Suc k"] show ?case by (simp add: q p1)
  qed simp
  from this [of 0] obtain p' where
    "fold reconcile_byte (map echo_of (take n (ep_pending p))) (p, 0, False) = (p', n, False)"
    "ep_pending p' = drop n (ep_pending p)" "on_path p'" "shown_row p' = shown_row p" by auto
  then show ?thesis by (simp add: reconcile_def input_path)
qed

theorem honest_echo_is_invisible_witness:
  "fst (snd (fold reconcile_byte [0x61] (fst (input [0x61, 0x7f] new_predictor), 0, False))) = 1
   \<and> rr_confirmed (snd (reconcile [0x61] (fst (input [0x61, 0x7f] new_predictor)))) = 1"
proof -
  let ?p = "fst (input [0x61, 0x7f] new_predictor)"
  have p: "ep_pending ?p = [PrChar 0 ''a'', PrBackspace 0]" by code_simp
  have "on_path new_predictor" by (simp add: on_path_def new_predictor_def)
  then have "on_path ?p" by (rule input_path)
  from honest_echo_is_invisible [OF this, of 1] have "rr_confirmed (snd (reconcile [0x61] ?p)) = 1"
    by (cases "reconcile [0x61] ?p") (simp add: p)
  moreover have "fst (snd (fold reconcile_byte [0x61] (?p, 0, False))) = 1" by code_simp
  ultimately show ?thesis by simp
qed

text \<open>A terminal line erases with backspace, space, backspace.  The space is taken for the echo of the key that was
  typed next, and that prediction is dropped as wrong.\<close>

lemma tty_erase_is_a_misprediction:
  "rr_corrected (snd (reconcile [0x61, BS, 0x20, BS, 0x62] (fst (input [0x61, DEL, 0x62] new_predictor))))"
  by code_simp

end
