(* ===== verification/SignIn.thy ===== *)
theory SignIn
  imports AuthConfig
begin

text \<open>
  The gate of the web client: the machine that decides between the app and the sign-in screen
  (\<^verbatim>\<open>web/src/auth/machine.ts\<close>), the hook that drives it (\<^verbatim>\<open>gate.ts\<close>) and the classification of a failed
  ceremony (\<^verbatim>\<open>webauthn.ts\<close>).

  An error is its code.  A state of the hook is one between renders: what a handler dispatches is rendered, and its
  effects run, before the next event (\<^verbatim>\<open>live.current\<close> is the state itself).  A request of the API that never settles
  is one whose event does not come.
\<close>

section \<open>The machine\<close>

record account =
  at_id :: string
  at_email :: string
  at_name :: "string option"

datatype auth_code = AeCancelled | AeUnsupported | AeRejected | AeSessionExpired | AeUnknown
datatype auth_status = Unknown | SignedOut | SigningIn | SignedIn
datatype ceremony = NoCeremony | Register | Authenticate

record auth_state =
  as_status :: auth_status
  as_account :: "account option"
  as_error :: "auth_code option"
  as_ceremony :: ceremony
  as_supported :: bool
  as_conditional :: bool

datatype auth_event =
    AvCapabilities bool bool
  | AvSession "account option"
  | AvCeremonyStart ceremony
  | AvCeremonyCancelled
  | AvCeremonyFailed auth_code
  | AvSignedIn account
  | AvSignedOut
  | AvSessionExpired

definition CANCELLED :: auth_code where "CANCELLED = AeCancelled"
definition EXPIRED :: auth_code where "EXPIRED = AeSessionExpired"
definition TIMED_OUT :: auth_code where "TIMED_OUT = AeUnknown"
definition UNSUPPORTED :: auth_code where "UNSUPPORTED = AeUnsupported"

definition initialAuthState :: auth_state where
  "initialAuthState =
     \<lparr>as_status = Unknown, as_account = None, as_error = None, as_ceremony = NoCeremony, as_supported = True, as_conditional = False\<rparr>"

definition signedOut :: "auth_state \<Rightarrow> auth_code option \<Rightarrow> auth_state" where
  "signedOut s e = s\<lparr>as_status := SignedOut, as_account := None, as_error := e, as_ceremony := NoCeremony\<rparr>"

definition enter :: "account \<Rightarrow> auth_state \<Rightarrow> auth_state" where
  "enter a s = s\<lparr>as_status := SignedIn, as_account := Some a, as_error := None, as_ceremony := NoCeremony\<rparr>"

fun authReducer :: "auth_state \<Rightarrow> auth_event \<Rightarrow> auth_state" where
  "authReducer s (AvCapabilities can cond) = s\<lparr>as_supported := can, as_conditional := cond\<rparr>"
| "authReducer s (AvSession acc) =
     (if as_status s = SigningIn then s
      else case acc of
        Some a \<Rightarrow> enter a s
      | None \<Rightarrow> if as_status s = SignedIn then s else signedOut s (as_error s))"
| "authReducer s (AvCeremonyStart kind) =
     (if as_status s \<noteq> SignedOut then s
      else if \<not> as_supported s then s\<lparr>as_error := Some UNSUPPORTED, as_ceremony := NoCeremony\<rparr>
      else s\<lparr>as_status := SigningIn, as_ceremony := kind, as_error := None\<rparr>)"
| "authReducer s AvCeremonyCancelled = (if as_status s \<noteq> SigningIn then s else signedOut s (Some CANCELLED))"
| "authReducer s (AvCeremonyFailed e) = (if as_status s \<noteq> SigningIn then s else signedOut s (Some e))"
| "authReducer s (AvSignedIn a) = enter a s"
| "authReducer s AvSignedOut = signedOut s None"
| "authReducer s AvSessionExpired = (if as_status s \<noteq> SignedIn then s else signedOut s (Some EXPIRED))"

datatype gate_view = ViewBootstrap | ViewSignIn | ViewApp

definition gateView :: "auth_state \<Rightarrow> gate_view" where
  "gateView s = (if as_status s = Unknown then ViewBootstrap else if as_status s = SignedIn then ViewApp else ViewSignIn)"

section \<open>Failures of a ceremony\<close>

record client_error =
  ce_code :: "string option"
  ce_message :: "string option"
  ce_status :: "int option"

definition CANCEL_CODES :: "string list" where
  "CANCEL_CODES = [''cancelled'', ''AUTH_CANCELLED'', ''REGISTRATION_CANCELLED'', ''ERROR_CEREMONY_ABORTED'', ''NotAllowedError'', ''AbortError'']"

definition contains_text :: "string \<Rightarrow> string \<Rightarrow> bool" where
  "contains_text s t \<longleftrightarrow> list_ex (\<lambda>i. starts_with (drop i s) t) [0..<Suc (length s)]"

definition isCancellation :: "client_error option \<Rightarrow> bool" where
  "isCancellation err =
     (case err of
        None \<Rightarrow> False
      | Some e \<Rightarrow>
          (case ce_code e of Some c \<Rightarrow> c \<in> set CANCEL_CODES | None \<Rightarrow> False)
          \<or> list_ex (contains_text (js_lower (or_else (ce_message e) ''''))) [''cancel'', ''abort'', ''not allowed'', ''timed out''])"

definition toAuthError :: "client_error option \<Rightarrow> auth_code" where
  "toAuthError err =
     (if isCancellation err then AeCancelled
      else let status = (case Option.bind err ce_status of None \<Rightarrow> 0 | Some n \<Rightarrow> n)
           in if 400 \<le> status \<and> status < 500 then AeRejected else AeUnknown)"

section \<open>The hook\<close>

datatype boot = Probing | Reading | Booted

text \<open>A ceremony in flight: its generation, and whether its timer is still set.\<close>

record gate =
  ga_state :: auth_state
  ga_boot :: boot
  ga_gen :: nat
  ga_flights :: "(nat \<times> bool) list"
  ga_autofill :: bool
  ga_wasSignedIn :: bool
  ga_sessionEnds :: nat

definition new_gate :: gate where
  "new_gate = \<lparr>ga_state = initialAuthState, ga_boot = Probing, ga_gen = 0, ga_flights = [], ga_autofill = False,
     ga_wasSignedIn = False, ga_sessionEnds = 0\<rparr>"

datatype gate_event =
    GeProbed bool bool
  | GeSession "account option"
  | GeStart ceremony
  | GeTimer nat
  | GeSettled nat "client_error option + account"
  | GeCancel
  | GeSignOut
  | GeUnauthorized
  | GeAutofill "client_error + account"

definition send :: "auth_event \<Rightarrow> gate \<Rightarrow> gate" where
  "send e g = g\<lparr>ga_state := authReducer (ga_state g) e\<rparr>"

definition runCeremony :: "ceremony \<Rightarrow> gate \<Rightarrow> gate" where
  "runCeremony kind g =
     (if as_status (ga_state g) = SigningIn then g
      else let supported = as_supported (ga_state g); g1 = send (AvCeremonyStart kind) g
           in if \<not> supported then g1
              else g1\<lparr>ga_gen := Suc (ga_gen g1), ga_flights := ga_flights g1 @ [(Suc (ga_gen g1), True)]\<rparr>)"

definition ceremony_timer :: "nat \<Rightarrow> gate \<Rightarrow> gate" where
  "ceremony_timer n g =
     (if (n, True) \<notin> set (ga_flights g) then g
      else let g1 = g\<lparr>ga_flights := map (\<lambda>f. if fst f = n then (n, False) else f) (ga_flights g)\<rparr>
           in if ga_gen g1 \<noteq> n then g1
              else send (AvCeremonyFailed TIMED_OUT) (g1\<lparr>ga_gen := Suc (ga_gen g1)\<rparr>))"

definition ceremony_settled :: "nat \<Rightarrow> client_error option + account \<Rightarrow> gate \<Rightarrow> gate" where
  "ceremony_settled n res g =
     (if n \<notin> fst ` set (ga_flights g) then g
      else let g1 = g\<lparr>ga_flights := filter (\<lambda>f. fst f \<noteq> n) (ga_flights g)\<rparr> in
        case res of
          Inr a \<Rightarrow> send (AvSignedIn a) g1
        | Inl err \<Rightarrow>
            if ga_gen g1 \<noteq> n then g1
            else if toAuthError err = AeCancelled then send AvCeremonyCancelled g1
            else send (AvCeremonyFailed (toAuthError err)) g1)"

definition cancelCeremony :: "gate \<Rightarrow> gate" where
  "cancelCeremony g =
     (if as_status (ga_state g) \<noteq> SigningIn then g
      else send AvCeremonyCancelled (g\<lparr>ga_gen := Suc (ga_gen g)\<rparr>))"

definition gate_handle :: "gate_event \<Rightarrow> gate \<Rightarrow> gate" where
  "gate_handle e g =
     (case e of
        GeProbed can cond \<Rightarrow> if ga_boot g \<noteq> Probing then g else send (AvCapabilities can cond) (g\<lparr>ga_boot := Reading\<rparr>)
      | GeSession acc \<Rightarrow> if ga_boot g \<noteq> Reading then g else send (AvSession acc) (g\<lparr>ga_boot := Booted\<rparr>)
      | GeStart kind \<Rightarrow> runCeremony kind g
      | GeTimer n \<Rightarrow> ceremony_timer n g
      | GeSettled n res \<Rightarrow> ceremony_settled n res g
      | GeCancel \<Rightarrow> cancelCeremony g
      | GeSignOut \<Rightarrow> send AvSignedOut g
      | GeUnauthorized \<Rightarrow> send AvSessionExpired g
      | GeAutofill res \<Rightarrow>
          if \<not> ga_autofill g then g
          else (case res of Inl _ \<Rightarrow> g | Inr a \<Rightarrow> send (AvSignedIn a) g))"

text \<open>The effects of a render: the session that ended, and the conditional request, which is live as long as both
  of its conditions hold.\<close>

definition render :: "gate \<Rightarrow> gate" where
  "render g =
     (let s = ga_state g;
          g1 = (if as_status s = SignedIn then g\<lparr>ga_wasSignedIn := True\<rparr>
                else if as_status s = SignedOut \<and> ga_wasSignedIn g
                then g\<lparr>ga_wasSignedIn := False, ga_sessionEnds := Suc (ga_sessionEnds g)\<rparr> else g)
      in g1\<lparr>ga_autofill := (as_status s = SignedOut \<and> as_conditional s \<and> as_supported s)\<rparr>)"

definition gate_step :: "gate \<Rightarrow> gate_event \<Rightarrow> gate" where
  "gate_step g e = render (gate_handle e g)"

section \<open>The gate is consistent\<close>

definition state_ok :: "auth_state \<Rightarrow> bool" where
  "state_ok s \<longleftrightarrow> (as_account s \<noteq> None \<longleftrightarrow> as_status s = SignedIn)
     \<and> (as_status s \<noteq> SigningIn \<longrightarrow> as_ceremony s = NoCeremony)
     \<and> (as_error s \<noteq> None \<longrightarrow> as_status s = SignedOut)"

definition gate_ok :: "gate \<Rightarrow> bool" where
  "gate_ok g \<longleftrightarrow> state_ok (ga_state g)
     \<and> (as_status (ga_state g) = SigningIn \<longrightarrow> (ga_gen g, True) \<in> set (ga_flights g))
     \<and> (\<forall>f\<in>set (ga_flights g). fst f \<le> ga_gen g)
     \<and> (ga_wasSignedIn g \<longleftrightarrow> as_status (ga_state g) = SignedIn)"

text \<open>The part that holds before the effects of the render have run.\<close>

definition handled_ok :: "gate \<Rightarrow> bool" where
  "handled_ok g \<longleftrightarrow> state_ok (ga_state g)
     \<and> (as_status (ga_state g) = SigningIn \<longrightarrow> (ga_gen g, True) \<in> set (ga_flights g))
     \<and> (\<forall>f\<in>set (ga_flights g). fst f \<le> ga_gen g)
     \<and> (ga_wasSignedIn g \<longrightarrow> as_status (ga_state g) \<in> {SignedIn, SignedOut})"

lemma reducer_ok: "state_ok s \<Longrightarrow> state_ok (authReducer s e)"
  by (cases e) (auto simp: state_ok_def signedOut_def enter_def split: option.splits)

lemma render_ok: "handled_ok g \<Longrightarrow> gate_ok (render g)"
  by (cases "as_status (ga_state g)") (auto simp: handled_ok_def gate_ok_def render_def Let_def)

text \<open>The events that leave the generation and the flights alone.\<close>

lemma send_ok:
  assumes "gate_ok g" "as_status (authReducer (ga_state g) e) = SigningIn \<Longrightarrow> as_status (ga_state g) = SigningIn"
    "as_status (ga_state g) = SignedIn \<Longrightarrow> as_status (authReducer (ga_state g) e) \<in> {SignedIn, SignedOut}"
  shows "handled_ok (send e g)"
  using assms reducer_ok [of "ga_state g" e] by (auto simp: handled_ok_def gate_ok_def send_def)

lemmas reducer_cases = send_def signedOut_def enter_def gate_ok_def handled_ok_def

lemma start_ok: "gate_ok g \<Longrightarrow> handled_ok (runCeremony kind g)"
  using reducer_ok [of "ga_state g" "AvCeremonyStart kind"]
  by (auto simp: runCeremony_def Let_def reducer_cases le_Suc_eq)

lemma timer_ok: "gate_ok g \<Longrightarrow> handled_ok (ceremony_timer n g)"
  using reducer_ok [of "ga_state g" "AvCeremonyFailed TIMED_OUT"]
  by (auto simp: ceremony_timer_def Let_def reducer_cases image_iff intro: le_SucI)

lemma settled_ok: "gate_ok g \<Longrightarrow> handled_ok (ceremony_settled n res g)"
proof -
  assume g: "gate_ok g"
  have "state_ok (authReducer (ga_state g) e)" for e using g reducer_ok by (simp add: gate_ok_def)
  then have "state_ok (authReducer (ga_state g) (AvSignedIn a))" "state_ok (authReducer (ga_state g) AvCeremonyCancelled)"
    "state_ok (authReducer (ga_state g) (AvCeremonyFailed c))" for a c by blast+
  then show ?thesis using g
    by (cases res) (auto simp: ceremony_settled_def Let_def reducer_cases)
qed

lemma cancel_ok: "gate_ok g \<Longrightarrow> handled_ok (cancelCeremony g)"
  using reducer_ok [of "ga_state g" AvCeremonyCancelled]
  by (auto simp: cancelCeremony_def reducer_cases intro: le_SucI)

lemma gate_keep_ok: "gate_ok g \<Longrightarrow> handled_ok g"
  by (auto simp: gate_ok_def handled_ok_def)

lemma boot_ok: "gate_ok (g\<lparr>ga_boot := b\<rparr>) = gate_ok g"
  by (simp add: gate_ok_def)

lemma handle_ok: "gate_ok g \<Longrightarrow> handled_ok (gate_handle e g)"
proof (cases e)
  case (GeProbed can cond)
  assume "gate_ok g"
  then show ?thesis
    by (auto simp: gate_handle_def GeProbed gate_keep_ok boot_ok intro!: send_ok)
next
  case (GeSession acc)
  assume "gate_ok g"
  then show ?thesis
    by (auto simp: gate_handle_def GeSession gate_keep_ok boot_ok signedOut_def enter_def intro!: send_ok split: option.splits if_splits)
next
  case (GeAutofill res)
  assume "gate_ok g"
  then show ?thesis
    by (auto simp: gate_handle_def GeAutofill gate_keep_ok enter_def intro!: send_ok split: sum.splits)
qed (auto simp: gate_handle_def start_ok timer_ok settled_ok cancel_ok signedOut_def intro!: send_ok split: if_splits)

lemma new_gate_ok: "gate_ok new_gate"
  by (simp add: gate_ok_def state_ok_def new_gate_def initialAuthState_def)

text \<open>C34: The gate is consistent.  After any events, in any order, the app is shown exactly when there is an account;
  a ceremony is announced only while one is under way and an error only on the sign-in screen; and a ceremony
  that is under way has its timer set, so that it ends without an answer too: when the timer fires the screen
  is back with an error.\<close>

theorem gate_is_consistent:
  "let g = foldl gate_step new_gate es; s = ga_state g in
     (gateView s = ViewApp \<longleftrightarrow> as_account s \<noteq> None)
     \<and> (as_status s = SigningIn \<or> as_ceremony s = NoCeremony)
     \<and> (as_error s = None \<or> gateView s = ViewSignIn)
     \<and> (gateView s = ViewApp \<longleftrightarrow> ga_wasSignedIn g)
     \<and> (as_status s \<noteq> SigningIn
         \<or> ga_state (gate_step g (GeTimer (ga_gen g))) = signedOut s (Some TIMED_OUT))"
proof -
  have ok: "gate_ok (foldl gate_step g es)" if "gate_ok g" for g
    using that by (induction es arbitrary: g) (simp_all add: gate_step_def handle_ok render_ok)
  define g where "g = foldl gate_step new_gate es"
  have g: "gate_ok g" unfolding g_def by (rule ok [OF new_gate_ok])
  have state: "ga_state (render h) = ga_state h" for h by (simp add: render_def Let_def)
  have "as_status (ga_state g) = SigningIn \<Longrightarrow>
      ga_state (gate_step g (GeTimer (ga_gen g))) = signedOut (ga_state g) (Some TIMED_OUT)"
    using g by (auto simp: gate_step_def state gate_handle_def ceremony_timer_def gate_ok_def send_def Let_def)
  then show ?thesis
    using g unfolding Let_def g_def [symmetric] by (auto simp: gate_ok_def state_ok_def gateView_def)
qed

text \<open>A stale ceremony cannot clobber a fresh one.  From the moment a ceremony is cancelled or its time has run out,
  whatever happens next, its failure changes neither the state nor the view.\<close>

theorem stale_failures_are_ignored:
  assumes "gate_ok g" "as_status (ga_state g) = SigningIn" "e = GeCancel \<or> e = GeTimer (ga_gen g)"
  shows "let g' = foldl gate_step (gate_step g e) es in
     ga_state (gate_step g' (GeSettled (ga_gen g) (Inl err))) = ga_state g'"
proof -
  have state: "ga_state (render h) = ga_state h" "ga_gen (render h) = ga_gen h" for h by (simp_all add: render_def Let_def)
  have mono: "ga_gen h \<le> ga_gen (gate_step h e')" for h e'
    by (cases e') (auto simp: gate_step_def state gate_handle_def send_def runCeremony_def ceremony_timer_def ceremony_settled_def
        cancelCeremony_def Let_def split: sum.splits)
  have "ga_gen g < ga_gen (gate_step g e)"
    using assms by (auto simp: gate_step_def state gate_handle_def cancelCeremony_def ceremony_timer_def send_def gate_ok_def Let_def)
  moreover have "ga_gen h \<le> ga_gen (foldl gate_step h es)" for h
    by (induction es arbitrary: h) (use mono order_trans in \<open>simp, fastforce\<close>)
  ultimately have "ga_gen g < ga_gen (foldl gate_step (gate_step g e) es)" using order_less_le_trans by blast
  then show ?thesis
    by (simp add: Let_def gate_step_def state gate_handle_def ceremony_settled_def)
qed

definition demo_gate :: gate where
  "demo_gate = foldl gate_step new_gate [GeProbed True False, GeSession None, GeStart Register]"

theorem gate_is_consistent_witness:
  "as_status (ga_state demo_gate) = SigningIn
   \<and> ga_state (gate_step demo_gate (GeTimer (ga_gen demo_gate))) = signedOut (ga_state demo_gate) (Some TIMED_OUT)"
proof -
  have busy: "as_status (ga_state demo_gate) = SigningIn" by code_simp
  then show ?thesis
    using gate_is_consistent [of "[GeProbed True False, GeSession None, GeStart Register]", folded demo_gate_def]
    unfolding Let_def by blast
qed

theorem stale_failures_are_ignored_witness:
  "ga_state (gate_step (foldl gate_step (gate_step demo_gate GeCancel) [GeStart Authenticate]) (GeSettled 1 (Inl None)))
     = ga_state (foldl gate_step (gate_step demo_gate GeCancel) [GeStart Authenticate])"
proof -
  have "gate_ok demo_gate"
    unfolding demo_gate_def by (simp add: gate_step_def handle_ok render_ok new_gate_ok)
  moreover have "as_status (ga_state demo_gate) = SigningIn" "ga_gen demo_gate = 1" by code_simp+
  ultimately show ?thesis
    using stale_failures_are_ignored [of demo_gate GeCancel "[GeStart Authenticate]" None] by (simp add: Let_def)
qed

end
