(* ===== verification/Notices.thy ===== *)
theory Notices
  imports Gateway
begin

text \<open>
  Notices of a workspace: waking a computer on demand and following a refusal (\<^verbatim>\<open>web/src/lifecycle/wake.ts\<close>,
  \<^verbatim>\<open>web/src/api/client.ts\<close> \<open>wakeComputer\<close>), and the incidents that are still to be shown
  (\<^verbatim>\<open>web/src/lifecycle/incidents.ts\<close>).

  The body of a response is already decoded, its fields of the wrong type absent.  A request is in flight from
  the moment it is made until its answer, and every interleaving of answers, timers and clicks is a list of
  events.
\<close>

section \<open>The answer of the wake route\<close>

record wake_body =
  wb_state :: "string option"
  wb_epoch :: "nat option"
  wb_error :: "string option"
  wb_retrying :: "bool option"
  wb_retryAt :: "time option"

datatype client_wake =
    OutOk string "nat option"
  | OutRetrying string "time option" string
  | OutRefused "string option" string

text \<open>\<^verbatim>\<open>res.ok\<close>.\<close>

definition http_ok :: "nat \<Rightarrow> bool" where
  "http_ok status \<longleftrightarrow> 200 \<le> status \<and> status \<le> 299"

text \<open>\<open>None\<close> is an \<^verbatim>\<open>ApiError\<close>.\<close>

definition wakeComputer :: "nat \<Rightarrow> wake_body \<Rightarrow> client_wake option" where
  "wakeComputer status body =
     (if status = 401 \<or> status = 404 then None
      else if http_ok status then Some (OutOk (or_else (wb_state body) ''waking'') (wb_epoch body))
      else if status = 202 \<or> wb_retrying body = Some True
      then Some (OutRetrying (or_else (wb_state body) ''cold'') (wb_retryAt body) (or_else (wb_error body) ''wake_retrying''))
      else Some (OutRefused (wb_state body) (or_else (wb_error body) ''wake_failed'')))"

section \<open>The store of notices\<close>

datatype wake_notice =
    Retrying (wn_error: string) (wn_retryAt: "time option") (wn_attempts: nat)
  | Refused (wn_error: string) (wn_attempts: nat)

definition MIN_RETRY_DELAY_MS :: int where "MIN_RETRY_DELAY_MS = 2000"
definition DEFAULT_RETRY_DELAY_MS :: int where "DEFAULT_RETRY_DELAY_MS = 15000"

text \<open>A timer is the time it is due; the requests in flight are the computers they ask for.\<close>

record wake_store =
  ws_notices :: "(string \<times> wake_notice) list"
  ws_timers :: "(string \<times> time) list"
  ws_flights :: "string list"

definition new_wake_store :: wake_store where
  "new_wake_store = \<lparr>ws_notices = [], ws_timers = [], ws_flights = []\<rparr>"

definition clear_notice :: "string \<Rightarrow> wake_store \<Rightarrow> wake_store" where
  "clear_notice c s = s\<lparr>ws_timers := AList.delete c (ws_timers s), ws_notices := AList.delete c (ws_notices s)\<rparr>"

definition resetWakeNotices :: "wake_store \<Rightarrow> wake_store" where
  "resetWakeNotices s = s\<lparr>ws_timers := [], ws_notices := []\<rparr>"

definition requestWake :: "string \<Rightarrow> wake_store \<Rightarrow> wake_store" where
  "requestWake c s = s\<lparr>ws_flights := ws_flights s @ [c]\<rparr>"

definition retry_delay :: "time option \<Rightarrow> time \<Rightarrow> int" where
  "retry_delay retryAt now =
     max MIN_RETRY_DELAY_MS (case retryAt of Some t \<Rightarrow> t - now | None \<Rightarrow> DEFAULT_RETRY_DELAY_MS)"

text \<open>The rest of \<open>requestWake\<close>, once the answer is there; \<open>None\<close> is a transport failure.\<close>

definition wake_answered :: "string \<Rightarrow> client_wake option \<Rightarrow> time \<Rightarrow> wake_store \<Rightarrow> wake_store" where
  "wake_answered c out now s0 =
     (if c \<notin> set (ws_flights s0) then s0
      else let s = s0\<lparr>ws_flights := remove1 c (ws_flights s0)\<rparr> in
        case out of
          None \<Rightarrow> s
        | Some r \<Rightarrow>
            (let attempts = Suc (case map_of (ws_notices s) c of None \<Rightarrow> 0 | Some n \<Rightarrow> wn_attempts n)
             in case r of
                  OutOk _ _ \<Rightarrow> clear_notice c s
                | OutRetrying _ retryAt e \<Rightarrow>
                    s\<lparr>ws_notices := AList.update c (Retrying e retryAt attempts) (ws_notices s),
                      ws_timers := AList.update c (now + retry_delay retryAt now) (ws_timers s)\<rparr>
                | OutRefused _ e \<Rightarrow> s\<lparr>ws_notices := AList.update c (Refused e attempts) (ws_notices s)\<rparr>))"

definition is_retrying :: "string \<Rightarrow> wake_store \<Rightarrow> bool" where
  "is_retrying c s = (case map_of (ws_notices s) c of Some (Retrying _ _ _) \<Rightarrow> True | _ \<Rightarrow> False)"

definition timer_fired :: "string \<Rightarrow> wake_store \<Rightarrow> wake_store" where
  "timer_fired c s =
     (if map_of (ws_timers s) c = None then s
      else let s1 = s\<lparr>ws_timers := AList.delete c (ws_timers s)\<rparr>
           in if is_retrying c s1 then requestWake c s1 else s1)"

datatype wake_event = WeAsk string | WeAnswer string "client_wake option" time | WeTimer string | WeClear string | WeReset

fun wake_step :: "wake_store \<Rightarrow> wake_event \<Rightarrow> wake_store" where
  "wake_step s (WeAsk c) = requestWake c s"
| "wake_step s (WeAnswer c out now) = wake_answered c out now s"
| "wake_step s (WeTimer c) = timer_fired c s"
| "wake_step s (WeClear c) = clear_notice c s"
| "wake_step s WeReset = resetWakeNotices s"

section \<open>Retries\<close>

text \<open>A standing notice of a retry is acted on: a timer is set, not before the time the server gave, or a request
  is under way.\<close>

definition acted_on :: "wake_store \<Rightarrow> string \<Rightarrow> bool" where
  "acted_on s c \<longleftrightarrow> (case map_of (ws_notices s) c of
     Some (Retrying e (Some t) n) \<Rightarrow> (\<exists>due. map_of (ws_timers s) c = Some due \<and> t \<le> due) \<or> c \<in> set (ws_flights s)
   | Some (Retrying e None n) \<Rightarrow> map_of (ws_timers s) c \<noteq> None \<or> c \<in> set (ws_flights s)
   | _ \<Rightarrow> True)"

lemmas wake_maps = map_of_AList_update jsmap.get_put jsmap.get_del

lemma acted_step:
  assumes "acted_on s c" "\<And>now. e \<noteq> WeAnswer c None now"
  shows "acted_on (wake_step s e) c"
proof (cases e)
  case (WeAnswer d out now)
  show ?thesis
  proof (cases "c = d")
    case True
    then obtain r where r: "out = Some r" using assms(2) WeAnswer by (cases out) auto
    then show ?thesis
      using assms(1) True WeAnswer
      by (cases r) (auto simp: acted_on_def wake_answered_def clear_notice_def Let_def wake_maps retry_delay_def
          split: option.splits wake_notice.splits)
  next
    case False
    then have f: "c \<in> set (remove1 d (ws_flights s)) \<longleftrightarrow> c \<in> set (ws_flights s)" by (auto dest: notin_set_remove1 simp: in_set_remove1)
    show ?thesis
      using assms(1) False WeAnswer f
      by (cases out; cases "the out") (auto simp: acted_on_def wake_answered_def clear_notice_def Let_def wake_maps
          split: option.splits wake_notice.splits)
  qed
next
  case (WeTimer d)
  then show ?thesis
    using assms(1) by (auto simp: acted_on_def timer_fired_def requestWake_def is_retrying_def Let_def wake_maps
        split: option.splits wake_notice.splits)
qed (use assms(1) in \<open>auto simp: acted_on_def requestWake_def clear_notice_def resetWakeNotices_def wake_maps
    split: option.splits wake_notice.splits\<close>)

text \<open>C35: A retry that is announced is made.  After any clicks, answers and timers in any order, unless a request for
  the computer has failed in transport, a notice that says the wake is being retried has a timer set that is not
  due before the time the server gave, or a request already under way.\<close>

theorem retries_are_made:
  assumes "\<And>now. WeAnswer c None now \<notin> set es"
  shows "acted_on (foldl wake_step new_wake_store es) c"
proof -
  have "acted_on (foldl wake_step s es) c" if "acted_on s c" for s
    using that assms
  proof (induction es arbitrary: s)
    case (Cons e es)
    have "acted_on (wake_step s e) c" by (rule acted_step [OF Cons.prems(1)]) (use Cons.prems(2) in auto)
    then show ?case using Cons.IH Cons.prems(2) by auto
  qed simp
  then show ?thesis by (simp add: acted_on_def new_wake_store_def)
qed

text \<open>C36: A wake that is being retried is shown as a success.  When the owner of a computer asks for it within the
  allowance and its object is still retrying, the route says so with status 202; the client reads any status
  from 200 to 299 as a wake that has succeeded, so no notice is shown, none is left, and nothing is retried.\<close>

theorem retrying_wake_is_read_as_success:
  assumes "getOwnedComputer (as_db s) i u = Some row" "canWake (pf_url pf) (pe_limits env) (as_usage s) u now = WakeOk"
    "an_wake an i = WakeRetrying" "i \<in> set (ws_flights w)"
  shows "rs_status (fst (api pf env an (Some u) new_id now (Wake i) s)) = 202
    \<and> (let w' = wake_answered i (wakeComputer 202 body) now w in
         map_of (ws_notices w') i = None \<and> map_of (ws_timers w') i = None)"
proof -
  have "cw_id row = i" using getOwnedComputer_Some [OF assms(1)] by simp
  then have "rs_status (fst (api pf env an (Some u) new_id now (Wake i) s)) = 202"
    using assms by (simp add: api_def route_def wake_route_def owned_def gated_def reply_def)
  moreover have "wakeComputer 202 body = Some (OutOk (or_else (wb_state body) ''waking'') (wb_epoch body))"
    by (simp add: wakeComputer_def http_ok_def)
  ultimately show ?thesis
    using assms(4) by (simp add: wake_answered_def clear_notice_def Let_def wake_maps)
qed

section \<open>Incidents\<close>

record incident_record =
  ir_id :: nat
  ir_kind :: string
  ir_at :: time

definition incidentKey :: "string \<Rightarrow> incident_record \<Rightarrow> string" where
  "incidentKey computer i = computer @ ''/'' @ digits_of (ir_id i)"

text \<open>\<open>dismissed\<close> is the list of the keys of the object; \<open>parse\<close> is \<^verbatim>\<open>JSON.parse\<close>, \<open>None\<close> its exception.\<close>

definition loadDismissed :: "(string \<Rightarrow> js option) \<Rightarrow> string option \<Rightarrow> string list" where
  "loadDismissed parse raw =
     (case nonempty raw of
        None \<Rightarrow> []
      | Some r \<Rightarrow> (case parse r of Some (JObj h) \<Rightarrow> map fst h | _ \<Rightarrow> []))"

definition dismiss :: "string \<Rightarrow> incident_record \<Rightarrow> string list \<Rightarrow> string list" where
  "dismiss computer i dismissed =
     (if incidentKey computer i \<in> set dismissed then dismissed else dismissed @ [incidentKey computer i])"

definition isDismissed :: "string \<Rightarrow> incident_record \<Rightarrow> string list \<Rightarrow> bool" where
  "isDismissed computer i dismissed \<longleftrightarrow> incidentKey computer i \<in> set dismissed"

definition visibleIncidents :: "string \<Rightarrow> incident_record list \<Rightarrow> string list \<Rightarrow> incident_record list" where
  "visibleIncidents computer incidents dismissed = filter (\<lambda>i. incidentKey computer i \<notin> set dismissed) incidents"

lemma incidentKey_inj: "incidentKey c i = incidentKey d j \<longleftrightarrow> c = d \<and> ir_id i = ir_id j"
proof
  assume eq: "incidentKey c i = incidentKey d j"
  have no: "CHR ''/'' \<notin> set (digits_of n)" for n
    using digits_of_form [of n] by (auto simp: list_all_iff is_digit_def less_eq_char_def)
  have "c @ CHR ''/'' # digits_of (ir_id i) = d @ CHR ''/'' # digits_of (ir_id j)" using eq by (simp add: incidentKey_def)
  from last_field [OF no no this] show "c = d \<and> ir_id i = ir_id j" using digits_of_inj by blast
qed (simp add: incidentKey_def)

text \<open>A dismissal silences one incident.  What is shown afterwards is what was shown before without that incident of
  that computer: any other incident, in particular a later one, and any other computer's, stays.\<close>

theorem dismissal_silences_one_incident:
  "visibleIncidents d incidents (dismiss c i dismissed)
     = filter (\<lambda>j. \<not> (d = c \<and> ir_id j = ir_id i)) (visibleIncidents d incidents dismissed)"
proof -
  have "incidentKey d j \<in> set (dismiss c i dismissed)
      \<longleftrightarrow> incidentKey d j \<in> set dismissed \<or> (d = c \<and> ir_id j = ir_id i)" for j
    using incidentKey_inj [of d j c i] by (auto simp: dismiss_def)
  then show ?thesis by (auto simp: visibleIncidents_def intro: filter_cong)
qed

section \<open>Examples\<close>

definition retry_answers :: answers where
  "retry_answers = demo_answers\<lparr>an_wake := (\<lambda>_. WakeRetrying)\<rparr>"

definition retry_body :: wake_body where
  "retry_body = \<lparr>wb_state = Some ''cold'', wb_epoch = Some 3, wb_error = Some ''wake_retrying'', wb_retrying = Some True, wb_retryAt = Some 90000\<rparr>"

theorem retrying_wake_is_read_as_success_witness:
  "rs_status (fst (api demo_platform demo_api_env retry_answers (Some ''ann'') ''n1'' 0 (Wake ''c1'') demo_state)) = 202"
proof -
  have gate: "canWake (pf_url demo_platform) (pe_limits demo_api_env) (as_usage demo_state) ''ann'' 0 = WakeOk" by code_simp
  have own: "getOwnedComputer (as_db demo_state) ''c1'' ''ann'' = Some demo_row"
    by (simp add: demo_state_def demo_row_def getOwnedComputer_def)
  have an: "an_wake retry_answers ''c1'' = WakeRetrying" by (simp add: retry_answers_def)
  have flight: "''c1'' \<in> set (ws_flights (requestWake ''c1'' new_wake_store))" by (simp add: requestWake_def)
  show ?thesis using retrying_wake_is_read_as_success [OF own gate an flight] by blast
qed

theorem retries_are_made_witness:
  "map_of (ws_timers (foldl wake_step new_wake_store [WeAsk ''c1'', WeAnswer ''c1'' (Some (OutRetrying ''cold'' (Some 9000) ''e'')) 1000])) ''c1''
     = Some 9000
   \<and> acted_on (foldl wake_step new_wake_store [WeAsk ''c1'', WeAnswer ''c1'' (Some (OutRetrying ''cold'' (Some 9000) ''e'')) 1000]) ''c1''"
proof -
  have "acted_on (foldl wake_step new_wake_store [WeAsk ''c1'', WeAnswer ''c1'' (Some (OutRetrying ''cold'' (Some 9000) ''e'')) 1000]) ''c1''"
    by (rule retries_are_made) simp
  then show ?thesis
    by (simp add: wake_answered_def requestWake_def new_wake_store_def retry_delay_def MIN_RETRY_DELAY_MS_def)
qed

text \<open>A retry that fails in transport is the last one: the notice stands, and nothing will ask again.\<close>

lemma transport_failure_strands_the_retry:
  "let s = foldl wake_step new_wake_store
       [WeAsk ''c1'', WeAnswer ''c1'' (Some (OutRetrying ''cold'' None ''e'')) 0, WeTimer ''c1'', WeAnswer ''c1'' None 20000]
   in is_retrying ''c1'' s \<and> ws_timers s = [] \<and> ws_flights s = []"
  by (simp add: Let_def wake_answered_def requestWake_def new_wake_store_def timer_fired_def is_retrying_def)

end
