(* ===== verification/Brief.thy ===== *)
theory Brief
  imports Runs
begin

text \<open>
  From what a user types to the argv of a run (\<^verbatim>\<open>web/src/runs/command.ts\<close>): the splitting of a command line, the
  runner a brief names, and the directory it runs in.
\<close>

section \<open>Command lines\<close>

datatype cl_quote = NoQuote | SingleQuote | DoubleQuote

definition backslash :: char where "backslash = CHR 0x5C"
definition dquote :: char where "dquote = CHR 0x22"

definition push_word :: "bool \<Rightarrow> string \<Rightarrow> string list \<Rightarrow> string list" where
  "push_word started cur argv = (if started then argv @ [cur] else argv)"

text \<open>The loop over the line: what is left of it, the open quote, the current word and whether it has begun.\<close>

fun parse_from :: "string \<Rightarrow> cl_quote \<Rightarrow> string \<Rightarrow> bool \<Rightarrow> string list \<Rightarrow> string list" where
  "parse_from [] q cur started argv = push_word started cur argv"
| "parse_from (ch # s) SingleQuote cur started argv =
     (if ch = quote_char then parse_from s NoQuote cur started argv
      else parse_from s SingleQuote (cur @ [ch]) started argv)"
| "parse_from (ch # s) DoubleQuote cur started argv =
     (if ch = dquote then parse_from s NoQuote cur started argv
      else if ch = backslash \<and> s \<noteq> [] \<and> (hd s = dquote \<or> hd s = backslash)
      then parse_from (tl s) DoubleQuote (cur @ [hd s]) started argv
      else parse_from s DoubleQuote (cur @ [ch]) started argv)"
| "parse_from (ch # s) NoQuote cur started argv =
     (if ch = quote_char then parse_from s SingleQuote cur True argv
      else if ch = dquote then parse_from s DoubleQuote cur True argv
      else if ch = backslash \<and> s \<noteq> [] then parse_from (tl s) NoQuote (cur @ [hd s]) True argv
      else if ch = CHR '' '' \<or> ch = CHR 0x09 then parse_from s NoQuote (if started then [] else cur) False (push_word started cur argv)
      else parse_from s NoQuote (cur @ [ch]) True argv)"

definition parseCommandLine :: "string \<Rightarrow> string list" where
  "parseCommandLine line = parse_from line NoQuote [] False []"

section \<open>Briefs\<close>

definition BRIEF_RUNNER :: string where "BRIEF_RUNNER = ''mari-brief''"

definition first_line :: "string \<Rightarrow> string" where
  "first_line text = takeWhile (\<lambda>c. c \<noteq> CHR 0x0A) text"

text \<open>\<^verbatim>\<open>/^#!\s*(\S.*)$/\<close>: what the group matches; a dot matches no line terminator.\<close>

definition shebang :: "string \<Rightarrow> string option" where
  "shebang s =
     (if \<not> starts_with s ''#!'' then None
      else let r = dropWhile js_space (drop 2 s)
           in if r = [] \<or> CHR 0x0A \<in> set r \<or> CHR 0x0D \<in> set r then None else Some r)"

definition briefArgv :: "string \<Rightarrow> string \<Rightarrow> string list" where
  "briefArgv path text =
     (case shebang (js_trim (first_line text)) of
        Some command \<Rightarrow>
          let argv = parseCommandLine command
          in if argv \<noteq> [] then argv @ [path] else [BRIEF_RUNNER, path]
      | None \<Rightarrow> [BRIEF_RUNNER, path])"

definition dirnameOf :: "string \<Rightarrow> string" where
  "dirnameOf path =
     (let trimmed = strip_trailing (CHR ''/'') path
      in case last_index (CHR ''/'') trimmed of
           None \<Rightarrow> ''/''
         | Some idx \<Rightarrow> if idx = 0 then ''/'' else take idx trimmed)"

section \<open>Quoting is undone\<close>

lemma inside_single: "quote_char \<notin> set w \<Longrightarrow> parse_from (w @ s) SingleQuote cur started argv = parse_from s SingleQuote (cur @ w) started argv"
  by (induction w arbitrary: cur) auto

lemma plain_chars: "backslash \<noteq> quote_char" "dquote \<noteq> quote_char" "backslash \<noteq> dquote" "quote_char \<noteq> dquote" "quote_char \<noteq> backslash"
  "CHR '' '' \<noteq> quote_char" "CHR '' '' \<noteq> dquote" "CHR '' '' \<noteq> backslash"
  by (simp_all add: backslash_def dquote_def)

lemma escaped_inside:
  "parse_from (escape_quotes w @ quote_char # s) SingleQuote cur True argv = parse_from s NoQuote (cur @ w) True argv"
proof (induction w arbitrary: cur)
  case Nil
  then show ?case by simp
next
  case (Cons c w)
  have "CHR 0x5C = backslash" by (simp add: backslash_def)
  then show ?case using Cons [of "cur @ [c]"] plain_chars by (cases "c = quote_char") simp_all
qed

lemma quoted_word: "parse_from (shellQuote w @ s) NoQuote cur started argv = parse_from s NoQuote (cur @ w) True argv"
  by (simp add: shellQuote_def escaped_inside)

fun join_words :: "string list \<Rightarrow> string" where
  "join_words [] = []"
| "join_words [w] = w"
| "join_words (w # v # ws) = w @ '' '' @ join_words (v # ws)"

lemma quoted_words: "parse_from (join_words (map shellQuote ws)) NoQuote [] False argv = argv @ ws"
proof (induction ws arbitrary: argv rule: join_words.induct)
  case (2 w)
  then show ?case using quoted_word [of w "[]"] by (simp add: push_word_def)
next
  case (3 w v ws)
  then show ?case using plain_chars by (simp add: quoted_word push_word_def)
qed (simp add: push_word_def)

text \<open>What is quoted for a shell is read back.  A line made of any arguments at all, each quoted as the control
  plane quotes for a POSIX shell, with a space between them, is split into exactly these arguments.\<close>

theorem quoted_line_is_read_back:
  "parseCommandLine (join_words (map shellQuote ws)) = ws"
  by (simp add: parseCommandLine_def quoted_words)

lemma dirname_examples:
  "dirnameOf ''/work/a.md'' = ''/work''" "dirnameOf ''/a.md'' = ''/''" "dirnameOf ''/work/sub/'' = ''/work''" "dirnameOf ''a.md'' = ''/''"
  by code_simp+

lemma brief_examples:
  "briefArgv ''/b.md'' ''hello'' = [''mari-brief'', ''/b.md'']"
  "briefArgv ''/b.md'' ''#! run --flag 'an arg' '' = [''run'', ''--flag'', ''an arg'', ''/b.md'']"
  by code_simp+

end
