(* ===== verification/Links.thy ===== *)
theory Links
  imports Gateway
begin

text \<open>
  The client's side of preview hosts (\<^verbatim>\<open>web/src/preview/url.ts\<close>): building the host of a port and reading one
  back, and how that compares with the wake proxy's reading (theory \<open>Gateway\<close>).
\<close>

datatype link_error = EmptyField | BadField | SepInField | BadPort | LabelTooLong | NotUrl | NoZone | EmptyZone | NotThreeFields

definition DEFAULT_ZONE :: string where "DEFAULT_ZONE = ''mari.sh''"
definition MAX_LABEL_LEN :: nat where "MAX_LABEL_LEN = 63"

definition ldh :: "char \<Rightarrow> bool" where
  "ldh c \<longleftrightarrow> FIELD_RE [c] \<or> c = CHR ''-''"

text \<open>\<^verbatim>\<open>/^[a-z0-9]([a-z0-9-]*[a-z0-9])?$/\<close>.\<close>

definition LINK_FIELD_RE :: "string \<Rightarrow> bool" where
  "LINK_FIELD_RE s \<longleftrightarrow> s \<noteq> '''' \<and> list_all ldh s \<and> FIELD_RE [hd s] \<and> FIELD_RE [last s]"

definition assertField :: "string \<Rightarrow> link_error + unit" where
  "assertField value =
     (if value = '''' then Inl EmptyField
      else if \<not> LINK_FIELD_RE value then Inl BadField
      else if length (split_dashes value) > 1 then Inl SepInField
      else Inr ())"

definition assertPort :: "js_number \<Rightarrow> link_error + int" where
  "assertPort port =
     (case safe_integer port of
        None \<Rightarrow> Inl BadPort
      | Some n \<Rightarrow> if n < 1 \<or> n > 65535 then Inl BadPort else Inr n)"

definition previewLabel :: "js_number \<Rightarrow> string \<Rightarrow> string \<Rightarrow> link_error + string" where
  "previewLabel port computer user =
     (case assertPort port of
        Inl e \<Rightarrow> Inl e
      | Inr n \<Rightarrow>
          (case assertField computer of
             Inl e \<Rightarrow> Inl e
           | Inr _ \<Rightarrow>
               (case assertField user of
                  Inl e \<Rightarrow> Inl e
                | Inr _ \<Rightarrow>
                    let label = int_string n @ ''--'' @ computer @ ''--'' @ user
                    in if length label > MAX_LABEL_LEN then Inl LabelTooLong else Inr label)))"

definition previewHost :: "js_number \<Rightarrow> string \<Rightarrow> string \<Rightarrow> string \<Rightarrow> link_error + string" where
  "previewHost port computer user zone =
     (case previewLabel port computer user of Inl e \<Rightarrow> Inl e | Inr label \<Rightarrow> Inr (label @ ''.'' @ zone))"

definition previewUrl :: "js_number \<Rightarrow> string \<Rightarrow> string \<Rightarrow> string \<Rightarrow> string \<Rightarrow> link_error + string" where
  "previewUrl port computer user zone path =
     (let p = (if starts_with path ''/'' then path else ''/'' @ path)
      in case previewHost port computer user zone of
           Inl e \<Rightarrow> Inl e | Inr host \<Rightarrow> Inr (''https://'' @ host @ p))"

definition link_host :: "url_parser \<Rightarrow> string \<Rightarrow> link_error + string" where
  "link_host url i =
     (if js_includes i ''://'' then (case url i of None \<Rightarrow> Inl NotUrl | Some u \<Rightarrow> Inr (u_hostname u)) else Inr i)"

definition link_fields :: "string \<Rightarrow> link_error + (int \<times> string \<times> string)" where
  "link_fields label =
     (case split_dashes label of
        [portStr, computer, user] \<Rightarrow>
          (case assertPort (js_Number portStr) of
             Inl e \<Rightarrow> Inl e
           | Inr port \<Rightarrow>
               (case assertField computer of
                  Inl e \<Rightarrow> Inl e
                | Inr _ \<Rightarrow> (case assertField user of Inl e \<Rightarrow> Inl e | Inr _ \<Rightarrow> Inr (port, computer, user))))
      | _ \<Rightarrow> Inl NotThreeFields)"

definition readPreviewHost :: "url_parser \<Rightarrow> string \<Rightarrow> link_error + (int \<times> string \<times> string \<times> string)" where
  "readPreviewHost url i =
     (case link_host url i of
        Inl e \<Rightarrow> Inl e
      | Inr host \<Rightarrow>
          if CHR ''.'' \<notin> set host then Inl NoZone
          else let label = takeWhile (\<lambda>c. c \<noteq> CHR ''.'') host; zone = drop (Suc (length label)) host
               in if zone = '''' then Inl EmptyZone
                  else case link_fields label of
                    Inl e \<Rightarrow> Inl e
                  | Inr (port, computer, user) \<Rightarrow> Inr (port, computer, user, zone))"

section \<open>The client reads what the proxy reads\<close>

lemma field_is_link_field: "FIELD_RE s \<Longrightarrow> assertField s = Inr ()"
proof -
  assume f: "FIELD_RE s"
  then have "s \<noteq> ''''" "\<forall>c\<in>set s. FIELD_RE [c]" using FIELD_RE_iff [of s] by auto
  then have "LINK_FIELD_RE s" by (auto simp: LINK_FIELD_RE_def ldh_def list_all_iff)
  moreover have "split_dashes s = [s]" using field_chars [OF f] by (simp add: split_plain)
  ultimately show ?thesis using \<open>s \<noteq> ''''\<close> by (simp add: assertField_def)
qed

lemma assertPort_digits: "1 \<le> p \<Longrightarrow> p \<le> 65535 \<Longrightarrow> assertPort (js_Number (int_string p)) = Inr p"
  using js_Number_digits [of "nat p"] by (simp add: int_string_def assertPort_def safe_integer_def)

lemma no_scheme: "CHR '':'' \<notin> set s \<Longrightarrow> \<not> js_includes s ''://''"
proof -
  assume "CHR '':'' \<notin> set s"
  then have "\<not> starts_with (drop i s) ''://''" for i
    using set_drop_subset [of i s] by (cases "drop i s") auto
  then show ?thesis by (simp add: js_includes_def list_ex_iff)
qed

text \<open>The label of a target has its three fields, for both readers.\<close>

lemma label_fields:
  assumes "FIELD_RE c" "FIELD_RE u" "1 \<le> p" "p \<le> 65535"
  shows "split_dashes (int_string p @ ''--'' @ c @ ''--'' @ u) = [int_string p, c, u]"
    "CHR ''.'' \<notin> set (int_string p @ ''--'' @ c @ ''--'' @ u)"
proof -
  have "list_all is_digit (int_string p)" using digits_of_form [of "nat p"] assms(3) by (simp add: int_string_def)
  note chars = digit_chars [OF this] field_chars [OF assms(1)] field_chars [OF assms(2)]
  then show "split_dashes (int_string p @ ''--'' @ c @ ''--'' @ u) = [int_string p, c, u]"
    by (simp add: split_first [simplified] split_plain)
  show "CHR ''.'' \<notin> set (int_string p @ ''--'' @ c @ ''--'' @ u)" using chars by simp
qed

text \<open>The client reads what the proxy reads.  A host that the wake proxy takes for a port of a computer under its
  zone is read by the client as the same port, computer and owner's label under that zone; the client also builds this
  very host for them, if its label is no longer than 63 characters.\<close>

theorem client_reads_every_proxy_host:
  assumes "parsePreviewHost (Some host) zone = Some t" "js_lower (js_trim host) = host" "js_lower (js_trim zone) = zone"
    "CHR '':'' \<notin> set host"
  shows "readPreviewHost url host = Inr (pt_port t, pt_computer t, pt_user t, zone)
    \<and> previewHost (Fin (of_int (pt_port t))) (pt_computer t) (pt_user t) zone
        = (if length host \<le> 64 + length zone then Inr host else Inl LabelTooLong)"
proof -
  have "takeWhile (\<lambda>c. c \<noteq> CHR '':'') host = host" using assms(4) by (auto simp: takeWhile_eq_all_conv)
  then have h: "host = preview_host (pt_port t) (pt_computer t) (pt_user t) zone" "zone \<noteq> ''''"
    and f: "FIELD_RE (pt_computer t)" "FIELD_RE (pt_user t)" "1 \<le> pt_port t" "pt_port t \<le> 65535"
    using assms(1) unfolding preview_host_iff assms(2,3) by simp_all
  define label where "label = int_string (pt_port t) @ ''--'' @ pt_computer t @ ''--'' @ pt_user t"
  have host: "host = label @ CHR ''.'' # zone" by (simp add: h(1) preview_host_def label_def)
  note fields = label_fields [OF f, folded label_def]
  have cut: "takeWhile (\<lambda>c. c \<noteq> CHR ''.'') host = label"
    unfolding host using fields(2) by (auto simp: takeWhile_append)
  have "link_fields label = Inr (pt_port t, pt_computer t, pt_user t)"
    unfolding link_fields_def fields(1) by (simp add: assertPort_digits f field_is_link_field)
  then have "readPreviewHost url host = Inr (pt_port t, pt_computer t, pt_user t, zone)"
    using no_scheme [OF assms(4)] h(2) cut [unfolded host]
    by (simp add: readPreviewHost_def link_host_def Let_def host)
  moreover have "assertPort (Fin (of_int (pt_port t))) = Inr (pt_port t)"
    using f(3,4) by (simp add: assertPort_def safe_integer_def)
  then have "previewHost (Fin (of_int (pt_port t))) (pt_computer t) (pt_user t) zone
      = (if length host \<le> 64 + length zone then Inr host else Inl LabelTooLong)"
    using f by (simp add: previewHost_def previewLabel_def field_is_link_field MAX_LABEL_LEN_def Let_def host) (auto simp: label_def)
  ultimately show ?thesis by blast
qed

theorem client_reads_every_proxy_host_witness:
  "readPreviewHost (\<lambda>_. None) (preview_host 80 ''c1'' ''ab'' ''p.sh'') = Inr (80, ''c1'', ''ab'', ''p.sh'')"
proof -
  have f: "FIELD_RE ''ab''" "FIELD_RE ''c1''" by (simp_all add: FIELD_RE_def is_digit_def less_eq_char_def)
  have plain: "list_all plain_char (preview_host 80 ''c1'' ''ab'' ''p.sh'')"
    by (rule preview_host_plain) (use f demo_zone in simp_all)
  have read: "parsePreviewHost (Some (preview_host 80 ''c1'' ''ab'' ''p.sh'')) ''p.sh''
      = Some \<lparr>pt_port = 80, pt_computer = ''c1'', pt_user = ''ab''\<rparr>"
    by (rule link_is_read_back) (use f demo_zone in simp_all)
  have "js_lower (js_trim (preview_host 80 ''c1'' ''ab'' ''p.sh'')) = preview_host 80 ''c1'' ''ab'' ''p.sh''"
    "js_lower (js_trim ''p.sh'') = ''p.sh''"
    using trim_plain lower_plain plain demo_zone by simp_all
  moreover have "CHR '':'' \<notin> set (preview_host 80 ''c1'' ''ab'' ''p.sh'')"
    using plain plain_char_facts by (auto simp: list_all_iff)
  ultimately show ?thesis using client_reads_every_proxy_host [OF read] by simp
qed

text \<open>The converse fails: a field with a hyphen, and a port that is not written in its canonical form.\<close>

lemma client_reads_more:
  "assertField ''a-b'' = Inr () \<and> \<not> FIELD_RE ''a-b''"
  "assertPort (js_Number ''08'') = Inr 8 \<and> \<not> port_form ''08''"
  by code_simp+

end
