(* ===== verification/BoxShell.thy ===== *)
theory BoxShell
  imports Runs "HOL-Library.Char_ord"
begin

unbundle bit_operations_syntax

text \<open>
  The shell text with which the driver of a hosted box runs programs (helpers and \<open>#bootstrap\<close> of
  \<^verbatim>\<open>control-plane/src/substrates/box.ts\<close>): the commands API takes one shell string, so arguments, environment,
  input and directory are compiled into it.

  Beside the code stands what reads it: a POSIX shell's division of a text into commands and words (over
  \<open>sh_word\<close> of theory \<open>Runs\<close>) and a decoder of base64.
\<close>

section \<open>Base64\<close>

definition ALPHABET :: string where
  "ALPHABET = ''ABCDEFGHIJKLMNOPQRSTUVWXYZabcdefghijklmnopqrstuvwxyz0123456789+/''"

text \<open>\<^verbatim>\<open>new TextEncoder().encode\<close> on code units below 256.\<close>

definition utf8_char :: "char \<Rightarrow> bytes" where
  "utf8_char c =
     (let n = of_char c :: nat
      in if n < 128 then [word_of_nat n] else [word_of_nat (192 + n div 64), word_of_nat (128 + n mod 64)])"

definition utf8_encode :: "string \<Rightarrow> bytes" where
  "utf8_encode s = concat (map utf8_char s)"

definition triple :: "byte \<Rightarrow> byte \<Rightarrow> byte \<Rightarrow> 32 word" where
  "triple b0 b1 b2 = push_bit 16 (ucast b0) OR push_bit 8 (ucast b1) OR ucast b2"

definition sextet :: "nat \<Rightarrow> 32 word \<Rightarrow> char" where
  "sextet k t = ALPHABET ! unat (drop_bit k t AND 63)"

fun base64_from :: "bytes \<Rightarrow> string" where
  "base64_from [] = []"
| "base64_from [b0] = (let t = triple b0 0 0 in [sextet 18 t, sextet 12 t, CHR ''='', CHR ''=''])"
| "base64_from [b0, b1] = (let t = triple b0 b1 0 in [sextet 18 t, sextet 12 t, sextet 6 t, CHR ''=''])"
| "base64_from (b0 # b1 # b2 # bs) =
     (let t = triple b0 b1 b2 in [sextet 18 t, sextet 12 t, sextet 6 t, sextet 0 t] @ base64_from bs)"

datatype exec_input = InText string | InBytes bytes

fun exec_bytes :: "exec_input \<Rightarrow> bytes" where
  "exec_bytes (InText s) = utf8_encode s"
| "exec_bytes (InBytes bs) = bs"

definition toBase64 :: "exec_input \<Rightarrow> string" where
  "toBase64 input = base64_from (exec_bytes input)"

section \<open>Commands\<close>

definition shq :: "string \<Rightarrow> string" where
  "shq value = [quote_char] @ escape_quotes value @ [quote_char]"

definition letter :: "char \<Rightarrow> bool" where
  "letter c \<longleftrightarrow> (CHR ''a'' \<le> c \<and> c \<le> CHR ''z'') \<or> (CHR ''A'' \<le> c \<and> c \<le> CHR ''Z'') \<or> c = CHR ''_''"

definition digit :: "char \<Rightarrow> bool" where
  "digit c \<longleftrightarrow> CHR ''0'' \<le> c \<and> c \<le> CHR ''9''"

text \<open>\<^verbatim>\<open>/^[A-Za-z_][A-Za-z0-9_]*$/\<close>; \<open>False\<close> is the error that is thrown.\<close>

definition assertEnvName :: "string \<Rightarrow> bool" where
  "assertEnvName name \<longleftrightarrow> (case name of [] \<Rightarrow> False | c # s \<Rightarrow> letter c \<and> list_all (\<lambda>x. letter x \<or> digit x) s)"

fun join_with :: "string \<Rightarrow> string list \<Rightarrow> string" where
  "join_with sep [] = []"
| "join_with sep [w] = w"
| "join_with sep (w # v # ws) = w @ sep @ join_with sep (v # ws)"

record exec_options =
  eo_cwd :: "string option"
  eo_env :: "(string \<times> string) list"
  eo_input :: "exec_input option"

text \<open>\<open>None\<close> is an invalid name of a variable.\<close>

definition buildShellCommand :: "string list \<Rightarrow> exec_options \<Rightarrow> string option" where
  "buildShellCommand argv opts =
     (if \<not> list_all (assertEnvName \<circ> fst) (eo_env opts) then None
      else let env = (if eo_env opts = [] then [] else ''env'' # map (\<lambda>(key, value). shq (key @ ''='' @ value)) (eo_env opts));
               command = join_with '' '' (env @ map shq argv);
               command = (case eo_input opts of
                  None \<Rightarrow> command
                | Some input \<Rightarrow> ''printf %s '' @ shq (toBase64 input) @ '' | base64 -d | '' @ command);
               command = (case eo_cwd opts of
                  None \<Rightarrow> command
                | Some cwd \<Rightarrow> if cwd = [] then command else ''cd '' @ shq cwd @ '' && '' @ command)
           in Some command)"

section \<open>The bootstrap\<close>

definition BOOTSTRAP_OK :: string where "BOOTSTRAP_OK = ''mari-box-bootstrap-ok''"
definition MARID_SERVICE :: string where "MARID_SERVICE = ''mari-supervisor.service''"
definition MARID_RUNTIME_DIR :: string where "MARID_RUNTIME_DIR = ''/run/mari-box''"
definition MARID_RUNTIME_LAUNCHER :: string where "MARID_RUNTIME_LAUNCHER = MARID_RUNTIME_DIR @ ''/marid-start''"
definition DEFAULT_MARID_BIN_PATH :: string where "DEFAULT_MARID_BIN_PATH = ''/usr/local/bin/marid''"
definition DEFAULT_MARID_LOG_PATH :: string where "DEFAULT_MARID_LOG_PATH = ''/var/log/marid.log''"

text \<open>An empty command is the absence of one: \<^verbatim>\<open>materialize\<close> stores \<^verbatim>\<open>null\<close> for it.\<close>

record bootstrap_config =
  bc_env :: "(string \<times> string) list"
  bc_cmd :: "string list option"
  bc_maridBinaryUrl :: "string option"

abbreviation nl :: string where "nl \<equiv> [CHR 0x0A]"
abbreviation dq :: string where "dq \<equiv> [CHR 0x22]"

definition export_line :: "string \<times> string \<Rightarrow> string" where
  "export_line kv = ''export '' @ fst kv @ ''='' @ shq (snd kv)"

definition launcher_text :: "string \<Rightarrow> bootstrap_config \<Rightarrow> string option" where
  "launcher_text bin bootstrap =
     (if \<not> list_all (assertEnvName \<circ> fst) (bc_env bootstrap) then None
      else let program = (case bc_cmd bootstrap of Some cmd \<Rightarrow> join_with '' '' (map shq cmd) | None \<Rightarrow> shq bin)
           in Some (join_with nl ([''#!/bin/sh'', ''set -eu''] @ map export_line (bc_env bootstrap)
                @ [''exec '' @ program, []])))"

definition unit_text :: "string \<Rightarrow> string" where
  "unit_text log = join_with nl
     [''[Unit]'',
      ''Description=Mari supervisor'',
      ''After=network-online.target'',
      ''Wants=network-online.target'',
      ''ConditionPathIsExecutable='' @ MARID_RUNTIME_LAUNCHER,
      [],
      ''[Service]'',
      ''Type=simple'',
      ''User=user'',
      ''ExecStart='' @ MARID_RUNTIME_LAUNCHER,
      ''Restart=always'',
      ''RestartSec=1'',
      ''StandardOutput=append:'' @ log,
      ''StandardError=inherit'',
      [],
      ''[Install]'',
      ''WantedBy=multi-user.target'',
      []]"

definition install_lines :: "string \<Rightarrow> string \<Rightarrow> string option \<Rightarrow> string list" where
  "install_lines bin log url =
     (case url of
        Some u \<Rightarrow>
          [''sudo -n install -d -m 0755 '' @ shq (parentDir bin) @ '' '' @ shq (parentDir log),
           ''if [ ! -x '' @ shq bin @ '' ]; then tmp=$(mktemp); (curl -fsSL '' @ shq u @ '' -o '' @ dq @ ''$tmp'' @ dq
             @ '' || wget -qO '' @ dq @ ''$tmp'' @ dq @ '' '' @ shq u @ ''); sudo -n install -m 0755 '' @ dq @ ''$tmp'' @ dq @ '' ''
             @ shq bin @ ''; rm -f '' @ dq @ ''$tmp'' @ dq @ ''; fi'']
      | None \<Rightarrow> [''sudo -n install -d -m 0755 '' @ shq (parentDir log)])"

definition tee_line :: "string \<Rightarrow> string \<Rightarrow> string" where
  "tee_line text target = ''printf %s '' @ shq (toBase64 (InText text)) @ '' | base64 -d | sudo -n tee '' @ shq target @ '' >/dev/null''"

definition show_pid :: "string \<Rightarrow> string" where
  "show_pid var = var @ ''=$(sudo -n systemctl show -p MainPID --value '' @ shq MARID_SERVICE @ '')''"

definition bootstrap_script :: "string \<Rightarrow> string \<Rightarrow> bootstrap_config \<Rightarrow> string option" where
  "bootstrap_script bin log bootstrap =
     (case launcher_text bin bootstrap of
        None \<Rightarrow> None
      | Some launcher \<Rightarrow> Some (join_with nl
          ([''set -eu''] @ install_lines bin log (bc_maridBinaryUrl bootstrap) @
           [''sudo -n install -d -o user -g user -m 0700 '' @ shq MARID_RUNTIME_DIR,
            tee_line launcher MARID_RUNTIME_LAUNCHER,
            ''sudo -n chown user:user '' @ shq MARID_RUNTIME_LAUNCHER,
            ''sudo -n chmod 0700 '' @ shq MARID_RUNTIME_LAUNCHER,
            tee_line (unit_text log) (''/etc/systemd/system/'' @ MARID_SERVICE),
            ''sudo -n systemctl daemon-reload'',
            ''sudo -n systemctl enable '' @ shq MARID_SERVICE @ '' >/dev/null'',
            ''sudo -n systemctl restart '' @ shq MARID_SERVICE,
            show_pid ''mari_pid_before'',
            ''case '' @ dq @ ''$mari_pid_before'' @ dq @ '' in '' @ dq @ dq @ ''|0|*[!0-9]*) exit 1;; esac'',
            ''sleep 1'',
            show_pid ''mari_pid_after'',
            ''[ '' @ dq @ ''$mari_pid_before'' @ dq @ '' = '' @ dq @ ''$mari_pid_after'' @ dq @ '' ]'',
            ''sudo -n kill -0 '' @ dq @ ''$mari_pid_after'' @ dq,
            ''sudo -n systemctl is-active --quiet '' @ shq MARID_SERVICE,
            ''echo '' @ BOOTSTRAP_OK])))"

section \<open>Base64 is undone\<close>

text \<open>The decoder of RFC 4648: four characters give three bytes, fewer before the padding.\<close>

definition sextet_of :: "char \<Rightarrow> nat option" where
  "sextet_of c = map_of (zip ALPHABET [0..<64]) c"

definition bytes_of :: "nat \<Rightarrow> nat \<Rightarrow> nat \<Rightarrow> nat \<Rightarrow> bytes" where
  "bytes_of x0 x1 x2 x3 =
     (let n = ((x0 * 64 + x1) * 64 + x2) * 64 + x3
      in [word_of_nat (n div 65536), word_of_nat (n div 256), word_of_nat n])"

fun base64_decode :: "string \<Rightarrow> bytes option" where
  "base64_decode [] = Some []"
| "base64_decode (c0 # c1 # c2 # c3 # s) =
     (case (sextet_of c0, sextet_of c1) of
        (Some x0, Some x1) \<Rightarrow>
          if c3 = CHR ''='' \<and> s = [] then
            (if c2 = CHR ''='' then Some (take 1 (bytes_of x0 x1 0 0))
             else case sextet_of c2 of None \<Rightarrow> None | Some x2 \<Rightarrow> Some (take 2 (bytes_of x0 x1 x2 0)))
          else (case (sextet_of c2, sextet_of c3, base64_decode s) of
             (Some x2, Some x3, Some bs) \<Rightarrow> Some (bytes_of x0 x1 x2 x3 @ bs)
           | _ \<Rightarrow> None)
      | _ \<Rightarrow> None)"
| "base64_decode _ = None"

lemma alphabet_facts: "length ALPHABET = 64" "distinct ALPHABET" "CHR ''='' \<notin> set ALPHABET"
  by (simp_all add: ALPHABET_def)

lemma sextet_of_alphabet: "n < 64 \<Longrightarrow> sextet_of (ALPHABET ! n) = Some n"
  using alphabet_facts map_of_zip_nth [of ALPHABET "[0..<64]" n] by (simp add: sextet_of_def)

lemma triple_value: "unat (triple b0 b1 b2) = (unat b0 * 256 + unat b1) * 256 + unat b2"
proof -
  have b: "unat b0 < 256" "unat b1 < 256" "unat b2 < 256"
    using unsigned_less [of b0] unsigned_less [of b1] unsigned_less [of b2] by simp_all
  have low: "bit (ucast (b :: byte) :: 32 word) n \<longleftrightarrow> n < 8 \<and> bit b n" for b n
    by (auto simp: bit_ucast_iff dest: bit_imp_le_length)
  have "triple b0 b1 b2 = push_bit 16 (ucast b0) + push_bit 8 (ucast b1) + ucast b2"
  proof -
    have "push_bit 16 (ucast b0) + push_bit 8 (ucast b1) = (push_bit 16 (ucast b0) OR push_bit 8 (ucast b1) :: 32 word)"
      by (rule disjunctive_add) (auto simp: bit_push_bit_iff low)
    moreover have "(push_bit 16 (ucast b0) OR push_bit 8 (ucast b1)) + ucast b2 = (triple b0 b1 b2)"
      unfolding triple_def or.assoc [symmetric] by (rule disjunctive_add) (auto simp: bit_push_bit_iff bit_or_iff low)
    ultimately show ?thesis by simp
  qed
  also have "\<dots> = word_of_nat ((unat b0 * 256 + unat b1) * 256 + unat b2)"
    by (simp add: push_bit_eq_mult algebra_simps)
  finally have "unat (triple b0 b1 b2) = unat (word_of_nat ((unat b0 * 256 + unat b1) * 256 + unat b2) :: 32 word)"
    by simp
  also have "\<dots> = (unat b0 * 256 + unat b1) * 256 + unat b2"
    by (simp only: unsigned_of_nat of_nat_id) (rule take_bit_nat_eq_self, use b in simp)
  finally show ?thesis .
qed

lemma sextet_index: "sextet k t = ALPHABET ! (unat t div 2 ^ k mod 64)"
proof -
  have "drop_bit k t AND 63 = take_bit 6 (drop_bit k t)" by (simp add: take_bit_eq_mask mask_eq_exp_minus_1)
  then have "unat (drop_bit k t AND 63) = take_bit 6 (drop_bit k (unat t))"
    by (simp only: unsigned_take_bit_eq unat_drop_bit_eq)
  then have "unat (drop_bit k t AND 63) = unat t div 2 ^ k mod 64"
    by (simp only: take_bit_eq_mod drop_bit_eq_div) simp
  then show ?thesis by (simp add: sextet_def)
qed

lemma sextet_of_sextet: "sextet_of (sextet k t) = Some (unat t div 2 ^ k mod 64)"
  by (simp add: sextet_index sextet_of_alphabet)

lemma bytes_of_triple:
  "bytes_of (unat (triple b0 b1 b2) div 2 ^ 18 mod 64) (unat (triple b0 b1 b2) div 2 ^ 12 mod 64)
     (unat (triple b0 b1 b2) div 2 ^ 6 mod 64) (unat (triple b0 b1 b2) div 2 ^ 0 mod 64) = [b0, b1, b2]"
proof -
  define n where "n = unat (triple b0 b1 b2)"
  have b: "unat b0 < 256" "unat b1 < 256" "unat b2 < 256"
    using unsigned_less [of b0] unsigned_less [of b1] unsigned_less [of b2] by simp_all
  have n: "n = (unat b0 * 256 + unat b1) * 256 + unat b2" by (simp add: n_def triple_value)
  then have "n < 16777216" using b by simp
  then have "((n div 2 ^ 18 mod 64 * 64 + n div 2 ^ 12 mod 64) * 64 + n div 2 ^ 6 mod 64) * 64 + n div 2 ^ 0 mod 64 = n"
  proof -
    have join: "m div 64 * 64 + m mod 64 = m" for m :: nat by simp
    have "n div 2 ^ 18 mod 64 = n div 2 ^ 12 div 64" using \<open>n < 16777216\<close> by (simp add: div_mult2_eq [symmetric])
    moreover have "n div 2 ^ 12 = n div 2 ^ 6 div 64" "n div 2 ^ 6 = n div 64" by (simp_all add: div_mult2_eq [symmetric])
    ultimately show ?thesis by (simp only: join power_0 div_by_1)
  qed
  moreover have "n div 65536 = unat b0" using b by (simp add: n)
  moreover have "n div 256 = unat b0 * 256 + unat b1" using b by (simp add: n)
  moreover have "word_of_nat (k * 256 + unat b) = b" for k and b :: byte
  proof -
    have zero: "(256 :: byte) = 0" by simp
    show ?thesis by (simp only: of_nat_add of_nat_mult of_nat_numeral zero) simp
  qed
  then have "word_of_nat (unat b0 * 256 + unat b1) = b1" "word_of_nat n = b2" unfolding n by blast+
  ultimately show ?thesis unfolding n_def [symmetric] by (simp add: bytes_of_def Let_def)
qed

lemma sextet_not_pad: "sextet k t \<noteq> CHR ''=''"
proof -
  have "sextet k t \<in> set ALPHABET" by (simp add: sextet_index alphabet_facts)
  then show ?thesis using alphabet_facts(3) by metis
qed

lemma base64_roundtrip: "base64_decode (base64_from bs) = Some bs"
proof (induction bs rule: base64_from.induct)
  case (2 b0)
  then show ?case
    using bytes_of_triple [of b0 0 0] triple_value [of b0 0 0]
    by (simp add: sextet_of_sextet Let_def)
next
  case (3 b0 b1)
  then show ?case
    using bytes_of_triple [of b0 b1 0] triple_value [of b0 b1 0]
    by (simp add: sextet_of_sextet sextet_not_pad Let_def)
next
  case (4 b0 b1 b2 bs)
  then show ?case
    using bytes_of_triple [of b0 b1 b2]
    by (simp add: sextet_of_sextet sextet_not_pad Let_def)
qed simp

section \<open>What a shell reads\<close>

text \<open>
  A text is a sequence of simple commands, each ended by \<^verbatim>\<open>&&\<close>, by a pipe, by a newline or by the end of the
  text.  Other operators are not read (\<open>None\<close>): no text below contains one.
\<close>

datatype sh_end = ShAnd | ShPipe | ShNewline | ShEnd

definition sh_blank :: "char \<Rightarrow> bool" where
  "sh_blank c \<longleftrightarrow> c = CHR '' '' \<or> c = CHR 0x09"

definition sh_stop :: "string \<Rightarrow> (sh_end \<times> string) option" where
  "sh_stop s =
     (if s = [] then Some (ShEnd, [])
      else if hd s = CHR 0x0A then Some (ShNewline, tl s)
      else if prefix ''&&'' s then Some (ShAnd, drop 2 s)
      else if hd s = CHR ''|'' \<and> \<not> prefix ''||'' s then Some (ShPipe, tl s)
      else None)"

lemma sh_stop_shorter: "sh_stop s = Some (e, r) \<Longrightarrow> e \<noteq> ShEnd \<Longrightarrow> length r < length s"
  by (auto simp: sh_stop_def split: if_splits dest: prefix_length_le)

function sh_words :: "string \<Rightarrow> (string list \<times> sh_end \<times> string) option" where
  "sh_words s =
     (let s1 = dropWhile sh_blank s
      in case sh_stop s1 of
           Some (e, r) \<Rightarrow> Some ([], e, r)
         | None \<Rightarrow>
             (case sh_word s1 of
                None \<Rightarrow> None
              | Some (w, r) \<Rightarrow>
                  if length r < length s1
                  then (case sh_words r of None \<Rightarrow> None | Some (ws, e, r') \<Rightarrow> Some (w # ws, e, r'))
                  else None))"
  by pat_completeness auto
termination
  by (relation "measure length") (auto intro: order_less_le_trans length_dropWhile_le)

declare sh_words.simps [simp del]

lemma sh_words_shorter: "sh_words s = Some (ws, e, r) \<Longrightarrow> e \<noteq> ShEnd \<Longrightarrow> length r < length s"
proof (induction s arbitrary: ws rule: sh_words.induct)
  case (1 s)
  note eq = sh_words.simps [of s, unfolded "1.prems"(1) Let_def]
  have drop: "length (dropWhile sh_blank s) \<le> length s" by (rule length_dropWhile_le)
  show ?case
  proof (cases "sh_stop (dropWhile sh_blank s)")
    case None
    then obtain w t us where t: "sh_word (dropWhile sh_blank s) = Some (w, t)" "length t < length (dropWhile sh_blank s)"
      "sh_words t = Some (us, e, r)"
      using eq by (auto split: option.splits if_splits)
    have "length r < length t" by (rule "1.IH" [OF refl None t(1) refl t(2,3) "1.prems"(2)])
    then show ?thesis using t(2) drop by linarith
  next
    case (Some x)
    then have "x = (e, r)" using eq by (cases x) simp
    then show ?thesis using sh_stop_shorter [OF Some [unfolded \<open>x = (e, r)\<close>] "1.prems"(2)] drop by linarith
  qed
qed

function sh_script :: "string \<Rightarrow> (string list \<times> sh_end) list option" where
  "sh_script s =
     (case sh_words s of
        None \<Rightarrow> None
      | Some (ws, e, r) \<Rightarrow>
          if e = ShEnd then Some (if ws = [] then [] else [(ws, e)])
          else (case sh_script r of None \<Rightarrow> None | Some cs \<Rightarrow> Some ((ws, e) # cs)))"
  by pat_completeness auto
termination by (relation "measure length") (auto dest: sh_words_shorter)

declare sh_script.simps [simp del]

section \<open>Words and commands are read back\<close>

definition sh_ordinary :: "char \<Rightarrow> bool" where
  "sh_ordinary c \<longleftrightarrow> \<not> sh_delim c \<and> c \<notin> {quote_char, CHR 0x5C, CHR 0x22, CHR ''$'', CHR 0x60}"

lemma sh_word_ordinary:
  "list_all sh_ordinary t \<Longrightarrow> sh_word (t @ s) = (case sh_word s of None \<Rightarrow> None | Some (w, r) \<Rightarrow> Some (t @ w, r))"
proof (induction t)
  case Nil
  then show ?case by (simp split: option.split)
next
  case (Cons c t)
  then show ?case by (simp add: sh_ordinary_def split: option.split)
qed

definition sh_boundary :: "string \<Rightarrow> bool" where
  "sh_boundary rest \<longleftrightarrow> rest = [] \<or> sh_delim (hd rest)"

lemma boundaries: "sh_boundary []" "sh_boundary (CHR '' '' # s)" "sh_boundary (CHR 0x0A # s)"
  by (simp_all add: sh_boundary_def sh_delim_def)

text \<open>\<open>t\<close> is a text that a shell reads as the word \<open>w\<close>, wherever it stands.\<close>

definition word_text :: "string \<Rightarrow> string \<Rightarrow> bool" where
  "word_text t w \<longleftrightarrow> t \<noteq> [] \<and> \<not> sh_delim (hd t)
     \<and> (\<forall>rest. sh_boundary rest \<longrightarrow> sh_word (t @ rest) = Some (w, rest))"

lemma sh_word_stops: "sh_boundary rest \<Longrightarrow> sh_word rest = Some ([], rest)"
  by (cases rest) (auto simp: sh_boundary_def)

lemma word_shq: "word_text (shq v) v"
  unfolding word_text_def
proof (intro conjI allI impI)
  fix rest assume "sh_boundary rest"
  then show "sh_word (shq v @ rest) = Some (v, rest)"
    using sh_word_quoted [of v rest] sh_word_stops [of rest] by (simp add: shq_def del: sh_word.simps)
qed (simp_all add: shq_def)

lemma word_ordinary: "t \<noteq> [] \<Longrightarrow> list_all sh_ordinary t \<Longrightarrow> word_text t t"
  by (simp add: word_text_def sh_word_ordinary sh_word_stops) (cases t, simp_all add: sh_ordinary_def)

lemma word_assignment: "list_all sh_ordinary k \<Longrightarrow> k \<noteq> [] \<Longrightarrow> word_text (k @ ''='' @ shq v) (k @ ''='' @ v)"
proof -
  assume k: "list_all sh_ordinary k" "k \<noteq> []"
  have "list_all sh_ordinary (k @ ''='')" using k by (simp add: sh_ordinary_def sh_delim_def)
  then have "sh_word ((k @ ''='') @ shq v @ rest) = Some (k @ ''='' @ v, rest)" if "sh_boundary rest" for rest
    unfolding sh_word_ordinary [OF \<open>list_all sh_ordinary (k @ ''='')\<close>]
    using word_shq [of v] that by (simp add: word_text_def)
  moreover have "\<not> sh_delim (hd (k @ ''='' @ shq v))" using k by (cases k) (simp_all add: sh_ordinary_def)
  ultimately show ?thesis using k by (simp add: word_text_def)
qed

lemma sh_words_blank [simp]: "sh_words (CHR '' '' # s) = sh_words s"
  by (subst (1 2) sh_words.simps) (simp add: sh_blank_def)

lemma sh_words_word:
  assumes "word_text t w" "sh_boundary rest"
  shows "sh_words (t @ rest) = (case sh_words rest of None \<Rightarrow> None | Some (ws, e, r) \<Rightarrow> Some (w # ws, e, r))"
proof -
  obtain c t' where t: "t = c # t'" "\<not> sh_delim c" using assms(1) by (cases t) (auto simp: word_text_def)
  have "\<not> sh_blank c" "c \<noteq> CHR 0x0A" "c \<noteq> CHR ''&''" "c \<noteq> CHR ''|''" using t(2) by (auto simp: sh_delim_def sh_blank_def)
  then have "dropWhile sh_blank (t @ rest) = t @ rest" "sh_stop (t @ rest) = None" by (simp_all add: t sh_stop_def)
  moreover have "sh_word (t @ rest) = Some (w, rest)" using assms by (simp add: word_text_def)
  ultimately show ?thesis by (subst sh_words.simps) (simp add: t Let_def)
qed

lemma sh_words_line:
  assumes "list_all2 word_text ts ws" "ts \<noteq> []" "sh_boundary rest"
  shows "sh_words (join_with '' '' ts @ rest) = (case sh_words rest of None \<Rightarrow> None | Some (vs, e, r) \<Rightarrow> Some (ws @ vs, e, r))"
  using assms(1,2)
proof (induction "'' ''" ts arbitrary: ws rule: join_with.induct)
  case (2 w)
  then show ?case using sh_words_word [OF _ assms(3)] by (auto simp: list_all2_Cons1 split: option.split)
next
  case (3 w v ts)
  then obtain x us where ws: "ws = x # us" "word_text w x" "list_all2 word_text (v # ts) us" by (auto simp: list_all2_Cons1)
  have "sh_words (w @ '' '' @ join_with '' '' (v # ts) @ rest)
      = (case sh_words ('' '' @ join_with '' '' (v # ts) @ rest) of None \<Rightarrow> None | Some (vs, e, r) \<Rightarrow> Some (x # vs, e, r))"
    by (rule sh_words_word [OF ws(2)]) (simp add: boundaries)
  then show ?case using 3 ws by (simp split: option.split)
qed simp

lemma sh_script_line:
  assumes "list_all2 word_text ts ws" "ts \<noteq> []"
  shows "sh_script (join_with '' '' ts) = Some [(ws, ShEnd)]"
    "sh_script (join_with '' '' ts @ '' && '' @ s) = map_option ((#) (ws, ShAnd)) (sh_script s)"
    "sh_script (join_with '' '' ts @ '' | '' @ s) = map_option ((#) (ws, ShPipe)) (sh_script s)"
    "sh_script (join_with '' '' ts @ CHR 0x0A # s) = map_option ((#) (ws, ShNewline)) (sh_script s)"
proof -
  have blank: "sh_script (CHR '' '' # u) = sh_script u" for u by (subst (1 2) sh_script.simps) simp
  have stops: "sh_words [] = Some ([], ShEnd, [])" "sh_words (''&& '' @ s) = Some ([], ShAnd, CHR '' '' # s)"
    "sh_words (''| '' @ s) = Some ([], ShPipe, CHR '' '' # s)" "sh_words (CHR 0x0A # s) = Some ([], ShNewline, s)"
    by (subst sh_words.simps, simp add: sh_blank_def sh_stop_def)+
  have ne: "ws \<noteq> []" using assms by auto
  note line = sh_words_line [OF assms]
  show "sh_script (join_with '' '' ts) = Some [(ws, ShEnd)]"
    using line [of "[]"] ne by (subst sh_script.simps) (simp add: stops boundaries)
  show "sh_script (join_with '' '' ts @ '' && '' @ s) = map_option ((#) (ws, ShAnd)) (sh_script s)"
    using line [of "'' && '' @ s"] stops(2) blank by (subst sh_script.simps) (simp add: boundaries split: option.split)
  show "sh_script (join_with '' '' ts @ '' | '' @ s) = map_option ((#) (ws, ShPipe)) (sh_script s)"
    using line [of "'' | '' @ s"] stops(3) blank by (subst sh_script.simps) (simp add: boundaries split: option.split)
  show "sh_script (join_with '' '' ts @ CHR 0x0A # s) = map_option ((#) (ws, ShNewline)) (sh_script s)"
    using line [of "CHR 0x0A # s"] stops(4) by (subst sh_script.simps) (simp add: boundaries split: option.split)
qed

section \<open>The compiled command\<close>

text \<open>What the caller asked for, as commands: the directory, the input that is decoded and piped, and the argv, its
  variables set by \<^verbatim>\<open>env\<close>.\<close>

definition exec_plan :: "string list \<Rightarrow> exec_options \<Rightarrow> (string list \<times> sh_end) list" where
  "exec_plan argv opts =
     (case eo_cwd opts of None \<Rightarrow> [] | Some d \<Rightarrow> if d = [] then [] else [([''cd'', d], ShAnd)])
     @ (case eo_input opts of None \<Rightarrow> []
        | Some i \<Rightarrow> [([''printf'', ''%s'', toBase64 i], ShPipe), ([''base64'', ''-d''], ShPipe)])
     @ [((if eo_env opts = [] then [] else ''env'' # map (\<lambda>(k, v). k @ ''='' @ v) (eo_env opts)) @ argv, ShEnd)]"

lemma ordinary_words: "list_all2 word_text [''env''] [''env'']" "list_all2 word_text [''base64'', ''-d''] [''base64'', ''-d'']"
  "word_text ''cd'' ''cd''" "word_text ''printf'' ''printf''" "word_text ''%s'' ''%s''"
  by (simp_all add: word_ordinary sh_ordinary_def sh_delim_def)

lemma quoted_argv: "list_all2 word_text (map shq ws) ws"
  by (simp add: list_all2_conv_all_nth word_shq)

text \<open>C37: The array semantics of exec survive the transport.  The one string that is sent for an argv, with any
  variables, input and directory, is read by a POSIX shell as exactly these commands: no argument, value or path
  is split, expanded or run, whatever characters it holds; and what is decoded and piped is the input.\<close>

theorem command_runs_the_argv:
  assumes "argv \<noteq> []" "buildShellCommand argv opts = Some command"
  shows "sh_script command = Some (exec_plan argv opts)
    \<and> map_option (base64_decode \<circ> toBase64) (eo_input opts) = map_option (Some \<circ> exec_bytes) (eo_input opts)"
proof
  define env where "env = (if eo_env opts = [] then [] else ''env'' # map (\<lambda>(key, value). shq (key @ ''='' @ value)) (eo_env opts))"
  define c0 where "c0 = join_with '' '' (env @ map shq argv)"
  define c1 where "c1 = (case eo_input opts of None \<Rightarrow> c0
                | Some input \<Rightarrow> ''printf %s '' @ shq (toBase64 input) @ '' | base64 -d | '' @ c0)"
  have command: "command = (case eo_cwd opts of None \<Rightarrow> c1
                | Some cwd \<Rightarrow> if cwd = [] then c1 else ''cd '' @ shq cwd @ '' && '' @ c1)"
    using assms(2) unfolding buildShellCommand_def Let_def env_def [symmetric] c0_def [symmetric] c1_def [symmetric]
    by (simp split: if_splits)
  have "list_all2 word_text env (if eo_env opts = [] then [] else ''env'' # map (\<lambda>(k, v). k @ ''='' @ v) (eo_env opts))"
    using ordinary_words(1) by (auto simp: env_def list_all2_map1 list_all2_map2 case_prod_beta word_shq intro!: list_all2_refl)
  then have "sh_script c0 = Some [((if eo_env opts = [] then [] else ''env'' # map (\<lambda>(k, v). k @ ''='' @ v) (eo_env opts)) @ argv, ShEnd)]"
    unfolding c0_def using assms(1) by (intro sh_script_line list_all2_appendI quoted_argv) simp_all
  moreover have "sh_script c1 = map_option ((@) (case eo_input opts of None \<Rightarrow> []
      | Some i \<Rightarrow> [([''printf'', ''%s'', toBase64 i], ShPipe), ([''base64'', ''-d''], ShPipe)])) (sh_script c0)"
  proof (cases "eo_input opts")
    case (Some i)
    have "list_all2 word_text [''printf'', ''%s'', shq (toBase64 i)] [''printf'', ''%s'', toBase64 i]"
      by (simp add: ordinary_words word_shq)
    from sh_script_line(3) [OF this] sh_script_line(3) [OF ordinary_words(2), of c0] show ?thesis
      by (cases "sh_script c0") (simp_all add: c1_def Some)
  qed (cases "sh_script c0"; simp add: c1_def)
  moreover have "sh_script command = map_option ((@) (case eo_cwd opts of None \<Rightarrow> [] | Some d \<Rightarrow> if d = [] then [] else [([''cd'', d], ShAnd)]))
      (sh_script c1)"
  proof (cases "eo_cwd opts")
    case (Some d)
    have "list_all2 word_text [''cd'', shq d] [''cd'', d]" by (simp add: ordinary_words word_shq)
    from sh_script_line(2) [OF this, of c1] show ?thesis by (cases "sh_script c1") (simp_all add: command Some)
  qed (cases "sh_script c1"; simp add: command)
  ultimately show "sh_script command = Some (exec_plan argv opts)" by (simp add: exec_plan_def)
qed (simp add: comp_def toBase64_def base64_roundtrip)

theorem command_runs_the_argv_witness:
  "sh_script (the (buildShellCommand [''echo'', ''it'' @ [quote_char] @ ''s $HOME; ls''] \<lparr>eo_cwd = Some ''/work'', eo_env = [(''A'', ''1 2'')], eo_input = Some (InText ''hi'')\<rparr>))
     = Some [([''cd'', ''/work''], ShAnd), ([''printf'', ''%s'', ''aGk=''], ShPipe), ([''base64'', ''-d''], ShPipe),
             ([''env'', ''A=1 2'', ''echo'', ''it'' @ [quote_char] @ ''s $HOME; ls''], ShEnd)]"
proof -
  define opts where "opts = \<lparr>eo_cwd = Some ''/work'', eo_env = [(''A'', ''1 2'')], eo_input = Some (InText ''hi'')\<rparr>"
  define argv where "argv = [''echo'', ''it'' @ [quote_char] @ ''s $HOME; ls'']"
  have "buildShellCommand argv opts \<noteq> None" "toBase64 (InText ''hi'') = ''aGk=''" unfolding opts_def by code_simp+
  then show ?thesis
    unfolding opts_def [symmetric] argv_def [symmetric]
    using command_runs_the_argv [of argv opts] by (auto simp: exec_plan_def opts_def argv_def)
qed

section \<open>The launcher\<close>

lemma letter_ordinary: "letter c \<or> digit c \<Longrightarrow> sh_ordinary c"
  by (rule ccontr) (auto simp: sh_ordinary_def sh_delim_def letter_def digit_def less_eq_char_def)

lemma env_name_ordinary: "assertEnvName k \<Longrightarrow> list_all sh_ordinary k \<and> k \<noteq> []"
  by (cases k) (auto simp: assertEnvName_def list_all_iff letter_ordinary)

definition launcher_plan :: "string \<Rightarrow> bootstrap_config \<Rightarrow> string list list" where
  "launcher_plan bin b =
     [[''set'', ''-eu'']] @ map (\<lambda>(k, v). [''export'', k @ ''='' @ v]) (bc_env b)
     @ [''exec'' # (case bc_cmd b of Some cmd \<Rightarrow> cmd | None \<Rightarrow> [bin])]"

lemma script_of_lines:
  assumes "list_all2 (\<lambda>l ws. \<exists>ts. l = join_with '' '' ts \<and> ts \<noteq> [] \<and> list_all2 word_text ts ws) ls wss"
  shows "sh_script (join_with nl (ls @ [[]])) = Some (map (\<lambda>ws. (ws, ShNewline)) wss)"
  using assms
proof (induction ls wss rule: list_all2_induct)
  case Nil
  show ?case by (subst sh_script.simps, subst sh_words.simps) (simp add: sh_stop_def)
next
  case (Cons l ls ws wss)
  then obtain ts where "l = join_with '' '' ts" "ts \<noteq> []" "list_all2 word_text ts ws" by blast
  then have "sh_script (l @ CHR 0x0A # join_with nl (ls @ [[]])) = Some ((ws, ShNewline) # map (\<lambda>ws. (ws, ShNewline)) wss)"
    using sh_script_line(4) Cons.IH by simp
  then show ?case by (cases ls) simp_all
qed

text \<open>The launcher hands over the environment as it is.  After its first line, the launcher of the supervisor is read
  by a POSIX shell as: stop on errors, one export per variable with exactly its value, and the replacement of
  the shell by the program with exactly its arguments; no value of a secret is expanded or run.\<close>

theorem launcher_exports_the_environment:
  assumes "launcher_text bin b = Some body" "bc_cmd b \<noteq> Some []"
  shows "\<exists>rest. body = ''#!/bin/sh'' @ nl @ rest
    \<and> sh_script rest = Some (map (\<lambda>ws. (ws, ShNewline)) (launcher_plan bin b))"
proof -
  define program where "program = (case bc_cmd b of Some cmd \<Rightarrow> cmd | None \<Rightarrow> [bin])"
  define ls where "ls = [''set -eu''] @ map export_line (bc_env b) @ [''exec '' @ join_with '' '' (map shq program)]"
  have names: "list_all (assertEnvName \<circ> fst) (bc_env b)" and body: "body = ''#!/bin/sh'' @ nl @ join_with nl (ls @ [[]])"
    using assms(1) by (auto simp: launcher_text_def ls_def program_def Let_def split: if_splits option.splits)
  have "program \<noteq> []" using assms(2) by (auto simp: program_def split: option.splits)
  let ?reads = "\<lambda>l ws. \<exists>ts. l = join_with '' '' ts \<and> ts \<noteq> [] \<and> list_all2 word_text ts ws"
  have plain: "word_text ''set'' ''set''" "word_text ''-eu'' ''-eu''" "word_text ''export'' ''export''" "word_text ''exec'' ''exec''"
    by (simp_all add: word_ordinary sh_ordinary_def sh_delim_def)
  have "?reads ''set -eu'' [''set'', ''-eu'']" by (rule exI [of _ "[''set'', ''-eu'']"]) (simp add: plain)
  moreover have "?reads (export_line kv) [''export'', fst kv @ ''='' @ snd kv]" if "kv \<in> set (bc_env b)" for kv
  proof -
    have k: "list_all sh_ordinary (fst kv)" "fst kv \<noteq> []"
      using that names env_name_ordinary by (auto simp: list_all_iff)
    show ?thesis
      by (rule exI [of _ "[''export'', fst kv @ ''='' @ shq (snd kv)]"])
        (use word_assignment [OF k] in \<open>simp add: export_line_def plain\<close>)
  qed
  then have "list_all2 ?reads (map export_line (bc_env b)) (map (\<lambda>(k, v). [''export'', k @ ''='' @ v]) (bc_env b))"
    by (auto simp: list_all2_map1 list_all2_map2 case_prod_beta intro!: list_all2_refl simp: list_all2_same)
  moreover have "?reads (''exec '' @ join_with '' '' (map shq program)) (''exec'' # program)"
    by (rule exI [of _ "''exec'' # map shq program"])
      (use \<open>program \<noteq> []\<close> in \<open>cases program; simp add: plain quoted_argv [of "_ # _", simplified]\<close>)
  ultimately have "list_all2 ?reads ls (launcher_plan bin b)"
    unfolding ls_def launcher_plan_def program_def [symmetric] by (intro list_all2_appendI) simp_all
  from script_of_lines [OF this] body show ?thesis by blast
qed

theorem launcher_exports_the_environment_witness:
  "\<exists>rest. the (launcher_text ''/bin/marid'' \<lparr>bc_env = [(''T'', ''a$b'')], bc_cmd = None, bc_maridBinaryUrl = Some ''u''\<rparr>) = ''#!/bin/sh'' @ nl @ rest
    \<and> sh_script rest = Some [([''set'', ''-eu''], ShNewline), ([''export'', ''T=a$b''], ShNewline), ([''exec'', ''/bin/marid''], ShNewline)]"
proof -
  define b where "b = \<lparr>bc_env = [(''T'', ''a$b'')], bc_cmd = None, bc_maridBinaryUrl = Some ''u''\<rparr>"
  have "launcher_text ''/bin/marid'' b \<noteq> None" unfolding b_def by code_simp
  then show ?thesis
    unfolding b_def [symmetric]
    using launcher_exports_the_environment [of "''/bin/marid''" b] by (auto simp: launcher_plan_def b_def)
qed

end
