(* ===== verification/BoxDriver.thy ===== *)
theory BoxDriver
  imports BoxShell Journal JsNumber
begin

text \<open>
  The driver of hosted boxes (\<^verbatim>\<open>control-plane/src/substrates/box.ts\<close>, \<open>BoxProvider\<close>): requests to its API, the
  loops that wait for the machine, and the functions of a substrate made of them.

  The API, the clock and the waiting are the service: three functions over a world of any type.  A call of the
  driver takes the driver's state and gives a result and the state it leaves; \<open>None\<close> is a call that never returns.
  The state keeps the requests that were made and their answers, which the code does not.  The URL, the headers
  and the key of a request are left out; a field of an answer that has the wrong type is absent.
\<close>

section \<open>The service\<close>

record box_resource =
  br_id :: "string option"
  br_state :: "string option"
  br_subdomain :: "string option"

record box_envelope =
  en_ok :: "bool option"
  en_code :: "string option"
  en_message :: "string option"
  en_requestId :: "string option"
  en_errCode :: "string option"
  en_errMessage :: "string option"
  en_box :: "box_resource option"
  en_exitCode :: "int option"
  en_signal :: "string option"
  en_stdout :: "string option"
  en_stderr :: "string option"
  en_timedOut :: bool

datatype box_request =
    CreateBox "rat option"
  | GetBox string
  | StopBox string
  | ResumeBox string
  | RunCommand string string nat
  | PatchBox string rat

text \<open>
  The answers of \<^verbatim>\<open>fetch\<close>: it is aborted when the budget runs out, it fails, or there is a response, whose body is
  JSON or not.  The timer is cleared when the headers have come, so that the body may stall.
\<close>

datatype http_answer = Aborted | NetFailure string | Reply nat "box_envelope option" | BodyStalls

record 'w service =
  pl_fetch :: "box_request \<Rightarrow> rat \<Rightarrow> 'w \<Rightarrow> http_answer \<times> 'w"
  pl_now :: "'w \<Rightarrow> rat"
  pl_sleep :: "rat \<Rightarrow> 'w \<Rightarrow> 'w"

section \<open>Errors\<close>

datatype box_error_kind = KAuth | KNotFound | KConflict | KCapacity | KTimeout | KNotRunning | KApi | KProtocol

text \<open>\<open>be_texts\<close> are the variable parts of the message, in order; in it they are separated by blanks.\<close>

record box_error =
  be_kind :: box_error_kind
  be_texts :: "string list"
  be_status :: "nat option"
  be_code :: "string option"

datatype driver_error = BoxError box_error | PlainError

definition failure :: "box_error_kind \<Rightarrow> string list \<Rightarrow> driver_error" where
  "failure kind texts = BoxError \<lparr>be_kind = kind, be_texts = texts, be_status = None, be_code = None\<rparr>"

definition retryable :: "box_error \<Rightarrow> bool" where
  "retryable e \<longleftrightarrow> be_kind e = KCapacity \<or> be_kind e = KTimeout
     \<or> (be_kind e = KApi \<and> (case be_status e of None \<Rightarrow> False | Some n \<Rightarrow> 500 \<le> n))"

definition or_field :: "'a option \<Rightarrow> 'a option \<Rightarrow> 'a option" where
  "or_field a b = (case a of None \<Rightarrow> b | Some x \<Rightarrow> Some x)"

definition envelopeError :: "string \<Rightarrow> nat \<Rightarrow> box_envelope option \<Rightarrow> box_error" where
  "envelopeError context status payload =
     (let code = Option.bind payload (\<lambda>p. or_field (en_code p) (en_errCode p));
          message = Option.bind payload (\<lambda>p. or_field (en_message p) (en_errMessage p));
          requestId = Option.bind payload en_requestId;
          kind = (if code = Some ''machine_not_running'' then KNotRunning
             else if status = 401 \<or> status = 402 then KAuth
             else if status = 404 then KNotFound
             else if status = 409 then KConflict
             else if status = 429 then KCapacity else KApi)
      in \<lparr>be_kind = kind, be_texts = context # concat (map (\<lambda>t. case t of None \<Rightarrow> [] | Some s \<Rightarrow> [s]) [code, message, requestId]),
          be_status = Some status, be_code = code\<rparr>)"

text \<open>\<^verbatim>\<open>/\bbox_(?:restoring|securing)\b/i\<close>.\<close>

definition lower_ascii :: "string \<Rightarrow> string" where
  "lower_ascii = map (\<lambda>c. if CHR ''A'' \<le> c \<and> c \<le> CHR ''Z'' then char_of (of_char c + 32 :: nat) else c)"

definition word_char :: "char \<Rightarrow> bool" where
  "word_char c \<longleftrightarrow> letter c \<or> digit c"

fun has_word :: "bool \<Rightarrow> string \<Rightarrow> string \<Rightarrow> bool" where
  "has_word bound w [] \<longleftrightarrow> False"
| "has_word bound w (c # s) \<longleftrightarrow>
     (bound \<and> prefix w (c # s) \<and> (let r = drop (length w) (c # s) in r = [] \<or> \<not> word_char (hd r)))
     \<or> has_word (\<not> word_char c) w s"

definition isRestoreReadinessError :: "driver_error \<Rightarrow> bool" where
  "isRestoreReadinessError err =
     (case err of
        PlainError \<Rightarrow> False
      | BoxError e \<Rightarrow>
          be_code e = Some ''box_restoring'' \<or> be_code e = Some ''box_securing''
          \<or> (be_code e = Some ''box_direct_failed''
              \<and> list_ex (\<lambda>t. has_word True ''box_restoring'' (lower_ascii t) \<or> has_word True ''box_securing'' (lower_ascii t)) (be_texts e)))"

section \<open>Requests\<close>

record box_config =
  cf_maridBinaryUrl :: "string option"
  cf_ttlSeconds :: "rat option"
  cf_maridBinPath :: "string option"
  cf_maridLogPath :: "string option"
  cf_requestTimeoutMs :: "js_number option"
  cf_createTimeoutMs :: "js_number option"
  cf_resumeTimeoutMs :: "js_number option"
  cf_archiveTimeoutMs :: "js_number option"
  cf_execTimeoutMs :: "js_number option"
  cf_pollIntervalMs :: "js_number option"

definition MAX_COMMAND_TIMEOUT_S :: int where "MAX_COMMAND_TIMEOUT_S = 60"
definition DEFAULT_REQUEST_TIMEOUT_MS :: rat where "DEFAULT_REQUEST_TIMEOUT_MS = 30000"
definition DEFAULT_CREATE_TIMEOUT_MS :: rat where "DEFAULT_CREATE_TIMEOUT_MS = 180000"
definition DEFAULT_RESUME_TIMEOUT_MS :: rat where "DEFAULT_RESUME_TIMEOUT_MS = 180000"
definition DEFAULT_ARCHIVE_TIMEOUT_MS :: rat where "DEFAULT_ARCHIVE_TIMEOUT_MS = 180000"
definition DEFAULT_EXEC_TIMEOUT_MS :: rat where "DEFAULT_EXEC_TIMEOUT_MS = 60000"
definition DEFAULT_POLL_INTERVAL_MS :: rat where "DEFAULT_POLL_INTERVAL_MS = 1000"

definition num :: "js_number option \<Rightarrow> rat \<Rightarrow> rat" where
  "num value fallback = (case value of Some (Fin q) \<Rightarrow> if q > 0 then q else fallback | _ \<Rightarrow> fallback)"

record 'w driver =
  dr_world :: 'w
  dr_bootstraps :: "(string \<times> bootstrap_config) list"
  dr_log :: "(box_request \<times> http_answer) list"

type_synonym ('w, 'a) driver_outcome = "((driver_error + 'a) \<times> 'w driver) option"

definition res_ok :: "nat \<Rightarrow> bool" where
  "res_ok status \<longleftrightarrow> 200 \<le> status \<and> status \<le> 299"

definition api_request :: "'w service \<Rightarrow> box_request \<Rightarrow> string \<Rightarrow> rat \<Rightarrow> 'w driver \<Rightarrow> ('w, box_envelope) driver_outcome" where
  "api_request P req context budget s =
     (let (ans, w) = pl_fetch P req budget (dr_world s);
          s = s\<lparr>dr_world := w, dr_log := dr_log s @ [(req, ans)]\<rparr>
      in case ans of
           BodyStalls \<Rightarrow> None
         | Aborted \<Rightarrow> Some (Inl (failure KTimeout [context]), s)
         | NetFailure m \<Rightarrow> Some (Inl (failure KApi [context, m]), s)
         | Reply status payload \<Rightarrow>
             if \<not> res_ok status \<or> Option.bind payload en_ok = Some False
             then Some (Inl (BoxError (envelopeError context status payload)), s)
             else (case payload of
                     None \<Rightarrow> Some (Inl (BoxError \<lparr>be_kind = KProtocol, be_texts = [context], be_status = Some status, be_code = None\<rparr>), s)
                   | Some env \<Rightarrow> Some (Inr env, s)))"

definition request_budget :: "box_config \<Rightarrow> rat" where
  "request_budget cfg = num (cf_requestTimeoutMs cfg) DEFAULT_REQUEST_TIMEOUT_MS"

definition and_then :: "('w driver \<Rightarrow> ('w, 'a) driver_outcome) \<Rightarrow> ('a \<Rightarrow> 'w driver \<Rightarrow> ('w, 'b) driver_outcome) \<Rightarrow> 'w driver \<Rightarrow> ('w, 'b) driver_outcome" where
  "and_then m f s = Option.bind (m s) (\<lambda>(r, s). case r of Inl e \<Rightarrow> Some (Inl e, s) | Inr a \<Rightarrow> f a s)"

section \<open>Waiting\<close>

definition RUNNING_STATES :: "string list" where "RUNNING_STATES = [''ready'', ''idle'', ''running'']"
definition PENDING_STATES :: "string list" where "PENDING_STATES = [''init'', ''provisioning'', ''provisioned'', ''cloning'']"

definition is_running :: "string option \<Rightarrow> bool" where
  "is_running st = (case st of None \<Rightarrow> False | Some x \<Rightarrow> x \<in> set RUNNING_STATES)"
definition is_pending :: "string option \<Rightarrow> bool" where
  "is_pending st = (case st of None \<Rightarrow> False | Some x \<Rightarrow> x \<in> set PENDING_STATES)"

text \<open>A state that is absent is neither done nor pending.\<close>

partial_function (option) pollUntilState ::
    "'w service \<Rightarrow> box_config \<Rightarrow> string \<Rightarrow> (string option \<Rightarrow> bool) \<Rightarrow> (string option \<Rightarrow> bool) \<Rightarrow> rat \<Rightarrow> string
      \<Rightarrow> 'w driver \<Rightarrow> ('w, box_resource) driver_outcome" where
  "pollUntilState pf cfg boxId dn pending deadline what s =
     Option.bind (api_request pf (GetBox boxId) ''poll box state'' (request_budget cfg) s) (\<lambda>(r, s).
       case r of
         Inl e \<Rightarrow> Some (Inl e, s)
       | Inr res \<Rightarrow>
           (case en_box res of
              None \<Rightarrow> Some (Inl (failure KProtocol []), s)
            | Some box \<Rightarrow>
                if dn (br_state box) then Some (Inr box, s)
                else if \<not> pending (br_state box) then Some (Inl (failure KApi [boxId]), s)
                else if pl_now pf (dr_world s) \<ge> deadline then Some (Inl (failure KTimeout [what]), s)
                else pollUntilState pf cfg boxId dn pending deadline what
                       (s\<lparr>dr_world := pl_sleep pf (num (cf_pollIntervalMs cfg) DEFAULT_POLL_INTERVAL_MS) (dr_world s)\<rparr>)))"

definition pollUntilRunning :: "'w service \<Rightarrow> box_config \<Rightarrow> string \<Rightarrow> rat \<Rightarrow> string \<Rightarrow> 'w driver \<Rightarrow> ('w, box_resource) driver_outcome" where
  "pollUntilRunning P cfg boxId deadline what = pollUntilState P cfg boxId is_running is_pending deadline what"

section \<open>Commands\<close>

record exec_result =
  er_exitCode :: int
  er_stdout :: string
  er_stderr :: string

definition signal_table :: "(string \<times> int) list" where
  "signal_table =
     [(''SIGHUP'', 1), (''SIGINT'', 2), (''SIGQUIT'', 3), (''SIGILL'', 4), (''SIGTRAP'', 5), (''SIGABRT'', 6), (''SIGBUS'', 7),
      (''SIGFPE'', 8), (''SIGKILL'', 9), (''SIGUSR1'', 10), (''SIGSEGV'', 11), (''SIGUSR2'', 12), (''SIGPIPE'', 13),
      (''SIGALRM'', 14), (''SIGTERM'', 15)]"

definition upper_ascii :: "string \<Rightarrow> string" where
  "upper_ascii = map (\<lambda>c. if CHR ''a'' \<le> c \<and> c \<le> CHR ''z'' then char_of (of_char c - 32 :: nat) else c)"

definition signalNumber :: "string \<Rightarrow> int option" where
  "signalNumber signal = map_of signal_table (upper_ascii signal)"

definition command_timeout :: "rat \<Rightarrow> nat" where
  "command_timeout budgetMs = nat (min MAX_COMMAND_TIMEOUT_S (max 1 \<lceil>budgetMs / 1000\<rceil>))"

definition command_result :: "string \<Rightarrow> box_envelope \<Rightarrow> driver_error + exec_result" where
  "command_result context res =
     (if en_timedOut res then Inl (failure KTimeout [context])
      else case or_field (en_exitCode res)
                  (if en_signal res = None \<or> en_signal res = Some [] then None
                   else map_option (\<lambda>sig. 128 + sig) (signalNumber (the (en_signal res)))) of
             None \<Rightarrow> Inl (failure KProtocol [context])
           | Some code \<Rightarrow> Inr \<lparr>er_exitCode = code, er_stdout = (case en_stdout res of None \<Rightarrow> [] | Some x \<Rightarrow> x),
               er_stderr = (case en_stderr res of None \<Rightarrow> [] | Some x \<Rightarrow> x)\<rparr>)"

definition box_command :: "'w service \<Rightarrow> box_config \<Rightarrow> string \<Rightarrow> string \<Rightarrow> string \<Rightarrow> 'w driver \<Rightarrow> ('w, exec_result) driver_outcome" where
  "box_command P cfg boxId command context =
     (let budgetMs = num (cf_execTimeoutMs cfg) DEFAULT_EXEC_TIMEOUT_MS
      in and_then (api_request P (RunCommand boxId command (command_timeout budgetMs)) context (budgetMs + request_budget cfg))
           (\<lambda>res s. Some (command_result context res, s)))"

partial_function (option) commandWhenReady ::
    "'w service \<Rightarrow> box_config \<Rightarrow> string \<Rightarrow> string \<Rightarrow> string \<Rightarrow> rat \<Rightarrow> 'w driver \<Rightarrow> ('w, exec_result) driver_outcome" where
  "commandWhenReady pf cfg boxId command context deadline s =
     Option.bind (box_command pf cfg boxId command context s) (\<lambda>(r, s).
       case r of
         Inr res \<Rightarrow> Some (Inr res, s)
       | Inl e \<Rightarrow>
           if \<not> isRestoreReadinessError e then Some (Inl e, s)
           else (let remaining = deadline - pl_now pf (dr_world s)
                 in if remaining \<le> 0 then Some (Inl (failure KTimeout [context]), s)
                    else commandWhenReady pf cfg boxId command context deadline
                           (s\<lparr>dr_world := pl_sleep pf (min (num (cf_pollIntervalMs cfg) DEFAULT_POLL_INTERVAL_MS) remaining) (dr_world s)\<rparr>)))"

section \<open>Handles\<close>

definition BOX_SUBSTRATE :: string where "BOX_SUBSTRATE = ''box''"

record box_handle =
  bh_substrate :: string
  bh_computer :: string
  bh_id :: string
  bh_ports :: "nat list"
  bh_subdomain :: "string option"

definition isBoxHandle :: "box_handle \<Rightarrow> ('w driver \<Rightarrow> ('w, 'a) driver_outcome) \<Rightarrow> 'w driver \<Rightarrow> ('w, 'a) driver_outcome" where
  "isBoxHandle h f s = (if bh_substrate h \<noteq> BOX_SUBSTRATE then Some (Inl PlainError, s) else f s)"

section \<open>Stopping\<close>

definition peekState :: "'w service \<Rightarrow> box_config \<Rightarrow> string \<Rightarrow> 'w driver \<Rightarrow> (string option \<times> 'w driver) option" where
  "peekState P cfg boxId s =
     map_option (\<lambda>(r, s). (case r of Inl _ \<Rightarrow> None | Inr res \<Rightarrow> Option.bind (en_box res) br_state, s))
       (api_request P (GetBox boxId) ''read box state'' (request_budget cfg) s)"

definition stopBox :: "'w service \<Rightarrow> box_config \<Rightarrow> string \<Rightarrow> string \<Rightarrow> 'w driver \<Rightarrow> ('w, unit) driver_outcome" where
  "stopBox P cfg boxId context s =
     Option.bind (api_request P (StopBox boxId) context (request_budget cfg) s) (\<lambda>(r, s).
       case r of
         Inr _ \<Rightarrow> Some (Inr (), s)
       | Inl PlainError \<Rightarrow> Some (Inl PlainError, s)
       | Inl (BoxError e) \<Rightarrow>
           if be_kind e = KNotFound then Some (Inr (), s)
           else if be_kind e = KConflict then
             map_option (\<lambda>(state, s).
                 (if state = Some ''archiving'' \<or> state = Some ''archived'' \<or> state = None then Inr () else Inl (BoxError e), s))
               (peekState P cfg boxId s)
           else Some (Inl (BoxError e), s))"

definition stopQuietly :: "'w service \<Rightarrow> box_config \<Rightarrow> string \<Rightarrow> 'w driver \<Rightarrow> 'w driver option" where
  "stopQuietly P cfg boxId s = map_option snd (stopBox P cfg boxId ''cleanup after failed bootstrap'' s)"

definition going_down :: "string option \<Rightarrow> bool" where
  "going_down st \<longleftrightarrow> is_pending st \<or> is_running st \<or> st = Some ''archiving''"

definition await_archived :: "'w service \<Rightarrow> box_config \<Rightarrow> string \<Rightarrow> rat \<Rightarrow> string \<Rightarrow> 'w driver \<Rightarrow> ('w, box_resource) driver_outcome" where
  "await_archived P cfg boxId deadline what = pollUntilState P cfg boxId (\<lambda>st. st = Some ''archived'') going_down deadline what"

definition retainedBoxError :: "string \<Rightarrow> driver_error" where
  "retainedBoxError boxId = failure KProtocol [boxId]"

definition forget :: "string \<Rightarrow> 'w driver \<Rightarrow> 'w driver" where
  "forget boxId s = s\<lparr>dr_bootstraps := AList.delete boxId (dr_bootstraps s)\<rparr>"

definition box_destroy :: "'w service \<Rightarrow> box_config \<Rightarrow> box_handle \<Rightarrow> 'w driver \<Rightarrow> ('w, unit) driver_outcome" where
  "box_destroy P cfg h = isBoxHandle h (\<lambda>s.
     Option.bind
       (and_then (stopBox P cfg (bh_id h) (bh_computer h))
          (\<lambda>_ s. let deadline = pl_now P (dr_world s) + num (cf_archiveTimeoutMs cfg) DEFAULT_ARCHIVE_TIMEOUT_MS
                 in await_archived P cfg (bh_id h) deadline (bh_computer h) s) s)
       (\<lambda>(r, s). case r of
          Inl (BoxError e) \<Rightarrow>
            if be_kind e = KNotFound then Some (Inr (), forget (bh_id h) s) else Some (Inl (BoxError e), s)
        | Inl PlainError \<Rightarrow> Some (Inl PlainError, s)
        | Inr _ \<Rightarrow> Some (Inl (retainedBoxError (bh_id h)), forget (bh_id h) s)))"

definition box_sleep :: "'w service \<Rightarrow> box_config \<Rightarrow> box_handle \<Rightarrow> 'w driver \<Rightarrow> ('w, unit) driver_outcome" where
  "box_sleep P cfg h = isBoxHandle h (\<lambda>s.
     let deadline = pl_now P (dr_world s) + num (cf_archiveTimeoutMs cfg) DEFAULT_ARCHIVE_TIMEOUT_MS
     in and_then (stopBox P cfg (bh_id h) (bh_computer h))
          (\<lambda>_. and_then (await_archived P cfg (bh_id h) deadline (bh_computer h)) (\<lambda>_ s. Some (Inr (), s))) s)"

section \<open>Starting\<close>

definition started :: "exec_result \<Rightarrow> bool" where
  "started res \<longleftrightarrow> er_exitCode res = 0 \<and> sublist BOOTSTRAP_OK (er_stdout res)"

definition box_bootstrap :: "'w service \<Rightarrow> box_config \<Rightarrow> string \<Rightarrow> string \<Rightarrow> bootstrap_config \<Rightarrow> rat \<Rightarrow> 'w driver \<Rightarrow> ('w, unit) driver_outcome" where
  "box_bootstrap P cfg boxId computer b deadline s =
     (case bootstrap_script (case cf_maridBinPath cfg of None \<Rightarrow> DEFAULT_MARID_BIN_PATH | Some p \<Rightarrow> p)
             (case cf_maridLogPath cfg of None \<Rightarrow> DEFAULT_MARID_LOG_PATH | Some p \<Rightarrow> p) b of
        None \<Rightarrow> Some (Inl PlainError, s)
      | Some script \<Rightarrow>
          and_then (commandWhenReady P cfg boxId script computer deadline)
            (\<lambda>res s. if \<not> started res then Some (Inl (failure KApi [computer, er_stderr res]), s) else Some (Inr (), s)) s)"

definition box_wake :: "'w service \<Rightarrow> box_config \<Rightarrow> box_handle \<Rightarrow> 'w driver \<Rightarrow> ('w, unit) driver_outcome" where
  "box_wake P cfg h = isBoxHandle h (\<lambda>s.
     case map_of (dr_bootstraps s) (bh_id h) of
       None \<Rightarrow> Some (Inl (failure KProtocol [bh_computer h]), s)
     | Some b \<Rightarrow>
         let deadline = pl_now P (dr_world s) + num (cf_resumeTimeoutMs cfg) DEFAULT_RESUME_TIMEOUT_MS
         in Option.bind (api_request P (ResumeBox (bh_id h)) (bh_computer h) (request_budget cfg) s) (\<lambda>(r, s).
              if (case r of Inr _ \<Rightarrow> False | Inl PlainError \<Rightarrow> True | Inl (BoxError e) \<Rightarrow> be_kind e \<noteq> KConflict)
              then Some (case r of Inl e \<Rightarrow> Inl e | Inr _ \<Rightarrow> Inr (), s)
              else and_then (pollUntilRunning P cfg (bh_id h) deadline (bh_computer h))
                     (\<lambda>_. box_bootstrap P cfg (bh_id h) (bh_computer h) b deadline) s))"

record materialize_spec =
  ms_computer :: string
  ms_env :: "(string \<times> string) list"
  ms_ports :: "nat list"
  ms_cmd :: "string list option"

definition spec_cmd :: "materialize_spec \<Rightarrow> string list option" where
  "spec_cmd spec = (case ms_cmd spec of None \<Rightarrow> None | Some c \<Rightarrow> if c = [] then None else Some c)"

definition binary_url :: "box_config \<Rightarrow> materialize_spec \<Rightarrow> string option" where
  "binary_url cfg spec =
     (if spec_cmd spec \<noteq> None then None
      else or_field (cf_maridBinaryUrl cfg) (map_of (ms_env spec) ''MARID_BINARY_URL''))"

definition materialize_try :: "'w service \<Rightarrow> box_config \<Rightarrow> string \<Rightarrow> string \<Rightarrow> bootstrap_config \<Rightarrow> rat \<Rightarrow> 'w driver \<Rightarrow> ('w, box_resource) driver_outcome" where
  "materialize_try P cfg boxId computer b deadline =
     and_then (pollUntilRunning P cfg boxId deadline computer)
       (\<lambda>ready. and_then (box_bootstrap P cfg boxId computer b deadline) (\<lambda>_ s. Some (Inr ready, s)))"

definition materialize_failed :: "'w service \<Rightarrow> box_config \<Rightarrow> string \<Rightarrow> driver_error \<Rightarrow> 'w driver \<Rightarrow> ('w, box_handle) driver_outcome" where
  "materialize_failed P cfg boxId e s =
     map_option (\<lambda>s. (Inl e, s)) (stopQuietly P cfg boxId (forget boxId s))"

definition box_materialize :: "'w service \<Rightarrow> box_config \<Rightarrow> materialize_spec \<Rightarrow> 'w driver \<Rightarrow> ('w, box_handle) driver_outcome" where
  "box_materialize P cfg spec s =
     (let url = binary_url cfg spec
      in if spec_cmd spec = None \<and> (url = None \<or> url = Some []) then Some (Inl (failure KProtocol []), s)
         else
           let deadline = pl_now P (dr_world s) + num (cf_createTimeoutMs cfg) DEFAULT_CREATE_TIMEOUT_MS
           in and_then (api_request P (CreateBox (cf_ttlSeconds cfg)) (ms_computer spec) (request_budget cfg))
                (\<lambda>created s.
                   case Option.bind (en_box created) br_id of
                     None \<Rightarrow> Some (Inl (failure KProtocol []), s)
                   | Some boxId \<Rightarrow>
                       if boxId = [] then Some (Inl (failure KProtocol []), s)
                       else
                         let b = \<lparr>bc_env = ms_env spec, bc_cmd = spec_cmd spec, bc_maridBinaryUrl = url\<rparr>;
                             h = \<lparr>bh_substrate = BOX_SUBSTRATE, bh_computer = ms_computer spec, bh_id = boxId, bh_ports = ms_ports spec,
                                  bh_subdomain = Option.bind (en_box created) br_subdomain\<rparr>;
                             s = s\<lparr>dr_bootstraps := AList.update boxId b (dr_bootstraps s)\<rparr>
                         in Option.bind
                              (materialize_try P cfg boxId (ms_computer spec) b deadline s)
                              (\<lambda>(r, s). case r of
                                 Inl e \<Rightarrow> materialize_failed P cfg boxId e s
                               | Inr ready \<Rightarrow>
                                   Some (Inr (h\<lparr>bh_subdomain := or_field (br_subdomain ready) (bh_subdomain h)\<rparr>), s))) s)"

section \<open>Use of a running box\<close>

definition box_exec :: "'w service \<Rightarrow> box_config \<Rightarrow> box_handle \<Rightarrow> string list \<Rightarrow> exec_options \<Rightarrow> 'w driver \<Rightarrow> ('w, exec_result) driver_outcome" where
  "box_exec P cfg h argv opts = isBoxHandle h (\<lambda>s.
     if argv = [] then Some (Inl PlainError, s)
     else case buildShellCommand argv opts of
            None \<Rightarrow> Some (Inl PlainError, s)
          | Some command \<Rightarrow> box_command P cfg (bh_id h) command (''exec '' @ hd argv) s)"

definition no_options :: exec_options where
  "no_options = \<lparr>eo_cwd = None, eo_env = [], eo_input = None\<rparr>"

text \<open>\<^verbatim>\<open>/https:\/\/\S+/\<close>: the first match.\<close>

fun find_url :: "string \<Rightarrow> string option" where
  "find_url [] = None"
| "find_url (c # s) =
     (let r = drop 8 (c # s)
      in if prefix ''https://'' (c # s) \<and> r \<noteq> [] \<and> \<not> js_space (hd r)
         then Some (''https://'' @ takeWhile (\<lambda>x. \<not> js_space x) r) else find_url s)"

definition box_exposePort :: "'w service \<Rightarrow> box_config \<Rightarrow> box_handle \<Rightarrow> int \<Rightarrow> 'w driver \<Rightarrow> ('w, string) driver_outcome" where
  "box_exposePort P cfg h port = isBoxHandle h (\<lambda>s.
     if port < 1 \<or> port > 65535 then Some (Inl PlainError, s)
     else let p = digits_of (nat port)
          in and_then (box_exec P cfg h [''host'', p] no_options)
               (\<lambda>register s.
                  if er_exitCode register \<noteq> 0 then Some (Inl (failure KApi [p, er_stderr register]), s)
                  else and_then (box_exec P cfg h [''host'', ''url'', p] no_options)
                         (\<lambda>out s. case find_url (er_stdout out) of
                             None \<Rightarrow> Some (Inl (failure KProtocol [p, er_stderr out]), s)
                           | Some url \<Rightarrow> if er_exitCode out \<noteq> 0 then Some (Inl (failure KProtocol [p, er_stderr out]), s)
                                        else Some (Inr url, s)) s) s)"

datatype box_status = Alive | Gone | UnknownStatus

definition box_instanceStatus :: "'w service \<Rightarrow> box_config \<Rightarrow> box_handle \<Rightarrow> 'w driver \<Rightarrow> (box_status \<times> 'w driver) option" where
  "box_instanceStatus P cfg h s =
     (if bh_substrate h \<noteq> BOX_SUBSTRATE then Some (UnknownStatus, s)
      else map_option (\<lambda>(r, s).
        (case r of
           Inl (BoxError e) \<Rightarrow> if be_kind e = KNotFound then Gone else UnknownStatus
         | Inl PlainError \<Rightarrow> UnknownStatus
         | Inr res \<Rightarrow>
             let state = Option.bind (en_box res) br_state
             in if is_running state \<or> is_pending state \<or> state = Some ''archiving'' \<or> state = Some ''archived'' then Alive else UnknownStatus, s))
        (api_request P (GetBox (bh_id h)) (bh_computer h) (request_budget cfg) s))"

definition box_holdAwake :: "'w service \<Rightarrow> box_config \<Rightarrow> box_handle \<Rightarrow> 'w driver \<Rightarrow> ('w, unit) driver_outcome" where
  "box_holdAwake P cfg h = isBoxHandle h (\<lambda>s.
     case cf_ttlSeconds cfg of
       None \<Rightarrow> Some (Inr (), s)
     | Some ttl \<Rightarrow>
         map_option (\<lambda>(_, s). (Inr (), s)) (api_request P (PatchBox (bh_id h) ttl) (bh_computer h) (request_budget cfg) s))"

section \<open>What a call has been told\<close>

text \<open>The last request of a call and its answer.\<close>

definition told :: "'w driver \<Rightarrow> 'w driver \<Rightarrow> box_request \<Rightarrow> http_answer \<Rightarrow> bool" where
  "told s s' req ans \<longleftrightarrow> (\<exists>before. dr_log s' = dr_log s @ before @ [(req, ans)])"

lemma told_last: "told s s' req ans \<Longrightarrow> last (dr_log s') = (req, ans)"
  by (auto simp: told_def)

lemma told_after:
  "told s s' req ans \<Longrightarrow> told s' s'' req2 ans2 \<Longrightarrow> told s s'' req2 ans2"
  by (auto simp: told_def)

lemma told_world [simp]: "told (s\<lparr>dr_world := w\<rparr>) s' req ans = told s s' req ans" "told (forget i s) s' req ans = told s s' req ans"
  "told s (forget i s') req ans = told s s' req ans"
  by (simp_all add: told_def forget_def)

text \<open>What an outcome says of the answer it came from.\<close>

definition answered :: "http_answer \<Rightarrow> (box_envelope \<Rightarrow> bool) \<Rightarrow> bool" where
  "answered ans Q \<longleftrightarrow> (\<exists>status env. ans = Reply status (Some env) \<and> res_ok status \<and> Q env)"

definition missing :: "http_answer \<Rightarrow> bool" where
  "missing ans \<longleftrightarrow> (\<exists>payload. ans = Reply 404 payload)"

definition box_not_found :: "driver_error + 'a \<Rightarrow> bool" where
  "box_not_found r \<longleftrightarrow> (case r of Inl (BoxError e) \<Rightarrow> be_kind e = KNotFound | _ \<Rightarrow> False)"

lemma box_not_found_simps [simp]:
  "\<not> box_not_found (Inr a)" "box_not_found (Inl (BoxError e)) \<longleftrightarrow> be_kind e = KNotFound" "\<not> box_not_found (Inl PlainError)"
  "box_not_found (Inl (failure k ts)) \<longleftrightarrow> k = KNotFound"
  by (simp_all add: box_not_found_def failure_def)

lemma envelope_not_found: "be_kind (envelopeError context status payload) = KNotFound \<longleftrightarrow>
    status = 404 \<and> Option.bind payload (\<lambda>p. or_field (en_code p) (en_errCode p)) \<noteq> Some ''machine_not_running''"
  by (simp add: envelopeError_def Let_def)

lemma request_told:
  assumes "api_request P req context budget s = Some (r, s')"
  shows "dr_bootstraps s' = dr_bootstraps s"
    "\<exists>ans. told s s' req ans \<and> (box_not_found r \<longrightarrow> missing ans) \<and> (\<forall>env. r = Inr env \<longrightarrow> answered ans ((=) env))"
proof -
  obtain ans w where f: "pl_fetch P req budget (dr_world s) = (ans, w)" by fastforce
  note r = assms [unfolded api_request_def f Let_def prod.case]
  show "dr_bootstraps s' = dr_bootstraps s" using r by (auto split: http_answer.splits if_splits option.splits)
  have "told s s' req ans" using r by (auto simp: told_def split: http_answer.splits if_splits option.splits)
  moreover have "box_not_found r \<longrightarrow> missing ans"
    using r by (auto simp: missing_def envelope_not_found split: http_answer.splits if_splits option.splits)
  moreover have "\<forall>env. r = Inr env \<longrightarrow> answered ans ((=) env)"
    using r by (auto simp: answered_def failure_def split: http_answer.splits if_splits option.splits)
  ultimately show "\<exists>ans. told s s' req ans \<and> (box_not_found r \<longrightarrow> missing ans) \<and> (\<forall>env. r = Inr env \<longrightarrow> answered ans ((=) env))"
    by blast
qed

lemma poll_told:
  assumes "pollUntilState P cfg boxId dn pending deadline what s = Some (r, s')"
  shows "dr_bootstraps s' = dr_bootstraps s
    \<and> (\<exists>ans. told s s' (GetBox boxId) ans \<and> (box_not_found r \<longrightarrow> missing ans)
        \<and> (\<forall>box. r = Inr box \<longrightarrow> answered ans (\<lambda>env. en_box env = Some box \<and> dn (br_state box))))"
proof -
  define Q where "Q = (\<lambda>(P :: 'a service) (cfg :: box_config) boxId dn (pending :: string option \<Rightarrow> bool) (deadline :: rat) (what :: string) s (rs :: (driver_error + box_resource) \<times> 'a driver).
      dr_bootstraps (snd rs) = dr_bootstraps s
    \<and> (\<exists>ans. told s (snd rs) (GetBox boxId) ans \<and> (box_not_found (fst rs) \<longrightarrow> missing ans)
        \<and> (\<forall>box. fst rs = Inr box \<longrightarrow> answered ans (\<lambda>env. en_box env = Some box \<and> dn (br_state box)))))"
  have "Q P cfg boxId dn pending deadline what s (r, s')"
  proof (rule pollUntilState.raw_induct [where P = Q, OF _ assms])
    fix poll :: "'a service \<Rightarrow> box_config \<Rightarrow> _" and P :: "'a service" and cfg boxId dn pending deadline what s rs
    assume IH: "\<And>P cfg boxId dn pending deadline what s rs. poll P cfg boxId dn pending deadline what s = Some rs
          \<Longrightarrow> Q P cfg boxId dn pending deadline what s rs"
      and eq: "Option.bind (api_request P (GetBox boxId) ''poll box state'' (request_budget cfg) s) (\<lambda>(r, s).
       case r of
         Inl e \<Rightarrow> Some (Inl e, s)
       | Inr res \<Rightarrow>
           (case en_box res of
              None \<Rightarrow> Some (Inl (failure KProtocol []), s)
            | Some box \<Rightarrow>
                if dn (br_state box) then Some (Inr box, s)
                else if \<not> pending (br_state box) then Some (Inl (failure KApi [boxId]), s)
                else if pl_now P (dr_world s) \<ge> deadline then Some (Inl (failure KTimeout [what]), s)
                else poll P cfg boxId dn pending deadline what
                       (s\<lparr>dr_world := pl_sleep P (num (cf_pollIntervalMs cfg) DEFAULT_POLL_INTERVAL_MS) (dr_world s)\<rparr>))) = Some rs"
    obtain r1 s1 where r1: "api_request P (GetBox boxId) ''poll box state'' (request_budget cfg) s = Some (r1, s1)"
      using eq by (auto simp: bind_eq_Some_conv)
    obtain ans where told: "told s s1 (GetBox boxId) ans" "box_not_found r1 \<longrightarrow> missing ans" "\<forall>env. r1 = Inr env \<longrightarrow> answered ans ((=) env)"
      and boot: "dr_bootstraps s1 = dr_bootstraps s"
      using request_told [OF r1] by blast
    show "Q P cfg boxId dn pending deadline what s rs"
    proof (cases r1)
      case (Inl e)
      then show ?thesis using eq r1 told boot by (auto simp: Q_def box_not_found_def)
    next
      case (Inr env)
      let ?s2 = "s1\<lparr>dr_world := pl_sleep P (num (cf_pollIntervalMs cfg) DEFAULT_POLL_INTERVAL_MS) (dr_world s1)\<rparr>"
      have cont: "Q P cfg boxId dn pending deadline what s rs" if "poll P cfg boxId dn pending deadline what ?s2 = Some rs"
      proof -
        from IH [OF that] obtain ans' where "told s1 (snd rs) (GetBox boxId) ans'" "box_not_found (fst rs) \<longrightarrow> missing ans'"
          "\<forall>box. fst rs = Inr box \<longrightarrow> answered ans' (\<lambda>env. en_box env = Some box \<and> dn (br_state box))"
          "dr_bootstraps (snd rs) = dr_bootstraps s1"
          by (auto simp: Q_def)
        then show ?thesis using told_after [OF told(1)] boot unfolding Q_def by metis
      qed
      show ?thesis
      proof (cases "en_box env")
        case None
        then show ?thesis using eq r1 Inr told(1) boot by (auto simp: Q_def)
      next
        case (Some box)
        have "answered ans (\<lambda>e. en_box e = Some box \<and> dn (br_state box))" if "dn (br_state box)"
          using told(3) Inr that Some by (auto simp: answered_def)
        then show ?thesis using eq cont told(1) boot by (auto simp: r1 Inr Some Q_def split: if_splits)
      qed
    qed
  qed
  then show ?thesis by (simp add: Q_def)
qed

lemma box_command_told:
  assumes "box_command P cfg boxId command context s = Some (r, s')"
  shows "dr_bootstraps s' = dr_bootstraps s"
    "\<exists>t ans. told s s' (RunCommand boxId command t) ans
       \<and> (\<forall>res. r = Inr res \<longrightarrow> answered ans (\<lambda>env. command_result context env = Inr res))"
proof -
  let ?budget = "num (cf_execTimeoutMs cfg) DEFAULT_EXEC_TIMEOUT_MS"
  obtain r1 s1 where r1: "api_request P (RunCommand boxId command (command_timeout ?budget)) context (?budget + request_budget cfg) s = Some (r1, s1)"
    using assms by (auto simp: box_command_def and_then_def Let_def bind_eq_Some_conv)
  have "s1 = s'" and r: "r = (case r1 of Inl e \<Rightarrow> Inl e | Inr env \<Rightarrow> command_result context env)"
    using assms by (cases r1; simp add: box_command_def and_then_def Let_def r1)+
  note r1 = r1 [unfolded \<open>s1 = s'\<close>]
  show "dr_bootstraps s' = dr_bootstraps s" using request_told(1) [OF r1] .
  show "\<exists>t ans. told s s' (RunCommand boxId command t) ans
       \<and> (\<forall>res. r = Inr res \<longrightarrow> answered ans (\<lambda>env. command_result context env = Inr res))"
    using request_told(2) [OF r1] r by (auto simp: answered_def split: sum.splits)
qed

lemma command_ready_told:
  assumes "commandWhenReady P cfg boxId command context deadline s = Some (r, s')"
  shows "dr_bootstraps s' = dr_bootstraps s
    \<and> (\<exists>t ans. told s s' (RunCommand boxId command t) ans
        \<and> (\<forall>res. r = Inr res \<longrightarrow> answered ans (\<lambda>env. command_result context env = Inr res)))"
proof -
  define Q where "Q = (\<lambda>(P :: 'a service) (cfg :: box_config) boxId command context (deadline :: rat) s (rs :: (driver_error + exec_result) \<times> 'a driver).
      dr_bootstraps (snd rs) = dr_bootstraps s
    \<and> (\<exists>t ans. told s (snd rs) (RunCommand boxId command t) ans
        \<and> (\<forall>res. fst rs = Inr res \<longrightarrow> answered ans (\<lambda>env. command_result context env = Inr res))))"
  have "Q P cfg boxId command context deadline s (r, s')"
  proof (rule commandWhenReady.raw_induct [where P = Q, OF _ assms])
    fix again :: "'a service \<Rightarrow> box_config \<Rightarrow> _" and P :: "'a service" and cfg boxId command ctx deadline s rs
    assume IH: "\<And>P cfg boxId command ctx deadline s rs. again P cfg boxId command ctx deadline s = Some rs
          \<Longrightarrow> Q P cfg boxId command ctx deadline s rs"
      and eq: "Option.bind (box_command P cfg boxId command ctx s) (\<lambda>(r, s).
       case r of
         Inl e \<Rightarrow>
           if \<not> isRestoreReadinessError e then Some (Inl e, s)
           else (let remaining = deadline - pl_now P (dr_world s)
                 in if remaining \<le> 0 then Some (Inl (failure KTimeout [ctx]), s)
                    else again P cfg boxId command ctx deadline
                           (s\<lparr>dr_world := pl_sleep P (min (num (cf_pollIntervalMs cfg) DEFAULT_POLL_INTERVAL_MS) remaining) (dr_world s)\<rparr>))
       | Inr res \<Rightarrow> Some (Inr res, s)) = Some rs"
    obtain r1 s1 where r1: "box_command P cfg boxId command ctx s = Some (r1, s1)"
      using eq by (auto simp: bind_eq_Some_conv)
    obtain t ans where told: "told s s1 (RunCommand boxId command t) ans"
      "\<forall>res. r1 = Inr res \<longrightarrow> answered ans (\<lambda>env. command_result ctx env = Inr res)"
      and boot: "dr_bootstraps s1 = dr_bootstraps s"
      using box_command_told [OF r1] by blast
    show "Q P cfg boxId command ctx deadline s rs"
    proof (cases r1)
      case (Inr res)
      then have "rs = (Inr res, s1)" using eq r1 by simp
      then show ?thesis using told boot Inr unfolding Q_def by auto
    next
      case (Inl e)
      have cont: "Q P cfg boxId command ctx deadline s rs"
        if "again P cfg boxId command ctx deadline (s1\<lparr>dr_world := w\<rparr>) = Some rs" for w
      proof -
        from IH [OF that] obtain t' ans' where "told s1 (snd rs) (RunCommand boxId command t') ans'"
          "\<forall>res. fst rs = Inr res \<longrightarrow> answered ans' (\<lambda>env. command_result ctx env = Inr res)"
          "dr_bootstraps (snd rs) = dr_bootstraps s1"
          by (auto simp: Q_def)
        then show ?thesis using told_after [OF told(1)] boot unfolding Q_def by metis
      qed
      have stay: "Q P cfg boxId command ctx deadline s (Inl e', s1)" for e'
        unfolding Q_def using told(1) boot by simp blast
      show ?thesis using eq cont stay by (auto simp: r1 Inl Let_def split: if_splits)
    qed
  qed
  then show ?thesis by (simp add: Q_def)
qed

definition sent :: "'w driver \<Rightarrow> 'w driver \<Rightarrow> box_request \<Rightarrow> bool" where
  "sent s s' req \<longleftrightarrow> (\<exists>new ans. dr_log s' = dr_log s @ new \<and> (req, ans) \<in> set new)"

lemma sent_first: "told s s1 req ans \<Longrightarrow> told s1 s' req2 ans2 \<Longrightarrow> sent s s' req"
  "told s s1 req ans \<Longrightarrow> sent s s1 req"
  by (fastforce simp: told_def sent_def)+

lemma sent_after: "told s s1 req2 ans2 \<Longrightarrow> sent s1 s' req \<Longrightarrow> sent s s' req"
  by (fastforce simp: told_def sent_def)

lemma stopBox_told:
  assumes "stopBox P cfg boxId context s = Some (r, s')"
  shows "dr_bootstraps s' = dr_bootstraps s" "\<not> box_not_found r" "\<exists>req ans. told s s' req ans" "sent s s' (StopBox boxId)"
proof -
  obtain r1 s1 where r1: "api_request P (StopBox boxId) context (request_budget cfg) s = Some (r1, s1)"
    using assms by (auto simp: stopBox_def bind_eq_Some_conv)
  note req = request_told [OF r1]
  obtain ans where t1: "told s s1 (StopBox boxId) ans" using req(2) by blast
  have stay: "dr_bootstraps s' = dr_bootstraps s \<and> (\<exists>req ans. told s s' req ans) \<and> sent s s' (StopBox boxId)" if "s' = s1"
    using that req(1) t1 sent_first(2) by blast
  have peek: "dr_bootstraps s' = dr_bootstraps s \<and> (\<exists>req ans. told s s' req ans) \<and> sent s s' (StopBox boxId)"
    if seen: "peekState P cfg boxId s1 = Some (st, s')" for st
  proof -
    obtain r2 where r2: "api_request P (GetBox boxId) ''read box state'' (request_budget cfg) s1 = Some (r2, s')"
      using seen by (cases "api_request P (GetBox boxId) ''read box state'' (request_budget cfg) s1") (auto simp: peekState_def)
    then obtain ans2 where "told s1 s' (GetBox boxId) ans2" using request_told(2) by blast
    then show ?thesis using request_told(1) [OF r2] req(1) told_after [OF t1] sent_first(1) [OF t1] by metis
  qed
  have "(dr_bootstraps s' = dr_bootstraps s \<and> (\<exists>req ans. told s s' req ans) \<and> sent s s' (StopBox boxId)) \<and> \<not> box_not_found r"
    using assms stay peek
    by (auto simp: stopBox_def r1 split: sum.splits driver_error.splits if_splits)
  then show "dr_bootstraps s' = dr_bootstraps s" "\<not> box_not_found r" "\<exists>req ans. told s s' req ans" "sent s s' (StopBox boxId)"
    by blast+
qed

section \<open>A success is what the service has confirmed\<close>

definition proven_start :: "'w driver \<Rightarrow> 'w driver \<Rightarrow> box_config \<Rightarrow> string \<Rightarrow> bootstrap_config \<Rightarrow> bool" where
  "proven_start s s' cfg boxId b \<longleftrightarrow> (\<exists>script t ans ctx res.
     bootstrap_script (case cf_maridBinPath cfg of None \<Rightarrow> DEFAULT_MARID_BIN_PATH | Some p \<Rightarrow> p)
       (case cf_maridLogPath cfg of None \<Rightarrow> DEFAULT_MARID_LOG_PATH | Some p \<Rightarrow> p) b = Some script
     \<and> told s s' (RunCommand boxId script t) ans
     \<and> answered ans (\<lambda>env. command_result ctx env = Inr res) \<and> started res)"

lemma bootstrap_told:
  assumes "box_bootstrap P cfg boxId computer b deadline s = Some (r, s')"
  shows "dr_bootstraps s' = dr_bootstraps s" "r = Inr u \<Longrightarrow> proven_start s s' cfg boxId b"
    "s' = s \<or> (\<exists>req ans. told s s' req ans)"
proof -
  define script where "script = bootstrap_script (case cf_maridBinPath cfg of None \<Rightarrow> DEFAULT_MARID_BIN_PATH | Some p \<Rightarrow> p)
       (case cf_maridLogPath cfg of None \<Rightarrow> DEFAULT_MARID_LOG_PATH | Some p \<Rightarrow> p) b"
  note eq = assms [unfolded box_bootstrap_def script_def [symmetric] and_then_def]
  have "dr_bootstraps s' = dr_bootstraps s \<and> (r = Inr u \<longrightarrow> proven_start s s' cfg boxId b) \<and> (s' = s \<or> (\<exists>req ans. told s s' req ans))"
  proof (cases script)
    case None
    then show ?thesis using eq by auto
  next
    case (Some sc)
    then obtain r1 s1 where r1: "commandWhenReady P cfg boxId sc computer deadline s = Some (r1, s1)"
      using eq by (auto simp: bind_eq_Some_conv)
    from command_ready_told [OF r1] obtain t ans where t: "dr_bootstraps s1 = dr_bootstraps s" "told s s1 (RunCommand boxId sc t) ans"
      "\<forall>res. r1 = Inr res \<longrightarrow> answered ans (\<lambda>env. command_result computer env = Inr res)"
      by blast
    have "s' = s1" and "r = Inr u \<Longrightarrow> \<exists>res. r1 = Inr res \<and> started res"
      using eq Some r1 by (auto split: sum.splits if_splits)
    then show ?thesis
      using t Some unfolding proven_start_def script_def by blast
  qed
  then show "dr_bootstraps s' = dr_bootstraps s" "r = Inr u \<Longrightarrow> proven_start s s' cfg boxId b"
    "s' = s \<or> (\<exists>req ans. told s s' req ans)"
    by auto
qed

lemma bind_outcome: "Option.bind m (\<lambda>(r, s). f r s) = Some x \<longleftrightarrow> (\<exists>r s. m = Some (r, s) \<and> f r s = Some x)"
  by (auto simp: bind_eq_Some_conv)

lemma and_then_Inr: "and_then m f s = Some (Inr b, s') \<longleftrightarrow> (\<exists>a s1. m s = Some (Inr a, s1) \<and> f a s1 = Some (Inr b, s'))"
proof (cases "m s")
  case (Some rs)
  then show ?thesis by (cases rs; cases "fst rs") (auto simp: and_then_def)
qed (simp add: and_then_def)

text \<open>C38: A box is taken for destroyed only when it is gone.  The driver of hosted boxes cannot delete one, and never
  says that it has: destroying succeeds only when the last answer of the service, to a question for this very box,
  was that it does not exist, and the credentials of the box are then forgotten.\<close>

theorem destroyed_means_gone:
  assumes "box_destroy P cfg h s = Some (Inr u, s')"
  shows "(\<exists>payload. last (dr_log s') = (GetBox (bh_id h), Reply 404 payload))
    \<and> map_of (dr_bootstraps s') (bh_id h) = None"
proof -
  let ?steps = "and_then (stopBox P cfg (bh_id h) (bh_computer h))
          (\<lambda>_ s. let deadline = pl_now P (dr_world s) + num (cf_archiveTimeoutMs cfg) DEFAULT_ARCHIVE_TIMEOUT_MS
                 in await_archived P cfg (bh_id h) deadline (bh_computer h) s) s"
  obtain r1 s1 where r1: "?steps = Some (r1, s1)"
    using assms by (auto simp: box_destroy_def isBoxHandle_def bind_eq_Some_conv split: if_splits)
  then have nf: "box_not_found r1" and s': "s' = forget (bh_id h) s1"
    using assms by (auto simp: box_destroy_def isBoxHandle_def box_not_found_def split: if_splits sum.splits driver_error.splits)
  obtain r0 s0 where r0: "stopBox P cfg (bh_id h) (bh_computer h) s = Some (r0, s0)"
    using r1 by (auto simp: and_then_def bind_eq_Some_conv)
  have "\<not> box_not_found r0" by (rule stopBox_told(2) [OF r0])
  then obtain v where "r0 = Inr v" using r1 r0 nf by (cases r0) (auto simp: and_then_def box_not_found_def split: driver_error.splits)
  then obtain deadline where "await_archived P cfg (bh_id h) deadline (bh_computer h) s0 = Some (r1, s1)"
    using r1 r0 by (auto simp: and_then_def Let_def)
  then obtain ans where "told s0 s1 (GetBox (bh_id h)) ans" "missing ans"
    using poll_told nf unfolding await_archived_def by blast
  then show ?thesis using told_last s' by (fastforce simp: missing_def forget_def jsmap_simps)
qed

text \<open>C39: A box is warm, or awake, only on proof.  Sleeping succeeds only when the last answer of the service said
  that this box is archived.  Waking succeeds only when the service has been asked to resume it and the last
  answer is of the bootstrap with the very secrets the driver holds for this box, which exited with 0 after
  printing its mark.  Without these secrets waking fails, and not one request is made.\<close>

theorem warm_and_awake_are_proven:
  "(box_sleep P cfg h s = Some (Inr u, s') \<longrightarrow>
      (\<exists>status env. last (dr_log s') = (GetBox (bh_id h), Reply status (Some env)) \<and> res_ok status
         \<and> Option.bind (en_box env) br_state = Some ''archived''))
   \<and> (box_wake P cfg h s = Some (Inr u, s') \<longrightarrow>
      (\<exists>b. map_of (dr_bootstraps s) (bh_id h) = Some b \<and> sent s s' (ResumeBox (bh_id h)) \<and> proven_start s s' cfg (bh_id h) b))
   \<and> (map_of (dr_bootstraps s) (bh_id h) = None \<longrightarrow> (\<exists>e. box_wake P cfg h s = Some (Inl e, s)))"
proof (intro conjI impI)
  assume "box_sleep P cfg h s = Some (Inr u, s')"
  then obtain s1 box deadline where "pollUntilState P cfg (bh_id h) (\<lambda>st. st = Some ''archived'') going_down deadline (bh_computer h) s1 = Some (Inr box, s')"
    by (auto simp: box_sleep_def isBoxHandle_def Let_def and_then_Inr await_archived_def split: if_splits)
  then obtain ans where t: "told s1 s' (GetBox (bh_id h)) ans"
    and a: "answered ans (\<lambda>env. en_box env = Some box \<and> br_state box = Some ''archived'')"
    using poll_told by blast
  from a obtain status env where "ans = Reply status (Some env)" "res_ok status" "Option.bind (en_box env) br_state = Some ''archived''"
    by (auto simp: answered_def)
  then show "\<exists>status env. last (dr_log s') = (GetBox (bh_id h), Reply status (Some env)) \<and> res_ok status
         \<and> Option.bind (en_box env) br_state = Some ''archived''"
    using told_last [OF t] by blast
next
  assume wake: "box_wake P cfg h s = Some (Inr u, s')"
  then obtain b where b: "map_of (dr_bootstraps s) (bh_id h) = Some b"
    by (auto simp: box_wake_def isBoxHandle_def split: if_splits option.splits)
  define deadline where "deadline = pl_now P (dr_world s) + num (cf_resumeTimeoutMs cfg) DEFAULT_RESUME_TIMEOUT_MS"
  obtain r1 s1 where r1: "api_request P (ResumeBox (bh_id h)) (bh_computer h) (request_budget cfg) s = Some (r1, s1)"
    and go: "and_then (pollUntilRunning P cfg (bh_id h) deadline (bh_computer h))
        (\<lambda>_. box_bootstrap P cfg (bh_id h) (bh_computer h) b deadline) s1 = Some (Inr u, s')"
    using wake b by (auto simp: box_wake_def isBoxHandle_def deadline_def bind_outcome Let_def split: if_splits sum.splits driver_error.splits)
  from go obtain box s2 where r2: "pollUntilRunning P cfg (bh_id h) deadline (bh_computer h) s1 = Some (Inr box, s2)"
    and r3: "box_bootstrap P cfg (bh_id h) (bh_computer h) b deadline s2 = Some (Inr u, s')"
    by (auto simp: and_then_Inr)
  obtain a1 where t1: "told s s1 (ResumeBox (bh_id h)) a1" using request_told(2) [OF r1] by blast
  obtain a2 where t2: "told s1 s2 (GetBox (bh_id h)) a2" using poll_told r2 unfolding pollUntilRunning_def by blast
  have p: "proven_start s2 s' cfg (bh_id h) b" by (rule bootstrap_told(2) [OF r3 refl])
  have "proven_start s s' cfg (bh_id h) b"
    using p told_after [OF t1] told_after [OF t2] unfolding proven_start_def by meson
  moreover have "sent s s' (ResumeBox (bh_id h))"
    using p told_after [OF t2] sent_first(1) [OF t1] unfolding proven_start_def by meson
  ultimately show "\<exists>b. map_of (dr_bootstraps s) (bh_id h) = Some b \<and> sent s s' (ResumeBox (bh_id h)) \<and> proven_start s s' cfg (bh_id h) b"
    using b by blast
qed (auto simp: box_wake_def isBoxHandle_def)

section \<open>A failed start leaves nothing running\<close>

lemma try_told:
  assumes "materialize_try P cfg boxId computer b deadline s = Some (r, s')"
  shows "dr_bootstraps s' = dr_bootstraps s" "\<exists>req ans. told s s' req ans"
proof -
  obtain r1 s1 where r1: "pollUntilRunning P cfg boxId deadline computer s = Some (r1, s1)"
    using assms by (auto simp: materialize_try_def and_then_def bind_eq_Some_conv)
  obtain a1 where t1: "told s s1 (GetBox boxId) a1" and b1: "dr_bootstraps s1 = dr_bootstraps s"
    using poll_told r1 unfolding pollUntilRunning_def by blast
  have "dr_bootstraps s' = dr_bootstraps s \<and> (\<exists>req ans. told s s' req ans)"
  proof (cases r1)
    case (Inl e)
    then have "s' = s1" using assms r1 by (simp add: materialize_try_def and_then_def)
    then show ?thesis using t1 b1 by blast
  next
    case (Inr ready)
    then obtain r2 s2 where r2: "box_bootstrap P cfg boxId computer b deadline s1 = Some (r2, s2)"
      using assms r1 by (auto simp: materialize_try_def and_then_def bind_eq_Some_conv)
    then have "s' = s2" using assms r1 Inr by (cases r2) (simp_all add: materialize_try_def and_then_def)
    then show ?thesis using bootstrap_told(1,3) [OF r2] t1 b1 told_after [OF t1] by metis
  qed
  then show "dr_bootstraps s' = dr_bootstraps s" "\<exists>req ans. told s s' req ans" by blast+
qed

text \<open>The box that an answer to a creation gives.\<close>

definition given_box :: "http_answer \<Rightarrow> string option" where
  "given_box ans = (case ans of
     Reply status (Some env) \<Rightarrow>
       if res_ok status \<and> en_ok env \<noteq> Some False \<and> Option.bind (en_box env) br_id \<noteq> Some []
       then Option.bind (en_box env) br_id else None
   | _ \<Rightarrow> None)"

lemma request_given:
  assumes "api_request P req context budget s = Some (r, s')"
  shows "\<exists>ans. dr_log s' = dr_log s @ [(req, ans)]
    \<and> (\<forall>boxId. given_box ans = Some boxId \<longrightarrow> (\<exists>env. r = Inr env \<and> Option.bind (en_box env) br_id = Some boxId \<and> boxId \<noteq> []))"
proof -
  obtain ans w where f: "pl_fetch P req budget (dr_world s) = (ans, w)" by fastforce
  note r = assms [unfolded api_request_def f Let_def prod.case]
  have "dr_log s' = dr_log s @ [(req, ans)]" using r by (auto split: http_answer.splits if_splits option.splits)
  moreover have "\<exists>env. r = Inr env \<and> Option.bind (en_box env) br_id = Some boxId \<and> boxId \<noteq> []" if g: "given_box ans = Some boxId" for boxId
  proof -
    from g obtain status env where "ans = Reply status (Some env)" "res_ok status" "en_ok env \<noteq> Some False"
      "Option.bind (en_box env) br_id = Some boxId" "boxId \<noteq> []"
      by (auto simp: given_box_def split: http_answer.splits option.splits if_splits)
    then show ?thesis using r by auto
  qed
  ultimately show ?thesis by blast
qed

text \<open>A computer that could not be started is not left running.  When materializing fails after the service has
  given a box, this box has been asked to stop, its secrets are forgotten, and those of every other box are kept.\<close>

theorem failed_start_is_stopped:
  assumes "box_materialize P cfg spec s = Some (Inl e, s')"
    "dr_log s' = dr_log s @ (CreateBox ttl, ans) # rest" "given_box ans = Some boxId"
  shows "sent s s' (StopBox boxId) \<and> map_of (dr_bootstraps s') boxId = None
    \<and> (j = boxId \<or> map_of (dr_bootstraps s') j = map_of (dr_bootstraps s) j)"
proof (cases "spec_cmd spec = None \<and> (binary_url cfg spec = None \<or> binary_url cfg spec = Some [])")
  case True
  then have "s' = s" using assms(1) by (auto simp: box_materialize_def)
  then show ?thesis using assms(2) by simp
next
  case False
  define deadline where "deadline = pl_now P (dr_world s) + num (cf_createTimeoutMs cfg) DEFAULT_CREATE_TIMEOUT_MS"
  note eq = assms(1) [unfolded box_materialize_def Let_def if_not_P [OF False] deadline_def [symmetric] and_then_def]
  obtain r1 s1 where r1: "api_request P (CreateBox (cf_ttlSeconds cfg)) (ms_computer spec) (request_budget cfg) s = Some (r1, s1)"
    using eq by (auto simp: bind_eq_Some_conv)
  have b1: "dr_bootstraps s1 = dr_bootstraps s" by (rule request_told(1) [OF r1])
  obtain a1 where l1: "dr_log s1 = dr_log s @ [(CreateBox (cf_ttlSeconds cfg), a1)]"
    and given: "\<And>i. given_box a1 = Some i \<Longrightarrow> \<exists>env. r1 = Inr env \<and> Option.bind (en_box env) br_id = Some i \<and> i \<noteq> []"
    using request_given [OF r1] by blast
  then have t1: "told s s1 (CreateBox (cf_ttlSeconds cfg)) a1" by (simp add: told_def)
  show ?thesis
  proof (cases "\<exists>env i. r1 = Inr env \<and> Option.bind (en_box env) br_id = Some i \<and> i \<noteq> []")
    case False
    then have "s' = s1" using eq r1 by (auto split: sum.splits option.splits if_splits)
    then have "ans = a1" using assms(2) l1 by simp
    then show ?thesis using given assms(3) False by blast
  next
    case True
    then obtain env i where i: "r1 = Inr env" "Option.bind (en_box env) br_id = Some i" "i \<noteq> []" by blast
    define b where "b = \<lparr>bc_env = ms_env spec, bc_cmd = spec_cmd spec, bc_maridBinaryUrl = binary_url cfg spec\<rparr>"
    define s2 where "s2 = s1\<lparr>dr_bootstraps := AList.update i b (dr_bootstraps s1)\<rparr>"
    obtain r3 s3 where r3: "materialize_try P cfg i (ms_computer spec) b deadline s2 = Some (r3, s3)"
      using eq r1 i by (auto simp: bind_eq_Some_conv b_def s2_def)
    then obtain e' where stop: "materialize_failed P cfg i e' s3 = Some (Inl e, s')"
      using eq r1 i by (cases r3) (auto simp: b_def s2_def)
    have "told s s2 (CreateBox (cf_ttlSeconds cfg)) a1" using t1 by (simp add: told_def s2_def)
    then have b3: "dr_bootstraps s3 = dr_bootstraps s2" and t3: "\<exists>req ans. told s s3 req ans"
      using try_told [OF r3] told_after by blast+
    obtain v where v: "stopBox P cfg i ''cleanup after failed bootstrap'' (forget i s3) = Some (v, s')"
      using stop by (auto simp: materialize_failed_def stopQuietly_def)
    have "sent s3 s' (StopBox i)" using stopBox_told(4) [OF v] by (simp add: sent_def forget_def)
    then have "sent s s' (StopBox i)" using t3 sent_after by blast
    moreover have "dr_bootstraps s' = AList.delete i (AList.update i b (dr_bootstraps s))"
      using stopBox_told(1) [OF v] b3 b1 by (simp add: forget_def s2_def)
    moreover have "i = boxId"
    proof -
      obtain rest where "dr_log s' = dr_log s1 @ rest"
        using try_told(2) [OF r3] stopBox_told(3) [OF v] by (auto simp: told_def s2_def forget_def)
      then have "ans = a1" using assms(2) l1 by simp
      then show ?thesis using given [OF assms(3) [unfolded \<open>ans = a1\<close>]] i by simp
    qed
    ultimately show ?thesis by (auto simp: jsmap_simps)
  qed
qed

section \<open>Every call returns\<close>

text \<open>What is relied on: time does not go back, waiting takes the time it is asked for, and the body of an answer
  comes to an end.\<close>

definition steady :: "'w service \<Rightarrow> bool" where
  "steady P \<longleftrightarrow> (\<forall>req budget w. pl_now P w \<le> pl_now P (snd (pl_fetch P req budget w)) \<and> fst (pl_fetch P req budget w) \<noteq> BodyStalls)
     \<and> (\<forall>ms w. 0 < ms \<longrightarrow> pl_now P w + ms \<le> pl_now P (pl_sleep P ms w))"

lemma request_returns:
  assumes "steady P"
  obtains r s' where "api_request P req context budget s = Some (r, s')" "pl_now P (dr_world s) \<le> pl_now P (dr_world s')"
    "length (dr_log s') = Suc (length (dr_log s))"
proof -
  obtain ans w where f: "pl_fetch P req budget (dr_world s) = (ans, w)" by fastforce
  have ok: "pl_now P (dr_world s) \<le> pl_now P w" "ans \<noteq> BodyStalls"
    using assms f unfolding steady_def by (metis snd_conv, metis fst_conv)
  define s1 where "s1 = s\<lparr>dr_world := w, dr_log := dr_log s @ [(req, ans)]\<rparr>"
  have "\<exists>r. api_request P req context budget s = Some (r, s1)"
    using ok(2) by (auto simp: api_request_def f Let_def s1_def split: http_answer.splits option.splits)
  then show thesis using that ok(1) by (auto simp: s1_def)
qed

lemma steady_sleep: "steady P \<Longrightarrow> 0 < ms \<Longrightarrow> pl_now P w + ms \<le> pl_now P (pl_sleep P ms w)"
  by (simp add: steady_def)

lemma num_pos: "0 < fallback \<Longrightarrow> 0 < num value fallback"
  by (auto simp: num_def split: option.splits js_number.splits)

lemma interval_pos: "0 < num (cf_pollIntervalMs cfg) DEFAULT_POLL_INTERVAL_MS"
  by (rule num_pos) (simp add: DEFAULT_POLL_INTERVAL_MS_def)

text \<open>The rounds that are left before a deadline.\<close>

definition rounds :: "'w service \<Rightarrow> box_config \<Rightarrow> rat \<Rightarrow> 'w \<Rightarrow> nat" where
  "rounds P cfg deadline w = nat \<lceil>(deadline - pl_now P w) / num (cf_pollIntervalMs cfg) DEFAULT_POLL_INTERVAL_MS\<rceil>"

lemma rounds_less:
  assumes "pl_now P w + num (cf_pollIntervalMs cfg) DEFAULT_POLL_INTERVAL_MS \<le> pl_now P w'" "pl_now P w < deadline"
  shows "rounds P cfg deadline w' < rounds P cfg deadline w"
proof -
  define i where "i = num (cf_pollIntervalMs cfg) DEFAULT_POLL_INTERVAL_MS"
  have i: "0 < i" using interval_pos by (simp add: i_def)
  have "(deadline - pl_now P w') / i \<le> (deadline - pl_now P w) / i - 1"
  proof -
    have "(deadline - pl_now P w') / i \<le> (deadline - pl_now P w - i) / i"
      using assms(1) i by (intro divide_right_mono) (simp_all add: i_def)
    then show ?thesis using i by (simp add: diff_divide_distrib)
  qed
  then have "\<lceil>(deadline - pl_now P w') / i\<rceil> \<le> \<lceil>(deadline - pl_now P w) / i\<rceil> - 1" by linarith
  moreover have "0 < \<lceil>(deadline - pl_now P w) / i\<rceil>" using assms(2) i by simp
  ultimately show ?thesis by (simp add: rounds_def i_def [symmetric])
qed

lemma rounds_mono: "pl_now P w \<le> pl_now P w' \<Longrightarrow> rounds P cfg deadline w' \<le> rounds P cfg deadline w"
  using interval_pos [of cfg] unfolding rounds_def by (intro nat_mono ceiling_mono divide_right_mono) simp_all

lemma poll_returns:
  assumes "steady P"
  shows "\<exists>r s'. pollUntilState P cfg boxId dn pending deadline what s = Some (r, s')
    \<and> length (dr_log s') \<le> length (dr_log s) + Suc (rounds P cfg deadline (dr_world s))"
proof (induction "rounds P cfg deadline (dr_world s)" arbitrary: s rule: less_induct)
  case less
  let ?poll = "pollUntilState P cfg boxId dn pending deadline what"
  obtain r1 s1 where r1: "api_request P (GetBox boxId) ''poll box state'' (request_budget cfg) s = Some (r1, s1)"
    and now: "pl_now P (dr_world s) \<le> pl_now P (dr_world s1)" and log: "length (dr_log s1) = Suc (length (dr_log s))"
    using request_returns [OF assms] by metis
  define s2 where "s2 = s1\<lparr>dr_world := pl_sleep P (num (cf_pollIntervalMs cfg) DEFAULT_POLL_INTERVAL_MS) (dr_world s1)\<rparr>"
  have one: "(\<exists>r. ?poll s = Some (r, s1)) \<or> (pl_now P (dr_world s1) < deadline \<and> ?poll s = ?poll s2)"
    by (subst (1 2) pollUntilState.simps) (simp add: r1 s2_def split: sum.split option.split)
  show ?case
  proof (cases "\<exists>r. ?poll s = Some (r, s1)")
    case True
    then show ?thesis using log by auto
  next
    case False
    then have on: "pl_now P (dr_world s1) < deadline" "?poll s = ?poll s2" using one by blast+
    have "rounds P cfg deadline (dr_world s2) < rounds P cfg deadline (dr_world s1)"
      by (rule rounds_less [OF _ on(1)]) (simp add: s2_def steady_sleep [OF assms interval_pos])
    also have "\<dots> \<le> rounds P cfg deadline (dr_world s)" by (rule rounds_mono [OF now])
    finally have fewer: "rounds P cfg deadline (dr_world s2) < rounds P cfg deadline (dr_world s)" .
    obtain r s' where "?poll s2 = Some (r, s')"
      and "length (dr_log s') \<le> length (dr_log s2) + Suc (rounds P cfg deadline (dr_world s2))"
      using less [OF fewer] by blast
    then show ?thesis using on(2) log fewer by (auto simp: s2_def)
  qed
qed

lemma command_returns:
  assumes "steady P"
  obtains r s' where "box_command P cfg boxId command context s = Some (r, s')" "pl_now P (dr_world s) \<le> pl_now P (dr_world s')"
proof -
  let ?budget = "num (cf_execTimeoutMs cfg) DEFAULT_EXEC_TIMEOUT_MS"
  obtain r1 s1 where r1: "api_request P (RunCommand boxId command (command_timeout ?budget)) context (?budget + request_budget cfg) s = Some (r1, s1)"
    "pl_now P (dr_world s) \<le> pl_now P (dr_world s1)"
    using request_returns [OF assms] by metis
  have "\<exists>r. box_command P cfg boxId command context s = Some (r, s1)"
    by (cases r1) (simp_all add: box_command_def and_then_def Let_def r1)
  then show thesis using that r1(2) by blast
qed

text \<open>The last wait before the deadline may be shorter than the interval.\<close>

lemma ready_returns:
  assumes "steady P"
  shows "\<exists>r s'. commandWhenReady P cfg boxId command context deadline s = Some (r, s')"
proof (induction "(if pl_now P (dr_world s) < deadline then 1 else 0) + rounds P cfg deadline (dr_world s)" arbitrary: s rule: less_induct)
  case less
  let ?again = "commandWhenReady P cfg boxId command context deadline"
  let ?i = "num (cf_pollIntervalMs cfg) DEFAULT_POLL_INTERVAL_MS"
  obtain r1 s1 where r1: "box_command P cfg boxId command context s = Some (r1, s1)"
    and now: "pl_now P (dr_world s) \<le> pl_now P (dr_world s1)"
    using command_returns [OF assms] by metis
  define wait where "wait = min ?i (deadline - pl_now P (dr_world s1))"
  define s2 where "s2 = s1\<lparr>dr_world := pl_sleep P wait (dr_world s1)\<rparr>"
  have one: "(\<exists>r s'. ?again s = Some (r, s')) \<or> (pl_now P (dr_world s1) < deadline \<and> ?again s = ?again s2)"
    by (subst (1 2) commandWhenReady.simps) (simp add: r1 s2_def wait_def Let_def split: sum.split)
  show ?case
  proof (cases "\<exists>r s'. ?again s = Some (r, s')")
    case False
    then have on: "pl_now P (dr_world s1) < deadline" "?again s = ?again s2" using one by blast+
    then have "0 < wait" using interval_pos by (simp add: wait_def)
    then have slept: "pl_now P (dr_world s1) + wait \<le> pl_now P (dr_world s2)"
      using steady_sleep [OF assms] by (simp add: s2_def)
    have "(if pl_now P (dr_world s2) < deadline then 1 else 0) + rounds P cfg deadline (dr_world s2)
        < (if pl_now P (dr_world s) < deadline then 1 else 0) + rounds P cfg deadline (dr_world s)"
    proof (cases "wait = ?i")
      case True
      have "rounds P cfg deadline (dr_world s2) < rounds P cfg deadline (dr_world s1)"
        by (rule rounds_less [OF _ on(1)]) (use slept True in simp)
      also have "\<dots> \<le> rounds P cfg deadline (dr_world s)" by (rule rounds_mono [OF now])
      finally show ?thesis using on(1) now by simp
    next
      case False
      then have "deadline \<le> pl_now P (dr_world s2)" using slept by (simp add: wait_def min_def split: if_splits)
      moreover have "rounds P cfg deadline (dr_world s2) \<le> rounds P cfg deadline (dr_world s)"
        by (rule rounds_mono) (use now slept \<open>0 < wait\<close> in linarith)
      ultimately show ?thesis using on(1) now by simp
    qed
    from less [OF this] show ?thesis using on(2) by simp
  qed
qed

lemma stop_returns:
  assumes "steady P"
  shows "\<exists>r s'. stopBox P cfg boxId context s = Some (r, s')"
proof -
  obtain r1 s1 where r1: "api_request P (StopBox boxId) context (request_budget cfg) s = Some (r1, s1)"
    using request_returns [OF assms] by metis
  obtain r2 s2 where r2: "api_request P (GetBox boxId) ''read box state'' (request_budget cfg) s1 = Some (r2, s2)"
    using request_returns [OF assms] by metis
  show ?thesis
    by (auto simp: stopBox_def r1 peekState_def r2 split: sum.split driver_error.split)
qed

lemma and_then_returns:
  assumes "\<exists>r s1. m s = Some (r, s1)" "\<And>a s1. \<exists>x. f a s1 = Some x"
  shows "\<exists>r s'. and_then m f s = Some (r, s')"
proof -
  obtain r s1 where "m s = Some (r, s1)" using assms(1) by blast
  then show ?thesis using assms(2) by (cases r) (auto simp: and_then_def)
qed

lemma bootstrap_returns: "steady P \<Longrightarrow> \<exists>r s'. box_bootstrap P cfg boxId computer b deadline s = Some (r, s')"
  unfolding box_bootstrap_def by (auto split: option.split intro!: and_then_returns ready_returns)

lemma poll_done: "steady P \<Longrightarrow> \<exists>r s'. pollUntilState P cfg boxId dn pending deadline what s = Some (r, s')"
  using poll_returns by blast

lemma request_done: "steady P \<Longrightarrow> \<exists>r s'. api_request P req ctx budget s = Some (r, s')"
  using request_returns by metis

lemma try_returns:
  assumes "steady P"
  shows "\<exists>r s'. materialize_try P cfg boxId computer b deadline s = Some (r, s')"
  unfolding materialize_try_def
  by (intro and_then_returns) (auto simp: pollUntilRunning_def intro!: poll_done and_then_returns bootstrap_returns assms)

lemma failed_returns:
  assumes "steady P"
  shows "\<exists>x. materialize_failed P cfg boxId e s = Some x"
  using stop_returns [OF assms] unfolding materialize_failed_def stopQuietly_def by fastforce

lemma materialize_returns:
  assumes "steady P"
  shows "box_materialize P cfg spec s \<noteq> None"
proof -
  define T where "T boxId computer b deadline s = the (materialize_try P cfg boxId computer b deadline s)" for boxId computer b deadline s
  define F where "F boxId e s = the (materialize_failed P cfg boxId e s)" for boxId e s
  have T: "materialize_try P cfg boxId computer b deadline s = Some (T boxId computer b deadline s)" for boxId computer b deadline s
    using try_returns [OF assms, of cfg boxId computer b deadline s] by (auto simp: T_def)
  have F: "materialize_failed P cfg boxId e s = Some (F boxId e s)" for boxId e s
    using failed_returns [OF assms, of cfg boxId e s] by (auto simp: F_def)
  obtain r1 s1 where "api_request P (CreateBox (cf_ttlSeconds cfg)) (ms_computer spec) (request_budget cfg) s = Some (r1, s1)"
    using request_done [OF assms] by blast
  then show ?thesis
    by (simp add: box_materialize_def Let_def and_then_def T F del: not_None_eq split: sum.split option.split prod.split)
qed

lemma sleep_returns:
  assumes "steady P"
  shows "box_sleep P cfg h s \<noteq> None"
proof -
  have "\<exists>r s'. and_then (await_archived P cfg (bh_id h) deadline (bh_computer h)) (\<lambda>_ s. Some (Inr (), s)) s = Some (r, s')" for deadline s
    by (intro and_then_returns) (auto simp: await_archived_def poll_done [OF assms])
  then have "\<exists>r s'. and_then (stopBox P cfg (bh_id h) (bh_computer h))
        (\<lambda>_. and_then (await_archived P cfg (bh_id h) deadline (bh_computer h)) (\<lambda>_ s. Some (Inr (), s))) s = Some (r, s')" for deadline
    by (intro and_then_returns stop_returns [OF assms]) blast
  then show ?thesis by (fastforce simp: box_sleep_def isBoxHandle_def Let_def)
qed

lemma destroy_returns:
  assumes "steady P"
  shows "box_destroy P cfg h s \<noteq> None"
proof -
  have "\<exists>r s'. and_then (stopBox P cfg (bh_id h) (bh_computer h))
        (\<lambda>_ s. let deadline = pl_now P (dr_world s) + num (cf_archiveTimeoutMs cfg) DEFAULT_ARCHIVE_TIMEOUT_MS
               in await_archived P cfg (bh_id h) deadline (bh_computer h) s) s = Some (r, s')"
    by (intro and_then_returns stop_returns [OF assms]) (use poll_done [OF assms] in \<open>fastforce simp: await_archived_def Let_def\<close>)
  then show ?thesis by (auto simp: box_destroy_def isBoxHandle_def split: sum.split driver_error.split)
qed

lemma wake_returns:
  assumes "steady P"
  shows "box_wake P cfg h s \<noteq> None"
proof -
  have "\<exists>r s'. and_then (pollUntilRunning P cfg (bh_id h) deadline (bh_computer h))
                   (\<lambda>_. box_bootstrap P cfg (bh_id h) (bh_computer h) b deadline) s = Some (r, s')" for b deadline s
    by (intro and_then_returns) (use poll_done [OF assms] bootstrap_returns [OF assms] in \<open>fastforce simp: pollUntilRunning_def\<close>)+
  moreover obtain r1 s1 where "api_request P (ResumeBox (bh_id h)) (bh_computer h) (request_budget cfg) s = Some (r1, s1)"
    using request_done [OF assms] by blast
  ultimately show ?thesis by (fastforce simp: box_wake_def isBoxHandle_def Let_def split: option.split)
qed

lemma exec_returns:
  assumes "steady P"
  shows "\<exists>r s'. box_exec P cfg h argv opts s = Some (r, s')"
proof -
  have "\<exists>r s'. box_command P cfg boxId cmd what s = Some (r, s')" for boxId cmd what
    using command_returns [OF assms] by metis
  then show ?thesis by (auto simp: box_exec_def isBoxHandle_def split: option.split)
qed

lemma expose_returns:
  assumes "steady P"
  shows "box_exposePort P cfg h port s \<noteq> None"
proof -
  have e: "\<exists>r s1. and_then (box_exec P cfg h argv no_options) f s0 = Some (r, s1)"
    if "\<And>a s2. \<exists>x. f a s2 = Some x" for argv f s0
    by (rule and_then_returns [OF exec_returns [OF assms] that])
  have "\<exists>r s1. and_then (box_exec P cfg h [''host'', p] no_options)
      (\<lambda>register s. if er_exitCode register \<noteq> 0 then Some (Inl (failure KApi [p, er_stderr register]), s)
         else and_then (box_exec P cfg h [''host'', ''url'', p] no_options)
                (\<lambda>out s. case find_url (er_stdout out) of
                    None \<Rightarrow> Some (Inl (failure KProtocol [p, er_stderr out]), s)
                  | Some url \<Rightarrow> if er_exitCode out \<noteq> 0 then Some (Inl (failure KProtocol [p, er_stderr out]), s)
                               else Some (Inr url, s)) s) s = Some (r, s1)" for p
  proof (rule e)
    fix a s2
    have "\<exists>r s1. and_then (box_exec P cfg h [''host'', ''url'', p] no_options)
        (\<lambda>out s. case find_url (er_stdout out) of
            None \<Rightarrow> Some (Inl (failure KProtocol [p, er_stderr out]), s)
          | Some url \<Rightarrow> if er_exitCode out \<noteq> 0 then Some (Inl (failure KProtocol [p, er_stderr out]), s)
                       else Some (Inr url, s)) s2 = Some (r, s1)"
      by (rule e) (auto split: option.split)
    then show "\<exists>x. (if er_exitCode a \<noteq> 0 then Some (Inl (failure KApi [p, er_stderr a]), s2)
         else and_then (box_exec P cfg h [''host'', ''url'', p] no_options)
                (\<lambda>out s. case find_url (er_stdout out) of
                    None \<Rightarrow> Some (Inl (failure KProtocol [p, er_stderr out]), s)
                  | Some url \<Rightarrow> if er_exitCode out \<noteq> 0 then Some (Inl (failure KProtocol [p, er_stderr out]), s)
                               else Some (Inr url, s)) s2) = Some x" by auto
  qed
  then show ?thesis by (auto simp: box_exposePort_def isBoxHandle_def Let_def)
qed

lemma status_returns: "steady P \<Longrightarrow> box_instanceStatus P cfg h s \<noteq> None"
  using request_done by (fastforce simp: box_instanceStatus_def)

lemma hold_returns: "steady P \<Longrightarrow> box_holdAwake P cfg h s \<noteq> None"
  using request_done by (fastforce simp: box_holdAwake_def isBoxHandle_def split: option.split)

text \<open>C40: No call of the driver hangs, under three hypotheses on its surroundings (\<open>steady\<close>): the clock does not go
  back during a request, a wait lasts at least as long as it was asked to, and the body of an answer ends, which the
  code does not see to (\<open>stalled_body_hangs\<close>).  Then each of the eight calls of the substrate interface (starting,
  destroying, putting to sleep, waking, running a command, exposing a port, reading the status, holding awake)
  returns, whatever the service answers, and each loop that waits for a state asks at most once more than there are
  intervals before its deadline.\<close>

theorem every_call_returns:
  assumes "steady P"
  shows "box_materialize P cfg spec s \<noteq> None \<and> box_destroy P cfg h s \<noteq> None \<and> box_sleep P cfg h s \<noteq> None \<and> box_wake P cfg h s \<noteq> None
    \<and> box_exec P cfg h argv opts s \<noteq> None \<and> box_exposePort P cfg h port s \<noteq> None
    \<and> box_instanceStatus P cfg h s \<noteq> None \<and> box_holdAwake P cfg h s \<noteq> None
    \<and> length (dr_log (snd (the (pollUntilState P cfg boxId dn pending deadline what s))))
        \<le> length (dr_log s) + Suc (rounds P cfg deadline (dr_world s))"
  using materialize_returns [OF assms] sleep_returns [OF assms] destroy_returns [OF assms] wake_returns [OF assms]
    exec_returns [OF assms, of cfg h argv opts s] expose_returns [OF assms] status_returns [OF assms] hold_returns [OF assms]
    poll_returns [OF assms, of cfg boxId dn pending deadline what s]
  by auto

section \<open>Examples\<close>

text \<open>A service that gives the answers of a list, and then none, and a clock that moves only while the driver waits.\<close>

definition scripted :: "(http_answer list \<times> rat) service" where
  "scripted = \<lparr>pl_fetch = (\<lambda>req budget (answers, t).
       case answers of [] \<Rightarrow> (Aborted, ([], t)) | a # rest \<Rightarrow> (if a = BodyStalls then Aborted else a, (rest, t))),
     pl_now = snd, pl_sleep = (\<lambda>ms (answers, t). (answers, t + ms))\<rparr>"

definition demo_box_config :: box_config where
  "demo_box_config = \<lparr>cf_maridBinaryUrl = Some ''u'', cf_ttlSeconds = None, cf_maridBinPath = None, cf_maridLogPath = None,
     cf_requestTimeoutMs = None, cf_createTimeoutMs = None, cf_resumeTimeoutMs = None, cf_archiveTimeoutMs = None,
     cf_execTimeoutMs = None, cf_pollIntervalMs = None\<rparr>"

definition demo_handle :: box_handle where
  "demo_handle = \<lparr>bh_substrate = ''box'', bh_computer = ''c1'', bh_id = ''bx_1'', bh_ports = [], bh_subdomain = None\<rparr>"

definition demo_secrets :: bootstrap_config where
  "demo_secrets = \<lparr>bc_env = [(''T'', ''s'')], bc_cmd = None, bc_maridBinaryUrl = Some ''u''\<rparr>"

definition answering :: "http_answer list \<Rightarrow> (http_answer list \<times> rat) driver" where
  "answering answers = \<lparr>dr_world = (answers, 0), dr_bootstraps = [(''bx_1'', demo_secrets)], dr_log = []\<rparr>"

definition no_envelope :: box_envelope where
  "no_envelope = \<lparr>en_ok = None, en_code = None, en_message = None, en_requestId = None, en_errCode = None, en_errMessage = None,
     en_box = None, en_exitCode = None, en_signal = None, en_stdout = None, en_stderr = None, en_timedOut = False\<rparr>"

definition in_state :: "string \<Rightarrow> http_answer" where
  "in_state st = Reply 200 (Some (no_envelope\<lparr>en_box := Some \<lparr>br_id = Some ''bx_1'', br_state = Some st, br_subdomain = None\<rparr>\<rparr>))"

lemmas demo_defs = scripted_def demo_box_config_def demo_handle_def answering_def no_envelope_def in_state_def
lemmas driver_defs = isBoxHandle_def BOX_SUBSTRATE_def and_then_def api_request_def res_ok_def envelopeError_def stopBox_def
  await_archived_def pollUntilRunning_def going_down_def is_running_def is_pending_def RUNNING_STATES_def PENDING_STATES_def failure_def Let_def

text \<open>Waking a box that is still being archived fails for good: the refusal to resume it is passed over, as for a box
  that is running, but the loop that follows takes the state for one that cannot become ready.\<close>

lemma wake_during_archiving_fails:
  "\<exists>e s'. box_wake scripted demo_box_config demo_handle (answering [Reply 409 None, in_state ''archiving'', in_state ''archived'']) = Some (Inl (BoxError e), s')
     \<and> be_kind e = KApi \<and> \<not> retryable e"
  by (simp add: box_wake_def demo_defs driver_defs pollUntilState.simps retryable_def)

text \<open>The deadline of a request ends with its headers: a body that stalls holds the call up for ever.\<close>

lemma stalled_body_hangs:
  assumes "\<And>req budget w. fst (pl_fetch P req budget w) = BodyStalls" "bh_substrate h = BOX_SUBSTRATE"
  shows "box_sleep P cfg h s = None"
  using assms by (simp add: box_sleep_def isBoxHandle_def and_then_def stopBox_def api_request_def Let_def case_prod_beta)

theorem destroyed_means_gone_witness:
  "let s' = snd (the (box_destroy scripted demo_box_config demo_handle (answering [Reply 404 None, Reply 404 None])))
   in last (dr_log s') = (GetBox ''bx_1'', Reply 404 None) \<and> map_of (dr_bootstraps s') ''bx_1'' = None"
proof -
  obtain s' where s': "box_destroy scripted demo_box_config demo_handle (answering [Reply 404 None, Reply 404 None]) = Some (Inr (), s')"
    "last (dr_log s') = (GetBox ''bx_1'', Reply 404 None)"
    by (simp add: box_destroy_def demo_defs driver_defs pollUntilState.simps forget_def)
  then show ?thesis using destroyed_means_gone [OF s'(1)] by (simp add: demo_handle_def)
qed

text \<open>A wake that succeeds: resumed, running, and the bootstrap prints its mark.\<close>

lemma scripted_ok:
  assumes "dr_world s = (Reply 200 (Some env) # rest, t)" "en_ok env = None"
  obtains s' where "api_request scripted req what budget s = Some (Inr env, s')" "dr_world s' = (rest, t)"
  using assms by (simp add: api_request_def scripted_def res_ok_def)

definition running_envelope :: box_envelope where
  "running_envelope = no_envelope\<lparr>en_box := Some \<lparr>br_id = Some ''bx_1'', br_state = Some ''running'', br_subdomain = None\<rparr>\<rparr>"

definition marked_envelope :: box_envelope where
  "marked_envelope = no_envelope\<lparr>en_exitCode := Some 0, en_stdout := Some BOOTSTRAP_OK\<rparr>"

definition resumable :: "(http_answer list \<times> rat) driver" where
  "resumable = answering [Reply 200 (Some no_envelope), Reply 200 (Some running_envelope), Reply 200 (Some marked_envelope)]"

lemma scripted_wake: "\<exists>s'. box_wake scripted demo_box_config demo_handle resumable = Some (Inr (), s')"
proof -
  let ?s = resumable
  have e: "en_ok no_envelope = None" "en_ok running_envelope = None" "en_ok marked_envelope = None"
    by (simp_all add: running_envelope_def marked_envelope_def no_envelope_def)
  obtain s1 where s1: "api_request scripted (ResumeBox ''bx_1'') ''c1'' (request_budget demo_box_config) ?s = Some (Inr no_envelope, s1)"
    "dr_world s1 = ([Reply 200 (Some running_envelope), Reply 200 (Some marked_envelope)], 0)"
    by (rule scripted_ok [of ?s, OF _ e(1)]) (auto simp: resumable_def answering_def)
  obtain s2 where s2: "api_request scripted (GetBox ''bx_1'') ''poll box state'' (request_budget demo_box_config) s1 = Some (Inr running_envelope, s2)"
    "dr_world s2 = ([Reply 200 (Some marked_envelope)], 0)"
    by (rule scripted_ok [OF s1(2) e(2)])
  have poll: "\<exists>box. pollUntilRunning scripted demo_box_config ''bx_1'' deadline ''c1'' s1 = Some (Inr box, s2)" for deadline
    unfolding pollUntilRunning_def
    by (subst pollUntilState.simps) (simp add: s2(1), simp add: running_envelope_def is_running_def RUNNING_STATES_def)
  have "list_all (assertEnvName \<circ> fst) (bc_env demo_secrets)" by code_simp
  then obtain script where script: "bootstrap_script DEFAULT_MARID_BIN_PATH DEFAULT_MARID_LOG_PATH demo_secrets = Some script"
    by (simp add: bootstrap_script_def launcher_text_def Let_def)
  let ?b = "num (cf_execTimeoutMs demo_box_config) DEFAULT_EXEC_TIMEOUT_MS"
  obtain s3 where s3: "api_request scripted (RunCommand ''bx_1'' script (command_timeout ?b)) ''c1'' (?b + request_budget demo_box_config) s2
      = Some (Inr marked_envelope, s3)"
    by (rule scripted_ok [OF s2(2) e(3)])
  have res: "command_result ''c1'' marked_envelope = Inr \<lparr>er_exitCode = 0, er_stdout = BOOTSTRAP_OK, er_stderr = []\<rparr>"
    by (simp add: command_result_def marked_envelope_def no_envelope_def or_field_def)
  have ready: "commandWhenReady scripted demo_box_config ''bx_1'' script ''c1'' deadline s2
      = Some (Inr \<lparr>er_exitCode = 0, er_stdout = BOOTSTRAP_OK, er_stderr = []\<rparr>, s3)" for deadline
    by (subst commandWhenReady.simps) (simp add: box_command_def Let_def and_then_def s3 res)
  have paths: "cf_maridBinPath demo_box_config = None" "cf_maridLogPath demo_box_config = None" by (simp_all add: demo_box_config_def)
  have boot: "box_bootstrap scripted demo_box_config ''bx_1'' ''c1'' demo_secrets deadline s2 = Some (Inr (), s3)" for deadline
    by (simp add: box_bootstrap_def paths script and_then_def ready started_def)
  have go: "and_then (pollUntilRunning scripted demo_box_config ''bx_1'' deadline ''c1'')
      (\<lambda>_. box_bootstrap scripted demo_box_config ''bx_1'' ''c1'' demo_secrets deadline) s1 = Some (Inr (), s3)" for deadline
    using poll [of deadline] by (auto simp: and_then_def boot)
  have h: "bh_substrate demo_handle = BOX_SUBSTRATE" "bh_id demo_handle = ''bx_1''" "bh_computer demo_handle = ''c1''"
    "map_of (dr_bootstraps ?s) ''bx_1'' = Some demo_secrets"
    by (simp_all add: demo_handle_def BOX_SUBSTRATE_def resumable_def answering_def)
  show ?thesis unfolding box_wake_def isBoxHandle_def Let_def h by (simp add: s1(1) go h)
qed

theorem warm_and_awake_are_proven_witness:
  "(\<exists>s' status env. box_sleep scripted demo_box_config demo_handle (answering [Reply 202 (Some no_envelope), in_state ''archiving'', in_state ''archived'']) = Some (Inr (), s')
      \<and> last (dr_log s') = (GetBox ''bx_1'', Reply status (Some env)) \<and> Option.bind (en_box env) br_state = Some ''archived'')
   \<and> (\<exists>s' b. box_wake scripted demo_box_config demo_handle resumable = Some (Inr (), s')
      \<and> sent resumable s' (ResumeBox ''bx_1'') \<and> proven_start resumable s' demo_box_config ''bx_1'' b)
   \<and> (\<exists>e. box_wake scripted demo_box_config (demo_handle\<lparr>bh_id := ''bx_2''\<rparr>) (answering []) = Some (Inl e, answering []))"
proof (intro conjI)
  obtain s' where s': "box_sleep scripted demo_box_config demo_handle (answering [Reply 202 (Some no_envelope), in_state ''archiving'', in_state ''archived'']) = Some (Inr (), s')"
    by (simp add: box_sleep_def demo_defs driver_defs pollUntilState.simps num_def DEFAULT_ARCHIVE_TIMEOUT_MS_def)
  then show "\<exists>s' status env. box_sleep scripted demo_box_config demo_handle (answering [Reply 202 (Some no_envelope), in_state ''archiving'', in_state ''archived'']) = Some (Inr (), s')
      \<and> last (dr_log s') = (GetBox ''bx_1'', Reply status (Some env)) \<and> Option.bind (en_box env) br_state = Some ''archived''"
    using conjunct1 [OF warm_and_awake_are_proven, rule_format, OF s'] by (auto simp: demo_handle_def)
  obtain s2 where s2: "box_wake scripted demo_box_config demo_handle resumable = Some (Inr (), s2)"
    using scripted_wake by blast
  have i: "bh_id demo_handle = ''bx_1''" by (simp add: demo_handle_def)
  show "\<exists>s' b. box_wake scripted demo_box_config demo_handle resumable = Some (Inr (), s')
      \<and> sent resumable s' (ResumeBox ''bx_1'') \<and> proven_start resumable s' demo_box_config ''bx_1'' b"
    using conjunct1 [OF conjunct2 [OF warm_and_awake_are_proven], rule_format, OF s2] s2 unfolding i by blast
  have "map_of (dr_bootstraps (answering [])) (bh_id (demo_handle\<lparr>bh_id := ''bx_2''\<rparr>)) = None"
    by (simp add: answering_def)
  then show "\<exists>e. box_wake scripted demo_box_config (demo_handle\<lparr>bh_id := ''bx_2''\<rparr>) (answering []) = Some (Inl e, answering [])"
    using warm_and_awake_are_proven by blast
qed

definition demo_spec :: materialize_spec where
  "demo_spec = \<lparr>ms_computer = ''c1'', ms_env = [], ms_ports = [], ms_cmd = None\<rparr>"

theorem failed_start_is_stopped_witness:
  "\<exists>e s'. box_materialize scripted demo_box_config demo_spec (answering [in_state ''init'', in_state ''error'', Reply 404 None]) = Some (Inl e, s')
     \<and> sent (answering [in_state ''init'', in_state ''error'', Reply 404 None]) s' (StopBox ''bx_1'') \<and> map_of (dr_bootstraps s') ''bx_1'' = None"
proof -
  obtain e s' where s': "box_materialize scripted demo_box_config demo_spec (answering [in_state ''init'', in_state ''error'', Reply 404 None]) = Some (Inl e, s')"
    and log: "\<exists>rest. dr_log s' = dr_log (answering [in_state ''init'', in_state ''error'', Reply 404 None]) @ (CreateBox None, in_state ''init'') # rest"
    by (simp add: box_materialize_def demo_spec_def spec_cmd_def binary_url_def or_field_def materialize_try_def materialize_failed_def
        stopQuietly_def forget_def demo_defs driver_defs pollUntilState.simps)
  moreover have "given_box (in_state ''init'') = Some ''bx_1''" by (simp add: given_box_def in_state_def no_envelope_def res_ok_def)
  ultimately show ?thesis using failed_start_is_stopped by blast
qed

theorem every_call_returns_witness:
  "box_sleep scripted demo_box_config demo_handle (answering [in_state ''init'', in_state ''cloning'']) \<noteq> None"
proof -
  have "steady scripted" by (auto simp: steady_def scripted_def split: list.split)
  then show ?thesis using every_call_returns by blast
qed

end
