(* ===== verification/Recovery.thy ===== *)
theory Recovery
  imports ComputerProps
begin

text \<open>
  The budget of recoveries (\<^verbatim>\<open>#recoverInner\<close> of \<^verbatim>\<open>packages/control-plane/src/computer-do.ts\<close>) over
  consecutive losses of a machine: what one loss does, by rounds of an answered wake and a liveness
  alarm, and what a computer whose budget is spent does with every later event.
\<close>

section \<open>A computer without a machine and without a deadline\<close>

definition dormant :: "computer \<Rightarrow> bool" where
  "dormant c \<longleftrightarrow> state (c_meta c) = StCold \<and> token (c_meta c) = None \<and> handle_of (c_meta c) = None
     \<and> list_all (\<lambda>d. deadlineAt d (c_meta c) = None) DEADLINES
     \<and> c_flight c = None \<and> c_auth c = []"

text \<open>The events by which a client asks for a machine, itself or for a run.\<close>

fun asks_for_machine :: "computer_event \<Rightarrow> bool" where
  "asks_for_machine (CeWake cid) \<longleftrightarrow> True"
| "asks_for_machine (CeEnqueue cid rq) \<longleftrightarrow> True"
| "asks_for_machine (CeWrite cid run path content env) \<longleftrightarrow> True"
| "asks_for_machine _ \<longleftrightarrow> False"

lemma dormant_deadline: "dormant c \<Longrightarrow> deadlineAt d (c_meta c) = None"
  by (cases d) (simp_all add: dormant_def DEADLINES_def)

lemma deadline_cong [simp]:
  "deadlineAt d (m\<lparr>head_prev := h\<rparr>) = deadlineAt d m" "deadlineAt d (m\<lparr>updatedAt := t\<rparr>) = deadlineAt d m"
  "deadlineAt d (m\<lparr>state := st\<rparr>) = deadlineAt d m" "deadlineAt d (m\<lparr>layout := l\<rparr>) = deadlineAt d m"
  by (cases d; simp)+

text \<open>An operation that moves none of these fields.\<close>

lemma dormant_same:
  assumes "dormant c" "state (c_meta c') = state (c_meta c)" "token (c_meta c') = token (c_meta c)"
    "handle_of (c_meta c') = handle_of (c_meta c)" "\<And>d. deadlineAt d (c_meta c') = deadlineAt d (c_meta c)"
    "c_flight c' = c_flight c" "c_auth c' = c_auth c" "mints c' = mints c"
  shows "dormant c' \<and> mints c' = mints c"
  using assms by (simp add: dormant_def)

lemma core_deadlines: "core a = core b \<Longrightarrow> deadlineAt d a = deadlineAt d b"
  by (cases a; cases b; cases d) (simp_all add: core_def)

lemma dormant_alarm: "dormant c \<Longrightarrow> alarm cf now fans c = c\<lparr>c_alarm := None\<rparr>"
proof -
  assume d: "dormant c"
  then have s: "state (c_meta c) = StCold" by (simp add: dormant_def)
  have "due_names now (c_meta c) = []" "earliest_name (c_meta c) = None"
    using dormant_deadline [OF d] by (simp_all add: due_names_def earliest_name_def DEADLINES_def)
  then show ?thesis using s by (simp add: alarm_def Let_def)
qed

lemma dormant_evict:
  assumes "dormant c" "computer_ok c"
  shows "dormant (evict now c)"
proof -
  have s: "state (c_meta c) = StCold" using assms(1) by (simp add: dormant_def)
  have k: "core (c_meta (evict now c)) = core (c_meta c)"
    using evict_ok(3) [OF assms(2), of now] s by simp
  have a: "c_auth (evict now c) = []"
    by (simp add: evict_def Let_def frame_simps)
  show ?thesis
    using assms(1) core_eq_fields [OF k] core_deadlines [OF k] a evict_flight [of now c]
    by (simp add: dormant_def)
qed

lemma evict_mints: "mints (evict now c) = mints c"
  by (simp add: evict_def Let_def frame_simps)

lemma dormant_quiet: "dormant c \<Longrightarrow> quiet c c' \<Longrightarrow> dormant c' \<and> mints c' = mints c"
  by (rule dormant_same) (simp_all add: quiet_def)

lemma dormant_quiets:
  assumes "dormant c"
  shows "dormant (snd (stop_run cf now run c)) \<and> mints (snd (stop_run cf now run c)) = mints c"
    "dormant (snd (snapshotNow r c)) \<and> mints (snd (snapshotNow r c)) = mints c"
    "dormant (snd (dismiss_attention cf aid c)) \<and> mints (snd (dismiss_attention cf aid c)) = mints c"
    "dormant (client_open s c) \<and> mints (client_open s c) = mints c"
    "dormant (client_close s c) \<and> mints (client_close s c) = mints c"
    "dormant (onClientMessage s msg c) \<and> mints (onClientMessage s msg c) = mints c"
    "dormant (flushTimer c) \<and> mints (flushTimer c) = mints c"
  by (rule dormant_quiet [OF assms], rule quiet_stop quiet_snapshot quiet_dismiss quiet_client quiet_flush)+

lemma dormant_step:
  assumes "dormant c" "computer_ok c" "\<not> asks_for_machine e"
  shows "dormant (computer_step cf e now ans c) \<and> mints (computer_step cf e now ans c) = mints c"
proof (cases e)
  case CeEvict
  then show ?thesis using dormant_evict [OF assms(1,2)] evict_mints by simp
next
  case (CeAlarm fans)
  then show ?thesis using dormant_alarm [OF assms(1)] dormant_same [OF assms(1)] by simp
next
  case CeWakeAnswer
  then show ?thesis using assms(1) by (simp add: wake_answer_def dormant_def)
next
  case CeHealth
  then show ?thesis using assms(1) by (simp add: healthCheck_def onLivenessDeadline_def dormant_def Let_def frame_simps)
next
  case (CeSupervisor msg s)
  have "token (c_meta c) = None" "c_auth c = []" using assms(1) by (simp_all add: dormant_def)
  then show ?thesis unfolding CeSupervisor computer_step.simps
    by (cases msg; intro dormant_same [OF assms(1)]) (simp_all add: onSupervisorMessage_def onHello_def Let_def frame_simps)
next
  case (CeSupervisorClose s)
  then show ?thesis using assms(1) by (simp add: supervisor_close_def dormant_def Let_def)
next
  case (CeRevert run obs)
  have "c_meta (fold sendControl ms x) = c_meta x" "c_flight (fold sendControl ms x) = c_flight x"
    "c_auth (fold sendControl ms x) = c_auth x" "mints (fold sendControl ms x) = mints x" for ms x
    using quiet_sends [of x ms] by (simp_all add: quiet_def)
  then show ?thesis unfolding CeRevert computer_step.simps
    by (intro dormant_same [OF assms(1)]) (simp_all add: revert_run_def case_prod_unfold frame_simps)
next
  case CeSleep
  then show ?thesis using assms(1) by (simp add: sleepNow_def dormant_def)
next
  case CeDeepSleep
  then show ?thesis using assms(1) by (simp add: deepSleepNow_def dormant_def)
next
  case (CeKeep run obs)
  then show ?thesis unfolding CeKeep computer_step.simps
    by (intro dormant_same [OF assms(1)]) (simp_all add: keep_run_def case_prod_unfold frame_simps)
next
  case (CeInit cid h)
  then show ?thesis using assms(1) by (auto simp: dormant_def initFromManifest_def frame_simps DEADLINES_def)
next
  case (CeLayout cid l)
  then show ?thesis unfolding CeLayout computer_step.simps
    by (intro dormant_same [OF assms(1)]) (simp_all add: setLayout_def frame_simps)
next
  case (CeDescribe cid)
  then show ?thesis unfolding CeDescribe computer_step.simps
    by (intro dormant_same [OF assms(1)]) (simp_all add: describe_def Let_def frame_simps)
qed (use assms(3) in \<open>simp_all add: dormant_quiets [OF assms(1)]\<close>)

lemma dormant_run:
  assumes "\<not> cf_unbacked cf" "computer_ok c" "dormant c" "list_all (\<lambda>x. \<not> asks_for_machine (fst x)) es"
  shows "dormant (computer_run cf es c) \<and> mints (computer_run cf es c) = mints c"
  using assms(2-4)
proof (induction es arbitrary: c)
  case (Cons x es)
  obtain e now ans where x: "x = (e, now, ans)" by (rule prod_cases3)
  then have e: "\<not> asks_for_machine e" "list_all (\<lambda>x. \<not> asks_for_machine (fst x)) es" using Cons.prems(3) by simp_all
  note k = dormant_step [OF Cons.prems(2,1) e(1), of cf now ans]
  show ?case using Cons.IH [OF step_ok(1) [OF assms(1) Cons.prems(1)] conjunct1 [OF k] e(2)] k by (simp add: x)
qed simp

section \<open>One loss\<close>

text \<open>A wake in flight for a new machine of a generation nobody has joined, with a run in the queue.\<close>

definition has_waiting :: "run_db \<Rightarrow> bool" where
  "has_waiting db \<longleftrightarrow> ids_ok db \<and> hasQueuedRuns db"

definition booting :: "computer \<Rightarrow> bool" where
  "booting c \<longleftrightarrow> state (c_meta c) = StWaking \<and> map_option wf_wasWarm (c_flight c) = Some False
     \<and> \<not> liveSupervisor c \<and> has_waiting (c_db c)"

lemma has_waiting_row: "has_waiting db \<longleftrightarrow> ids_ok db \<and> (\<exists>q r. runRow q db = Some r \<and> waiting r)"
proof
  assume h: "has_waiting db"
  then obtain r where "r \<in> set (db_runs db)" "waiting r"
    by (auto simp: has_waiting_def hasQueuedRuns_def list_ex_iff waiting_def)
  then show "ids_ok db \<and> (\<exists>q r. runRow q db = Some r \<and> waiting r)"
    using h runRow_unique [of db r] by (auto simp: has_waiting_def)
next
  assume "ids_ok db \<and> (\<exists>q r. runRow q db = Some r \<and> waiting r)"
  then show "has_waiting db"
    by (auto simp: has_waiting_def hasQueuedRuns_def list_ex_iff waiting_def dest!: runRow_Some)
qed

lemma has_waiting_degrade:
  assumes "has_waiting db"
  shows "has_waiting (fst (degradeInFlightRuns now j db))"
proof -
  obtain db' evs where d: "degradeInFlightRuns now j db = (db', evs)" by (rule prod.exhaust)
  from assms obtain q r where r: "ids_ok db" "runRow q db = Some r" "waiting r" by (auto simp: has_waiting_row)
  then have "runRow q db' = Some r"
    using degrade_spec(2) [OF r(1) d, of q] by (simp add: degrade_row_def waiting_def)
  then show ?thesis using degrade_spec(1) [OF r(1) d] r(3) by (auto simp: d has_waiting_row)
qed

lemma has_waiting_pending: "has_waiting db \<Longrightarrow> pendingWork db > 0"
  by (auto simp: has_waiting_def hasQueuedRuns_def list_ex_iff pendingWork_def filter_empty_conv)

lemma degrade_db: "c_db (degradeRuns cf now c) = fst (degradeInFlightRuns now (c_journal c) (c_db c))"
  by (simp add: degradeRuns_def frame_simps)

lemma recoverCold_more:
  "c_db (recoverCold cf now ans k c) = fst (degradeInFlightRuns now (c_journal c) (c_db c))"
  "deadlineAt d (c_meta (recoverCold cf now ans k c)) = (if d = WakeRetry then wakeRetryAt (c_meta c) else None)"
  by (simp_all add: recoverCold_def Let_def frame_simps degrade_db) (cases d; simp add: frame_simps close_meta(7) [of WakeRetry, simplified])

lemma wake_mint_more:
  "c_db (wake_mint cf now ans c) = c_db c" "c_supervisor (wake_mint cf now ans c) = c_supervisor c"
  "d \<noteq> WakingD \<Longrightarrow> deadlineAt d (c_meta (wake_mint cf now ans c)) = deadlineAt d (c_meta c)"
  by (cases d; simp add: wake_mint_def Let_def frame_simps)+

lemma live_cong:
  "c_supervisor c' = c_supervisor c \<Longrightarrow> c_auth c' = c_auth c \<Longrightarrow> epoch (c_meta c') = epoch (c_meta c) \<Longrightarrow>
     liveSupervisor c' = liveSupervisor c"
  by (simp add: liveSupervisor_def isCurrentSupervisor_def split: option.split)

definition patience :: "config \<Rightarrow> int" where
  "patience cf = max (supervisorGraceMs cf) (livenessMs cf)"

lemma armLiveness_due:
  assumes "state (c_meta c) = StAwake" "pendingWork (c_db c) > 0"
  shows "\<exists>t. livenessAt (c_meta (armLiveness cf now c)) = Some t \<and> t \<le> now + patience cf"
  using assms by (auto simp: armLiveness_def Let_def frame_simps patience_def split: option.split)

lemma armLiveness_more:
  "d \<noteq> Liveness \<Longrightarrow> deadlineAt d (c_meta (armLiveness cf now c)) = deadlineAt d (c_meta c)"
  by (cases d; simp add: armLiveness_def Let_def frame_simps split: option.split)+

lemma touch_awake:
  assumes "state (c_meta c) = StAwake" "pendingWork (c_db c) > 0"
  shows "\<exists>t. livenessAt (c_meta (touch cf now c)) = Some t \<and> t \<le> now + patience cf"
    "wakeRetryAt (c_meta (touch cf now c)) = wakeRetryAt (c_meta c)"
proof -
  have a: "\<exists>t. livenessAt (c_meta (armLiveness cf now d)) = Some t \<and> t \<le> now + patience cf"
    if "state (c_meta d) = StAwake" "c_db d = c_db c" for d
    using armLiveness_due [of d cf now] that assms(2) by (simp add: frame_simps)
  show "\<exists>t. livenessAt (c_meta (touch cf now c)) = Some t \<and> t \<le> now + patience cf"
    using assms(1) unfolding touch_def armTier_def Let_def by (auto simp: frame_simps intro!: a)
  show "wakeRetryAt (c_meta (touch cf now c)) = wakeRetryAt (c_meta c)"
    by (simp add: touch_def armTier_def Let_def frame_simps armLiveness_more [of WakeRetry, simplified])
qed

text \<open>The substrate answers with a machine.\<close>

lemma booting_answered:
  assumes "booting c" "an_materialize ans = Some h"
  shows "let b = snd (wake_answer cf now ans c) in
    state (c_meta b) = StAwake \<and> handle_of (c_meta b) = Some h \<and> c_flight b = None \<and> \<not> liveSupervisor b
    \<and> has_waiting (c_db b) \<and> mints b = mints c \<and> recoveryStreak (c_meta b) = recoveryStreak (c_meta c)
    \<and> wakeRetryAt (c_meta b) = None \<and> wakingAt (c_meta b) = None
    \<and> (\<exists>t. livenessAt (c_meta b) = Some t \<and> t \<le> now + patience cf)"
proof -
  from assms(1) obtain f where f: "c_flight c = Some f" "\<not> wf_wasWarm f" by (auto simp: booting_def)
  let ?b = "snd (wake_answer cf now ans c)"
  have b: "?b = snd (wake_complete cf now f (Some h) c)"
    using f assms(2) by (simp add: wake_answer_def case_prod_unfold)
  have p: "pendingWork (c_db c) > 0" using assms(1) has_waiting_pending by (simp add: booting_def)
  have l: "liveSupervisor ?b = liveSupervisor c"
    unfolding b by (rule live_cong) (simp_all add: wake_complete_def Let_def frame_simps)
  show ?thesis unfolding Let_def l unfolding b
    using assms(1) p touch_awake
    by (simp add: booting_def wake_complete_def Let_def frame_simps)
qed

text \<open>The machine is found gone, or without a supervisor.\<close>

definition awaiting :: "computer \<Rightarrow> bool" where
  "awaiting b \<longleftrightarrow> state (c_meta b) = StAwake \<and> handle_of (c_meta b) \<noteq> None \<and> c_flight b = None \<and> \<not> liveSupervisor b
     \<and> has_waiting (c_db b) \<and> wakeRetryAt (c_meta b) = None \<and> wakingAt (c_meta b) = None"

lemma liveness_recovers:
  assumes "awaiting d" "an_probe ans \<noteq> Unknown"
  shows "\<exists>k e. snd (onLivenessDeadline cf now ans d) = recover cf now ans k e \<and> c_meta e = c_meta d \<and> c_flight e = None
    \<and> c_db e = c_db d \<and> mints e = mints d"
proof -
  obtain h where h: "handle_of (c_meta d) = Some h" using assms(1) by (auto simp: awaiting_def)
  then obtain e where p: "probeInstance ans d = (an_probe ans, e)" by (simp add: probeInstance_def)
  have "pendingWork (c_db d) > 0" using assms(1) has_waiting_pending by (simp add: awaiting_def)
  then obtain k where "snd (onLivenessDeadline cf now ans d) = recover cf now ans k e"
    using assms unfolding onLivenessDeadline_def Let_def p
    by (cases "an_probe ans") (auto simp: awaiting_def)
  then show ?thesis using assms(1) probe_eq [OF p]
    by (intro exI [of _ k] exI [of _ e]) (simp add: awaiting_def)
qed

lemma recover_awaiting:
  assumes "c_flight e = None" "has_waiting (c_db e)" "wakeRetryAt (c_meta e) = None" "\<not> cf_unbacked cf"
    "r = recover cf now ans k e"
  shows "recoveryStreak (c_meta r) = Suc (recoveryStreak (c_meta e))"
    "recoveryStreak (c_meta e) < RECOVERY_STREAK_MAX \<Longrightarrow> booting r \<and> length (mints r) = Suc (length (mints e))"
    "recoveryStreak (c_meta e) \<ge> RECOVERY_STREAK_MAX \<Longrightarrow> dormant r \<and> mints r = mints e \<and> has_waiting (c_db r)
       \<and> in_kind (last (c_incidents r)) = RecoveryExhausted"
    "d \<noteq> WakingD \<Longrightarrow> deadlineAt d (c_meta r) = None"
proof -
  let ?c = "recoverCold cf now ans k e"
  have w: "has_waiting (c_db ?c)" using has_waiting_degrade assms(2) by (simp add: recoverCold_more)
  have dl: "deadlineAt x (c_meta ?c) = None" for x using assms(3) by (simp add: recoverCold_more)
  have l: "in_kind (last (c_incidents (recordIncident now RecoveryExhausted d))) = RecoveryExhausted" for d
    by (simp add: recordIncident_def Let_def INCIDENT_KEEP_def last_drop)
  have i: "c_incidents (armAlarm (persist d)) = c_incidents d" for d by (simp add: armAlarm_def persist_def)
  have b: "wakeInBackground cf now ans ?c = wake_mint cf now ans ?c"
    using assms(1,4) by (simp add: wakeInBackground_cold frame_simps)
  have r: "r = (if recoveryStreak (c_meta e) \<ge> RECOVERY_STREAK_MAX then armAlarm (persist (recordIncident now RecoveryExhausted ?c))
      else wake_mint cf now ans ?c)"
    using has_waiting_pending [OF assms(2)] by (simp add: assms(5) recover_def Let_def frame_simps b)
  have n: "\<not> liveSupervisor (wake_mint cf now ans ?c)"
    by (simp add: liveSupervisor_def wake_mint_more frame_simps)
  show "recoveryStreak (c_meta r) = Suc (recoveryStreak (c_meta e))"
    "recoveryStreak (c_meta e) < RECOVERY_STREAK_MAX \<Longrightarrow> booting r \<and> length (mints r) = Suc (length (mints e))"
    "d \<noteq> WakingD \<Longrightarrow> deadlineAt d (c_meta r) = None"
    unfolding r using w n dl
    by (simp_all add: recoverCold_more wake_mint_more wake_mint_fields wake_mint_flight booting_def frame_simps)
  show "recoveryStreak (c_meta e) \<ge> RECOVERY_STREAK_MAX \<Longrightarrow> dormant r \<and> mints r = mints e \<and> has_waiting (c_db r)
       \<and> in_kind (last (c_incidents r)) = RecoveryExhausted"
    unfolding r using w dl assms(1) l by (simp add: dormant_def frame_simps i list_all_iff)
qed

lemma alarms_none:
  "(\<And>n. n \<in> set ns \<Longrightarrow> deadlineAt n (c_meta c) = None) \<Longrightarrow> fold (alarm_one cf now fans forced) ns c = c"
  by (induction ns) (simp_all add: alarm_one_def)

lemma alarm_of_lost:
  assumes "awaiting b" "livenessAt (c_meta b) = Some t" "t \<le> now" "an_probe (fans Liveness) \<noteq> Unknown" "\<not> cf_unbacked cf"
  shows "\<exists>k e. alarm cf now fans b = armAlarm (persist (recover cf now (fans Liveness) k e)) \<and> c_flight e = None
    \<and> has_waiting (c_db e) \<and> wakeRetryAt (c_meta e) = None \<and> mints e = mints b
    \<and> recoveryStreak (c_meta e) = recoveryStreak (c_meta b)"
proof -
  let ?c = "closeAwakeStretch now True (b\<lparr>c_alarm := None\<rparr>)" and ?one = "alarm_one cf now fans False"
  let ?P = "\<lambda>name. case deadlineAt name (c_meta ?c) of None \<Rightarrow> False | Some t \<Rightarrow> t \<le> now"
  let ?d = "persist (setDeadline Liveness None ?c)" and ?rest = "filter ?P [Credential, ColdD, Tier]"
  have due: "due_names now (c_meta ?c) = Liveness # ?rest"
    using assms(1-3) by (simp add: due_names_def DEADLINES_def awaiting_def frame_simps)
  have l: "liveSupervisor ?d = liveSupervisor b" by (rule live_cong) (simp_all add: frame_simps)
  have d: "awaiting ?d"
    using assms(1) by (simp add: awaiting_def l frame_simps close_meta(7) [of WakeRetry, simplified])
  obtain k e where e: "snd (onLivenessDeadline cf now (fans Liveness) ?d) = recover cf now (fans Liveness) k e"
    "c_meta e = c_meta ?d" "c_flight e = None" "c_db e = c_db ?d" "mints e = mints ?d"
    using liveness_recovers [OF d assms(4)] by blast
  have one: "?one Liveness ?c = recover cf now (fans Liveness) k e"
    using assms(2,3) e(1) by (simp add: alarm_one_def frame_simps close_meta(7) [of Liveness, simplified])
  have w: "has_waiting (c_db e)" "wakeRetryAt (c_meta e) = None" using d e(2,4) by (simp_all add: awaiting_def)
  have ne: "n \<noteq> WakingD" if "n \<in> set ?rest" for n using that by (auto simp del: filter.simps)
  have "fold ?one ?rest (recover cf now (fans Liveness) k e) = recover cf now (fans Liveness) k e"
    by (rule alarms_none) (rule recover_awaiting(4) [OF e(3) w assms(5) refl ne])
  then have "alarm cf now fans b = armAlarm (persist (recover cf now (fans Liveness) k e))"
    using assms(1) due one by (simp add: alarm_def Let_def awaiting_def)
  moreover have "mints e = mints b" "recoveryStreak (c_meta e) = recoveryStreak (c_meta b)"
    using e(2,5) by (simp_all add: frame_simps)
  ultimately show ?thesis using e(3) w by blast
qed

section \<open>Consecutive losses\<close>

text \<open>A round: the substrate answers the wake with a machine, and the alarm finds it, after its time to
  complete the handshake, gone or without a supervisor.\<close>

type_synonym loss = "time \<times> answers \<times> time \<times> (deadline_name \<Rightarrow> answers)"

fun loss_events :: "loss \<Rightarrow> (computer_event \<times> time \<times> answers) list" where
  "loss_events (t1, a1, t2, fans) = [(CeWakeAnswer, t1, a1), (CeAlarm fans, t2, a1)]"

fun is_loss :: "config \<Rightarrow> loss \<Rightarrow> bool" where
  "is_loss cf (t1, a1, t2, fans) \<longleftrightarrow>
     an_materialize a1 \<noteq> None \<and> t1 + patience cf \<le> t2 \<and> an_probe (fans Liveness) \<noteq> Unknown"

abbreviation after :: "config \<Rightarrow> loss list \<Rightarrow> computer \<Rightarrow> computer" where
  "after cf ls c \<equiv> computer_run cf (concat (map loss_events ls)) c"

lemma one_loss:
  assumes "booting c" "is_loss cf l" "\<not> cf_unbacked cf"
  shows "recoveryStreak (c_meta (after cf [l] c)) = Suc (recoveryStreak (c_meta c))"
    "recoveryStreak (c_meta c) < RECOVERY_STREAK_MAX \<Longrightarrow>
       booting (after cf [l] c) \<and> length (mints (after cf [l] c)) = Suc (length (mints c))"
    "recoveryStreak (c_meta c) \<ge> RECOVERY_STREAK_MAX \<Longrightarrow>
       dormant (after cf [l] c) \<and> mints (after cf [l] c) = mints c \<and> has_waiting (c_db (after cf [l] c))
       \<and> in_kind (last (c_incidents (after cf [l] c))) = RecoveryExhausted"
proof -
  obtain t1 a1 t2 fans where l: "l = (t1, a1, t2, fans)" by (metis prod_cases4)
  with assms(2) obtain h where h: "an_materialize a1 = Some h" by auto
  let ?b = "snd (wake_answer cf t1 a1 c)"
  have a: "after cf [l] c = alarm cf t2 fans ?b" by (simp add: l)
  note b = booting_answered [OF assms(1) h, of cf t1, unfolded Let_def]
  then obtain t where t: "livenessAt (c_meta ?b) = Some t" "t \<le> t1 + patience cf" by blast
  have w: "awaiting ?b" using b by (simp add: awaiting_def)
  obtain k e where e: "alarm cf t2 fans ?b = armAlarm (persist (recover cf t2 (fans Liveness) k e))" "c_flight e = None"
    "has_waiting (c_db e)" "wakeRetryAt (c_meta e) = None" "mints e = mints ?b"
    "recoveryStreak (c_meta e) = recoveryStreak (c_meta ?b)"
    using alarm_of_lost [OF w t(1), of t2 fans cf] t(2) assms(2,3) by (auto simp: l)
  note r = recover_awaiting [where now = t2 and ans = "fans Liveness" and k = k, OF e(2-4) assms(3) refl]
  have m: "mints ?b = mints c" "recoveryStreak (c_meta ?b) = recoveryStreak (c_meta c)" using b by simp_all
  have v: "liveSupervisor (armAlarm (persist x)) = liveSupervisor x" for x by (rule live_cong) (simp_all add: frame_simps)
  have k: "booting (armAlarm (persist x)) = booting x" "dormant (armAlarm (persist x)) = dormant x"
    "c_incidents (armAlarm (persist x)) = c_incidents x" for x
    by (simp_all add: booting_def dormant_def v frame_simps) (simp add: armAlarm_def persist_def)
  show "recoveryStreak (c_meta (after cf [l] c)) = Suc (recoveryStreak (c_meta c))"
    "recoveryStreak (c_meta c) < RECOVERY_STREAK_MAX \<Longrightarrow>
       booting (after cf [l] c) \<and> length (mints (after cf [l] c)) = Suc (length (mints c))"
    "recoveryStreak (c_meta c) \<ge> RECOVERY_STREAK_MAX \<Longrightarrow>
       dormant (after cf [l] c) \<and> mints (after cf [l] c) = mints c \<and> has_waiting (c_db (after cf [l] c))
       \<and> in_kind (last (c_incidents (after cf [l] c))) = RecoveryExhausted"
    unfolding a e(1) using r(1-3) e(5,6) m by (simp_all add: k frame_simps)
qed

lemma loss_of_dormant: "dormant c \<Longrightarrow> dormant (after cf [l] c) \<and> after cf [l] c = c\<lparr>c_alarm := None\<rparr>"
  by (cases l) (simp add: wake_answer_def dormant_def dormant_alarm)

lemma losses_of_dormant: "dormant c \<Longrightarrow> \<exists>t. after cf ls c = c\<lparr>c_alarm := t\<rparr>"
proof (induction ls arbitrary: c)
  case Nil
  have "c = c\<lparr>c_alarm := c_alarm c\<rparr>" by simp
  then show ?case unfolding list.map concat.simps computer_run.simps by blast
next
  case (Cons l ls)
  note k = loss_of_dormant [OF Cons.prems, of cf l]
  have "dormant (c\<lparr>c_alarm := None\<rparr>)" using Cons.prems by (simp add: dormant_def)
  from Cons.IH [OF this] obtain t where "after cf ls (c\<lparr>c_alarm := None\<rparr>) = c\<lparr>c_alarm := None, c_alarm := t\<rparr>" by blast
  then have "after cf (l # ls) c = c\<lparr>c_alarm := t\<rparr>" using k by (simp add: run_append)
  then show ?case by blast
qed

definition spent :: "computer \<Rightarrow> bool" where
  "spent c \<longleftrightarrow> dormant c \<and> in_kind (last (c_incidents c)) = RecoveryExhausted"

lemma losses:
  assumes "\<not> cf_unbacked cf" "booting c" "recoveryStreak (c_meta c) \<le> RECOVERY_STREAK_MAX" "list_all (is_loss cf) ls"
  shows "recoveryStreak (c_meta (after cf ls c)) = min (recoveryStreak (c_meta c) + length ls) (Suc RECOVERY_STREAK_MAX)
    \<and> length (mints (after cf ls c)) = length (mints c) + min (length ls) (RECOVERY_STREAK_MAX - recoveryStreak (c_meta c))
    \<and> has_waiting (c_db (after cf ls c))
    \<and> (if recoveryStreak (c_meta c) + length ls \<le> RECOVERY_STREAK_MAX then booting (after cf ls c) else spent (after cf ls c))"
  using assms(2-4)
proof (induction ls arbitrary: c)
  case Nil
  then show ?case by (simp add: booting_def)
next
  case (Cons l ls)
  let ?d = "after cf [l] c"
  have a: "after cf (l # ls) c = after cf ls ?d" by (simp add: run_append)
  have l: "is_loss cf l" "list_all (is_loss cf) ls" using Cons.prems(3) by simp_all
  note o = one_loss [OF Cons.prems(1) l(1) assms(1)]
  show ?case
  proof (cases "recoveryStreak (c_meta c) < RECOVERY_STREAK_MAX")
    case True
    note b = o(2) [OF True]
    have "recoveryStreak (c_meta ?d) \<le> RECOVERY_STREAK_MAX" using o(1) True by simp
    from Cons.IH [OF conjunct1 [OF b] this l(2)] show ?thesis unfolding a o(1) using b True by auto
  next
    case False
    then have d: "dormant ?d" "mints ?d = mints c" "has_waiting (c_db ?d)" "in_kind (last (c_incidents ?d)) = RecoveryExhausted"
      using o(3) by simp_all
    obtain t where t: "after cf ls ?d = ?d\<lparr>c_alarm := t\<rparr>" using losses_of_dormant [OF d(1)] by blast
    have s: "dormant (?d\<lparr>c_alarm := t\<rparr>)" using d(1) by (simp add: dormant_def)
    show ?thesis
      unfolding a t spent_def using d o(1) s False Cons.prems(2) by simp
  qed
qed

section \<open>Only a handshake gives the budget back\<close>

definition streak_grows :: "computer \<Rightarrow> computer \<Rightarrow> bool" where
  "streak_grows c c' \<longleftrightarrow> recoveryStreak (c_meta c) \<le> recoveryStreak (c_meta c')"

lemma streak_refl [simp]: "streak_grows c c"
  by (simp add: streak_grows_def)

lemma streak_trans: "streak_grows a b \<Longrightarrow> streak_grows b c \<Longrightarrow> streak_grows a c"
  by (simp add: streak_grows_def)

lemma streak_same: "recoveryStreak (c_meta c') = recoveryStreak (c_meta c) \<Longrightarrow> streak_grows c c'"
  by (simp add: streak_grows_def)

lemma streak_quiet: "quiet c c' \<Longrightarrow> streak_grows c c'"
  by (simp add: quiet_def streak_grows_def)

lemma streak_wakeInner: "streak_grows c (snd (wakeInner cf now ans c))"
  by (auto simp: streak_grows_def wakeInner_def Let_def wake_mint_fields frame_simps verify_eq
      split: prod.split awake_verdict.split)

lemma streak_wake: "streak_grows c (snd (wake cf now ans cid c))"
  using streak_wakeInner [of "setComputerId cid c" cf now ans] by (simp add: wake_def Let_def streak_grows_def frame_simps)

lemma streak_background: "streak_grows c (wakeInBackground cf now ans c)"
  by (simp add: wakeInBackground_def Let_def streak_wake)

lemma streak_watchdog: "streak_grows c (alarm_one cf now ans forced WakingD c)"
  by (auto simp: alarm_one_def onWakingDeadline_def streak_grows_def frame_simps failWake_fields split: option.split)

interpretation sg: lifecycle_order streak_grows
proof
  show "streak_grows a b \<Longrightarrow> streak_grows b c \<Longrightarrow> streak_grows a c" for a b c by (rule streak_trans)
qed (simp_all add: streak_background streak_watchdog,
     simp_all add: streak_grows_def small_def land_def falsy_def frame_simps finalizeCold_fields)

lemma streak_answer: "streak_grows c (snd (wake_answer cf now ans c))"
proof -
  have p: "recoveryStreak (c_meta (snd (probeInstance ans x))) = recoveryStreak (c_meta x)" for x by (simp add: frame_simps)
  have w: "recoveryStreak (c_meta c) \<le> recoveryStreak (c_meta (snd (wakeInner cf now ans (recoverCold cf now ans k (snd (probeInstance ans c))))))" for k
    using streak_wakeInner [of "recoverCold cf now ans k (snd (probeInstance ans c))" cf now ans]
    by (simp add: streak_grows_def frame_simps)
  show ?thesis
    using w by (auto simp: streak_grows_def wake_answer_def wake_complete_def wake_refuse_def Let_def case_prod_unfold
      frame_simps failWake_fields split: option.split wake_outcome.split)
qed

fun is_hello :: "computer_event \<Rightarrow> bool" where
  "is_hello (CeSupervisor (Hello i ep tok proto) s) \<longleftrightarrow> True"
| "is_hello _ \<longleftrightarrow> False"

lemma streak_message:
  assumes "\<not> is_hello (CeSupervisor msg s)"
  shows "streak_grows c (onSupervisorMessage cf now ans msg s c)"
  by (rule streak_same, use assms in \<open>cases msg; simp add: onSupervisorMessage_def onHeadAdvance_def current_message_def
      onSnapshotWritten_def broadcastRunStatus_def Let_def frame_simps finalizeCold_fields split: prod.split option.split\<close>)

lemma streak_enqueue: "streak_grows c (snd (enqueueRun cf now ans cid rq c))"
proof -
  have d: "streak_grows a (snd (dispatch_if_current cf now ans a))" for a
    by (rule streak_quiet) (rule quiet_dispatch)
  have a: "streak_grows a (persist (armAlarm (armLiveness cf now a)))" for a
    by (rule streak_same) (simp_all add: frame_simps)
  have e: "streak_grows c (emits cf evs (persist ((setComputerId cid c)\<lparr>c_db := db\<rparr>)))" for evs db
    by (rule streak_same) (simp_all add: frame_simps)
  have i: "streak_grows c (setComputerId cid c)" by (rule streak_same) (simp_all add: frame_simps)
  show ?thesis
    using i streak_trans [OF e streak_trans [OF d streak_background]] streak_trans [OF e streak_trans [OF d a]]
    by (auto simp: enqueueRun_def Let_def case_prod_unfold split: option.split)
qed

lemma streak_interface:
  "streak_grows c (supervisor_close cf now s c)" "streak_grows c (snd (keep_run now run obs c))"
  "streak_grows c (snd (revert_run now run obs c))" "streak_grows c (setLayout i l c)"
  "streak_grows c (snd (describe now cid c))" "streak_grows c (initFromManifest i h c)"
proof -
  have q: "c_meta (fold sendControl ms x) = c_meta x" for ms x using quiet_sends [of x ms] by (simp add: quiet_def)
  show "streak_grows c (supervisor_close cf now s c)" "streak_grows c (snd (keep_run now run obs c))"
    "streak_grows c (snd (revert_run now run obs c))" "streak_grows c (setLayout i l c)"
    "streak_grows c (snd (describe now cid c))" "streak_grows c (initFromManifest i h c)"
    by (simp_all add: streak_grows_def supervisor_close_def onSupervisorLost_def keep_run_def revert_run_def setLayout_def
        describe_def initFromManifest_def Let_def case_prod_unfold frame_simps q)
qed

lemma streak_step:
  assumes "computer_ok c" "\<not> is_hello e"
  shows "streak_grows c (computer_step cf e now ans c)"
proof (cases e)
  case CeEvict
  have "core a = core b \<Longrightarrow> recoveryStreak a = recoveryStreak b" for a b by (cases a; cases b) (simp add: core_def)
  from this [OF evict_ok(3) [OF assms(1)]] CeEvict show ?thesis by (simp add: streak_grows_def)
next
  case (CeSupervisor msg s)
  then show ?thesis using streak_message assms(2) by simp
qed (simp_all add: streak_wake streak_answer streak_enqueue streak_interface enqueueWrite_def sg.R_alarm sg.R_healthCheck
      sg.R_sleepNow sg.R_deepSleepNow streak_quiet quiet_stop quiet_snapshot quiet_dismiss quiet_client quiet_flush)

lemma streak_run:
  assumes "\<not> cf_unbacked cf" "computer_ok c" "list_all (\<lambda>x. \<not> is_hello (fst x)) es"
  shows "streak_grows c (computer_run cf es c)"
  using assms(2,3)
proof (induction es arbitrary: c)
  case (Cons x es)
  obtain e now ans where x: "x = (e, now, ans)" by (rule prod_cases3)
  then have e: "\<not> is_hello e" "list_all (\<lambda>x. \<not> is_hello (fst x)) es" using Cons.prems(2) by simp_all
  show ?case
    using streak_trans [OF streak_step [OF Cons.prems(1) e(1)] Cons.IH [OF step_ok(1) [OF assms(1) Cons.prems(1)] e(2)]]
    by (simp add: x)
qed simp

section \<open>Recovery gives up\<close>

text \<open>C11: Recovery gives up.  Only a handshake gives the budget of recoveries back: over every sequence of
  events without a hello, evictions, wakes and requests included, the count of recoveries never goes down.
  Take a reachable computer whose wake of a new machine is in flight, with a run in the queue, and lose its
  machine again and again: each time the substrate answers the wake with a machine, and the alarm that comes
  after the patience of the lifecycle finds the machine gone, or there without a supervisor.  While the
  budget lasts, each loss wakes the computer again, with one more machine asked for; the losses together ask
  for no more machines than were left of the budget; then the computer is COLD without a machine, with
  \<open>recovery_exhausted\<close> as its last incident and its run still in the queue, and stays COLD without asking for
  a machine under every later sequence of events, until a client asks for a wake or a run.\<close>

theorem recovery_gives_up:
  assumes "\<not> cf_unbacked cf" "list_all (\<lambda>x. \<not> is_hello (fst x)) gs"
    "booting (reached cf es)" "recoveryStreak (c_meta (reached cf es)) \<le> RECOVERY_STREAK_MAX"
    "list_all (is_loss cf) ls" "list_all (\<lambda>x. \<not> asks_for_machine (fst x)) fs"
  shows "recoveryStreak (c_meta (reached cf es)) \<le> recoveryStreak (c_meta (reached cf (es @ gs)))
    \<and> (let c = reached cf es; s = recoveryStreak (c_meta c); c1 = after cf ls c; c2 = computer_run cf fs c1 in
       recoveryStreak (c_meta c1) = min (s + length ls) (Suc RECOVERY_STREAK_MAX)
       \<and> length (mints c1) = length (mints c) + min (length ls) (RECOVERY_STREAK_MAX - s)
       \<and> hasQueuedRuns (c_db c1)
       \<and> (if s + length ls \<le> RECOVERY_STREAK_MAX then state (c_meta c1) = StWaking \<and> c_flight c1 \<noteq> None
          else in_kind (last (c_incidents c1)) = RecoveryExhausted \<and> state (c_meta c2) = StCold
            \<and> handle_of (c_meta c2) = None \<and> c_flight c2 = None \<and> mints c2 = mints c1))"
proof -
  let ?c = "reached cf es" and ?c1 = "after cf ls (reached cf es)"
  have g: "recoveryStreak (c_meta ?c) \<le> recoveryStreak (c_meta (reached cf (es @ gs)))"
    using streak_run [OF assms(1) reached_ok [OF assms(1)] assms(2)] by (simp add: streak_grows_def run_append)
  note l = losses [OF assms(1,3-5)]
  have d: "dormant (computer_run cf fs ?c1) \<and> mints (computer_run cf fs ?c1) = mints ?c1" if "spent ?c1"
    using dormant_run [OF assms(1) run_ok(1) [OF assms(1) reached_ok [OF assms(1)]] _ assms(6)] that
    by (simp add: spent_def)
  show ?thesis unfolding Let_def using g l d by (auto simp: booting_def spent_def dormant_def has_waiting_def split: if_splits)
qed

definition demo_queue :: "(computer_event \<times> time \<times> answers) list" where
  "demo_queue = [(CeEnqueue (Some ''c'') sample_request, 1000, demo_answers)]"

definition demo_loss :: loss where
  "demo_loss = (2000, demo_answers, 90000, \<lambda>_. demo_answers\<lparr>an_probe := Gone\<rparr>)"

lemma demo_booting:
  "booting (reached demo_config demo_queue)" "recoveryStreak (c_meta (reached demo_config demo_queue)) = 0"
  "length (mints (reached demo_config demo_queue)) = 1" "list_all (is_loss demo_config) (replicate 5 demo_loss)"
  by code_simp+

theorem recovery_gives_up_witness:
  "length (mints (after demo_config (replicate 5 demo_loss) (reached demo_config demo_queue))) = 4
   \<and> state (c_meta (computer_run demo_config [(CeEvict, 95000, demo_answers), (CeHealth, 96000, demo_answers)]
       (after demo_config (replicate 5 demo_loss) (reached demo_config demo_queue)))) = StCold"
  using recovery_gives_up [of demo_config "[]" demo_queue "replicate 5 demo_loss"
      "[(CeEvict, 95000, demo_answers), (CeHealth, 96000, demo_answers)]"] demo_booting
  by (simp add: Let_def RECOVERY_STREAK_MAX_def demo_config_def [THEN arg_cong [of _ _ cf_unbacked]])

end
