(* ===== verification/Spec2Isabelle.thy ===== *)
theory Spec2Isabelle
  imports Runs Frame Journal RunTable ComputerProps Validate Attach Events WmTree Credentials Store AuthConfig Api Gateway
    Grid Predictor SignIn Notices Brief Links BoxDriver Recovery
begin

text \<open>
  \<^bold>\<open>The program.\<close>
  Mari Cloud keeps a fleet of personal computers in the cloud.  A computer is a filesystem that is a manifest of
  content-addressed chunks in an object store; while it is AWAKE a machine runs a supervisor on a copy of it, and
  between times there is no machine.  The TypeScript of the repository is three packages:

  \<^item> \<^verbatim>\<open>packages/control-plane\<close>: a Worker (or a Node server) with a REST API and the request pipeline before it, and
    one Durable Object per computer (\<^verbatim>\<open>computer-do.ts\<close>) that is the only writer of that computer's state: its
    epoch and fencing token, its head, its runs, its journal, its alarm.  One more object per user fans out live
    events (\<^verbatim>\<open>events-do.ts\<close>).  SQL tables hold the fleet, the vault, the usage ledger and the users.
  \<^item> \<^verbatim>\<open>packages/shared\<close>: the wire between supervisor, object and browser: messages, frames, validation.
  \<^item> \<^verbatim>\<open>packages/web\<close>: the browser: a tiling window manager, terminals attached to an object, live events.

  A request comes through the pipeline (theory \<open>Gateway\<close>) to the REST routes (\<open>Api\<close>), which check sessions
  (\<open>AuthConfig\<close>), the fleet tables (\<open>Fleet\<close>) and the allowance (\<open>Quota\<close>), read filesystems from the store
  (\<open>Store\<close>, \<open>Diff\<close>) and call the object of a computer (\<open>Computer\<close> and what it imports).  The object wakes a
  machine, whose supervisor dials back with the token it was given (\<open>Credentials\<close> mints what it may read and
  write), reports runs and streams their output, which the object journals and sends on to attached terminals
  (\<open>Attach\<close>); events go through the hub to every open tab (\<open>Events\<close>), which lays its panes out in \<open>WmTree\<close>.

  \<^bold>\<open>Conventions.\<close>
  A class with mutable fields is a record and a method takes it and returns it changed; an interface is a record and a
  tagged union a datatype, constructor by constructor; \<^verbatim>\<open>null\<close> and \<^verbatim>\<open>undefined\<close> are \<open>None\<close>; what a function throws
  is the left side of a sum, with an error datatype for the exception classes (texts of messages are left out).
  A \<^verbatim>\<open>Map\<close> is an association list in insertion order, as iteration order matters to the code; a table of SQL is a list
  of rows.  Bytes are 8-bit words; sizes that the code only counts are \<open>nat\<close>, times and quantities that can go below zero
  are \<open>int\<close>, and numbers parsed from text are rationals with the infinities and NaN beside them (\<open>JsNumber\<close>).
  Time and fresh ids are arguments.  Everything a handler sends or calls is part of its result.
  Functions that are not the repository's are arguments: CBOR and zstd decoders, BLAKE3, SHA-256, HMAC, the URL
  parser, the answers of substrates, and, for the REST layer, the answers of Durable Objects.

  \<^bold>\<open>The theories.\<close>

  \<^item> \<open>Prelude\<close>: JavaScript's string and map operations; the locale \<open>insertion_map\<close> and its interpretation.
  \<^item> \<open>Runs\<close> (\<^verbatim>\<open>control-plane/src/runs.ts\<close>): statuses and exits, \<^verbatim>\<open>resolveRunCwd\<close>, \<^verbatim>\<open>normalizeWritePath\<close>,
    \<^verbatim>\<open>shellQuote\<close>, \<^verbatim>\<open>writeRunArgv\<close>.  A POSIX shell reader is defined beside them, and quoting is proved inverse to it.
  \<^item> \<open>Frame\<close> (\<^verbatim>\<open>shared/src/frame.ts\<close>): length-prefixed frames; the reader gives back the frames in any chunking.
  \<^item> \<open>Messages\<close>, \<open>Validate\<close> (\<^verbatim>\<open>shared/src/messages.ts\<close>, \<^verbatim>\<open>attach.ts\<close>, \<^verbatim>\<open>validate.ts\<close>): the vocabulary of the wire and the
    validation of decoded values against it, equal to a reader of the typed value, the first error included.
  \<^item> \<open>Journal\<close> (\<^verbatim>\<open>computer-do.ts\<close>: ingest, overlap, flush, replay): the journal refines a log of bytes at offsets; what is
    acknowledged is durable; an honest stream is journalled byte for byte.
  \<^item> \<open>RunTable\<close> (\<^verbatim>\<open>computer-do.ts\<close>: the tables \<^verbatim>\<open>runs\<close>, \<^verbatim>\<open>attention\<close>, queueing, dispatch, stop, badges, review): every
    history of operations keeps the run invariant; a run goes to a machine once and finishes once.
  \<^item> \<open>ComputerState\<close>, \<open>Lifecycle\<close>, \<open>Computer\<close>, \<open>ComputerInv\<close>, \<open>ComputerProps\<close> (\<^verbatim>\<open>computer-do.ts\<close>: the metadata record, deadlines and
    the alarm, wake, sleep, recovery, the gate for supervisor messages, storage and eviction of the object).  The
    step relation runs over every operation and every eviction; the invariant gives generations that only grow, the
    ownership of the head and the end of waking.  What sockets of a lost generation can still do is characterised
    message by message: they move nothing but the head, and that by naming the current epoch in the compare-and-set.
  \<^item> \<open>Recovery\<close> (\<^verbatim>\<open>#recoverInner\<close> of \<^verbatim>\<open>computer-do.ts\<close>): machines lost again and again, as rounds of an answered wake and
    a liveness alarm: the budget bounds the machines asked for, only a handshake gives it back, and a computer that has
    spent it stays COLD until a client asks.
  \<^item> \<open>Attach\<close> (\<^verbatim>\<open>web/src/ws/attach.ts\<close>): the terminal client; frames are applied once, typed bytes are kept in order
    and to a bound across reconnects.
  \<^item> \<open>Events\<close> (\<^verbatim>\<open>computer-do.ts\<close> \<^verbatim>\<open>#emit\<close>, \<^verbatim>\<open>events-do.ts\<close>, \<^verbatim>\<open>web/src/events\<close>, \<^verbatim>\<open>web/src/runs\<close>): from publication over the hub
    to the reducer and the run list of a tab.
  \<^item> \<open>WmTree\<close> (\<^verbatim>\<open>web/src/wm\<close>, \<^verbatim>\<open>web/src/store/ui.ts\<close>): the layout tree, its geometry, its storage form, the store of layouts
    by computer and workspace.
  \<^item> \<open>Credentials\<close> (\<^verbatim>\<open>r2-credentials.ts\<close>): namespaces of tenants and the credentials minted for one computer.
  \<^item> \<open>Store\<close> (\<^verbatim>\<open>manifest-store.ts\<close>): keys, manifests, chunk bodies, listing and reading a file, and the copy of a manifest
    into an account's namespace as the sequence of writes it makes, which may be cut short after any of them.
  \<^item> \<open>Diff\<close> (\<^verbatim>\<open>diff.ts\<close>, \<^verbatim>\<open>web/src/diff/model.ts\<close>): the difference of two manifests and what a review shows of it.
  \<^item> \<open>AuthConfig\<close> (\<^verbatim>\<open>auth.ts\<close>): when an environment is production, what configuration it needs, and the passkey ceremonies.
  \<^item> \<open>Quota\<close> (\<^verbatim>\<open>limits.ts\<close>, \<^verbatim>\<open>usage.ts\<close>, \<^verbatim>\<open>pricing.ts\<close>): UTC months, splitting a stretch of time over them, the ledgers and the
    caps; the locale \<open>ledger\<close> is interpreted on both ledgers.
  \<^item> \<open>Fleet\<close>, \<open>Api\<close> (\<^verbatim>\<open>db/fleet.ts\<close>, \<^verbatim>\<open>app.ts\<close>): the tables and the routes over them, one \<open>request\<close> constructor per route.
  \<^item> \<open>Gateway\<close> (\<^verbatim>\<open>handler.ts\<close>, \<^verbatim>\<open>host.ts\<close>, \<^verbatim>\<open>preview.ts\<close>): sockets and preview hosts, and the capabilities that open them.
  \<^item> \<open>Grid\<close> (\<^verbatim>\<open>control-plane/src/grid.ts\<close>): the terminal emulator behind the snapshot of a run; its grid keeps its shape,
    and its snapshots are accepted by the validation of the wire as long as colour parameters are in range.
  \<^item> \<open>Predictor\<close> (\<^verbatim>\<open>web/src/terminal/predictor.ts\<close>): local echo; what the server sends decides the row that is left.
  \<^item> \<open>SignIn\<close> (\<^verbatim>\<open>web/src/auth/machine.ts\<close>, \<^verbatim>\<open>gate.ts\<close>, \<^verbatim>\<open>webauthn.ts\<close>): the gate before the app and its ceremonies.
  \<^item> \<open>Notices\<close> (\<^verbatim>\<open>web/src/lifecycle\<close>, \<open>wakeComputer\<close> of \<^verbatim>\<open>web/src/api/client.ts\<close>): waking on demand with its retries,
    and the incidents still to be shown.
  \<^item> \<open>Brief\<close> (\<^verbatim>\<open>web/src/runs/command.ts\<close>): a typed line to an argv; a line quoted by \<open>shellQuote\<close> is read back.
  \<^item> \<open>Links\<close> (\<^verbatim>\<open>web/src/preview/url.ts\<close>): the client's preview hosts against the proxy's reading of them.
  \<^item> \<open>BoxShell\<close> (\<^verbatim>\<open>control-plane/src/substrates/box.ts\<close>): the shell text the driver of hosted boxes sends; a POSIX shell reads
    the argv, the environment and the input back from it.
  \<^item> \<open>BoxDriver\<close> (the same file, \<open>BoxProvider\<close>): its operations over any service, clock and wait; a success is what the
    service has confirmed, a failed start is stopped, and every call returns when the clock does not go back, waits
    last and the bodies of answers end; nothing in the driver sees to the last of these.
\<close>

text \<open>
  \<^bold>\<open>Loops, bounds and fuel.\<close>
  Most loops are structural recursions; the two that wait for a box are partial functions, whose return is proved.  The others: the frame reader drains its buffer as long as a whole frame is in it
  (each round removes at least the four bytes of a length); the batches in which chunks are copied (\<open>copy_batches\<close>, 32 at
  a time) and the parts of a quoted text (\<open>split_from\<close>) recurse on the list that is left; the search for the year of a
  day goes up one year at a time from a year that does not start after it (\<open>year_up\<close>); percent decoding and decimal
  digits terminate by a measure.  The splitting of a stretch of time over months is \<open>while_option\<close>, and that it
  returns is a property of its own.  No definition takes fuel.

  \<^bold>\<open>What the groups of lemmas show.\<close>
  Each component opens with its state and operations in the order of the source, then small facts that rewrite an operation
  on a record field (collections \<open>frame_simps\<close> and the like), then the invariant and its preservation operation by operation,
  then the properties, each a few steps over these.  Properties over histories quantify over lists of events of the step
  function or over an inductive step relation, and evictions of an object (all memory lost, storage kept) may come
  anywhere.  Examples at the end of a theory evaluate the definitions on concrete inputs.

  \<^bold>\<open>Not modelled, and why.\<close>

  \<^item> Interleavings inside one handler of a Durable Object, other than the wake in flight (which is split at its one
    await on a substrate): handlers run to completion between storage operations by the platform's input gates;
    two concurrent recoveries, and a handler that a storage call throws out of half way, are left out.
  \<^item> The HTTP proxy inside the object (\<^verbatim>\<open>#proxyToSupervisor\<close>), the publication of fleet state to SQL beyond its value, and the
    environment handed to a machine: they forward data that the model does not look into.
  \<^item> Substrate drivers other than that of boxes (\<^verbatim>\<open>substrates\<close>), the Node host (\<^verbatim>\<open>node\<close>), deployment probes and end-to-end suites: they are made of
    calls to Docker, cloud services, sockets and files; the object sees their answers, and these are arguments.
  \<^item> The terminal emulation in the browser (a third-party package): \<open>Predictor\<close> sees its row as the bytes it is given.
    The grid an attached terminal starts from is empty; the journal replayed after it carries the content.
  \<^item> React components, fetch wrappers, WebAuthn in the browser, Better Auth, CBOR: glue over libraries.
  \<^item> The texts of errors and log lines.  \<^verbatim>\<open>JSON.parse\<close> and decoders from bytes to values: a value that is decoded is
    an argument.  Rounding of doubles: a parsed number is the exact rational.  Strings hold code units below 256.
  \<^item> The Rust crates (\<^verbatim>\<open>crates\<close>): the supervisor is a peer that may send any message at any time.
\<close>

end
